(* ===== verification/Prelude.thy ===== *)
theory Prelude
  imports Main "HOL-Library.Word" "HOL-Library.Signed_Division"
begin

text \<open>
  Shared vocabulary of the development: the machine integers of the 32-bit target, the
  byte-addressed memory every pointer of the kernel points into, little-endian loads and
  stores of 8, 16 and 32 bits, word alignment, and the rewrite rules that tell apart
  accesses to different addresses.

  The kernel is built with \<open>-m32 -O0\<close>: \<open>int\<close>, \<open>long\<close>, enumerations and pointers are
  32 bits wide, signed arithmetic wraps at run time, and structures are laid out on
  four-byte boundaries.  The page at address 0 is mapped writable
  (\<open>kernel_base\<close> is 0 in \<open>source/kernel/kernel.lds\<close> and \<open>create_kernel_table\<close> maps
  it), so an access through a null pointer does not fault: it reads or writes the bytes
  at address 0.  Hence memory is a total function.
\<close>

unbundle bit_operations_syntax

section \<open>Machine integers\<close>

type_synonym u8 = "8 word"
type_synonym u16 = "16 word"
type_synonym u32 = "32 word"

text \<open>A C \<open>int\<close> is a 32-bit word read as two's complement by \<open>sint\<close>.\<close>

type_synonym c_int = "32 word"

text \<open>C division and remainder on \<open>int\<close> truncate towards zero.\<close>

definition c_div :: "c_int \<Rightarrow> c_int \<Rightarrow> c_int" where
  "c_div a b = word_of_int (sint a sdiv sint b)"

definition c_mod :: "c_int \<Rightarrow> c_int \<Rightarrow> c_int" where
  "c_mod a b = word_of_int (sint a smod sint b)"

text \<open>The x86 shift instructions use the low five bits of the count.\<close>

definition c_shl :: "u32 \<Rightarrow> u32 \<Rightarrow> u32" where
  "c_shl x n = push_bit (unat (n AND 31)) x"

lemma unat_of_nat_word: "n < 2 ^ LENGTH('a) \<Longrightarrow> unat (of_nat n :: 'a::len word) = n"
  by (simp add: unsigned_of_nat take_bit_nat_eq_self)

lemma sint_of_nat: "n < 2 ^ 31 \<Longrightarrow> sint (of_nat n :: c_int) = int n"
  by (simp add: signed_of_nat signed_take_bit_int_eq_self)

lemma sint_nonneg: "0 \<le> sint w \<Longrightarrow> sint (w :: c_int) = int (unat w)"
proof -
  assume "0 \<le> sint w"
  moreover have "sint w < 2 ^ 31" using sint_less [of w] by simp
  moreover have "uint (word_of_int (sint w) :: c_int) = sint w mod 2 ^ 32"
    by (simp only: uint_word_of_int) simp
  ultimately show ?thesis by simp
qed

lemma sint_word_of_int_id:
  "- (2 ^ 31) \<le> k \<Longrightarrow> k < 2 ^ 31 \<Longrightarrow> sint (word_of_int k :: c_int) = k"
  by (simp add: signed_of_int signed_take_bit_int_eq_self)

lemma uint_word_of_int_id: "0 \<le> k \<Longrightarrow> k < 2 ^ 32 \<Longrightarrow> uint (word_of_int k :: u32) = k"
  by (simp only: uint_word_of_int) simp

lemma sint_uint_small: "uint w < 2 ^ 31 \<Longrightarrow> sint (w :: c_int) = uint w"
  using sint_word_of_int_id [of "uint w"] uint_ge_0 [of w] by simp

lemma sint_plus_small:
  assumes "- (2 ^ 31) \<le> sint a + sint b" "sint a + sint b < 2 ^ 31"
  shows "sint (a + b :: c_int) = sint a + sint b"
proof -
  have "a + b = word_of_int (sint a + sint b)" by simp
  then show ?thesis using sint_word_of_int_id [OF assms] by simp
qed

subsection \<open>Low masks\<close>

text \<open>The masks the C code writes as hexadecimal literals, bit by bit.\<close>

lemma bit_mask_word:
  "v = mask k \<Longrightarrow> k \<le> LENGTH('a) \<Longrightarrow> bit (v :: 'a::len word) n \<longleftrightarrow> n < k"
  by (auto simp: bit_simps)

lemma bit_masks32:
  fixes n :: nat
  shows "bit (0xF :: u32) n \<longleftrightarrow> n < 4"
    "bit (0xFF :: u32) n \<longleftrightarrow> n < 8"
    "bit (0xFFF :: u32) n \<longleftrightarrow> n < 12"
    "bit (0xFFFF :: u32) n \<longleftrightarrow> n < 16"
    "bit (0xFFFFF :: u32) n \<longleftrightarrow> n < 20"
    "bit (0x3FF :: u32) n \<longleftrightarrow> n < 10"
  by (rule bit_mask_word; simp add: mask_eq_exp_minus_1)+

lemma bit_masks16:
  fixes n :: nat
  shows "bit (0xF :: u16) n \<longleftrightarrow> n < 4"
    "bit (0xFF :: u16) n \<longleftrightarrow> n < 8"
    "bit (0xFFF :: u16) n \<longleftrightarrow> n < 12"
    "bit (0xFFFF :: u16) n \<longleftrightarrow> n < 16"
  by (rule bit_mask_word; simp add: mask_eq_exp_minus_1)+

lemma bit_masks8:
  fixes n :: nat
  shows "bit (0xF :: u8) n \<longleftrightarrow> n < 4"
    "bit (0xFF :: u8) n \<longleftrightarrow> n < 8"
  by (rule bit_mask_word; simp add: mask_eq_exp_minus_1)+

lemma bit_masks_int:
  fixes n :: nat
  shows "bit (0xF :: int) n \<longleftrightarrow> n < 4"
    "bit (0xFF :: int) n \<longleftrightarrow> n < 8"
    "bit (0xFFF :: int) n \<longleftrightarrow> n < 12"
    "bit (0xFFFF :: int) n \<longleftrightarrow> n < 16"
    "bit (0xFFFFF :: int) n \<longleftrightarrow> n < 20"
    "bit (0x3FF :: int) n \<longleftrightarrow> n < 10"
  using bit_mask_iff [where ?'a = int, of 4 n] bit_mask_iff [where ?'a = int, of 8 n]
    bit_mask_iff [where ?'a = int, of 12 n] bit_mask_iff [where ?'a = int, of 16 n]
    bit_mask_iff [where ?'a = int, of 20 n] bit_mask_iff [where ?'a = int, of 10 n]
  by (simp_all add: mask_eq_exp_minus_1)

lemmas bit_masks = bit_masks32 bit_masks16 bit_masks8 bit_masks_int

section \<open>Memory\<close>

type_synonym mem = "u32 \<Rightarrow> u8"

definition ld16 :: "mem \<Rightarrow> u32 \<Rightarrow> u16" where
  "ld16 m a = ucast (m a) OR push_bit 8 (ucast (m (a + 1)))"

definition st16 :: "mem \<Rightarrow> u32 \<Rightarrow> u16 \<Rightarrow> mem" where
  "st16 m a v = m(a := ucast v, a + 1 := ucast (drop_bit 8 v))"

definition ld32 :: "mem \<Rightarrow> u32 \<Rightarrow> u32" where
  "ld32 m a = ucast (m a) OR push_bit 8 (ucast (m (a + 1)))
     OR push_bit 16 (ucast (m (a + 2))) OR push_bit 24 (ucast (m (a + 3)))"

definition st32 :: "mem \<Rightarrow> u32 \<Rightarrow> u32 \<Rightarrow> mem" where
  "st32 m a v = m(a := ucast v, a + 1 := ucast (drop_bit 8 v),
     a + 2 := ucast (drop_bit 16 v), a + 3 := ucast (drop_bit 24 v))"

definition aligned4 :: "u32 \<Rightarrow> bool" where
  "aligned4 a \<longleftrightarrow> 4 dvd unat a"

text \<open>The bytes of the word at \<open>a\<close>.\<close>

definition word_bytes :: "u32 \<Rightarrow> u32 set" where
  "word_bytes a = {a, a + 1, a + 2, a + 3}"

named_theorems mem_simps
named_theorems align_simps

subsection \<open>Round trips\<close>

lemma ld16_st16 [mem_simps]: "ld16 (st16 m a v) a = v"
proof -
  have "ucast (ucast v :: u8) OR push_bit 8 (ucast (ucast (drop_bit 8 v) :: u8)) = v"
    by (rule bit_word_eqI) (auto simp: bit_simps)
  then show ?thesis by (simp add: ld16_def st16_def)
qed

lemma bytes_of_word32:
  "ucast (ucast v :: u8) OR push_bit 8 (ucast (ucast (drop_bit 8 v) :: u8))
     OR push_bit 16 (ucast (ucast (drop_bit 16 v) :: u8))
     OR push_bit 24 (ucast (ucast (drop_bit 24 v) :: u8)) = (v :: u32)"
proof (rule bit_word_eqI)
  fix n assume "n < LENGTH(32)"
  then consider "n < 8" | "8 \<le> n" "n < 16" | "16 \<le> n" "n < 24" | "24 \<le> n" "n < 32"
    by fastforce
  then show "bit (ucast (ucast v :: u8) OR push_bit 8 (ucast (ucast (drop_bit 8 v) :: u8))
     OR push_bit 16 (ucast (ucast (drop_bit 16 v) :: u8))
     OR push_bit 24 (ucast (ucast (drop_bit 24 v) :: u8)) :: u32) n = bit v n"
    by cases (auto simp: bit_simps)
qed

lemma ld32_st32 [mem_simps]: "ld32 (st32 m a v) a = v"
  by (simp add: ld32_def st32_def bytes_of_word32)

lemma st32_other_byte [mem_simps]: "x \<notin> word_bytes a \<Longrightarrow> st32 m a v x = m x"
  by (simp add: st32_def word_bytes_def)

lemma ld32_cong: "(\<And>x. x \<in> word_bytes a \<Longrightarrow> m x = m' x) \<Longrightarrow> ld32 m a = ld32 m' a"
  by (simp add: ld32_def word_bytes_def)

subsection \<open>Alignment and disjoint words\<close>

lemma aligned4_add [align_simps]: "aligned4 a \<Longrightarrow> aligned4 b \<Longrightarrow> aligned4 (a + b)"
  by (simp add: aligned4_def unat_word_ariths dvd_mod_iff)

lemma aligned4_numeral [align_simps]:
  "aligned4 (numeral k) \<longleftrightarrow> 4 dvd unat (numeral k :: u32)"
  by (simp add: aligned4_def)

lemma aligned4_0 [align_simps]: "aligned4 0"
  by (simp add: aligned4_def)

lemma aligned4_plus_lt4:
  assumes "aligned4 a" "k < 4"
  shows "unat (a + of_nat k) = unat a + k"
proof -
  from assms(1) obtain q where q: "unat a = 4 * q" by (auto simp: aligned4_def)
  have "unat a < 2 ^ 32" using unsigned_less [of a] by simp
  with q have "4 * q + 4 \<le> 2 ^ 32" by simp
  moreover have "unat (of_nat k :: u32) = k"
    using assms(2) by (simp add: unsigned_of_nat take_bit_nat_eq_self)
  ultimately show ?thesis using q assms(2) by (simp add: unat_word_ariths)
qed

lemma word_bytes_aligned:
  assumes "aligned4 a" "x \<in> word_bytes a"
  shows "unat x div 4 = unat a div 4"
proof -
  have "x = a + of_nat 0 \<or> x = a + of_nat 1 \<or> x = a + of_nat 2 \<or> x = a + of_nat 3"
    using assms(2) by (auto simp: word_bytes_def)
  then obtain k where k: "x = a + of_nat k" "k < 4"
    by (elim disjE) (rule that, assumption, simp)+
  from assms(1) have "unat a mod 4 = 0" by (simp add: aligned4_def dvd_eq_mod_eq_0)
  with k assms(1) show ?thesis by (auto simp: aligned4_plus_lt4 div_add1_eq)
qed

lemma aligned_word_bytes_disjoint:
  assumes "aligned4 a" "aligned4 b" "a \<noteq> b"
  shows "word_bytes a \<inter> word_bytes b = {}"
proof -
  have "unat a div 4 \<noteq> unat b div 4"
  proof
    assume eq: "unat a div 4 = unat b div 4"
    have "unat a = 4 * (unat a div 4)" using assms(1) by (simp add: aligned4_def)
    also have "\<dots> = unat b" using assms(2) by (simp add: eq aligned4_def)
    finally have "a = b" by (rule word_eq_iff_unsigned [THEN iffD2])
    with assms(3) show False ..
  qed
  then show ?thesis
    using word_bytes_aligned [OF assms(1)] word_bytes_aligned [OF assms(2)]
    by (intro equals0I) (metis IntE)
qed

lemma ld32_st32_other [mem_simps]:
  assumes "aligned4 a" "aligned4 b" "a \<noteq> b"
  shows "ld32 (st32 m a v) b = ld32 m b"
proof (rule ld32_cong)
  fix x assume "x \<in> word_bytes b"
  with aligned_word_bytes_disjoint [OF assms] have "x \<notin> word_bytes a" by blast
  then show "st32 m a v x = m x" by (rule st32_other_byte)
qed

lemma ld32_upd_other [mem_simps]: "x \<notin> word_bytes b \<Longrightarrow> ld32 (m(x := v)) b = ld32 m b"
  by (rule ld32_cong) auto

subsection \<open>What a sequence of word stores leaves alone\<close>

definition unchanged_outside :: "u32 set \<Rightarrow> mem \<Rightarrow> mem \<Rightarrow> bool" where
  "unchanged_outside C m m' \<longleftrightarrow> (\<forall>x. x \<notin> \<Union> (word_bytes ` C) \<longrightarrow> m' x = m x)"

named_theorems frame_intros

lemma unchanged_refl [frame_intros]: "unchanged_outside C m m"
  by (simp add: unchanged_outside_def)

lemma unchanged_trans:
  "unchanged_outside C m m' \<Longrightarrow> unchanged_outside C m' m'' \<Longrightarrow> unchanged_outside C m m''"
  by (simp add: unchanged_outside_def)

lemma unchanged_mono:
  "unchanged_outside C m m' \<Longrightarrow> C \<subseteq> D \<Longrightarrow> unchanged_outside D m m'"
  unfolding unchanged_outside_def by blast

lemma unchanged_st32 [frame_intros]:
  "unchanged_outside C m m' \<Longrightarrow> a \<in> C \<Longrightarrow> unchanged_outside C m (st32 m' a v)"
  by (simp add: unchanged_outside_def) (metis st32_other_byte)

lemma unchanged_ld32:
  assumes "unchanged_outside C m m'" "\<forall>c\<in>C. aligned4 c" "aligned4 w" "w \<notin> C"
  shows "ld32 m' w = ld32 m w"
proof (rule ld32_cong)
  fix x assume "x \<in> word_bytes w"
  with assms(2-4) have "x \<notin> \<Union> (word_bytes ` C)"
    using aligned_word_bytes_disjoint by blast
  with assms(1) show "m' x = m x" by (simp add: unchanged_outside_def)
qed

section \<open>Searching an interval\<close>

lemma find_upt_first:
  "find P [a..<b] = Some i \<longleftrightarrow> a \<le> i \<and> i < b \<and> P i \<and> (\<forall>j\<in>{a..<i}. \<not> P j)"
proof (induction "b - a" arbitrary: a)
  case (Suc n)
  then have "[a..<b] = a # [Suc a..<b]" by (simp add: upt_conv_Cons)
  with Suc(1) [of "Suc a"] Suc(2) show ?case
    by (auto simp: le_less_Suc_eq Suc_le_eq not_less_eq dest: le_neq_implies_less)
qed auto

section \<open>Tables of eight-byte entries\<close>

definition slot8 :: "u32 \<Rightarrow> nat \<Rightarrow> u32" where
  "slot8 table i = table + of_nat (8 * i)"

lemma slot_bytes_inj:
  assumes "slot8 table i + of_nat j = slot8 table i' + of_nat j'"
    and "i < 8192" "i' < 8192" "j < 8" "j' < 8"
  shows "i = i' \<and> j = j'"
proof -
  have "(of_nat (8 * i + j) :: u32) = of_nat (8 * i' + j')"
    using assms(1) by (simp add: slot8_def add.assoc)
  then have "unat (of_nat (8 * i + j) :: u32) = unat (of_nat (8 * i' + j') :: u32)" by simp
  then have "8 * i + j = 8 * i' + j'"
    using assms(2-5) by (simp only: unsigned_of_nat) (simp add: take_bit_nat_eq_self)
  with assms(4,5) show ?thesis by presburger
qed

end
