(* ===== verification/Klist.thy ===== *)
theory Klist
  imports Prelude
begin

text \<open>
  The intrusive doubly linked list of \<open>source/kernel/tools/klist.c\<close>.  A list structure
  at address \<open>l\<close> holds a head sentinel (at \<open>l\<close>), a tail sentinel (at \<open>l + 8\<close>) and a
  length (at \<open>l + 16\<close>); a node is a pair of pointers, \<open>prev\<close> at offset 0 and \<open>next\<close> at
  offset 4.  The operations are memory transformers, in the order of the assignments of
  the code.  The two search loops are partial functions: \<open>None\<close> is a walk that never
  meets a null pointer.  \<open>dlist m l xs\<close> says that memory \<open>m\<close> holds at \<open>l\<close> a well-formed
  list of the nodes \<open>xs\<close>, in order; the lemmas give the effect of every operation on it.
\<close>

unbundle bit_operations_syntax

section \<open>Nodes and lists in memory\<close>

definition node_prev :: "mem \<Rightarrow> u32 \<Rightarrow> u32" where
  "node_prev m n = ld32 m n"

definition node_next :: "mem \<Rightarrow> u32 \<Rightarrow> u32" where
  "node_next m n = ld32 m (n + 4)"

definition set_prev :: "mem \<Rightarrow> u32 \<Rightarrow> u32 \<Rightarrow> mem" where
  "set_prev m n p = st32 m n p"

definition set_next :: "mem \<Rightarrow> u32 \<Rightarrow> u32 \<Rightarrow> mem" where
  "set_next m n p = st32 m (n + 4) p"

definition l_head :: "u32 \<Rightarrow> u32" where
  "l_head l = l"

definition l_tail :: "u32 \<Rightarrow> u32" where
  "l_tail l = l + 8"

definition list_len :: "mem \<Rightarrow> u32 \<Rightarrow> c_int" where
  "list_len m l = ld32 m (l + 16)"

definition set_len :: "mem \<Rightarrow> u32 \<Rightarrow> c_int \<Rightarrow> mem" where
  "set_len m l v = st32 m (l + 16) v"

section \<open>The operations\<close>

definition klist_init :: "mem \<Rightarrow> u32 \<Rightarrow> mem" where
  "klist_init m list =
    (let m = set_prev m (l_head list) 0;
         m = set_next m (l_head list) (l_tail list);
         m = set_prev m (l_tail list) (l_head list);
         m = set_next m (l_tail list) 0
     in set_len m list 0)"

definition klist_push :: "mem \<Rightarrow> u32 \<Rightarrow> u32 \<Rightarrow> mem" where
  "klist_push m list node =
    (let m = set_prev m node (l_head list);
         m = set_next m node (node_next m (l_head list));
         m = set_prev m (node_next m (l_head list)) node;
         m = set_next m (l_head list) node
     in set_len m list (list_len m list + 1))"

definition klist_append :: "mem \<Rightarrow> u32 \<Rightarrow> u32 \<Rightarrow> mem" where
  "klist_append m list node =
    (let m = set_next m node (l_tail list);
         m = set_prev m node (node_prev m (l_tail list));
         m = set_next m (node_prev m (l_tail list)) node;
         m = set_prev m (l_tail list) node
     in set_len m list (list_len m list + 1))"

definition klist_pop :: "mem \<Rightarrow> u32 \<Rightarrow> u32 \<times> mem" where
  "klist_pop m list =
    (let node = node_next m (l_head list);
         m = set_prev m (node_next m (node_next m (l_head list))) (l_head list);
         m = set_next m (l_head list) (node_next m (node_next m (l_head list)));
         m = set_len m list (list_len m list - 1)
     in (node, m))"

definition klist_unlink :: "mem \<Rightarrow> u32 \<Rightarrow> u32 \<Rightarrow> mem" where
  "klist_unlink m list temp =
    (let pre = node_prev m temp;
         m = set_next m pre (node_next m temp);
         m = set_prev m (node_next m temp) pre
     in set_len m list (list_len m list - 1))"

partial_function (option) klist_remove_loop ::
  "mem \<Rightarrow> u32 \<Rightarrow> u32 \<Rightarrow> u32 \<Rightarrow> (u32 \<times> mem) option" where
  "klist_remove_loop m list remove_node temp =
    (if temp = 0 then Some (0, m)
     else if temp = remove_node then Some (remove_node, klist_unlink m list temp)
     else klist_remove_loop m list remove_node (node_next m temp))"

definition klist_remove :: "mem \<Rightarrow> u32 \<Rightarrow> u32 \<Rightarrow> (u32 \<times> mem) option" where
  "klist_remove m list remove_node =
     klist_remove_loop m list remove_node (node_next m (l_head list))"

definition klist_len :: "mem \<Rightarrow> u32 \<Rightarrow> c_int" where
  "klist_len m list = list_len m list"

definition klist_get_first_node :: "mem \<Rightarrow> u32 \<Rightarrow> u32" where
  "klist_get_first_node m list = node_next m (l_head list)"

definition klist_get_last_node :: "mem \<Rightarrow> u32 \<Rightarrow> u32" where
  "klist_get_last_node m list = node_prev m (l_tail list)"

partial_function (option) klist_find_loop :: "mem \<Rightarrow> u32 \<Rightarrow> u32 \<Rightarrow> u32 option" where
  "klist_find_loop m target_node temp =
    (if temp = 0 then Some 0
     else if temp = target_node then Some temp
     else klist_find_loop m target_node (node_next m temp))"

definition klist_find :: "mem \<Rightarrow> u32 \<Rightarrow> u32 \<Rightarrow> u32 option" where
  "klist_find m list target_node =
     klist_find_loop m target_node (node_next m (l_head list))"

definition klist_empty :: "mem \<Rightarrow> u32 \<Rightarrow> bool" where
  "klist_empty m list \<longleftrightarrow> klist_len m list = 0"

definition klist_node_init :: "mem \<Rightarrow> u32 \<Rightarrow> mem" where
  "klist_node_init m node = set_next (set_prev m node 0) node 0"

definition klist_count :: "mem \<Rightarrow> u32 \<Rightarrow> c_int" where
  "klist_count m list = list_len m list"

definition klist_get_next_node :: "mem \<Rightarrow> u32 \<Rightarrow> u32" where
  "klist_get_next_node m node = node_next m node"

section \<open>Linked sequences of nodes\<close>

text \<open>
  A sequence of nodes is linked under a next map and a previous map when neighbours point
  at each other.  The two pointer surgeries of the code are stated on the maps first.
\<close>

fun linked :: "(u32 \<Rightarrow> u32) \<Rightarrow> (u32 \<Rightarrow> u32) \<Rightarrow> u32 list \<Rightarrow> bool" where
  "linked nx pv (a # b # r) \<longleftrightarrow> nx a = b \<and> pv b = a \<and> linked nx pv (b # r)"
| "linked nx pv _ \<longleftrightarrow> True"

lemma linked_split:
  "linked nx pv (as @ a # b # bs) \<longleftrightarrow>
     linked nx pv (as @ [a]) \<and> nx a = b \<and> pv b = a \<and> linked nx pv (b # bs)"
proof (induction as)
  case (Cons x as)
  then show ?case by (cases as) auto
qed simp

lemma linked_cong:
  assumes "\<And>a. a \<in> set ns \<Longrightarrow> nx a = nx' a" "\<And>a. a \<in> set ns \<Longrightarrow> pv a = pv' a"
  shows "linked nx pv ns = linked nx' pv' ns"
  using assms by (induction nx pv ns rule: linked.induct) auto

lemma linked_upd_next [simp]:
  "a \<notin> set (butlast ns) \<Longrightarrow> linked (nx(a := v)) pv ns = linked nx pv ns"
  by (induction nx pv ns rule: linked.induct) auto

lemma linked_upd_prev [simp]:
  "b \<notin> set (tl ns) \<Longrightarrow> linked nx (pv(b := w)) ns = linked nx pv ns"
  by (induction nx pv ns rule: linked.induct) auto

lemma linked_upd_notin [simp]:
  "a \<notin> set ns \<Longrightarrow> linked (nx(a := v)) pv ns = linked nx pv ns"
  "a \<notin> set ns \<Longrightarrow> linked nx (pv(a := v)) ns = linked nx pv ns"
  by (rule linked_cong; auto)+

lemma linked_insert:
  assumes "linked nx pv (as @ a # b # bs)" "distinct (as @ a # n # b # bs)"
  shows "linked (nx(n := b, a := n)) (pv(n := a, b := n)) (as @ a # n # b # bs)"
proof -
  have "linked nx pv (as @ [a])" "linked nx pv (b # bs)"
    using assms(1) by (simp_all add: linked_split)
  with assms(2) show ?thesis by (auto simp: linked_split)
qed

lemma linked_delete:
  assumes "linked nx pv (as @ a # n # b # bs)" "distinct (as @ a # n # b # bs)"
  shows "linked (nx(a := b)) (pv(b := a)) (as @ a # b # bs)"
proof -
  have "linked nx pv (as @ [a])" "linked nx pv (b # bs)"
    using assms(1) by (simp_all add: linked_split)
  with assms(2) show ?thesis by (auto simp: linked_split)
qed

section \<open>Separated nodes\<close>

text \<open>
  The nodes \<open>S\<close> of a list at \<open>l\<close>, sentinels included, are aligned, not null, and no two of
  their pointer fields, nor the length field of the list, share a word.  Under this
  condition each field write changes exactly the field it names.
\<close>

definition sep_nodes :: "u32 \<Rightarrow> u32 set \<Rightarrow> bool" where
  "sep_nodes l S \<longleftrightarrow> l \<in> S \<and> l + 8 \<in> S \<and>
     (\<forall>a\<in>S. aligned4 a \<and> a \<noteq> 0 \<and> a \<noteq> l + 16 \<and> a + 4 \<noteq> l + 16 \<and> (\<forall>b\<in>S. a + 4 \<noteq> b))"

lemma sep_nodes_subset:
  "sep_nodes l S \<Longrightarrow> T \<subseteq> S \<Longrightarrow> l \<in> T \<Longrightarrow> l + 8 \<in> T \<Longrightarrow> sep_nodes l T"
  by (auto simp: sep_nodes_def)

lemma aligned_offset [align_simps]:
  "aligned4 a \<Longrightarrow> aligned4 (a + 4)" "aligned4 a \<Longrightarrow> aligned4 (a + 8)"
  "aligned4 a \<Longrightarrow> aligned4 (a + 16)"
  by (simp_all add: align_simps)

lemmas node_defs = node_prev_def node_next_def set_prev_def set_next_def
  list_len_def set_len_def

lemma node_upd:
  assumes "sep_nodes l S"
  shows "a \<in> S \<Longrightarrow> b \<in> S \<Longrightarrow> node_prev (set_prev m a v) b = (if b = a then v else node_prev m b)"
    and "a \<in> S \<Longrightarrow> b \<in> S \<Longrightarrow> node_prev (set_next m a v) b = node_prev m b"
    and "a \<in> S \<Longrightarrow> b \<in> S \<Longrightarrow> node_next (set_next m a v) b = (if b = a then v else node_next m b)"
    and "a \<in> S \<Longrightarrow> b \<in> S \<Longrightarrow> node_next (set_prev m a v) b = node_next m b"
    and "b \<in> S \<Longrightarrow> node_prev (set_len m l k) b = node_prev m b"
    and "b \<in> S \<Longrightarrow> node_next (set_len m l k) b = node_next m b"
    and "a \<in> S \<Longrightarrow> list_len (set_prev m a v) l = list_len m l"
    and "a \<in> S \<Longrightarrow> list_len (set_next m a v) l = list_len m l"
    and "list_len (set_len m l k) l = k"
  using assms
  by (auto simp: sep_nodes_def node_defs mem_simps align_simps
      intro!: ld32_st32_other aligned_offset)

section \<open>What memory holds at a list\<close>

definition list_nodes :: "u32 \<Rightarrow> u32 list \<Rightarrow> u32 list" where
  "list_nodes l xs = l # xs @ [l + 8]"

definition dlist :: "mem \<Rightarrow> u32 \<Rightarrow> u32 list \<Rightarrow> bool" where
  "dlist m l xs \<longleftrightarrow> distinct (list_nodes l xs) \<and> sep_nodes l (set (list_nodes l xs)) \<and>
     linked (node_next m) (node_prev m) (list_nodes l xs) \<and>
     node_prev m l = 0 \<and> node_next m (l + 8) = 0 \<and>
     list_len m l = of_nat (length xs)"

text \<open>A node that may be inserted: its words are apart from those of the list.\<close>

definition fresh_node :: "u32 \<Rightarrow> u32 list \<Rightarrow> u32 \<Rightarrow> bool" where
  "fresh_node l xs n \<longleftrightarrow> n \<notin> set (list_nodes l xs) \<and> sep_nodes l (insert n (set (list_nodes l xs)))"

section \<open>The two surgeries on a list in memory\<close>

definition node_before :: "u32 \<Rightarrow> u32 list \<Rightarrow> u32" where
  "node_before l as = last (l # as)"

definition node_after :: "u32 \<Rightarrow> u32 list \<Rightarrow> u32" where
  "node_after l bs = hd (bs @ [l + 8])"

lemma list_nodes_split:
  "list_nodes l (as @ bs) =
     butlast (l # as) @ node_before l as # node_after l bs # tl (bs @ [l + 8])"
proof -
  have "l # as = butlast (l # as) @ [node_before l as]"
    unfolding node_before_def by (rule append_butlast_last_id [symmetric]) simp
  moreover have "bs @ [l + 8] = node_after l bs # tl (bs @ [l + 8])"
    by (simp add: node_after_def)
  moreover have "list_nodes l (as @ bs) = (l # as) @ (bs @ [l + 8])"
    by (simp add: list_nodes_def)
  ultimately show ?thesis by (metis append.assoc append_Cons append_Nil)
qed

lemma node_before_mem: "node_before l as \<in> set (l # as)"
  unfolding node_before_def by (rule last_in_set) simp

lemma node_after_mem: "node_after l bs \<in> set (bs @ [l + 8])"
  unfolding node_after_def by (rule hd_in_set) simp

lemma list_nodes_split_mid:
  "list_nodes l (as @ n # bs) =
     butlast (l # as) @ node_before l as # n # node_after l bs # tl (bs @ [l + 8])"
  using list_nodes_split [of l as "n # bs"]
  by (simp add: node_after_def)

lemma dlist_inserted:
  assumes "dlist m l (as @ bs)" and fresh: "fresh_node l (as @ bs) n"
    and "\<And>b. b \<in> insert n (set (list_nodes l (as @ bs))) \<Longrightarrow>
      node_next m' b = ((node_next m)(n := node_after l bs, node_before l as := n)) b"
    and "\<And>b. b \<in> insert n (set (list_nodes l (as @ bs))) \<Longrightarrow>
      node_prev m' b = ((node_prev m)(n := node_before l as, node_after l bs := n)) b"
    and "list_len m' l = list_len m l + 1"
  shows "dlist m' l (as @ n # bs)"
proof -
  let ?p = "butlast (l # as)" and ?q = "tl (bs @ [l + 8])"
  let ?a = "node_before l as" and ?b = "node_after l bs"
  have ns: "list_nodes l (as @ bs) = ?p @ ?a # ?b # ?q" by (rule list_nodes_split)
  have ns': "list_nodes l (as @ n # bs) = ?p @ ?a # n # ?b # ?q" by (rule list_nodes_split_mid)
  have set': "set (list_nodes l (as @ n # bs)) = insert n (set (list_nodes l (as @ bs)))"
    by (auto simp: ns ns')
  have d: "distinct (?p @ ?a # n # ?b # ?q)"
    using assms(1) fresh unfolding dlist_def fresh_node_def ns by auto
  have "linked (node_next m) (node_prev m) (?p @ ?a # ?b # ?q)"
    using assms(1) by (simp add: dlist_def ns)
  from linked_insert [OF this d] have
    "linked ((node_next m)(n := ?b, ?a := n)) ((node_prev m)(n := ?a, ?b := n))
       (?p @ ?a # n # ?b # ?q)" .
  then have "linked (node_next m') (node_prev m') (list_nodes l (as @ n # bs))"
    unfolding ns' [symmetric]
    by (rule linked_cong [THEN iffD1, rotated -1]) (use assms(3,4) in \<open>simp_all add: set'\<close>)
  moreover have "l \<noteq> ?b" "l + 8 \<noteq> ?a" "l \<noteq> n" "l + 8 \<noteq> n"
    using assms(1) fresh node_before_mem [of l as] node_after_mem [of l bs]
    by (auto simp: dlist_def fresh_node_def list_nodes_def)
  ultimately show ?thesis
    using assms(1,5) fresh d assms(3,4) [of l] assms(3,4) [of "l + 8"]
    by (simp add: dlist_def set' fresh_node_def) (simp add: ns' list_nodes_def)
qed

lemma dlist_deleted:
  assumes "dlist m l (as @ x # bs)"
    and "\<And>b. b \<in> set (list_nodes l (as @ x # bs)) \<Longrightarrow>
      node_next m' b = ((node_next m)(node_before l as := node_after l bs)) b"
    and "\<And>b. b \<in> set (list_nodes l (as @ x # bs)) \<Longrightarrow>
      node_prev m' b = ((node_prev m)(node_after l bs := node_before l as)) b"
    and "list_len m' l = list_len m l - 1"
  shows "dlist m' l (as @ bs)"
proof -
  let ?p = "butlast (l # as)" and ?q = "tl (bs @ [l + 8])"
  let ?a = "node_before l as" and ?b = "node_after l bs"
  have ns: "list_nodes l (as @ bs) = ?p @ ?a # ?b # ?q" by (rule list_nodes_split)
  have ns': "list_nodes l (as @ x # bs) = ?p @ ?a # x # ?b # ?q" by (rule list_nodes_split_mid)
  have set': "set (list_nodes l (as @ x # bs)) = insert x (set (list_nodes l (as @ bs)))"
    by (auto simp: ns ns')
  have d: "distinct (?p @ ?a # x # ?b # ?q)" using assms(1) unfolding dlist_def ns' by blast
  have "linked (node_next m) (node_prev m) (?p @ ?a # x # ?b # ?q)"
    using assms(1) by (simp add: dlist_def ns')
  from linked_delete [OF this d] have
    "linked ((node_next m)(?a := ?b)) ((node_prev m)(?b := ?a)) (?p @ ?a # ?b # ?q)" .
  then have lk: "linked (node_next m') (node_prev m') (list_nodes l (as @ bs))"
    unfolding ns [symmetric]
    by (rule linked_cong [THEN iffD1, rotated -1]) (use assms(2,3) in \<open>simp_all add: set'\<close>)
  have ends: "l \<noteq> ?b" "l + 8 \<noteq> ?a"
    using assms(1) node_before_mem [of l as] node_after_mem [of l bs]
    by (auto simp: dlist_def list_nodes_def)
  have sep: "sep_nodes l (set (list_nodes l (as @ bs)))"
    using assms(1) unfolding dlist_def set'
    by (auto intro: sep_nodes_subset simp: list_nodes_def)
  have dist: "distinct (list_nodes l (as @ bs))" using d by (simp add: ns)
  have "l \<in> set (list_nodes l (as @ x # bs))" "l + 8 \<in> set (list_nodes l (as @ x # bs))"
    by (simp_all add: list_nodes_def)
  with assms(1,4) assms(2,3) [of l] assms(2,3) [of "l + 8"] lk ends sep dist
  show ?thesis by (simp add: dlist_def)
qed

section \<open>The operations on a well-formed list\<close>

lemma dlist_mem:
  assumes "dlist m l xs"
  shows "sep_nodes l (set (list_nodes l xs))" "distinct (list_nodes l xs)"
    "l \<in> set (list_nodes l xs)" "l + 8 \<in> set (list_nodes l xs)"
  using assms by (auto simp: dlist_def list_nodes_def)

lemma dlist_neighbours:
  assumes "dlist m l (as @ bs)"
  shows "node_next m (node_before l as) = node_after l bs"
    and "node_prev m (node_after l bs) = node_before l as"
  using assms by (simp_all add: dlist_def list_nodes_split linked_split)

lemma dlist_neighbours_mid:
  assumes "dlist m l (as @ x # bs)"
  shows "node_prev m x = node_before l as" "node_next m x = node_after l bs"
    "node_before l as \<noteq> x" "node_after l bs \<noteq> x" "x \<noteq> 0" "x \<noteq> l + 8"
proof -
  have "linked (node_next m) (node_prev m) (list_nodes l (as @ x # bs))"
    and d: "distinct (list_nodes l (as @ x # bs))"
    and s: "sep_nodes l (set (list_nodes l (as @ x # bs)))"
    using assms by (simp_all add: dlist_def)
  then show "node_prev m x = node_before l as" "node_next m x = node_after l bs"
    by (simp_all add: list_nodes_split_mid linked_split)
  show "node_before l as \<noteq> x" "node_after l bs \<noteq> x" using d
    by (auto simp: list_nodes_split_mid)
  show "x \<noteq> 0" using s by (auto simp: sep_nodes_def list_nodes_def)
  show "x \<noteq> l + 8" using d by (auto simp: list_nodes_def)
qed

lemma klist_push_dlist:
  assumes "dlist m l xs" "fresh_node l xs n"
  shows "dlist (klist_push m l n) l (n # xs)"
proof -
  obtain S where S: "insert n (set (list_nodes l xs)) = S" by simp
  have sep: "sep_nodes l S" and n: "n \<notin> set (list_nodes l xs)"
    using assms(2) by (auto simp: fresh_node_def S)
  have nx: "node_next m l = node_after l xs"
    using dlist_neighbours(1) [of m l "[]" xs] assms(1) by (simp add: node_before_def)
  have mem: "l \<in> S" "node_after l xs \<in> S" "n \<in> S" "l \<noteq> n"
    using node_after_mem [of l xs] n by (auto simp: list_nodes_def simp flip: S)
  have "dlist (klist_push m l n) l ([] @ n # xs)"
    using mem(4)
    by (intro dlist_inserted [where m = m])
       (simp_all add: S assms klist_push_def Let_def l_head_def node_upd [OF sep] mem nx
         node_before_def)
  then show ?thesis by simp
qed

lemma klist_append_dlist:
  assumes "dlist m l xs" "fresh_node l xs n"
  shows "dlist (klist_append m l n) l (xs @ [n])"
proof -
  obtain S where S: "insert n (set (list_nodes l xs)) = S" by simp
  have sep: "sep_nodes l S" and n: "n \<notin> set (list_nodes l xs)"
    using assms(2) by (auto simp: fresh_node_def S)
  have pv: "node_prev m (l + 8) = node_before l xs"
    using dlist_neighbours(2) [of m l xs "[]"] assms(1) by (simp add: node_after_def)
  have mem: "l + 8 \<in> S" "node_before l xs \<in> S" "n \<in> S" "l + 8 \<noteq> n"
    using node_before_mem [of l xs] n by (auto simp: list_nodes_def simp flip: S)
  show ?thesis
    using mem(4)
    by (intro dlist_inserted [where m = m and bs = "[]"])
       (simp_all add: S assms klist_append_def Let_def l_tail_def node_upd [OF sep] mem pv
         node_after_def)
qed

lemma klist_init_dlist:
  assumes "sep_nodes l {l, l + 8}"
  shows "dlist (klist_init m l) l []"
  using assms
  by (simp add: dlist_def list_nodes_def klist_init_def Let_def l_head_def l_tail_def
      node_upd [OF assms])

lemma klist_unlink_dlist:
  assumes "dlist m l (as @ x # bs)"
  shows "dlist (klist_unlink m l x) l (as @ bs)"
proof -
  obtain S where S: "set (list_nodes l (as @ x # bs)) = S" by simp
  have sep: "sep_nodes l S" using dlist_mem(1) [OF assms] by (simp add: S)
  have mem: "x \<in> S" "node_before l as \<in> S" "node_after l bs \<in> S"
    using node_before_mem [of l as] node_after_mem [of l bs]
    by (auto simp: list_nodes_def simp flip: S)
  note nb = dlist_neighbours_mid [OF assms]
  show ?thesis
    using nb(3,4)
    by (intro dlist_deleted [OF assms])
       (simp_all add: S klist_unlink_def Let_def nb(1,2) node_upd [OF sep] mem)
qed

lemma klist_pop_dlist:
  assumes "dlist m l (x # xs)"
  shows "fst (klist_pop m l) = x" "dlist (snd (klist_pop m l)) l xs"
proof -
  have a: "dlist m l ([] @ x # xs)" using assms by simp
  obtain S where S: "set (list_nodes l ([] @ x # xs)) = S" by simp
  have sep: "sep_nodes l S" using dlist_mem(1) [OF a] by (simp only: S)
  have mem: "l \<in> S" "x \<in> S" "node_after l xs \<in> S"
    using node_after_mem [of l xs] by (auto simp: list_nodes_def simp flip: S)
  have nx: "node_next m l = x" "node_next m x = node_after l xs"
    using dlist_neighbours(1) [of m l "[]" "x # xs"] dlist_neighbours_mid(2) [OF a] assms
    by (simp_all add: node_before_def node_after_def)
  show "fst (klist_pop m l) = x"
    by (simp add: klist_pop_def Let_def l_head_def nx)
  have "dlist (snd (klist_pop m l)) l ([] @ xs)"
    using dlist_neighbours_mid(3,4) [OF a]
    by (intro dlist_deleted [OF a])
       (simp_all only: S, simp_all add: klist_pop_def Let_def l_head_def nx node_upd [OF sep]
          mem node_before_def)
  then show "dlist (snd (klist_pop m l)) l xs" by simp
qed

lemma klist_remove_loop_found:
  assumes "dlist m l (cs @ as @ x # bs)"
  shows "klist_remove_loop m l x (hd (as @ [x])) = Some (x, klist_unlink m l x)"
  using assms
proof (induction as arbitrary: cs)
  case Nil
  then have "x \<noteq> 0" using dlist_neighbours_mid(5) [of m l cs x bs] by simp
  then show ?case by (subst klist_remove_loop.simps) simp
next
  case (Cons y as)
  have d: "dlist m l (cs @ y # (as @ x # bs))" using Cons.prems by simp
  have "y \<noteq> x" using d by (auto simp: dlist_def list_nodes_def)
  moreover have "node_next m y = hd (as @ [x])"
    using dlist_neighbours_mid(2) [OF d] by (cases as) (simp_all add: node_after_def)
  moreover have "klist_remove_loop m l x (hd (as @ [x])) = Some (x, klist_unlink m l x)"
    by (rule Cons.IH [of "cs @ [y]"]) (use Cons.prems in simp)
  ultimately show ?case using dlist_neighbours_mid(5) [OF d]
    by (subst klist_remove_loop.simps) simp
qed

lemma klist_remove_loop_missing:
  assumes "dlist m l (cs @ as)" "x \<notin> set as" "x \<noteq> l + 8"
  shows "klist_remove_loop m l x (node_after l as) = Some (0, m)"
  using assms
proof (induction as arbitrary: cs)
  case Nil
  then have "node_next m (l + 8) = 0" "l + 8 \<noteq> 0"
    by (auto simp: dlist_def sep_nodes_def)
  with Nil.prems show ?case
    by (subst klist_remove_loop.simps, subst klist_remove_loop.simps) (simp add: node_after_def)
next
  case (Cons y as)
  have "klist_remove_loop m l x (node_after l as) = Some (0, m)"
    by (rule Cons.IH [of "cs @ [y]"]) (use Cons.prems in simp_all)
  with dlist_neighbours_mid [OF Cons.prems(1)] Cons.prems(2) show ?case
    by (subst klist_remove_loop.simps) (auto simp: node_after_def)
qed

lemma first_after: "dlist m l xs \<Longrightarrow> node_next m l = node_after l xs"
  using dlist_neighbours(1) [of m l "[]" xs] by (simp add: node_before_def)

lemma last_before: "dlist m l xs \<Longrightarrow> node_prev m (l + 8) = node_before l xs"
  using dlist_neighbours(2) [of m l xs "[]"] by (simp add: node_after_def)

lemma klist_remove_found:
  assumes "dlist m l (as @ x # bs)"
  shows "klist_remove m l x = Some (x, klist_unlink m l x)"
proof -
  have "node_after l (as @ x # bs) = hd (as @ [x])"
    by (cases as) (simp_all add: node_after_def)
  then show ?thesis using klist_remove_loop_found [of m l "[]" as x bs] assms
    by (simp add: klist_remove_def l_head_def first_after [OF assms])
qed

lemma klist_remove_missing:
  assumes "dlist m l xs" "x \<notin> set xs" "x \<noteq> l + 8"
  shows "klist_remove m l x = Some (0, m)"
  using klist_remove_loop_missing [of m l "[]" xs x] assms
  by (simp add: klist_remove_def l_head_def first_after)

lemma klist_find_loop_found:
  assumes "dlist m l (cs @ as @ x # bs)"
  shows "klist_find_loop m x (hd (as @ [x])) = Some x"
  using assms
proof (induction as arbitrary: cs)
  case Nil
  then have "x \<noteq> 0" using dlist_neighbours_mid(5) [of m l cs x bs] by simp
  then show ?case by (subst klist_find_loop.simps) simp
next
  case (Cons y as)
  have d: "dlist m l (cs @ y # (as @ x # bs))" using Cons.prems by simp
  have "node_next m y = hd (as @ [x])"
    using dlist_neighbours_mid(2) [OF d] by (cases as) (simp_all add: node_after_def)
  moreover have "klist_find_loop m x (hd (as @ [x])) = Some x"
    by (rule Cons.IH [of "cs @ [y]"]) (use Cons.prems in simp)
  ultimately show ?case using dlist_neighbours_mid(5) [OF d]
    by (subst klist_find_loop.simps) auto
qed

lemma klist_find_loop_missing:
  assumes "dlist m l (cs @ as)" "x \<notin> set as" "x \<noteq> l + 8"
  shows "klist_find_loop m x (node_after l as) = Some 0"
  using assms
proof (induction as arbitrary: cs)
  case Nil
  then have "node_next m (l + 8) = 0" "l + 8 \<noteq> 0"
    by (auto simp: dlist_def sep_nodes_def)
  with Nil.prems show ?case
    by (subst klist_find_loop.simps, subst klist_find_loop.simps) (simp add: node_after_def)
next
  case (Cons y as)
  have "klist_find_loop m x (node_after l as) = Some 0"
    by (rule Cons.IH [of "cs @ [y]"]) (use Cons.prems in simp_all)
  with dlist_neighbours_mid [OF Cons.prems(1)] Cons.prems(2) show ?case
    by (subst klist_find_loop.simps) (auto simp: node_after_def)
qed

text \<open>The tail sentinel is a node of the chain too.\<close>

lemma klist_loops_tail:
  assumes "dlist m l (cs @ as)"
  shows "klist_find_loop m (l + 8) (node_after l as) = Some (l + 8)
    \<and> klist_remove_loop m l (l + 8) (node_after l as) = Some (l + 8, klist_unlink m l (l + 8))"
  using assms
proof (induction as arbitrary: cs)
  case Nil
  then have "l + 8 \<noteq> 0" by (auto simp: dlist_def sep_nodes_def)
  then show ?case
    by (subst klist_find_loop.simps, subst klist_remove_loop.simps) (simp add: node_after_def)
next
  case (Cons y as)
  have "klist_find_loop m (l + 8) (node_after l as) = Some (l + 8)
    \<and> klist_remove_loop m l (l + 8) (node_after l as) = Some (l + 8, klist_unlink m l (l + 8))"
    by (rule Cons.IH [of "cs @ [y]"]) (use Cons.prems in simp)
  moreover have "y \<noteq> l + 8" using Cons.prems by (auto simp: dlist_def list_nodes_def)
  ultimately show ?case using dlist_neighbours_mid [OF Cons.prems]
    by (subst klist_find_loop.simps, subst klist_remove_loop.simps) (simp add: node_after_def)
qed

lemma klist_search_tail:
  assumes "dlist m l xs"
  shows "klist_find m l (l + 8) = Some (l + 8)" "klist_remove m l (l + 8) = Some (l + 8, klist_unlink m l (l + 8))"
  using klist_loops_tail [of m l "[]" xs] assms
  by (simp_all add: klist_find_def klist_remove_def l_head_def first_after)

lemma klist_find_present:
  assumes "dlist m l xs" "x \<in> set xs"
  shows "klist_find m l x = Some x"
proof -
  from assms(2) obtain as bs where xs: "xs = as @ x # bs" by (auto dest: split_list)
  have "node_after l (as @ x # bs) = hd (as @ [x])"
    by (cases as) (simp_all add: node_after_def)
  then show ?thesis using klist_find_loop_found [of m l "[]" as x bs] assms(1)
    by (simp add: klist_find_def l_head_def first_after [OF assms(1)] xs)
qed

lemma klist_find_missing:
  assumes "dlist m l xs" "x \<notin> set xs" "x \<noteq> l + 8"
  shows "klist_find m l x = Some 0"
  using klist_find_loop_missing [of m l "[]" xs x] assms
  by (simp add: klist_find_def l_head_def first_after)

lemma dlist_length_bound:
  assumes "dlist m l xs"
  shows "length xs < 2 ^ 32"
proof -
  have "length (list_nodes l xs) = card (set (list_nodes l xs))"
    using dlist_mem(2) [OF assms] by (simp add: distinct_card)
  also have "\<dots> \<le> card (UNIV :: u32 set)" by (rule card_mono) simp_all
  finally show ?thesis by (simp add: list_nodes_def card_word)
qed

lemma klist_len_dlist: "dlist m l xs \<Longrightarrow> unat (klist_len m l) = length xs"
  using dlist_length_bound [of m l xs]
  by (simp add: klist_len_def dlist_def unsigned_of_nat take_bit_nat_eq_self)

lemma klist_count_len: "klist_count m l = klist_len m l"
  by (simp add: klist_count_def klist_len_def)

lemma klist_empty_dlist:
  assumes "dlist m l xs"
  shows "klist_empty m l \<longleftrightarrow> xs = []"
proof -
  have "klist_len m l = 0 \<longleftrightarrow> unat (klist_len m l) = 0" by (simp add: unat_eq_zero)
  then show ?thesis by (simp add: klist_empty_def klist_len_dlist [OF assms])
qed

lemma klist_ends_dlist:
  assumes "dlist m l xs"
  shows "klist_get_first_node m l = node_after l xs"
    and "klist_get_last_node m l = node_before l xs"
  using first_after [OF assms] last_before [OF assms]
  by (simp_all add: klist_get_first_node_def klist_get_last_node_def l_head_def l_tail_def)

section \<open>Frames\<close>

text \<open>The words a list occupies: the two fields of each node and its length.\<close>

definition list_cells :: "u32 \<Rightarrow> u32 list \<Rightarrow> u32 set" where
  "list_cells l xs = insert (l + 16) (\<Union>n\<in>set (list_nodes l xs). {n, n + 4})"

lemma list_cells_member:
  "l + 16 \<in> list_cells l xs"
  "n \<in> set (list_nodes l xs) \<Longrightarrow> n \<in> list_cells l xs"
  "n \<in> set (list_nodes l xs) \<Longrightarrow> n + 4 \<in> list_cells l xs"
  by (auto simp: list_cells_def)

lemma list_cells_aligned: "dlist m l xs \<Longrightarrow> \<forall>c\<in>list_cells l xs. aligned4 c"
  by (auto simp: dlist_def sep_nodes_def list_cells_def list_nodes_def align_simps)

lemma list_cells_insert:
  "list_cells l (as @ n # bs) = {n, n + 4} \<union> list_cells l (as @ bs)"
  by (auto simp: list_cells_def list_nodes_def)

lemma dlist_cong:
  assumes "dlist m l xs" "\<And>c. c \<in> list_cells l xs \<Longrightarrow> ld32 m' c = ld32 m c"
  shows "dlist m' l xs"
proof -
  have e: "n \<in> set (list_nodes l xs) \<Longrightarrow> node_next m' n = node_next m n \<and> node_prev m' n = node_prev m n"
    for n using assms(2) list_cells_member by (simp add: node_next_def node_prev_def)
  have "linked (node_next m') (node_prev m') (list_nodes l xs)"
    using assms(1) e by (subst linked_cong [of _ _ "node_next m" _ "node_prev m"]) (auto simp: dlist_def)
  moreover have "list_len m' l = list_len m l"
    using assms(2) list_cells_member(1) by (simp add: list_len_def)
  ultimately show ?thesis
    using assms(1) e [of l] e [of "l + 8"] by (simp add: dlist_def) (simp add: list_nodes_def)
qed

lemma dlist_frame:
  assumes "dlist m l xs" "unchanged_outside C m m'" "\<forall>c\<in>C. aligned4 c" "C \<inter> list_cells l xs = {}"
  shows "dlist m' l xs"
proof (rule dlist_cong [OF assms(1)])
  fix c assume c: "c \<in> list_cells l xs"
  with assms(4) have "c \<notin> C" by blast
  with c list_cells_aligned [OF assms(1)] show "ld32 m' c = ld32 m c"
    by (intro unchanged_ld32 [OF assms(2,3)]) auto
qed

lemma dlist_store:
  assumes "dlist m l ns" "aligned4 a" "a \<notin> list_cells l ns"
  shows "dlist (st32 m a v) l ns"
proof -
  have "unchanged_outside {a} m (st32 m a v)" by (intro frame_intros) simp
  from dlist_frame [OF assms(1) this] show ?thesis using assms by simp
qed

lemma klist_init_frame:
  "unchanged_outside (list_cells l []) m (klist_init m l)"
  by (auto simp: klist_init_def Let_def node_defs l_head_def l_tail_def list_cells_def list_nodes_def
      intro!: frame_intros)

lemma klist_append_frame:
  assumes "dlist m l xs" "fresh_node l xs n"
  shows "unchanged_outside (list_cells l (xs @ [n])) m (klist_append m l n)"
proof -
  obtain S where S: "insert n (set (list_nodes l xs)) = S" by simp
  have sep: "sep_nodes l S" using assms(2) by (simp add: fresh_node_def S)
  have mem: "n \<in> S" "l + 8 \<in> S" "l + 8 \<noteq> n"
    using assms(2) by (auto simp: fresh_node_def list_nodes_def simp flip: S)
  have in_c: "{n, n + 4, node_before l xs + 4, l + 8, l + 16} \<subseteq> list_cells l (xs @ [n])"
    using node_before_mem [of l xs] by (auto simp: list_cells_def list_nodes_def)
  have "node_prev (set_prev (set_next m n (l + 8)) n (node_before l xs)) (l + 8) = node_before l xs"
    using mem by (simp add: node_upd [OF sep] last_before [OF assms(1)])
  then show ?thesis
    using in_c mem
    by (simp add: klist_append_def Let_def l_tail_def node_upd [OF sep] last_before [OF assms(1)])
       (auto simp: set_prev_def set_next_def set_len_def intro!: frame_intros)
qed

lemma klist_push_frame:
  assumes "dlist m l xs" "fresh_node l xs n"
  shows "unchanged_outside (list_cells l (n # xs)) m (klist_push m l n)"
proof -
  obtain S where S: "insert n (set (list_nodes l xs)) = S" by simp
  have sep: "sep_nodes l S" using assms(2) by (simp add: fresh_node_def S)
  have mem: "n \<in> S" "l \<in> S" "l \<noteq> n"
    using assms(2) by (auto simp: fresh_node_def list_nodes_def simp flip: S)
  have in_c: "{n, n + 4, node_after l xs, l + 4, l + 16} \<subseteq> list_cells l (n # xs)"
    using node_after_mem [of l xs] by (auto simp: list_cells_def list_nodes_def)
  show ?thesis
    using in_c mem
    by (simp add: klist_push_def Let_def l_head_def node_upd [OF sep] first_after [OF assms(1)])
       (auto simp: set_prev_def set_next_def set_len_def intro!: frame_intros)
qed

lemma klist_unlink_frame:
  assumes "dlist m l (as @ x # bs)"
  shows "unchanged_outside (list_cells l (as @ x # bs)) m (klist_unlink m l x)"
proof -
  obtain S where S: "set (list_nodes l (as @ x # bs)) = S" by simp
  have sep: "sep_nodes l S" using dlist_mem(1) [OF assms] by (simp add: S)
  have mem: "x \<in> S" "node_before l as \<in> S" "node_after l bs \<in> S"
    using node_before_mem [of l as] node_after_mem [of l bs]
    by (auto simp: list_nodes_def simp flip: S)
  have in_c: "{node_before l as + 4, node_after l bs, l + 16} \<subseteq> list_cells l (as @ x # bs)"
    using node_before_mem [of l as] node_after_mem [of l bs]
    by (auto simp: list_cells_def list_nodes_def)
  note nb = dlist_neighbours_mid [OF assms]
  show ?thesis
    using in_c nb(3)
    by (simp add: klist_unlink_def Let_def nb(1,2) node_upd [OF sep] mem)
       (auto simp: set_prev_def set_next_def set_len_def intro!: frame_intros)
qed

lemma klist_pop_frame:
  assumes "dlist m l (x # xs)"
  shows "unchanged_outside (list_cells l (x # xs)) m (snd (klist_pop m l))"
proof -
  have a: "dlist m l ([] @ x # xs)" using assms by simp
  obtain S where S: "set (list_nodes l (x # xs)) = S" by simp
  have sep: "sep_nodes l S" using dlist_mem(1) [OF assms] by (simp only: S)
  have mem: "l \<in> S" "x \<in> S" "node_after l xs \<in> S"
    using node_after_mem [of l xs] by (auto simp: list_nodes_def simp flip: S)
  have in_c: "{l + 4, node_after l xs, l + 16} \<subseteq> list_cells l (x # xs)"
    using node_after_mem [of l xs] by (auto simp: list_cells_def list_nodes_def)
  have nx: "node_next m l = x" "node_next m x = node_after l xs"
    using first_after [OF assms] dlist_neighbours_mid(2) [OF a] by (simp_all add: node_after_def)
  show ?thesis
    using in_c
    by (simp add: klist_pop_def Let_def l_head_def nx node_upd [OF sep] mem)
       (auto simp: set_prev_def set_next_def set_len_def intro!: frame_intros)
qed

lemma removed_node_fresh:
  assumes "dlist m l (as @ x # bs)"
  shows "fresh_node l (as @ bs) x"
proof -
  have eq: "insert x (set (list_nodes l (as @ bs))) = set (list_nodes l (as @ x # bs))"
    by (auto simp: list_nodes_def)
  have "x \<notin> set (list_nodes l (as @ bs))"
    using dlist_mem(2) [OF assms] by (auto simp: list_nodes_def)
  with dlist_mem(1) [OF assms] show ?thesis by (simp add: fresh_node_def eq)
qed

section \<open>The interface the schedulers rely on\<close>

text \<open>
  What a client of the list may assume: \<open>holds m l xs\<close> relates memory to a sequence,
  insertions at both ends extend it, \<open>remove\<close> returns and takes out the node wherever it
  stands, and a node that has been taken out may be inserted again.
\<close>

locale intrusive_list =
  fixes holds :: "'m \<Rightarrow> 'l \<Rightarrow> 'n list \<Rightarrow> bool"
    and insertable :: "'l \<Rightarrow> 'n list \<Rightarrow> 'n \<Rightarrow> bool"
    and push :: "'m \<Rightarrow> 'l \<Rightarrow> 'n \<Rightarrow> 'm"
    and append :: "'m \<Rightarrow> 'l \<Rightarrow> 'n \<Rightarrow> 'm"
    and remove :: "'m \<Rightarrow> 'l \<Rightarrow> 'n \<Rightarrow> ('n \<times> 'm) option"
    and first :: "'m \<Rightarrow> 'l \<Rightarrow> 'n"
  assumes holds_push: "holds m l xs \<Longrightarrow> insertable l xs n \<Longrightarrow> holds (push m l n) l (n # xs)"
    and holds_append: "holds m l xs \<Longrightarrow> insertable l xs n \<Longrightarrow> holds (append m l n) l (xs @ [n])"
    and holds_remove: "holds m l (as @ x # bs) \<Longrightarrow>
      \<exists>m'. remove m l x = Some (x, m') \<and> holds m' l (as @ bs)"
    and insertable_again: "holds m l (as @ x # bs) \<Longrightarrow> insertable l (as @ bs) x"
    and holds_first: "holds m l (x # xs) \<Longrightarrow> first m l = x"
begin

text \<open>Moving a node to the back: the re-queueing step of the schedulers.\<close>

lemma requeue:
  assumes "holds m l (as @ x # bs)"
  shows "\<exists>m'. remove m l x = Some (x, m') \<and> holds (append m' l x) l (as @ bs @ [x])"
proof -
  from holds_remove [OF assms] obtain m' where
    "remove m l x = Some (x, m')" and m': "holds m' l (as @ bs)" by blast
  moreover have "holds (append m' l x) l ((as @ bs) @ [x])"
    by (rule holds_append [OF m' insertable_again [OF assms]])
  ultimately show ?thesis by simp
qed

text \<open>Moving a node to the front: it is then the next one to be picked.\<close>

lemma promote:
  assumes "holds m l (as @ x # bs)"
  shows "\<exists>m'. remove m l x = Some (x, m') \<and> holds (push m' l x) l (x # as @ bs)
     \<and> first (push m' l x) l = x"
proof -
  from holds_remove [OF assms] obtain m' where
    "remove m l x = Some (x, m')" and m': "holds m' l (as @ bs)" by blast
  moreover have "holds (push m' l x) l (x # as @ bs)"
    by (rule holds_push [OF m' insertable_again [OF assms]])
  ultimately show ?thesis using holds_first by blast
qed

text \<open>After the head of a list with a second node is re-queued, the second node is first.\<close>

lemma requeue_head:
  assumes "holds m l (x # y # xs)"
  shows "\<exists>m'. remove m l x = Some (x, m') \<and> holds (append m' l x) l (y # xs @ [x])
     \<and> first (append m' l x) l = y"
proof -
  from requeue [of m l "[]" x "y # xs"] assms obtain m' where
    "remove m l x = Some (x, m')" "holds (append m' l x) l (y # xs @ [x])" by auto
  then show ?thesis using holds_first by blast
qed

end

lemma klist_remove_dlist:
  "dlist m l (as @ x # bs) \<Longrightarrow>
     \<exists>m'. klist_remove m l x = Some (x, m') \<and> dlist m' l (as @ bs)"
  using klist_remove_found klist_unlink_dlist by blast

interpretation kl: intrusive_list dlist fresh_node klist_push klist_append klist_remove
    klist_get_first_node
  by unfold_locales
     (auto simp: klist_push_dlist klist_append_dlist klist_remove_dlist removed_node_fresh
        klist_ends_dlist(1) node_after_def)

section \<open>Properties\<close>

text \<open>A concrete list for the witnesses: two nodes on zeroed memory.\<close>

definition sample_mem :: mem where
  "sample_mem = klist_append (klist_append (klist_init (\<lambda>_. 0) 4096) 4096 8192) 4096 12288"

lemma sample_fresh:
  "fresh_node 4096 [] 8192" "fresh_node 4096 [8192] 12288" "fresh_node 4096 [8192, 12288] 16384"
  by (simp_all add: fresh_node_def list_nodes_def sep_nodes_def align_simps)

lemma sample_empty: "dlist (klist_init (\<lambda>_. 0) 4096) 4096 []"
  by (rule klist_init_dlist) (simp add: sep_nodes_def align_simps)

lemma sample_dlist: "dlist sample_mem 4096 [8192, 12288]"
  using klist_append_dlist [OF klist_append_dlist [OF sample_empty sample_fresh(1)]] sample_fresh(2)
  by (simp add: sample_mem_def)

text \<open>
  \<open>klist_push\<close> and \<open>klist_append\<close> implement insertion at the two ends: on a
  well-formed list, and with a node apart from it, the result is a well-formed list with the
  node first or last, and no byte outside the words of the new list changes.
\<close>

theorem klist_insert_correct:
  assumes "dlist m l xs" "fresh_node l xs n"
  shows "dlist (klist_push m l n) l (n # xs) \<and>
    unchanged_outside (list_cells l (n # xs)) m (klist_push m l n) \<and>
    dlist (klist_append m l n) l (xs @ [n]) \<and>
    unchanged_outside (list_cells l (xs @ [n])) m (klist_append m l n)"
  using klist_push_dlist klist_push_frame klist_append_dlist klist_append_frame assms by blast

theorem klist_insert_correct_witness:
  "dlist (klist_push sample_mem 4096 16384) 4096 [16384, 8192, 12288] \<and>
   dlist (klist_append sample_mem 4096 16384) 4096 [8192, 12288, 16384]"
  using klist_insert_correct [OF sample_dlist sample_fresh(3)] by simp

text \<open>
  C21: \<open>klist_remove\<close> returns and takes out the given node wherever it stands in the list,
  leaves the order of the others, changes no byte outside the list, and leaves the node in a
  state in which it can be inserted again.
\<close>

theorem klist_remove_correct:
  assumes "dlist m l (as @ x # bs)"
  shows "\<exists>m'. klist_remove m l x = Some (x, m') \<and> dlist m' l (as @ bs) \<and>
    unchanged_outside (list_cells l (as @ x # bs)) m m' \<and> fresh_node l (as @ bs) x"
  using klist_remove_found [OF assms] klist_unlink_dlist [OF assms] klist_unlink_frame [OF assms]
    removed_node_fresh [OF assms] by blast

theorem klist_remove_correct_witness:
  "\<exists>m'. klist_remove sample_mem 4096 12288 = Some (12288, m') \<and> dlist m' 4096 [8192]"
  using klist_remove_correct [of sample_mem 4096 "[8192]" 12288 "[]"] sample_dlist by auto

text \<open>
  C30: the two searches return on every well-formed list, whatever the node looked for.
  \<open>klist_find\<close> returns the node when it is one of the list's, and \<open>klist_remove\<close> then takes it out
  of the list and returns it; for a node that is not there both return a null pointer, and
  nothing changes.  The tail sentinel, which is no node of the list but ends its chain, is the
  exception: it is found, and \<open>klist_remove\<close> unlinks it from the chain.
\<close>

theorem klist_search_correct:
  assumes "dlist m l xs"
  shows "klist_find m l x = Some (if x \<in> set xs \<or> x = l + 8 then x else 0)
    \<and> (x \<in> set xs \<longrightarrow> (\<exists>m'. klist_remove m l x = Some (x, m') \<and> dlist m' l (remove1 x xs)))
    \<and> (x = l + 8 \<longrightarrow> klist_remove m l x = Some (x, klist_unlink m l x))
    \<and> (x \<notin> set xs \<longrightarrow> x \<noteq> l + 8 \<longrightarrow> klist_remove m l x = Some (0, m))"
proof -
  have "\<exists>m'. klist_remove m l x = Some (x, m') \<and> dlist m' l (remove1 x xs)" if "x \<in> set xs"
  proof -
    from that obtain as bs where xs: "xs = as @ x # bs" "x \<notin> set as" by (auto dest: split_list_first)
    then have "remove1 x xs = as @ bs" by (simp add: remove1_append)
    then show ?thesis using klist_remove_found klist_unlink_dlist assms xs(1) by metis
  qed
  then show ?thesis
    using klist_find_present klist_find_missing klist_remove_missing klist_search_tail assms by simp
qed

theorem klist_search_correct_witness:
  "klist_find sample_mem 4096 8192 = Some 8192 \<and>
   (\<exists>m'. klist_remove sample_mem 4096 8192 = Some (8192, m') \<and> dlist m' 4096 [12288]) \<and>
   klist_find sample_mem 4096 16384 = Some 0 \<and>
   klist_remove sample_mem 4096 16384 = Some (0, sample_mem) \<and>
   klist_find sample_mem 4096 4104 = Some 4104"
  using klist_search_correct [OF sample_dlist, of 8192] klist_search_correct [OF sample_dlist, of 16384]
    klist_search_correct [OF sample_dlist, of 4104]
  by simp

text \<open>
  a node that is pushed is what \<open>klist_pop\<close> returns next, and the list is then as it
  was; the length reported by the code is the number of nodes throughout.
\<close>

theorem klist_push_pop_roundtrip:
  assumes "dlist m l xs" "fresh_node l xs n"
  shows "fst (klist_pop (klist_push m l n) l) = n \<and>
    dlist (snd (klist_pop (klist_push m l n) l)) l xs \<and>
    unat (klist_len (klist_push m l n) l) = Suc (unat (klist_len m l)) \<and>
    (klist_empty (snd (klist_pop (klist_push m l n) l)) l \<longleftrightarrow> klist_empty m l)"
proof -
  have p: "dlist (klist_push m l n) l (n # xs)" by (rule klist_push_dlist [OF assms])
  note q = klist_pop_dlist [OF p]
  show ?thesis
    using q klist_len_dlist [OF p] klist_len_dlist [OF assms(1)]
      klist_empty_dlist [OF q(2)] klist_empty_dlist [OF assms(1)] by simp
qed

theorem klist_push_pop_roundtrip_witness:
  "fst (klist_pop (klist_push sample_mem 4096 16384) 4096) = 16384"
  using klist_push_pop_roundtrip [OF sample_dlist sample_fresh(3)] by simp

text \<open>
  \<open>klist_pop\<close> has no guard for an empty list: it then returns the tail sentinel, leaves
  the head pointing nowhere and the length at -1, and writes the list's address through a
  null pointer, at address 0.
\<close>

theorem klist_pop_empty_corrupts:
  assumes "dlist m l []" "0 \<notin> list_cells l []"
  shows "fst (klist_pop m l) = l + 8 \<and> klist_len (snd (klist_pop m l)) l = - 1 \<and>
    node_next (snd (klist_pop m l)) l = 0 \<and> ld32 (snd (klist_pop m l)) 0 = l"
proof -
  have nx: "node_next m l = l + 8" "node_next m (l + 8) = 0" "list_len m l = 0"
    using first_after [OF assms(1)] assms(1) by (auto simp: node_after_def dlist_def)
  have al: "aligned4 l" using assms(1) by (simp add: dlist_def sep_nodes_def)
  have ne: "l + 4 \<noteq> 0" "l + 12 \<noteq> 0" "l + 16 \<noteq> 0"
    using assms(2) by (auto simp: list_cells_def list_nodes_def add.assoc)
  have al': "aligned4 (l + 4)" "aligned4 (l + 12)" "aligned4 (l + 16)"
    using al by (simp_all add: align_simps)
  show ?thesis
    using nx ne al'
    by (simp add: klist_pop_def klist_len_def Let_def l_head_def node_defs add.assoc mem_simps align_simps)
qed

theorem klist_pop_empty_corrupts_witness:
  "fst (klist_pop (klist_init (\<lambda>_. 0) 4096) 4096) = 4104 \<and>
   klist_len (snd (klist_pop (klist_init (\<lambda>_. 0) 4096) 4096)) 4096 = - 1"
  using klist_pop_empty_corrupts [OF sample_empty] by (simp add: list_cells_def list_nodes_def)

end
