(* ===== verification/List_Run.thy ===== *)
theory List_Run
  imports Klist
begin

text \<open>
  The intrusive list as an abstract data type.  A program that uses a list is a sequence of
  operations; run on memory it returns the same results as run on a HOL list.  The argument is
  made once, for any simulation between two machines that execute operations.
\<close>

section \<open>Simulation\<close>

fun run :: "('o \<Rightarrow> 's \<Rightarrow> ('r \<times> 's) option) \<Rightarrow> 'o list \<Rightarrow> 's \<Rightarrow> ('r list \<times> 's) option" where
  "run step [] s = Some ([], s)"
| "run step (x # xs) s =
    Option.bind (step x s) (\<lambda>(r, s). map_option (\<lambda>(rs, s). (r # rs, s)) (run step xs s))"

locale simulation =
  fixes rel :: "'s \<Rightarrow> 't \<Rightarrow> bool"
    and impl :: "'o \<Rightarrow> 's \<Rightarrow> ('r \<times> 's) option"
    and spec :: "'o \<Rightarrow> 't \<Rightarrow> ('r \<times> 't) option"
  assumes sim: "rel s t \<Longrightarrow> spec x t = Some (r, t') \<Longrightarrow> \<exists>s'. impl x s = Some (r, s') \<and> rel s' t'"
begin

lemma run_sim:
  "rel s t \<Longrightarrow> run spec xs t = Some (rs, t') \<Longrightarrow> \<exists>s'. run impl xs s = Some (rs, s') \<and> rel s' t'"
proof (induction xs arbitrary: s t rs)
  case (Cons x xs)
  obtain r t1 rs1 where t: "spec x t = Some (r, t1)" "run spec xs t1 = Some (rs1, t')" "rs = r # rs1"
    using Cons.prems(2) by (auto simp: bind_eq_Some_conv)
  obtain s1 where s1: "impl x s = Some (r, s1)" "rel s1 t1" using sim [OF Cons.prems(1) t(1)] by blast
  from Cons.IH [OF s1(2) t(2)] s1(1) t(3) show ?case by auto
qed simp

end

section \<open>Lists\<close>

datatype list_op = Push u32 | Append u32 | Pop | Remove u32 | Find u32 | First | Last | Count

text \<open>The operations on memory, with the result of each (0 where the C function has none).\<close>

fun list_impl :: "u32 \<Rightarrow> list_op \<Rightarrow> mem \<Rightarrow> (u32 \<times> mem) option" where
  "list_impl l (Push n) m = Some (0, klist_push m l n)"
| "list_impl l (Append n) m = Some (0, klist_append m l n)"
| "list_impl l Pop m = Some (klist_pop m l)"
| "list_impl l (Remove n) m = klist_remove m l n"
| "list_impl l (Find n) m = map_option (\<lambda>r. (r, m)) (klist_find m l n)"
| "list_impl l First m = Some (klist_get_first_node m l, m)"
| "list_impl l Last m = Some (klist_get_last_node m l, m)"
| "list_impl l Count m = Some (klist_count m l, m)"

text \<open>
  What they do to a HOL list.  A program breaks the contract when it inserts a node that is in
  the list or overlaps it, pops from an empty list, or looks for the tail sentinel.  The ends of an empty list are the
  sentinels: the code has no null result for them.
\<close>

fun list_spec :: "u32 \<Rightarrow> list_op \<Rightarrow> u32 list \<Rightarrow> (u32 \<times> u32 list) option" where
  "list_spec l (Push n) xs = (if fresh_node l xs n then Some (0, n # xs) else None)"
| "list_spec l (Append n) xs = (if fresh_node l xs n then Some (0, xs @ [n]) else None)"
| "list_spec l Pop xs = (case xs of [] \<Rightarrow> None | x # xs \<Rightarrow> Some (x, xs))"
| "list_spec l (Remove n) xs = (if n = l + 8 then None
     else if n \<in> set xs then Some (n, remove1 n xs) else Some (0, xs))"
| "list_spec l (Find n) xs = (if n = l + 8 then None else Some (if n \<in> set xs then n else 0, xs))"
| "list_spec l First xs = Some (if xs = [] then l + 8 else hd xs, xs)"
| "list_spec l Last xs = Some (if xs = [] then l else last xs, xs)"
| "list_spec l Count xs = Some (of_nat (length xs), xs)"

lemma dlist_distinct: "dlist m l xs \<Longrightarrow> distinct xs"
  by (simp add: dlist_def list_nodes_def)

interpretation klist: simulation "\<lambda>m xs. dlist m l xs" "list_impl l" "list_spec l" for l
proof
  fix m :: mem and xs ys x r
  assume d: "dlist m l xs" and s: "list_spec l x xs = Some (r, ys)"
  show "\<exists>m'. list_impl l x m = Some (r, m') \<and> dlist m' l ys"
  proof (cases x)
    case (Remove n)
    show ?thesis
    proof (cases "n \<in> set xs")
      case True
      then obtain as bs where xs: "xs = as @ n # bs" "n \<notin> set as" by (meson split_list_first)
      then have "ys = as @ bs" "r = n" using s Remove by (auto simp: remove1_append split: if_splits)
      with klist_remove_found [of m l as n bs] klist_unlink_dlist [of m l as n bs] d xs(1) Remove
      show ?thesis by auto
    next
      case False
      with klist_remove_missing [OF d] s Remove d show ?thesis by (auto split: if_splits)
    qed
  next
    case (Find n)
    with s d klist_find_present [OF d] klist_find_missing [OF d] show ?thesis by (auto split: if_splits)
  next
    case Count
    have "klist_count m l = of_nat (length xs)"
      by (simp add: klist_len_dlist [OF d, symmetric] klist_count_len)
    with s d Count show ?thesis by auto
  qed (use s d klist_push_dlist [OF d] klist_append_dlist [OF d] klist_pop_dlist [of m l] klist_ends_dlist [OF d]
       in \<open>auto split: if_splits list.splits simp: prod_eq_iff node_after_def node_before_def\<close>)
qed

text \<open>
  C9: the list in memory refines the HOL list: a program of any length that keeps the contract
  gets from the C functions the results it would get from a HOL list, all of them return, and
  the memory at the end holds that list.
\<close>

theorem klist_refines_list:
  assumes "dlist m l xs" and "run (list_spec l) ops xs = Some (rs, ys)"
  shows "\<exists>m'. run (list_impl l) ops m = Some (rs, m') \<and> dlist m' l ys"
  using assms by (rule klist.run_sim)

theorem klist_refines_list_witness:
  "\<exists>m'. run (list_impl 4096) [Append 8192, Push 12288, Count, Remove 8192, Pop, First] (klist_init (\<lambda>_. 0) 4096)
     = Some ([0, 0, 2, 8192, 12288, 4104], m') \<and> dlist m' 4096 []"
  using klist_refines_list [OF sample_empty, of "[Append 8192, Push 12288, Count, Remove 8192, Pop, First]"]
  by (simp add: fresh_node_def sep_nodes_def list_nodes_def align_simps aligned4_numeral)

end
