(* ===== verification/Machine.thy ===== *)
theory Machine
  imports Prelude
begin

text \<open>
  The processor as the kernel sees it through \<open>source/comm/cpu_instr.h\<close>: memory, the
  registers the inline assembly reads and writes, and the port traffic.  What a port
  answers is the device's choice; it is a field \<open>device\<close> of the state, a function of how
  many reads have been made and of the port, so no theorem fixes it.  Every port access,
  halt and far jump is recorded in \<open>trace\<close>, the oldest first.
\<close>

unbundle bit_operations_syntax

datatype io_event =
    Outb u16 u8
  | Outw u16 u16
  | Inb u16 u8
  | Inw u16 u16
  | Hlt
  | FarJmp u32 u32

record machine =
  ram :: mem
  eflags :: u32
  cr0 :: u32
  cr3 :: u32
  cr4 :: u32
  gdtr :: "u32 \<times> u16"
  idtr :: "u32 \<times> u16"
  tr :: u32
  device :: "nat \<Rightarrow> u16 \<Rightarrow> u16"
  reads :: nat
  trace :: "io_event list"

definition emit :: "io_event \<Rightarrow> machine \<Rightarrow> machine" where
  "emit e s = s\<lparr>trace := trace s @ [e]\<rparr>"

text \<open>Bit 9 of the flags register, as in \<open>os_cfg.h\<close> and \<open>cpu.h\<close>; bit 1 is always set.\<close>

definition EFLAGS_IF :: u32 where
  "EFLAGS_IF = push_bit 9 1"

definition EFLAGS_DEFAULT :: u32 where
  "EFLAGS_DEFAULT = push_bit 1 1"

definition CR0_PG :: u32 where
  "CR0_PG = push_bit 31 1"

section \<open>The instructions\<close>

definition hlt :: "machine \<Rightarrow> machine" where
  "hlt s = emit Hlt s"

definition cli :: "machine \<Rightarrow> machine" where
  "cli s = s\<lparr>eflags := eflags s AND NOT EFLAGS_IF\<rparr>"

definition sti :: "machine \<Rightarrow> machine" where
  "sti s = s\<lparr>eflags := eflags s OR EFLAGS_IF\<rparr>"

definition inw :: "u16 \<Rightarrow> machine \<Rightarrow> u16 \<times> machine" where
  "inw port s =
    (let rv = device s (reads s) port
     in (rv, emit (Inw port rv) (s\<lparr>reads := Suc (reads s)\<rparr>)))"

definition outw :: "u16 \<Rightarrow> u16 \<Rightarrow> machine \<Rightarrow> machine" where
  "outw port data s = emit (Outw port data) s"

definition inb :: "u16 \<Rightarrow> machine \<Rightarrow> u8 \<times> machine" where
  "inb port s =
    (let rv = ucast (device s (reads s) port)
     in (rv, emit (Inb port rv) (s\<lparr>reads := Suc (reads s)\<rparr>)))"

definition outb :: "u16 \<Rightarrow> u8 \<Rightarrow> machine \<Rightarrow> machine" where
  "outb port data s = emit (Outb port data) s"

definition rcr0 :: "machine \<Rightarrow> u32" where
  "rcr0 s = cr0 s"

definition wcr0 :: "u32 \<Rightarrow> machine \<Rightarrow> machine" where
  "wcr0 data s = s\<lparr>cr0 := data\<rparr>"

definition wcr3 :: "u32 \<Rightarrow> machine \<Rightarrow> machine" where
  "wcr3 data s = s\<lparr>cr3 := data\<rparr>"

definition rcr3 :: "machine \<Rightarrow> u32" where
  "rcr3 s = cr3 s"

definition wcr4 :: "u32 \<Rightarrow> machine \<Rightarrow> machine" where
  "wcr4 data s = s\<lparr>cr4 := data\<rparr>"

definition rcr4 :: "machine \<Rightarrow> u32" where
  "rcr4 s = cr4 s"

text \<open>
  The operand of \<open>lgdt\<close> and \<open>lidt\<close> is a packed triple: a limit, the low and the high
  half of the base address; the limit field is 16 bits wide, so it is the truncation of
  the size less one.
\<close>

definition lgdt :: "u32 \<Rightarrow> u16 \<Rightarrow> machine \<Rightarrow> machine" where
  "lgdt start offset s =
    (let start32_16 = (ucast (drop_bit 16 start) :: u16);
         start15_0 = (ucast (start AND 0xFFFF) :: u16)
     in s\<lparr>gdtr := (push_bit 16 (ucast start32_16) OR ucast start15_0, offset - 1)\<rparr>)"

definition lidt :: "u32 \<Rightarrow> u32 \<Rightarrow> machine \<Rightarrow> machine" where
  "lidt start bytes s =
    (let start31_16 = (ucast (drop_bit 16 start) :: u16);
         start15_0 = (ucast (start AND 0xFFFF) :: u16)
     in s\<lparr>idtr := (push_bit 16 (ucast start31_16) OR ucast start15_0, ucast (bytes - 1))\<rparr>)"

text \<open>\<open>ltr\<close> reads the low 16 bits of the accumulator.\<close>

definition ltr :: "u32 \<Rightarrow> machine \<Rightarrow> machine" where
  "ltr tss_sel s = s\<lparr>tr := tss_sel AND 0xFFFF\<rparr>"

text \<open>
  A far jump to a task-state selector makes the processor switch tasks; what the model
  keeps of it is the event and the task register.  The state returned is the one in which
  the target task starts to run.
\<close>

definition far_jmp :: "u32 \<Rightarrow> u32 \<Rightarrow> machine \<Rightarrow> machine" where
  "far_jmp selc offset s = emit (FarJmp selc offset) (s\<lparr>tr := selc AND 0xFFFF\<rparr>)"

definition write_eflags :: "u32 \<Rightarrow> machine \<Rightarrow> machine" where
  "write_eflags v s = s\<lparr>eflags := v\<rparr>"

section \<open>Rewriting\<close>

lemmas instr_defs = hlt_def cli_def sti_def outb_def outw_def wcr0_def wcr3_def wcr4_def
  ltr_def far_jmp_def write_eflags_def emit_def

lemma emit_simps [simp]:
  "ram (emit e s) = ram s" "eflags (emit e s) = eflags s" "tr (emit e s) = tr s"
  "trace (emit e s) = trace s @ [e]" "cr3 (emit e s) = cr3 s" "cr0 (emit e s) = cr0 s"
  by (simp_all add: emit_def)

lemma instr_ram [simp]:
  "ram (hlt s) = ram s" "ram (cli s) = ram s" "ram (sti s) = ram s"
  "ram (outb p d s) = ram s" "ram (far_jmp a b s) = ram s" "ram (ltr a s) = ram s"
  "ram (wcr0 a s) = ram s" "ram (wcr3 a s) = ram s" "ram (lgdt a l s) = ram s"
  "ram (lidt a z s) = ram s" "ram (snd (inb p s)) = ram s" "ram (snd (inw p s)) = ram s"
  by (simp_all add: instr_defs lgdt_def lidt_def inb_def inw_def Let_def)

lemma split_base [simp]:
  "push_bit 16 (ucast (ucast (drop_bit 16 a) :: u16)) OR ucast (ucast (a AND 0xFFFF) :: u16) = (a :: u32)"
proof (rule bit_word_eqI)
  fix n assume "n < LENGTH(32)"
  then consider "n < 16" | "16 \<le> n" "n < 32" by fastforce
  then show "bit (push_bit 16 (ucast (ucast (drop_bit 16 a) :: u16))
      OR ucast (ucast (a AND 0xFFFF) :: u16) :: u32) n = bit a n"
  proof cases
    case 1
    have m: "(0xFFFF :: u32) = mask 16" by (simp add: mask_eq_exp_minus_1)
    have "bit (0xFFFF :: u32) n" unfolding m using 1 by (simp add: bit_simps)
    with 1 show ?thesis by (simp add: bit_simps)
  qed (auto simp: bit_simps)
qed

lemma lgdt_lidt [simp]:
  "lgdt a l s = s\<lparr>gdtr := (a, l - 1)\<rparr>"
  "lidt a z s = s\<lparr>idtr := (a, ucast (z - 1))\<rparr>"
  by (simp_all add: lgdt_def lidt_def Let_def)

end
