(* ===== verification/Os_Cfg.thy ===== *)
theory Os_Cfg
  imports Prelude
begin

text \<open>
  The constants of \<open>source/comm/os_cfg.h\<close>, \<open>source/comm/mem_info.h\<close> and
  \<open>source/kernel/memory/memory.h\<close>, each with the shift expression of the header, and the
  enumerations of \<open>source/comm/types.h\<close>.  \<open>cfg_defs\<close> unfolds them.
\<close>

unbundle bit_operations_syntax

section \<open>Selectors\<close>

definition RPL0 :: u16 where "RPL0 = 0"
definition RPL3 :: u16 where "RPL3 = 3"
definition TI_GDT :: u16 where "TI_GDT = 0"

definition KERNEL_SELECTOR_CS :: u16 where
  "KERNEL_SELECTOR_CS = push_bit 3 1 + push_bit 2 TI_GDT + RPL0"
definition KERNEL_SELECTOR_DS :: u16 where
  "KERNEL_SELECTOR_DS = push_bit 3 2 + push_bit 2 TI_GDT + RPL0"
definition KERNEL_SELECTOR_TSS :: u16 where
  "KERNEL_SELECTOR_TSS = push_bit 3 3 + push_bit 2 TI_GDT + RPL0"
definition USER_SELECTOR_CS :: u16 where
  "USER_SELECTOR_CS = push_bit 3 4 + push_bit 2 TI_GDT + RPL3"
definition USER_SELECTOR_DS :: u16 where
  "USER_SELECTOR_DS = push_bit 3 5 + push_bit 2 TI_GDT + RPL3"

section \<open>Descriptor attributes\<close>

definition SEG_D :: u16 where "SEG_D = push_bit 14 1"
definition SEG_P_PRESENT :: u16 where "SEG_P_PRESENT = push_bit 7 1"
definition SEG_DPL0 :: u16 where "SEG_DPL0 = push_bit 5 0"
definition SEG_DPL3 :: u16 where "SEG_DPL3 = push_bit 5 3"
definition SEG_S_SYSTEM :: u16 where "SEG_S_SYSTEM = push_bit 4 0"
definition SEG_S_NORMAL :: u16 where "SEG_S_NORMAL = push_bit 4 1"
definition SEG_TYPE_TSS :: u16 where "SEG_TYPE_TSS = push_bit 0 9"
definition SEG_TYPE_CODE :: u16 where "SEG_TYPE_CODE = push_bit 3 1"
definition SEG_TYPE_DATA :: u16 where "SEG_TYPE_DATA = push_bit 3 0"
definition SEG_TYPE_RW :: u16 where "SEG_TYPE_RW = push_bit 1 1"

section \<open>Gates\<close>

definition GATE_TYPE_IDT :: u16 where "GATE_TYPE_IDT = push_bit 8 0xE"
definition GATE_P :: u16 where "GATE_P = push_bit 15 1"
definition GATE_DPL_0 :: u16 where "GATE_DPL_0 = push_bit 13 0"
definition GATE_DPL_3 :: u16 where "GATE_DPL_3 = push_bit 13 3"

section \<open>Sizes and the memory map\<close>

definition GDT_SIZE :: nat where "GDT_SIZE = 256"
definition IDT_SIZE :: nat where "IDT_SIZE = 256"
definition SECTOR_SIZE :: nat where "SECTOR_SIZE = 512"
definition KERNEL_STACK_SIZE :: u32 where "KERNEL_STACK_SIZE = 8 * 1024"

definition MAX_MEM_LENGTH :: nat where "MAX_MEM_LENGTH = 20"
definition MEM_PAGE_SIZE :: u32 where "MEM_PAGE_SIZE = 4096"

definition MEM_KERNELFREE_START :: u32 where "MEM_KERNELFREE_START = 1024 * 1024"
definition MEM_KERNELFREE_END :: u32 where "MEM_KERNELFREE_END = 2 * 1024 * 1024"
definition MEM_USERFREE_START :: u32 where "MEM_USERFREE_START = 2 * 1024 * 1024"
definition MEM_USERFREE_END :: u32 where "MEM_USERFREE_END = 128 * 1024 * 1024 - 1"
definition MEM_EBDA_START :: u32 where "MEM_EBDA_START = 0x80000"

lemmas selector_defs = RPL0_def RPL3_def TI_GDT_def KERNEL_SELECTOR_CS_def
  KERNEL_SELECTOR_DS_def KERNEL_SELECTOR_TSS_def USER_SELECTOR_CS_def USER_SELECTOR_DS_def

lemmas seg_defs = SEG_D_def SEG_P_PRESENT_def SEG_DPL0_def SEG_DPL3_def SEG_S_SYSTEM_def
  SEG_S_NORMAL_def SEG_TYPE_TSS_def SEG_TYPE_CODE_def SEG_TYPE_DATA_def SEG_TYPE_RW_def

lemmas gate_defs = GATE_TYPE_IDT_def GATE_P_def GATE_DPL_0_def GATE_DPL_3_def

lemmas size_defs = GDT_SIZE_def IDT_SIZE_def SECTOR_SIZE_def KERNEL_STACK_SIZE_def
  MAX_MEM_LENGTH_def MEM_PAGE_SIZE_def

lemmas memory_map_defs = MEM_KERNELFREE_START_def MEM_KERNELFREE_END_def
  MEM_USERFREE_START_def MEM_USERFREE_END_def MEM_EBDA_START_def

lemmas cfg_defs = selector_defs seg_defs gate_defs size_defs memory_map_defs

section \<open>Enumerations\<close>

datatype irq_status = INTR_ON | INTR_OFF

text \<open>The task states of \<open>types.h\<close>, with the numbers the compiler gives them.\<close>

datatype task_status = TASK_RUNNING | TASK_CREATED | TASK_READY | TASK_BLOCKED
  | TASK_WAITING | TASK_HANGING | TASK_SLEEP | TASK_DIED

fun task_status_code :: "task_status \<Rightarrow> u32" where
  "task_status_code TASK_RUNNING = 0"
| "task_status_code TASK_CREATED = 1"
| "task_status_code TASK_READY = 2"
| "task_status_code TASK_BLOCKED = 3"
| "task_status_code TASK_WAITING = 4"
| "task_status_code TASK_HANGING = 5"
| "task_status_code TASK_SLEEP = 6"
| "task_status_code TASK_DIED = 7"

lemma task_status_code_inj: "task_status_code a = task_status_code b \<longleftrightarrow> a = b"
  by (cases a; cases b) simp_all

end
