(* ===== verification/Gdt.thy ===== *)
theory Gdt
  imports Machine Os_Cfg
begin

text \<open>
  The global descriptor table of \<open>source/kernel/gdt/gdt.c\<close> and the loader's copy of it in
  \<open>source/loader/gdt16/gdt16.c\<close>.  The table is 256 packed entries of eight bytes in memory,
  at the address \<open>gdt\<close> the linker gives \<open>gdt_table\<close>.  \<open>gdt_entry_at\<close> reads an entry back
  as the structure of \<open>os_cfg.h\<close>; \<open>seg_base\<close>, \<open>seg_limit\<close> and \<open>seg_attr\<close> are what the
  processor makes of it.
\<close>

unbundle bit_operations_syntax

section \<open>Entries\<close>

record gdt_entry_t =
  limit_low :: u16
  base_low :: u16
  base_middle :: u8
  attributes :: u16
  base_high :: u8

definition gdt_entry_at :: "mem \<Rightarrow> u32 \<Rightarrow> gdt_entry_t" where
  "gdt_entry_at m desc = \<lparr>limit_low = ld16 m desc, base_low = ld16 m (desc + 2),
     base_middle = m (desc + 4), attributes = ld16 m (desc + 5), base_high = m (desc + 7)\<rparr>"

definition gdt_desc :: "u32 \<Rightarrow> u16 \<Rightarrow> u32" where
  "gdt_desc gdt selector = gdt + 8 * ucast (drop_bit 3 selector)"

section \<open>The operations\<close>

text \<open>The loop over \<open>i\<close> runs from 1; a free entry is one whose attributes are zero.\<close>

fun gdt_alloc_loop :: "u32 \<Rightarrow> mem \<Rightarrow> nat list \<Rightarrow> c_int" where
  "gdt_alloc_loop gdt m [] = - 1"
| "gdt_alloc_loop gdt m (i # is) =
    (let desc = gdt + 8 * of_nat i
     in if ld16 m (desc + 5) = 0 then of_nat (i * 8) else gdt_alloc_loop gdt m is)"

definition gdt_alloc_seg :: "u32 \<Rightarrow> mem \<Rightarrow> c_int" where
  "gdt_alloc_seg gdt m = gdt_alloc_loop gdt m [1..<GDT_SIZE]"

definition gdt_segment_set :: "u32 \<Rightarrow> mem \<Rightarrow> u16 \<Rightarrow> u32 \<Rightarrow> u32 \<Rightarrow> u16 \<Rightarrow> mem" where
  "gdt_segment_set gdt m selector limit base attr =
    (let desc = gdt_desc gdt selector;
         attr = (if limit > 0xFFFFF then attr OR 0x8000 else attr);
         limit = (if limit > 0xFFFFF then limit div 0x1000 else limit);
         m = st16 m desc (ucast (limit AND 0xFFFF));
         m = st16 m (desc + 2) (ucast (base AND 0xFFFF));
         m = m(desc + 4 := ucast (drop_bit 16 base AND 0xFF));
         m = st16 m (desc + 5) (ucast (ucast attr OR push_bit 8 (drop_bit 16 limit AND 0xF)));
         m = m(desc + 7 := ucast (drop_bit 24 base AND 0xFF))
     in m)"

definition gdt_clear :: "u32 \<Rightarrow> mem \<Rightarrow> mem" where
  "gdt_clear gdt m =
     fold (\<lambda>i m. gdt_segment_set gdt m (push_bit 3 (of_nat i)) 0 0 0) [0..<GDT_SIZE] m"

definition KERNEL_CODE_ATTR :: u16 where
  "KERNEL_CODE_ATTR =
     SEG_P_PRESENT OR SEG_DPL0 OR SEG_S_NORMAL OR SEG_TYPE_CODE OR SEG_TYPE_RW OR SEG_D"
definition KERNEL_DATA_ATTR :: u16 where
  "KERNEL_DATA_ATTR =
     SEG_P_PRESENT OR SEG_DPL0 OR SEG_S_NORMAL OR SEG_TYPE_DATA OR SEG_TYPE_RW OR SEG_D"
definition USER_CODE_ATTR :: u16 where
  "USER_CODE_ATTR =
     SEG_P_PRESENT OR SEG_DPL3 OR SEG_S_NORMAL OR SEG_TYPE_CODE OR SEG_TYPE_RW OR SEG_D"
definition USER_DATA_ATTR :: u16 where
  "USER_DATA_ATTR =
     SEG_P_PRESENT OR SEG_DPL3 OR SEG_S_NORMAL OR SEG_TYPE_DATA OR SEG_TYPE_RW OR SEG_D"

definition gdt_init :: "u32 \<Rightarrow> machine \<Rightarrow> machine" where
  "gdt_init gdt s =
    (let m = gdt_clear gdt (ram s);
         m = gdt_segment_set gdt m KERNEL_SELECTOR_CS 0xFFFFFFFF 0 KERNEL_CODE_ATTR;
         m = gdt_segment_set gdt m KERNEL_SELECTOR_DS 0xFFFFFFFF 0 KERNEL_DATA_ATTR;
         m = gdt_segment_set gdt m USER_SELECTOR_CS 0xFFFFFFFF 0 USER_CODE_ATTR;
         m = gdt_segment_set gdt m USER_SELECTOR_DS 0xFFFFFFFF 0 USER_DATA_ATTR
     in lgdt gdt (of_nat (8 * GDT_SIZE)) (s\<lparr>ram := m\<rparr>))"

text \<open>The 16-bit loader carries its own copy of the two functions.\<close>

definition gdt16_segment_set :: "u32 \<Rightarrow> mem \<Rightarrow> u16 \<Rightarrow> u32 \<Rightarrow> u32 \<Rightarrow> u16 \<Rightarrow> mem" where
  "gdt16_segment_set gdt m selector limit base attr =
    (let desc = gdt_desc gdt selector;
         attr = (if limit > 0xFFFFF then attr OR 0x8000 else attr);
         limit = (if limit > 0xFFFFF then limit div 0x1000 else limit);
         m = st16 m desc (ucast (limit AND 0xFFFF));
         m = st16 m (desc + 2) (ucast (base AND 0xFFFF));
         m = m(desc + 4 := ucast (drop_bit 16 base AND 0xFF));
         m = st16 m (desc + 5) (ucast (ucast attr OR push_bit 8 (drop_bit 16 limit AND 0xF)));
         m = m(desc + 7 := ucast (drop_bit 24 base AND 0xFF))
     in m)"

definition gdt16_init :: "u32 \<Rightarrow> machine \<Rightarrow> machine" where
  "gdt16_init gdt s =
    (let m = fold (\<lambda>i m. gdt16_segment_set gdt m (push_bit 3 (of_nat i)) 0 0 0)
               [0..<GDT_SIZE] (ram s);
         m = gdt16_segment_set gdt m KERNEL_SELECTOR_DS 0xFFFFFFFF 0 KERNEL_DATA_ATTR;
         m = gdt16_segment_set gdt m KERNEL_SELECTOR_CS 0xFFFFFFFF 0 KERNEL_CODE_ATTR
     in lgdt gdt (of_nat (8 * GDT_SIZE)) (s\<lparr>ram := m\<rparr>))"

lemma gdt16_segment_set_eq: "gdt16_segment_set = gdt_segment_set"
  by (intro ext) (simp add: gdt16_segment_set_def gdt_segment_set_def)

section \<open>What the processor reads\<close>

definition seg_base :: "gdt_entry_t \<Rightarrow> u32" where
  "seg_base e = ucast (base_low e) OR push_bit 16 (ucast (base_middle e))
     OR push_bit 24 (ucast (base_high e))"

definition seg_granular :: "gdt_entry_t \<Rightarrow> bool" where
  "seg_granular e \<longleftrightarrow> bit (attributes e) 15"

definition seg_raw_limit :: "gdt_entry_t \<Rightarrow> u32" where
  "seg_raw_limit e = ucast (limit_low e) OR push_bit 16 (ucast (drop_bit 8 (attributes e) AND 0xF))"

text \<open>With the granularity bit the limit counts pages, the last byte included.\<close>

definition seg_limit :: "gdt_entry_t \<Rightarrow> u32" where
  "seg_limit e = (if seg_granular e then push_bit 12 (seg_raw_limit e) OR 0xFFF
     else seg_raw_limit e)"

definition seg_attr :: "gdt_entry_t \<Rightarrow> u16" where
  "seg_attr e = attributes e AND 0xF0FF"

definition seg_dpl :: "gdt_entry_t \<Rightarrow> u16" where
  "seg_dpl e = drop_bit 5 (attributes e) AND 3"

section \<open>Setting an entry\<close>

definition eff_limit :: "u32 \<Rightarrow> u32" where
  "eff_limit limit = (if limit > 0xFFFFF then limit div 0x1000 else limit)"

definition eff_attr :: "u32 \<Rightarrow> u16 \<Rightarrow> u16" where
  "eff_attr limit attr = (if limit > 0xFFFFF then attr OR 0x8000 else attr)"

lemma gdt_entry_at_set:
  "gdt_entry_at (gdt_segment_set gdt m sel limit base attr) (gdt_desc gdt sel) =
    \<lparr>limit_low = ucast (eff_limit limit AND 0xFFFF), base_low = ucast (base AND 0xFFFF),
     base_middle = ucast (drop_bit 16 base AND 0xFF),
     attributes = ucast (ucast (eff_attr limit attr) OR push_bit 8 (drop_bit 16 (eff_limit limit) AND 0xF)),
     base_high = ucast (drop_bit 24 base AND 0xFF)\<rparr>"
proof -
  have upd: "ld16 (m(b := v)) a = ld16 m a" if "b \<noteq> a" "b \<noteq> a + 1" for m a b v
    using that by (simp add: ld16_def)
  have st: "ld16 (st16 m b v) a = ld16 m a" if "b \<noteq> a" "b \<noteq> a + 1" "b + 1 \<noteq> a" for m a b v
    using that by (simp add: ld16_def st16_def)
  have byte: "st16 m b v a = m a" if "b \<noteq> a" "b + 1 \<noteq> a" for m a b v
    using that by (auto simp: st16_def)
  show ?thesis
    by (simp add: gdt_entry_at_def gdt_segment_set_def Let_def eff_limit_def eff_attr_def
        upd st byte ld16_st16 add.assoc)
qed

lemma join_base:
  "ucast (ucast (b AND 0xFFFF) :: u16) OR push_bit 16 (ucast (ucast (drop_bit 16 b AND 0xFF) :: u8))
     OR push_bit 24 (ucast (ucast (drop_bit 24 b AND 0xFF) :: u8)) = (b :: u32)"
proof (rule bit_word_eqI)
  fix n assume "n < LENGTH(32)"
  then consider "n < 16" | "16 \<le> n" "n < 24" | "24 \<le> n" "n < 32" by fastforce
  then show "bit (ucast (ucast (b AND 0xFFFF) :: u16)
      OR push_bit 16 (ucast (ucast (drop_bit 16 b AND 0xFF) :: u8))
      OR push_bit 24 (ucast (ucast (drop_bit 24 b AND 0xFF) :: u8)) :: u32) n = bit b n"
    by cases (auto simp: bit_simps bit_masks)
qed

lemma bit_drop_mask20: "l \<le> (0xFFFFF :: u32) \<Longrightarrow> 20 \<le> n \<Longrightarrow> \<not> bit l n"
proof -
  assume "l \<le> (0xFFFFF :: u32)" "20 \<le> n"
  then have "unat l < 2 ^ 20" by (simp add: word_le_nat_alt)
  then have "take_bit 20 l = l" by (simp add: word_eq_iff_unsigned [where ?'a = nat] unsigned_take_bit_eq take_bit_nat_eq_self)
  then show "\<not> bit l n" using \<open>20 \<le> n\<close> by (metis bit_take_bit_iff not_le)
qed

text \<open>The limit bits inside the attributes, and the bits around them, as literals.\<close>

lemma bit_limit_field:
  "bit (0x0F00 :: u16) n \<longleftrightarrow> 8 \<le> n \<and> n < 12"
  "bit (0x0F00 :: u32) n \<longleftrightarrow> 8 \<le> n \<and> n < 12"
  "bit (0x0F00 :: int) n \<longleftrightarrow> 8 \<le> n \<and> n < 12"
proof -
  have e: "(0x0F00 :: u16) = push_bit 8 (mask 4)" "(0x0F00 :: u32) = push_bit 8 (mask 4)"
    "(0x0F00 :: int) = push_bit 8 (mask 4)"
    by (simp_all add: mask_eq_exp_minus_1 push_bit_eq_mult)
  show "bit (0x0F00 :: u16) n \<longleftrightarrow> 8 \<le> n \<and> n < 12" "bit (0x0F00 :: u32) n \<longleftrightarrow> 8 \<le> n \<and> n < 12"
    "bit (0x0F00 :: int) n \<longleftrightarrow> 8 \<le> n \<and> n < 12"
    unfolding e by (simp_all only: bit_push_bit_iff bit_mask_iff possible_bit_word) (simp_all, linarith+)
qed

lemma bit_attr_fields: "bit (0xF0FF :: int) n \<longleftrightarrow> n < 16 \<and> \<not> (8 \<le> n \<and> n < 12)"
  "bit (0xF0FF :: u16) n \<longleftrightarrow> n < 16 \<and> \<not> (8 \<le> n \<and> n < 12)"
proof -
  have e: "(0xF0FF :: int) = mask 16 AND NOT 0x0F00" "(0xF0FF :: u16) = NOT 0x0F00"
    by (simp_all add: mask_eq_exp_minus_1)
  show "bit (0xF0FF :: int) n \<longleftrightarrow> n < 16 \<and> \<not> (8 \<le> n \<and> n < 12)"
    "bit (0xF0FF :: u16) n \<longleftrightarrow> n < 16 \<and> \<not> (8 \<le> n \<and> n < 12)"
    unfolding e
    by (simp_all only: bit_and_iff bit_mask_iff bit_not_iff possible_bit_word bit_limit_field) simp_all
qed

lemma attr_no_limit_bits:
  assumes "a AND 0x0F00 = (0 :: u16)" "8 \<le> n" "n < 12"
  shows "\<not> bit a n"
  using assms by (metis bit_0_eq bit_and_iff bit_limit_field bot_apply bot_bool_def)

lemma join_limit:
  assumes "l \<le> (0xFFFFF :: u32)" and attr: "a AND 0x0F00 = (0 :: u16)"
  shows "ucast (ucast (l AND 0xFFFF) :: u16) OR push_bit 16
     (ucast (drop_bit 8 (ucast (ucast a OR push_bit 8 (drop_bit 16 l AND 0xF)) :: u16) AND 0xF)) = l"
proof (rule bit_word_eqI)
  fix n assume "n < LENGTH(32)"
  then consider "n < 16" | "16 \<le> n" "n < 20" | "20 \<le> n" "n < 32" by fastforce
  then show "bit (ucast (ucast (l AND 0xFFFF) :: u16) OR push_bit 16
     (ucast (drop_bit 8 (ucast (ucast a OR push_bit 8 (drop_bit 16 l AND 0xF)) :: u16) AND 0xF)) :: u32) n
     = bit l n"
  proof cases
    case 2
    with attr_no_limit_bits [OF attr, of "n - 8"] show ?thesis
      by (auto simp: bit_simps bit_masks bit_limit_field)
  next
    case 3
    with bit_drop_mask20 [OF assms(1)] show ?thesis by (auto simp: bit_simps bit_masks)
  qed (auto simp: bit_simps bit_masks)
qed

lemma eff_limit_le: "eff_limit limit \<le> 0xFFFFF"
proof -
  have "unat limit div 4096 \<le> 0xFFFFF" using unsigned_less [where 'a = nat, of limit] by simp
  then show ?thesis
    by (auto simp: eff_limit_def word_le_nat_alt unat_div not_less word_less_nat_alt)
qed

text \<open>What one call writes, read back as the processor reads it.\<close>

lemma seg_base_set [simp]:
  "seg_base (gdt_entry_at (gdt_segment_set gdt m sel limit base attr) (gdt_desc gdt sel)) = base"
  by (simp only: seg_base_def gdt_entry_at_set gdt_entry_t.select_convs join_base)

lemma seg_raw_limit_set:
  assumes "attr AND 0x0F00 = 0"
  shows "seg_raw_limit (gdt_entry_at (gdt_segment_set gdt m sel limit base attr) (gdt_desc gdt sel))
    = eff_limit limit"
proof -
  have "eff_attr limit attr AND 0x0F00 = 0"
    using assms by (simp add: eff_attr_def bit.conj_disj_distrib2)
  from join_limit [OF eff_limit_le this] show ?thesis
    by (simp only: seg_raw_limit_def gdt_entry_at_set gdt_entry_t.select_convs)
qed

lemma seg_attr_set:
  assumes "attr AND 0x0F00 = 0"
  shows "seg_attr (gdt_entry_at (gdt_segment_set gdt m sel limit base attr) (gdt_desc gdt sel))
    = eff_attr limit attr"
proof -
  have a: "eff_attr limit attr AND 0x0F00 = 0"
    using assms by (simp add: eff_attr_def bit.conj_disj_distrib2)
  have "ucast (ucast (eff_attr limit attr) OR push_bit 8 (drop_bit 16 (eff_limit limit) AND 0xF))
      AND 0xF0FF = eff_attr limit attr" (is "?l = ?r")
  proof (rule bit_word_eqI)
    fix n assume n: "n < LENGTH(16)"
    show "bit ?l n = bit ?r n"
      using n attr_no_limit_bits [OF a, of n]
      by (auto simp: bit_and_iff bit_or_iff bit_unsigned_iff bit_push_bit_iff bit_attr_fields
          bit_drop_bit_eq bit_masks bit_limit_field)
  qed
  then show ?thesis
    by (simp only: seg_attr_def gdt_entry_at_set gdt_entry_t.select_convs)
qed

lemma seg_granular_set:
  assumes "attr AND 0x8F00 = 0"
  shows "seg_granular (gdt_entry_at (gdt_segment_set gdt m sel limit base attr) (gdt_desc gdt sel))
    \<longleftrightarrow> limit > 0xFFFFF"
proof -
  have g: "bit (0x8F00 :: u16) 15" by simp
  then have "\<not> bit attr 15" using assms by (metis bit_0_eq bit_and_iff bot_apply bot_bool_def)
  moreover have "bit (0x8000 :: u16) 15" by simp
  ultimately show ?thesis
    by (simp add: seg_granular_def gdt_entry_at_set eff_attr_def bit_unsigned_iff bit_or_iff
        bit_push_bit_iff bit_masks bit_and_iff)
qed

subsection \<open>The other entries\<close>

lemma gdt_desc_slot: "gdt_desc gdt sel = slot8 gdt (unat (drop_bit 3 sel))"
  by (simp add: gdt_desc_def slot8_def)

lemma selector_index: "unat (drop_bit 3 (sel :: u16)) < 8192"
  using unsigned_less [where 'a = nat, of sel] by (simp add: drop_bit_eq_div unat_div less_mult_imp_div_less)

lemma gdt_segment_set_byte:
  assumes "\<And>j. j < 8 \<Longrightarrow> x \<noteq> gdt_desc gdt sel + of_nat j"
  shows "gdt_segment_set gdt m sel limit base attr x = m x"
  using assms [of 0] assms [of 1] assms [of 2] assms [of 3] assms [of 4] assms [of 5]
    assms [of 6] assms [of 7]
  by (simp add: gdt_segment_set_def Let_def st16_def add.assoc)

lemma gdt_entry_at_cong:
  assumes "\<And>j. j < 8 \<Longrightarrow> m (a + of_nat j) = m' (a + of_nat j)"
  shows "gdt_entry_at m a = gdt_entry_at m' a"
  using assms [of 0] assms [of 1] assms [of 2] assms [of 3] assms [of 4] assms [of 5]
    assms [of 6] assms [of 7]
  by (simp add: gdt_entry_at_def ld16_def add.assoc)

lemma gdt_entry_at_set_other:
  assumes "i < 8192" "i \<noteq> unat (drop_bit 3 sel)"
  shows "gdt_entry_at (gdt_segment_set gdt m sel limit base attr) (slot8 gdt i)
    = gdt_entry_at m (slot8 gdt i)"
proof (rule gdt_entry_at_cong)
  fix j :: nat assume "j < 8"
  with assms show "gdt_segment_set gdt m sel limit base attr (slot8 gdt i + of_nat j)
      = m (slot8 gdt i + of_nat j)"
    by (intro gdt_segment_set_byte) (metis gdt_desc_slot selector_index slot_bytes_inj)
qed

section \<open>Clearing and initialising the table\<close>

definition null_entry :: gdt_entry_t where
  "null_entry = \<lparr>limit_low = 0, base_low = 0, base_middle = 0, attributes = 0, base_high = 0\<rparr>"

definition flat_entry :: "u16 \<Rightarrow> gdt_entry_t" where
  "flat_entry attr = \<lparr>limit_low = 0xFFFF, base_low = 0, base_middle = 0,
     attributes = attr OR 0x8F00, base_high = 0\<rparr>"

definition gdt_table :: "u32 \<Rightarrow> mem \<Rightarrow> gdt_entry_t list" where
  "gdt_table gdt m = map (\<lambda>i. gdt_entry_at m (slot8 gdt i)) [0..<GDT_SIZE]"

lemma gdt_segment_set_null:
  "gdt_entry_at (gdt_segment_set gdt m sel 0 0 0) (gdt_desc gdt sel) = null_entry"
  by (simp add: gdt_entry_at_set null_entry_def eff_limit_def eff_attr_def)

lemma gdt_segment_set_flat:
  "gdt_entry_at (gdt_segment_set gdt m sel 0xFFFFFFFF 0 attr) (gdt_desc gdt sel) = flat_entry attr"
proof -
  have "ucast (ucast (attr OR 0x8000) OR (0xF00 :: u32)) = attr OR (0x8F00 :: u16)"
  proof (rule bit_word_eqI)
    have e: "(0x8F00 :: u16) = 0x8000 OR 0x0F00" by simp
    fix n assume "n < LENGTH(16)"
    then show "bit (ucast (ucast (attr OR 0x8000) OR (0xF00 :: u32)) :: u16) n
        = bit (attr OR (0x8F00 :: u16)) n"
      unfolding e by (simp only: bit_or_iff bit_unsigned_iff bit_limit_field possible_bit_word) auto
  qed
  then show ?thesis by (simp add: gdt_entry_at_set flat_entry_def eff_limit_def eff_attr_def)
qed

text \<open>A write to one slot of the table, seen through \<open>gdt_table\<close>.\<close>

lemma gdt_table_set:
  "gdt_table gdt (gdt_segment_set gdt m sel limit base attr) =
    (gdt_table gdt m)[unat (drop_bit 3 sel) :=
       gdt_entry_at (gdt_segment_set gdt m sel limit base attr) (gdt_desc gdt sel)]"
proof (rule nth_equalityI)
  fix i assume "i < length (gdt_table gdt (gdt_segment_set gdt m sel limit base attr))"
  then have i: "i < 256" by (simp add: gdt_table_def GDT_SIZE_def)
  show "gdt_table gdt (gdt_segment_set gdt m sel limit base attr) ! i =
    (gdt_table gdt m)[unat (drop_bit 3 sel) :=
       gdt_entry_at (gdt_segment_set gdt m sel limit base attr) (gdt_desc gdt sel)] ! i"
  proof (cases "i = unat (drop_bit 3 sel)")
    case True
    with i show ?thesis by (simp add: gdt_table_def GDT_SIZE_def gdt_desc_slot)
  next
    case False
    with i show ?thesis by (simp add: gdt_table_def GDT_SIZE_def gdt_entry_at_set_other)
  qed
qed (simp add: gdt_table_def)

lemma unat_selector_of:
  assumes "i < 8192"
  shows "unat (drop_bit 3 (push_bit 3 (of_nat i) :: u16)) = i"
proof -
  have "unat (push_bit 3 (of_nat i) :: u16) = 8 * i"
    using assms by (simp add: push_bit_eq_mult unat_word_ariths unsigned_of_nat take_bit_nat_eq_self)
  then show ?thesis by (simp add: drop_bit_eq_div unat_div)
qed

lemma length_gdt_table [simp]: "length (gdt_table gdt m) = GDT_SIZE"
  by (simp add: gdt_table_def)

lemma gdt_clear_table: "gdt_table gdt (gdt_clear gdt m) = replicate GDT_SIZE null_entry"
proof -
  define clear where
    "clear n = fold (\<lambda>i m. gdt_segment_set gdt m (push_bit 3 (of_nat i)) 0 0 0) [0..<n] m" for n
  have step: "clear (Suc n) = gdt_segment_set gdt (clear n) (push_bit 3 (of_nat n)) 0 0 0" for n
    by (simp add: clear_def)
  have "n \<le> GDT_SIZE \<Longrightarrow> take n (gdt_table gdt (clear n)) = replicate n null_entry" for n
  proof (induction n)
    case (Suc n)
    then have n: "n < GDT_SIZE" "unat (drop_bit 3 (push_bit 3 (of_nat n) :: u16)) = n"
      using unat_selector_of [of n] by (simp_all add: GDT_SIZE_def)
    with Suc show ?case
      by (simp add: step gdt_table_set gdt_segment_set_null take_Suc_conv_app_nth
          replicate_append_same)
  qed simp
  from this [of GDT_SIZE] show ?thesis by (simp add: gdt_clear_def clear_def)
qed

lemma gdt_init_table:
  "gdt_table gdt (ram (gdt_init gdt s)) =
    [null_entry, flat_entry KERNEL_CODE_ATTR, flat_entry KERNEL_DATA_ATTR, null_entry,
     flat_entry USER_CODE_ATTR, flat_entry USER_DATA_ATTR] @ replicate 250 null_entry"
proof -
  have i: "unat (drop_bit 3 KERNEL_SELECTOR_CS) = Suc 0" "unat (drop_bit 3 KERNEL_SELECTOR_DS) = Suc (Suc 0)"
    "unat (drop_bit 3 USER_SELECTOR_CS) = Suc (Suc (Suc (Suc 0)))"
    "unat (drop_bit 3 USER_SELECTOR_DS) = Suc (Suc (Suc (Suc (Suc 0))))"
    by (simp_all add: selector_defs)
  have r: "replicate GDT_SIZE e = [e, e, e, e, e, e] @ replicate 250 e" for e :: gdt_entry_t
    by (simp add: GDT_SIZE_def numeral_eq_Suc)
  show ?thesis
    by (simp add: gdt_init_def Let_def gdt_table_set gdt_segment_set_flat i gdt_clear_table r)
qed

text \<open>Nothing but the table changes.\<close>

lemma gdt_segment_set_outside:
  assumes "x \<notin> (\<lambda>i. gdt + of_nat i) ` {..<2048}" "unat (drop_bit 3 sel) < 256"
  shows "gdt_segment_set gdt m sel limit base attr x = m x"
proof (rule gdt_segment_set_byte)
  fix j :: nat assume j: "j < 8"
  have e: "gdt_desc gdt sel + of_nat j = gdt + of_nat (8 * unat (drop_bit 3 sel) + j)"
    by (simp add: gdt_desc_slot slot8_def)
  have "8 * unat (drop_bit 3 sel) + j < 2048" using assms(2) j by simp
  then show "x \<noteq> gdt_desc gdt sel + of_nat j" using assms(1) unfolding e by blast
qed

lemma gdt_clear_outside:
  assumes "x \<notin> (\<lambda>i. gdt + of_nat i) ` {..<2048}"
  shows "gdt_clear gdt m x = m x"
proof -
  have "fold (\<lambda>i m. gdt_segment_set gdt m (push_bit 3 (of_nat i)) 0 0 0) [0..<n] m x = m x" if "n \<le> 256" for n
    using that
  proof (induction n)
    case (Suc n)
    then show ?case by (simp add: gdt_segment_set_outside [OF assms] unat_selector_of GDT_SIZE_def)
  qed simp
  from this [of 256] show ?thesis by (simp add: gdt_clear_def GDT_SIZE_def del: upt_Suc)
qed

lemma gdt_init_frame:
  assumes "x \<notin> (\<lambda>i. gdt + of_nat i) ` {..<2048}"
  shows "ram (gdt_init gdt s) x = ram s x"
  by (simp add: gdt_init_def Let_def gdt_segment_set_outside [OF assms] gdt_clear_outside [OF assms] selector_defs)

text \<open>The loader's table.\<close>

lemma gdt16_init_eq:
  "gdt16_init gdt s = lgdt gdt (of_nat (8 * GDT_SIZE)) (s\<lparr>ram :=
     gdt_segment_set gdt (gdt_segment_set gdt (gdt_clear gdt (ram s)) KERNEL_SELECTOR_DS 0xFFFFFFFF 0 KERNEL_DATA_ATTR)
       KERNEL_SELECTOR_CS 0xFFFFFFFF 0 KERNEL_CODE_ATTR\<rparr>)"
  by (simp only: gdt16_init_def gdt16_segment_set_eq Let_def gdt_clear_def)

lemma gdt16_init_table:
  "gdt_table gdt (ram (gdt16_init gdt s)) =
    [null_entry, flat_entry KERNEL_CODE_ATTR, flat_entry KERNEL_DATA_ATTR] @ replicate 253 null_entry"
proof -
  have i: "unat (drop_bit 3 KERNEL_SELECTOR_CS) = Suc 0" "unat (drop_bit 3 KERNEL_SELECTOR_DS) = Suc (Suc 0)"
    by (simp_all add: selector_defs)
  have r: "replicate GDT_SIZE e = [e, e, e] @ replicate 253 e" for e :: gdt_entry_t
    by (simp add: GDT_SIZE_def numeral_eq_Suc)
  show ?thesis by (simp add: gdt16_init_eq gdt_table_set gdt_segment_set_flat i gdt_clear_table r)
qed

lemma gdt16_init_frame:
  assumes "x \<notin> (\<lambda>i. gdt + of_nat i) ` {..<2048}"
  shows "ram (gdt16_init gdt s) x = ram s x"
  by (simp add: gdt16_init_eq gdt_segment_set_outside [OF assms] gdt_clear_outside [OF assms] selector_defs)

section \<open>Finding a free entry\<close>

definition entry_free :: "gdt_entry_t \<Rightarrow> bool" where
  "entry_free e \<longleftrightarrow> attributes e = 0"

lemma gdt_alloc_loop_find:
  "gdt_alloc_loop gdt m is =
    (case find (\<lambda>i. entry_free (gdt_entry_at m (slot8 gdt i))) is of
       None \<Rightarrow> - 1 | Some i \<Rightarrow> of_nat (i * 8))"
  by (induction "is")
    (simp_all add: Let_def entry_free_def gdt_entry_at_def slot8_def)

lemma alloc_find:
  "gdt_alloc_seg gdt m =
    (case find (\<lambda>i. entry_free (gdt_entry_at m (slot8 gdt i))) [1..<GDT_SIZE] of
       None \<Rightarrow> - 1 | Some i \<Rightarrow> of_nat (i * 8))"
  by (simp only: gdt_alloc_seg_def gdt_alloc_loop_find)

lemma slot_selector_neq: "i < GDT_SIZE \<Longrightarrow> (of_nat (i * 8) :: c_int) \<noteq> - 1"
proof
  assume i: "i < GDT_SIZE" and "(of_nat (i * 8) :: c_int) = - 1"
  then have "unat (of_nat (i * 8) :: c_int) = unat (- 1 :: c_int)" by (simp only:)
  moreover have "unat (of_nat (i * 8) :: c_int) = i * 8"
    using i by (intro unat_of_nat_word) (simp add: GDT_SIZE_def)
  moreover have "unat (- 1 :: c_int) = 2 ^ 32 - 1"
    by (simp add: unsigned_minus_1_eq_mask mask_eq_exp_minus_1)
  ultimately show False using i by (simp add: GDT_SIZE_def)
qed

lemma unat_slot_selector:
  assumes "i < GDT_SIZE"
  shows "unat (drop_bit 3 (ucast (of_nat (i * 8) :: c_int) :: u16)) = i"
proof -
  have "unat (of_nat (i * 8) :: c_int) = i * 8"
    using assms by (intro unat_of_nat_word) (simp add: GDT_SIZE_def)
  then have "unat (ucast (of_nat (i * 8) :: c_int) :: u16) = i * 8"
    using assms by (simp only: unsigned_ucast_eq) (simp add: GDT_SIZE_def take_bit_nat_eq_self)
  then show ?thesis by (simp add: drop_bit_eq_div unat_div)
qed

lemma low_page_join: "push_bit 12 (l div 0x1000) OR 0xFFF = (l :: u32) OR 0xFFF"
proof (rule bit_word_eqI)
  fix n assume n: "n < LENGTH(32)"
  have "l div 0x1000 = drop_bit 12 l" by (simp add: drop_bit_eq_div)
  with n show "bit (push_bit 12 (l div 0x1000) OR 0xFFF) n = bit (l OR 0xFFF) n"
    by (auto simp: bit_simps bit_masks)
qed

lemma attr_fields_sub:
  assumes a: "attr AND 0x8F00 = (0 :: u16)"
  shows "attr AND 0x0F00 = 0" "eff_attr limit attr AND 0x7FFF = attr"
proof -
  have e: "(0x8F00 :: u16) = 0x8000 OR 0x0F00" by simp
  have "attr AND 0x0F00 = (attr AND 0x8F00) AND 0x0F00" by (simp add: and.assoc)
  also have "\<dots> = 0" unfolding a by simp
  finally show "attr AND 0x0F00 = 0" .
  have "attr AND 0x8000 = (attr AND 0x8F00) AND 0x8000" by (simp add: and.assoc)
  also have "\<dots> = 0" unfolding a by simp
  finally have z: "attr AND 0x8000 = 0" .
  have "(0x8000 OR 0x7FFF :: u16) = - 1" by simp
  then have "attr = attr AND (0x8000 OR 0x7FFF)" by (simp only: and.right_neutral)
  also have "\<dots> = attr AND 0x7FFF" using z by (simp only: bit.conj_disj_distrib) simp
  finally show "eff_attr limit attr AND 0x7FFF = attr"
    by (simp add: eff_attr_def bit.conj_disj_distrib2)
qed

lemma seg_limit_set:
  assumes "attr AND 0x8F00 = 0"
  shows "seg_limit (gdt_entry_at (gdt_segment_set gdt m sel limit base attr) (gdt_desc gdt sel))
    = (if limit > 0xFFFFF then limit OR 0xFFF else limit)"
  unfolding seg_limit_def seg_granular_set [OF assms] seg_raw_limit_set [OF attr_fields_sub(1) [OF assms]]
  by (simp add: eff_limit_def low_page_join)

section \<open>The descriptor table is correct\<close>

text \<open>
  C22: \<open>gdt_segment_set\<close> writes a descriptor from which the processor reads back the base
  and the attributes asked for, and the limit asked for: exactly below one megabyte, and
  rounded up to the end of its page, with the granularity bit set, from there on.  No
  other entry of the table changes.
\<close>

theorem gdt_segment_set_correct:
  assumes "attr AND 0x8F00 = 0" and "i < 8192" and "i \<noteq> unat (drop_bit 3 sel)"
  shows "let m' = gdt_segment_set gdt m sel limit base attr; e = gdt_entry_at m' (gdt_desc gdt sel)
    in seg_base e = base \<and> seg_attr e AND 0x7FFF = attr
      \<and> seg_granular e = (limit > 0xFFFFF)
      \<and> seg_limit e = (if limit > 0xFFFFF then limit OR 0xFFF else limit)
      \<and> gdt_entry_at m' (slot8 gdt i) = gdt_entry_at m (slot8 gdt i)"
  using assms attr_fields_sub [OF assms(1)]
  by (simp add: Let_def seg_attr_set seg_granular_set seg_limit_set gdt_entry_at_set_other)

theorem gdt_segment_set_correct_witness:
  "gdt_entry_at (gdt_segment_set 0x1000 (\<lambda>_. 0) 0x18 103 0x20048 0x89) (slot8 0x1000 1)
      = gdt_entry_at (\<lambda>_. 0) (slot8 0x1000 1)
   \<and> seg_limit (gdt_entry_at (gdt_segment_set 0x1000 (\<lambda>_. 0) 0x18 103 0x20048 0x89)
       (gdt_desc 0x1000 0x18)) = 103"
  using gdt_segment_set_correct [where attr = "0x89" and i = 1 and sel = "0x18"
      and gdt = "0x1000" and m = "\<lambda>_. 0" and limit = 103 and base = "0x20048"]
  by (simp add: Let_def)

text \<open>
  \<open>gdt_alloc_seg\<close> returns the selector of the first free entry after the null
  descriptor, and \<open>-1\<close> exactly when entries 1 to 255 are all in use.
\<close>

theorem gdt_alloc_seg_correct:
  "(if \<exists>i\<in>{1..<256}. entry_free (gdt_entry_at m (slot8 gdt i))
    then \<exists>i\<in>{1..<256}. gdt_alloc_seg gdt m = of_nat (i * 8)
      \<and> entry_free (gdt_entry_at m (slot8 gdt i))
      \<and> \<not> (\<exists>j\<in>{1..<i}. entry_free (gdt_entry_at m (slot8 gdt j)))
    else gdt_alloc_seg gdt m = - 1)"
proof (cases "find (\<lambda>i. entry_free (gdt_entry_at m (slot8 gdt i))) [1..<GDT_SIZE]")
  case None
  then have "\<not> (\<exists>i\<in>{1..<256}. entry_free (gdt_entry_at m (slot8 gdt i)))"
    by (auto simp: find_None_iff GDT_SIZE_def)
  moreover have "gdt_alloc_seg gdt m = - 1" unfolding alloc_find None by simp
  ultimately show ?thesis by simp
next
  case (Some i)
  then have "i \<in> {1..<256} \<and> entry_free (gdt_entry_at m (slot8 gdt i))
      \<and> \<not> (\<exists>j\<in>{1..<i}. entry_free (gdt_entry_at m (slot8 gdt j)))"
    unfolding find_upt_first by (simp add: GDT_SIZE_def)
  moreover have "gdt_alloc_seg gdt m = of_nat (i * 8)" unfolding alloc_find Some by simp
  ultimately show ?thesis by metis
qed

text \<open>
  a selector that \<open>gdt_alloc_seg\<close> has handed out and \<open>gdt_segment_set\<close> has filled in
  with attributes other than zero is not handed out again.
\<close>

theorem gdt_alloc_reserves:
  assumes "gdt_alloc_seg gdt m \<noteq> - 1" and "attr AND 0x8F00 = 0" and "attr \<noteq> 0"
  shows "gdt_alloc_seg gdt (gdt_segment_set gdt m (ucast (gdt_alloc_seg gdt m)) limit base attr)
    \<noteq> gdt_alloc_seg gdt m"
proof -
  define P where "P m i \<longleftrightarrow> entry_free (gdt_entry_at m (slot8 gdt i))" for m i
  from assms(1) obtain i where i: "find (P m) [1..<GDT_SIZE] = Some i"
    by (cases "find (P m) [1..<GDT_SIZE]") (simp_all add: alloc_find P_def [abs_def])
  then have sel: "gdt_alloc_seg gdt m = of_nat (i * 8)" by (simp add: alloc_find P_def [abs_def])
  from i have lt: "i < GDT_SIZE" by (simp add: find_upt_first)
  define m' where "m' = gdt_segment_set gdt m (ucast (of_nat (i * 8) :: c_int)) limit base attr"
  have "seg_attr (gdt_entry_at m' (slot8 gdt i)) = eff_attr limit attr"
    using seg_attr_set [OF attr_fields_sub(1) [OF assms(2)],
      of gdt m "ucast (of_nat (i * 8) :: c_int)" limit base]
    by (simp only: m'_def gdt_desc_slot unat_slot_selector [OF lt])
  moreover have "eff_attr limit attr \<noteq> 0"
    using assms(3) attr_fields_sub(2) [OF assms(2), of limit] by auto
  ultimately have used: "\<not> P m' i"
    by (auto simp: P_def entry_free_def seg_attr_def)
  have "gdt_alloc_seg gdt m' \<noteq> of_nat (i * 8)"
  proof
    assume eq: "gdt_alloc_seg gdt m' = of_nat (i * 8)"
    then obtain j where j: "find (P m') [1..<GDT_SIZE] = Some j"
      using slot_selector_neq [OF lt]
      by (cases "find (P m') [1..<GDT_SIZE]") (simp_all add: alloc_find P_def [abs_def])
    then have "gdt_alloc_seg gdt m' = of_nat (j * 8)" by (simp add: alloc_find P_def [abs_def])
    moreover from j have jlt: "j < GDT_SIZE" and "P m' j" by (simp_all add: find_upt_first)
    ultimately have "unat (drop_bit 3 (ucast (of_nat (j * 8) :: c_int) :: u16))
        = unat (drop_bit 3 (ucast (of_nat (i * 8) :: c_int) :: u16))" using eq by (simp only:)
    then have "j = i" by (simp only: unat_slot_selector [OF lt] unat_slot_selector [OF jlt])
    with \<open>P m' j\<close> used show False by simp
  qed
  then show ?thesis unfolding sel m'_def .
qed

theorem gdt_alloc_reserves_witness:
  "gdt_alloc_seg 0x1000 (gdt_segment_set 0x1000 (\<lambda>_. 0)
      (ucast (gdt_alloc_seg 0x1000 (\<lambda>_. 0))) 103 0x20048 0x89) \<noteq> 8"
proof -
  have a: "gdt_alloc_seg 0x1000 (\<lambda>_. 0) = 8"
    by (simp add: gdt_alloc_seg_def GDT_SIZE_def upt_rec Let_def ld16_def)
  show ?thesis
    using gdt_alloc_reserves [where gdt = "0x1000" and m = "\<lambda>_. 0" and attr = "0x89"
      and limit = 103 and base = "0x20048"] by (simp add: a)
qed

text \<open>
  after \<open>gdt_init\<close> the table register names the whole table, its entries are the
  null descriptor, flat 4 GB code and data segments of the kernel (privilege 0) and of the
  user (privilege 3), and 251 null entries; the next selector handed out is 0x18, the
  kernel's task-state selector.
\<close>

theorem gdt_init_flat:
  "gdtr (gdt_init gdt s) = (gdt, 2047)
   \<and> gdt_table gdt (ram (gdt_init gdt s)) =
      [null_entry, flat_entry KERNEL_CODE_ATTR, flat_entry KERNEL_DATA_ATTR, null_entry,
       flat_entry USER_CODE_ATTR, flat_entry USER_DATA_ATTR] @ replicate 250 null_entry
   \<and> map (\<lambda>i. let e = gdt_table gdt (ram (gdt_init gdt s)) ! i
              in (seg_base e, seg_limit e, seg_dpl e)) [1, 2, 4, 5] =
      [(0, 0xFFFFFFFF, 0), (0, 0xFFFFFFFF, 0), (0, 0xFFFFFFFF, 3), (0, 0xFFFFFFFF, 3)]
   \<and> gdt_alloc_seg gdt (ram (gdt_init gdt s)) = 0x18"
proof -
  define t where "t = gdt_table gdt (ram (gdt_init gdt s))"
  have used: "\<not> entry_free (flat_entry KERNEL_CODE_ATTR)" "\<not> entry_free (flat_entry KERNEL_DATA_ATTR)"
    by (simp_all add: entry_free_def flat_entry_def KERNEL_CODE_ATTR_def KERNEL_DATA_ATTR_def seg_defs)
  have "find (\<lambda>i. entry_free (t ! i)) [1..<GDT_SIZE] = Some 3"
    unfolding find_upt_first
    by (auto simp: t_def gdt_init_table GDT_SIZE_def used less_Suc_eq numeral_3_eq_3)
      (simp add: entry_free_def null_entry_def)
  moreover have "find (\<lambda>i. entry_free (gdt_entry_at (ram (gdt_init gdt s)) (slot8 gdt i)))
      [1..<GDT_SIZE] = find (\<lambda>i. entry_free (t ! i)) [1..<GDT_SIZE]"
    by (rule find_cong) (auto simp: t_def gdt_table_def)
  ultimately have "gdt_alloc_seg gdt (ram (gdt_init gdt s)) = 0x18" by (simp add: alloc_find)
  then show ?thesis
    by (simp add: gdt_init_table Let_def seg_base_def seg_limit_def seg_dpl_def seg_granular_def
        seg_raw_limit_def flat_entry_def seg_defs KERNEL_CODE_ATTR_def KERNEL_DATA_ATTR_def
        USER_CODE_ATTR_def USER_DATA_ATTR_def)
      (simp add: gdt_init_def Let_def GDT_SIZE_def)
qed

text \<open>
  C39: The loader's descriptor writer is the kernel's, on every input, and the table the loader
  installs agrees with the kernel's later one in the null descriptor and both kernel segments:
  replacing the one by the other under a running kernel changes no segment in use.
\<close>

theorem gdt16_agrees:
  "gdt16_segment_set = gdt_segment_set
   \<and> gdt_table gdt (ram (gdt16_init gdt s)) =
       [null_entry, flat_entry KERNEL_CODE_ATTR, flat_entry KERNEL_DATA_ATTR] @ replicate 253 null_entry
   \<and> take 4 (gdt_table gdt' (ram (gdt_init gdt' t))) = take 4 (gdt_table gdt (ram (gdt16_init gdt s)))"
proof -
  have "replicate 253 null_entry = null_entry # replicate 252 null_entry" by (simp add: numeral_eq_Suc)
  then show ?thesis by (simp add: gdt16_segment_set_eq gdt_init_table gdt16_init_table)
qed

end
