(* ===== verification/Klib.thy ===== *)
theory Klib
  imports Prelude
begin

text \<open>
  The byte and string routines of \<open>source/kernel/tools/klib.c\<close> and the hexadecimal
  printer of \<open>source/kernel/tools/kmath.c\<close>, over the byte-addressed memory.  A loop that
  looks for a terminating zero may run for ever, so what uses one returns an option, and
  \<open>None\<close> is not returning.  Loop counters that stay between \<open>-1\<close> and \<open>2 ^ 31\<close> are
  integers; what is stored is truncated as in the code.
\<close>

unbundle bit_operations_syntax

section \<open>Copying and filling\<close>

text \<open>\<open>while (size--)\<close> with a size that is not negative runs \<open>size\<close> times.\<close>

fun kmemset_loop :: "mem \<Rightarrow> u32 \<Rightarrow> u8 \<Rightarrow> nat \<Rightarrow> mem" where
  "kmemset_loop m d data 0 = m"
| "kmemset_loop m d data (Suc n) = kmemset_loop (m(d := data)) (d + 1) data n"

definition kmemset :: "mem \<Rightarrow> u32 \<Rightarrow> u8 \<Rightarrow> c_int \<Rightarrow> mem" where
  "kmemset m dest data sz = (if sint sz < 0 then m else kmemset_loop m dest data (nat (sint sz)))"

fun kmemcpy_loop :: "mem \<Rightarrow> u32 \<Rightarrow> u32 \<Rightarrow> nat \<Rightarrow> mem" where
  "kmemcpy_loop m d s 0 = m"
| "kmemcpy_loop m d s (Suc n) = kmemcpy_loop (m(d := m s)) (d + 1) (s + 1) n"

definition kmemcpy :: "mem \<Rightarrow> u32 \<Rightarrow> u32 \<Rightarrow> c_int \<Rightarrow> mem" where
  "kmemcpy m dest src sz = (if sint sz < 0 then m else kmemcpy_loop m dest src (nat (sint sz)))"

section \<open>Strings\<close>

partial_function (option) kstrlen_loop :: "mem \<Rightarrow> u32 \<Rightarrow> c_int \<Rightarrow> c_int option" where
  "kstrlen_loop m buf cnt =
    (if m (buf + cnt) \<noteq> 0 then kstrlen_loop m buf (cnt + 1) else Some cnt)"

definition kstrlen :: "mem \<Rightarrow> u32 \<Rightarrow> c_int option" where
  "kstrlen m buf = kstrlen_loop m buf 0"

partial_function (option) karr_strlen_loop :: "mem \<Rightarrow> u32 \<Rightarrow> c_int \<Rightarrow> c_int option" where
  "karr_strlen_loop m buf cnt =
    (if ld32 m (buf + 4 * cnt) \<noteq> 0 then karr_strlen_loop m buf (cnt + 1) else Some cnt)"

definition karr_strlen :: "mem \<Rightarrow> u32 \<Rightarrow> c_int option" where
  "karr_strlen m buf = karr_strlen_loop m buf 0"

fun kstrcpy_loop :: "mem \<Rightarrow> u32 \<Rightarrow> u32 \<Rightarrow> nat \<Rightarrow> nat \<Rightarrow> mem" where
  "kstrcpy_loop m dest src i 0 = m"
| "kstrcpy_loop m dest src i (Suc n) =
    kstrcpy_loop (m(dest + of_nat i := m (src + of_nat i))) dest src (Suc i) n"

definition kstrcpy :: "mem \<Rightarrow> u32 \<Rightarrow> u32 \<Rightarrow> mem option" where
  "kstrcpy m dest src =
    (case kstrlen m src of None \<Rightarrow> None
     | Some len \<Rightarrow> Some (kstrcpy_loop m dest src 0 (nat (sint len))))"

section \<open>Exchanging and reversing\<close>

datatype DateType = INT_TYPE | UINT8_TYPE | UINT16_TYPE | UINT32_TYPE | FLOAT_TYPE
  | DOUBLE_TYPE | CHAR_TYPE

text \<open>
  Every branch but the last writes \<open>*s = *p\<close> after \<open>*p = *s\<close>: the value saved in
  \<open>temp\<close> is never used.  A \<open>float\<close> is moved as its 32 bits and a \<open>double\<close> as its two
  words.
\<close>

definition kswap :: "mem \<Rightarrow> u32 \<Rightarrow> u32 \<Rightarrow> DateType \<Rightarrow> mem" where
  "kswap m p s type =
    (case type of
       INT_TYPE \<Rightarrow> (let m = st32 m p (ld32 m s) in st32 m s (ld32 m p))
     | UINT8_TYPE \<Rightarrow> (let m = m(p := m s) in m(s := m p))
     | UINT16_TYPE \<Rightarrow> (let m = st16 m p (ld16 m s) in st16 m s (ld16 m p))
     | UINT32_TYPE \<Rightarrow> (let m = st32 m p (ld32 m s) in st32 m s (ld32 m p))
     | FLOAT_TYPE \<Rightarrow> (let m = st32 m p (ld32 m s) in st32 m s (ld32 m p))
     | DOUBLE_TYPE \<Rightarrow>
         (let lo = ld32 m s; hi = ld32 m (s + 4); m = st32 (st32 m p lo) (p + 4) hi;
              lo = ld32 m p; hi = ld32 m (p + 4)
          in st32 (st32 m s lo) (s + 4) hi)
     | CHAR_TYPE \<Rightarrow> (let temp = m p; m = m(p := m s) in m(s := temp)))"

function kreverse_loop :: "(mem \<Rightarrow> int \<Rightarrow> int \<Rightarrow> mem) \<Rightarrow> mem \<Rightarrow> int \<Rightarrow> int \<Rightarrow> mem" where
  "kreverse_loop swap m l r =
    (if l < r then kreverse_loop swap (swap m l r) (l + 1) (r - 1) else m)"
  by auto
termination by (relation "measure (\<lambda>(swap, m, l, r). nat (r - l))") auto

definition kreverse_charstr :: "mem \<Rightarrow> u32 \<Rightarrow> mem option" where
  "kreverse_charstr m buf =
    (case kstrlen m buf of None \<Rightarrow> None
     | Some len \<Rightarrow> Some (kreverse_loop
         (\<lambda>m l r. kswap m (buf + of_int l) (buf + of_int r) CHAR_TYPE) m 0 (sint len - 1)))"

definition kreverse_intstr :: "mem \<Rightarrow> u32 \<Rightarrow> mem option" where
  "kreverse_intstr m buf =
    (case karr_strlen m buf of None \<Rightarrow> None
     | Some len \<Rightarrow> Some (kreverse_loop
         (\<lambda>m l r. kswap m (buf + 4 * of_int l) (buf + 4 * of_int r) INT_TYPE) m 0 (sint len - 1)))"

section \<open>Numbers\<close>

lemma sdiv10_less: "n \<noteq> 0 \<Longrightarrow> \<bar>n sdiv 10\<bar> < \<bar>n :: int\<bar>"
  by (simp add: signed_divide_int_def abs_mult)

function kintlen_loop :: "int \<Rightarrow> nat" where
  "kintlen_loop n = (if n \<noteq> 0 then Suc (kintlen_loop (n sdiv 10)) else 0)"
  by auto
termination by (relation "measure (\<lambda>n. nat \<bar>n\<bar>)") (auto simp: sdiv10_less)

definition kintlen :: "c_int \<Rightarrow> c_int" where
  "kintlen n = (if n = 0 then 1 else of_nat (kintlen_loop (sint n)))"

function kitoa_loop :: "mem \<Rightarrow> u32 \<Rightarrow> int \<Rightarrow> nat \<Rightarrow> mem \<times> nat" where
  "kitoa_loop m p num i =
    (if num \<noteq> 0 then kitoa_loop (m(p := word_of_int (48 + num smod 10))) (p + 1) (num sdiv 10) (Suc i)
     else (m, i))"
  by auto
termination by (relation "measure (\<lambda>(m, p, num, i). nat \<bar>num\<bar>)") (auto simp: sdiv10_less)

text \<open>\<open>sizeof(buf)\<close> is the size of a pointer: four bytes are cleared.\<close>

definition kitoa_s :: "mem \<Rightarrow> u32 \<Rightarrow> c_int \<Rightarrow> c_int \<Rightarrow> mem option" where
  "kitoa_s m buf value sz =
    (let m = kmemset m buf 0 4; (m, i) = kitoa_loop m buf (sint value) 0
     in kreverse_charstr (m(buf + of_nat i := 0)) buf)"

function hex_loop :: "mem \<Rightarrow> u32 \<Rightarrow> int \<Rightarrow> nat \<Rightarrow> mem \<times> nat" where
  "hex_loop m buf num i =
    (if num > 0 then
       let remainder = num smod 16;
           c = (if remainder < 10 then remainder + 48 else remainder + 55)
       in hex_loop (m(buf + of_nat i := word_of_int c)) buf (num sdiv 16) (Suc i)
     else (m, i))"
  by auto
termination by (relation "measure (\<lambda>(m, buf, num, i). nat num)")
  (auto simp: signed_divide_int_def)

definition kdecimalToHexadecimal :: "mem \<Rightarrow> u32 \<Rightarrow> c_int \<Rightarrow> mem option" where
  "kdecimalToHexadecimal m hexadecimalNum decimalNum =
    (if decimalNum = 0 then Some (m(hexadecimalNum := 48, hexadecimalNum + 1 := 0))
     else let (m, i) = hex_loop m hexadecimalNum (sint decimalNum) 0
          in kreverse_charstr (m(hexadecimalNum + of_nat i := 0)) hexadecimalNum)"

section \<open>Stretches of memory\<close>

definition region :: "u32 \<Rightarrow> nat \<Rightarrow> u32 set" where
  "region a n = (\<lambda>i. a + of_nat i) ` {..<n}"

lemma region_0 [simp]: "region a 0 = {}"
  by (simp add: region_def)

lemma region_Suc: "region a (Suc n) = insert a (region (a + 1) n)"
proof -
  have "{..<Suc n} = insert 0 (Suc ` {..<n})" by (auto simp: image_iff less_Suc_eq_0_disj)
  then show ?thesis by (simp add: region_def image_image add.assoc)
qed

lemma region_2: "region a 2 = {a, a + 1}"
  by (simp add: region_Suc numeral_2_eq_2)

lemma region_mono: "n \<le> k \<Longrightarrow> region a n \<subseteq> region a k"
  by (auto simp: region_def)

lemma offset_inj:
  assumes "a + of_nat i = a + (of_nat j :: u32)" "i < 2 ^ 32" "j < 2 ^ 32"
  shows "i = j"
proof -
  have "unat (of_nat i :: u32) = unat (of_nat j :: u32)" using assms(1) by simp
  with assms(2,3) show ?thesis by (simp add: unat_of_nat_word)
qed

lemma not_in_region_step: "n < 2 ^ 32 \<Longrightarrow> a \<notin> region (a + 1) n"
proof
  assume n: "n < 2 ^ 32" and "a \<in> region (a + 1) n"
  then obtain i where i: "i < n" "a = a + 1 + of_nat i" by (auto simp: region_def)
  then have "a + of_nat 0 = a + of_nat (Suc i)" by (simp add: add.assoc)
  from offset_inj [OF this] n i(1) show False by simp
qed

lemma region_add: "region a (n + k) = region a n \<union> region (a + of_nat n) k"
  by (induction n arbitrary: a) (simp_all add: region_Suc add.assoc)

lemma region_add_disjoint:
  assumes "n + k \<le> 2 ^ 32"
  shows "region a n \<inter> region (a + of_nat n) k = {}"
proof (rule equals0I)
  fix x assume "x \<in> region a n \<inter> region (a + of_nat n) k"
  then obtain i j where ij: "i < n" "j < k" "a + of_nat i = a + of_nat (n + j)"
    by (auto simp: region_def add.assoc)
  from offset_inj [OF ij(3)] ij(1,2) assms show False by simp
qed

lemma region_range:
  assumes "x \<in> region a n" "unat a + n \<le> 2 ^ 32"
  shows "unat a \<le> unat x" "unat x < unat a + n"
proof -
  from assms(1) obtain i where i: "x = a + of_nat i" "i < n" by (auto simp: region_def)
  with assms(2) have "unat x = unat a + i"
    by (simp add: unat_word_ariths unat_of_nat_word)
  with i(2) show "unat a \<le> unat x" "unat x < unat a + n" by simp_all
qed

text \<open>Two areas one of which ends before the other begins.\<close>

lemma region_before:
  assumes "unat a + n \<le> unat b" "unat b + k \<le> 2 ^ 32"
  shows "region a n \<inter> region b k = {}" "region b k \<inter> region a n = {}"
proof -
  have "unat a + n \<le> 2 ^ 32" using assms by simp
  with region_range [of _ a n] region_range [of _ b k] assms
  show "region a n \<inter> region b k = {}" "region b k \<inter> region a n = {}" by fastforce+
qed

text \<open>The bytes from \<open>a\<close> on are \<open>cs\<close>; with a zero after them they are a C string.\<close>

fun bytes_at :: "mem \<Rightarrow> u32 \<Rightarrow> u8 list \<Rightarrow> bool" where
  "bytes_at m a [] = True"
| "bytes_at m a (c # cs) = (m a = c \<and> bytes_at m (a + 1) cs)"

fun str_at :: "mem \<Rightarrow> u32 \<Rightarrow> u8 list \<Rightarrow> bool" where
  "str_at m a [] = (m a = 0)"
| "str_at m a (c # cs) = (c \<noteq> 0 \<and> m a = c \<and> str_at m (a + 1) cs)"

lemma bytes_at_nth: "bytes_at m a cs \<longleftrightarrow> (\<forall>i<length cs. m (a + of_nat i) = cs ! i)"
proof (induction cs arbitrary: a)
  case (Cons c cs)
  then show ?case by (auto simp: All_less_Suc2 add.assoc)
qed simp

lemma str_at_iff: "str_at m a cs \<longleftrightarrow> bytes_at m a cs \<and> 0 \<notin> set cs \<and> m (a + of_nat (length cs)) = 0"
  by (induction cs arbitrary: a) (auto simp: add.assoc)

lemma word_in_region:
  assumes "k + 4 \<le> n" "x \<in> word_bytes (a + of_nat k)"
  shows "x \<in> region a n"
proof -
  have "x = a + of_nat (k + 0) \<or> x = a + of_nat (k + 1) \<or> x = a + of_nat (k + 2) \<or> x = a + of_nat (k + 3)"
    using assms(2) by (auto simp: word_bytes_def add.assoc add.commute [of _ "3 :: u32"])
  then have "\<exists>j<4. x = a + of_nat (k + j)"
    by (elim disjE) (rule exI, rule conjI [rotated], assumption, simp)+
  then obtain j where j: "j < 4" "x = a + of_nat (k + j)" by blast
  show ?thesis unfolding region_def j(2) by (rule imageI) (use assms(1) j(1) in simp)
qed

lemma word_region_disjoint: "region a 4 \<inter> X = {} \<Longrightarrow> word_bytes a \<inter> X = {}"
  using word_in_region [of 0 4 _ a] by auto

definition same_outside :: "u32 set \<Rightarrow> mem \<Rightarrow> mem \<Rightarrow> bool" where
  "same_outside R m m' \<longleftrightarrow> (\<forall>x. x \<notin> R \<longrightarrow> m' x = m x)"

lemma same_outside_refl [simp]: "same_outside R m m"
  by (simp add: same_outside_def)

lemma same_outside_mono: "same_outside R m m' \<Longrightarrow> R \<subseteq> S \<Longrightarrow> same_outside S m m'"
  unfolding same_outside_def by blast

lemma same_outside_step [trans]: "same_outside R m m' \<Longrightarrow> same_outside R m' m'' \<Longrightarrow> same_outside R m m''"
  by (simp add: same_outside_def)

lemma same_outside_trans:
  "same_outside R m m' \<Longrightarrow> same_outside R' m' m'' \<Longrightarrow> R \<subseteq> S \<Longrightarrow> R' \<subseteq> S \<Longrightarrow> same_outside S m m''"
  unfolding same_outside_def by (metis subsetD)

lemma same_outside_st32: "word_bytes a \<subseteq> A \<Longrightarrow> same_outside A m (st32 m a v)"
  unfolding same_outside_def using st32_other_byte by blast

lemma region_word: "k + 4 \<le> n \<Longrightarrow> word_bytes (a + of_nat k) \<subseteq> region a n"
  using word_in_region by blast

lemma parts_apart:
  assumes "i + n \<le> j" "j + k \<le> 2 ^ 32"
  shows "region (a + of_nat i) n \<inter> region (a + of_nat j) k = {}"
proof -
  have "region (a + of_nat i) n \<subseteq> region a j" using region_add [of a i n] region_mono [OF assms(1), of a] by blast
  then show ?thesis using region_add_disjoint [OF assms(2), of a] by blast
qed

lemma part_region: "i + n \<le> k \<Longrightarrow> region (a + of_nat i) n \<subseteq> region a k"
  using region_add [of a i n] region_mono [of "i + n" k a] by blast

lemma bytes_at_cong:
  assumes "bytes_at m a cs" "same_outside R m m'" "region a (length cs) \<inter> R = {}"
  shows "bytes_at m' a cs"
  unfolding bytes_at_nth
proof (intro allI impI)
  fix i assume i: "i < length cs"
  then have "a + of_nat i \<notin> R" using assms(3) by (auto simp: region_def)
  with assms(1,2) i show "m' (a + of_nat i) = cs ! i" by (simp add: bytes_at_nth same_outside_def)
qed

lemma str_at_cong:
  assumes "str_at m a cs" "same_outside R m m'" "region a (Suc (length cs)) \<inter> R = {}"
  shows "str_at m' a cs"
proof -
  have "region a (length cs) \<subseteq> region a (Suc (length cs))" by (rule region_mono) simp
  moreover have "a + of_nat (length cs) \<in> region a (Suc (length cs))" by (auto simp: region_def)
  ultimately show ?thesis
    using assms bytes_at_cong [of m a cs R m'] by (auto simp: str_at_iff same_outside_def)
qed

lemma bytes_at_append:
  "bytes_at m a (cs @ ds) \<longleftrightarrow> bytes_at m a cs \<and> bytes_at m (a + of_nat (length cs)) ds"
  by (induction cs arbitrary: a) (auto simp: add.assoc)

section \<open>Filling and copying\<close>

lemma kmemset_loop_eq: "kmemset_loop m d v n x = (if x \<in> region d n then v else m x)"
  by (induction n arbitrary: m d) (auto simp: region_Suc)

lemma kmemset_eq: "0 \<le> sint n \<Longrightarrow> kmemset m d v n x = (if x \<in> region d (nat (sint n)) then v else m x)"
  by (simp add: kmemset_def kmemset_loop_eq)

lemma kmemset_negative: "sint n < 0 \<Longrightarrow> kmemset m d v n = m" "sint n < 0 \<Longrightarrow> kmemcpy m d s n = m"
  by (simp_all add: kmemset_def kmemcpy_def)

lemma kmemcpy_loop_other: "x \<notin> region d n \<Longrightarrow> kmemcpy_loop m d s n x = m x"
  by (induction n arbitrary: m d s) (auto simp: region_Suc)

lemma kmemcpy_loop_copy:
  assumes "region d n \<inter> region s n = {}" "i < n" "n \<le> 2 ^ 32"
  shows "kmemcpy_loop m d s n (d + of_nat i) = m (s + of_nat i)"
  using assms
proof (induction n arbitrary: m d s i)
  case (Suc n)
  from Suc.prems(3) have d: "d \<notin> region (d + 1) n" by (intro not_in_region_step) simp
  from Suc.prems(1) have disj: "region (d + 1) n \<inter> region (s + 1) n = {}" "d \<notin> region (s + 1) n"
    by (auto simp: region_Suc)
  show ?case
  proof (cases i)
    case 0
    with d show ?thesis by (simp add: kmemcpy_loop_other)
  next
    case (Suc j)
    with Suc.prems have "j < n" by simp
    then have "s + 1 + of_nat j \<noteq> d" using disj(2) by (auto simp: region_def)
    with Suc.IH [OF disj(1) \<open>j < n\<close>] Suc.prems(3) Suc show ?thesis by (simp add: add.assoc)
  qed
qed simp

text \<open>The indexed copy of \<open>kstrcpy\<close> is the pointer copy of \<open>kmemcpy\<close>.\<close>

lemma kstrcpy_loop_shift:
  "kstrcpy_loop m dest src i n = kmemcpy_loop m (dest + of_nat i) (src + of_nat i) n"
proof (induction n arbitrary: m i)
  case (Suc n)
  have "dest + of_nat (Suc i) = dest + of_nat i + 1" "src + of_nat (Suc i) = src + of_nat i + 1"
    by simp_all
  with Suc show ?case by (simp only: kstrcpy_loop.simps kmemcpy_loop.simps)
qed simp

lemma kstrcpy_loop_eq: "kstrcpy_loop m dest src 0 n = kmemcpy_loop m dest src n"
  by (simp add: kstrcpy_loop_shift)

section \<open>String length\<close>

lemma kstrlen_loop_str:
  "str_at m (a + of_nat k) cs \<Longrightarrow> kstrlen_loop m a (of_nat k) = Some (of_nat (k + length cs))"
proof (induction cs arbitrary: k)
  case Nil
  then show ?case by (subst kstrlen_loop.simps) simp
next
  case (Cons c cs)
  with Cons.IH [of "Suc k"] show ?case
    by (subst kstrlen_loop.simps) (simp add: add.assoc add.commute [of 1])
qed

lemma kstrlen_str: "str_at m a cs \<Longrightarrow> kstrlen m a = Some (of_nat (length cs))"
  using kstrlen_loop_str [of m a 0 cs] by (simp add: kstrlen_def)

lemma kstrlen_loop_zero:
  assumes "kstrlen_loop m a cnt = Some y"
  shows "m (a + y) = 0"
  by (rule kstrlen_loop.raw_induct [OF _ assms]) (auto split: if_splits)

lemma str_at_first_zero:
  assumes "m (a + of_nat n) = 0" and "\<And>i. i < n \<Longrightarrow> m (a + of_nat i) \<noteq> 0"
  shows "str_at m a (map (\<lambda>i. m (a + of_nat i)) [0..<n])"
  using assms by (auto simp: str_at_iff bytes_at_nth)

section \<open>Reversal\<close>

lemma int_offset_inj:
  assumes "0 \<le> i" "i < 2 ^ 32" "0 \<le> j" "j < 2 ^ 32"
  shows "a + of_int i = a + (of_int j :: u32) \<longleftrightarrow> i = j"
proof
  assume "a + of_int i = a + (of_int j :: u32)"
  then have "a + of_nat (nat i) = a + (of_nat (nat j) :: u32)" using assms by (simp add: of_nat_nat)
  moreover have "nat i < 2 ^ 32" "nat j < 2 ^ 32" using assms by auto
  ultimately have "nat i = nat j" by (rule offset_inj)
  with assms show "i = j" by simp
qed simp

lemma kswap_char [simp]: "kswap m p s CHAR_TYPE = m(p := m s, s := m p)"
  by (simp add: kswap_def Let_def)

declare kreverse_loop.simps [simp del]

lemma kreverse_loop_char:
  assumes "0 \<le> l" "r < 2 ^ 31" "0 \<le> i" "i < 2 ^ 32"
  shows "kreverse_loop (\<lambda>m l r. kswap m (a + of_int l) (a + of_int r) CHAR_TYPE) m l r (a + of_int i)
    = (if l \<le> i \<and> i \<le> r then m (a + of_int (l + r - i)) else m (a + of_int i))"
  using assms
proof (induction "nat (r - l)" arbitrary: m l r rule: less_induct)
  case less
  show ?case
  proof (cases "l < r")
    case True
    let ?m = "m(a + of_int l := m (a + of_int r), a + of_int r := m (a + of_int l))"
    have at: "?m (a + of_int j) = (if j = r then m (a + of_int l)
        else if j = l then m (a + of_int r) else m (a + of_int j))" if "0 \<le> j" "j < 2 ^ 32" for j
    proof -
      have "r < 2 ^ 32" "l < 2 ^ 32" "0 \<le> r" using less.prems True by auto
      then have "a + of_int j = a + of_int r \<longleftrightarrow> j = r" "a + of_int j = a + of_int l \<longleftrightarrow> j = l"
        using that less.prems(1) by (auto simp only: int_offset_inj)
      then show ?thesis by (simp only: fun_upd_apply)
    qed
    have "kreverse_loop (\<lambda>m l r. kswap m (a + of_int l) (a + of_int r) CHAR_TYPE) ?m (l + 1) (r - 1) (a + of_int i)
      = (if l + 1 \<le> i \<and> i \<le> r - 1 then ?m (a + of_int (l + 1 + (r - 1) - i)) else ?m (a + of_int i))"
      using less.prems True by (intro less.hyps) auto
    also have "\<dots> = (if l \<le> i \<and> i \<le> r then m (a + of_int (l + r - i)) else m (a + of_int i))"
    proof (cases "l + 1 \<le> i \<and> i \<le> r - 1")
      case True
      then have "l + 1 + (r - 1) - i \<noteq> r" "l + 1 + (r - 1) - i \<noteq> l" "0 \<le> l + 1 + (r - 1) - i"
        "l + 1 + (r - 1) - i < 2 ^ 32" using less.prems by auto
      then show ?thesis using True by (simp only: at) simp
    next
      case False
      then show ?thesis using less.prems \<open>l < r\<close> by (simp only: at) auto
    qed
    finally show ?thesis using True by (subst kreverse_loop.simps) simp
  next
    case False
    then have same: "l \<le> i \<and> i \<le> r \<Longrightarrow> l + r - i = i" by linarith
    show ?thesis
    proof (cases "l \<le> i \<and> i \<le> r")
      case True
      with False show ?thesis unfolding same [OF True] by (subst kreverse_loop.simps) simp
    qed (use False in \<open>subst kreverse_loop.simps, auto\<close>)
  qed
qed

lemma kreverse_charstr_str:
  assumes str: "str_at m a cs" and len: "length cs < 2 ^ 31"
  shows "\<exists>m'. kreverse_charstr m a = Some m' \<and> str_at m' a (rev cs)
    \<and> same_outside (region a (length cs)) m m'"
proof -
  let ?n = "int (length cs)"
  define m' where "m' = kreverse_loop
    (\<lambda>m l r. kswap m (a + of_int l) (a + of_int r) CHAR_TYPE) m 0 (?n - 1)"
  have "kreverse_charstr m a = Some m'"
    using kstrlen_str [OF str] len by (simp add: kreverse_charstr_def sint_of_nat m'_def)
  moreover have at: "m' (a + of_int i) = (if i < ?n then m (a + of_int (?n - 1 - i)) else m (a + of_int i))"
    if "0 \<le> i" "i < 2 ^ 32" for i
    using kreverse_loop_char [of 0 "?n - 1" i a m] that len by (auto simp: m'_def)
  have "bytes_at m' a (rev cs)"
    unfolding bytes_at_nth
  proof (intro allI impI)
    fix i assume i: "i < length (rev cs)"
    then have j: "?n - 1 - int i = int (length cs - 1 - i)" by auto
    have "m' (a + of_nat i) = m (a + of_int (?n - 1 - int i))"
      using at [of "int i"] i len by simp
    also have "\<dots> = m (a + of_nat (length cs - 1 - i))"
      unfolding j by (simp only: of_int_of_nat_eq)
    also have "\<dots> = cs ! (length cs - 1 - i)"
    proof -
      have "length cs - 1 - i < length cs" using i by simp
      with str show ?thesis by (simp only: str_at_iff bytes_at_nth)
    qed
    also have "\<dots> = rev cs ! i" using i by (simp add: rev_nth)
    finally show "m' (a + of_nat i) = rev cs ! i" .
  qed
  moreover have "m' (a + of_nat (length cs)) = 0"
    using at [of ?n] len str by (simp add: str_at_iff)
  moreover have "m' x = m x" if "x \<notin> region a (length cs)" for x
  proof -
    have x: "x = a + of_int (uint (x - a))" by simp
    have "\<not> uint (x - a) < ?n"
    proof
      assume "uint (x - a) < ?n"
      then have "int (unat (x - a)) < ?n" by simp
      then have "unat (x - a) < length cs" by (simp only: of_nat_less_iff)
      moreover have "x = a + of_nat (unat (x - a))" by simp
      ultimately show False using that unfolding region_def by blast
    qed
    with at [of "uint (x - a)"] uint_lt2p [of "x - a"] x show ?thesis by simp
  qed
  ultimately show ?thesis using str by (auto simp: str_at_iff same_outside_def)
qed

section \<open>Digits\<close>

text \<open>The digits of a number in a base, the most significant first; zero has none.\<close>

fun digits :: "nat \<Rightarrow> nat \<Rightarrow> nat list" where
  "digits b n = (if n = 0 \<or> b < 2 then [] else digits b (n div b) @ [n mod b])"

declare digits.simps [simp del]

definition number_of :: "nat \<Rightarrow> nat list \<Rightarrow> nat" where
  "number_of b ds = foldl (\<lambda>a d. a * b + d) 0 ds"

lemma digits_0 [simp]: "digits b 0 = []"
  by (simp add: digits.simps)

lemma digits_step: "0 < n \<Longrightarrow> 2 \<le> b \<Longrightarrow> digits b n = digits b (n div b) @ [n mod b]"
  by (subst digits.simps) simp

lemma number_of_digits: "2 \<le> b \<Longrightarrow> number_of b (digits b n) = n"
proof (induction b n rule: digits.induct)
  case (1 b n)
  then show ?case by (cases "n = 0") (simp_all add: digits_step [of n] number_of_def)
qed

lemma digits_less: "2 \<le> b \<Longrightarrow> \<forall>d\<in>set (digits b n). d < b"
proof (induction b n rule: digits.induct)
  case (1 b n)
  then show ?case by (cases "n = 0") (auto simp: digits_step [of n])
qed

lemma length_digits_pow: "2 \<le> b \<Longrightarrow> n < b ^ k \<Longrightarrow> length (digits b n) \<le> k"
proof (induction k arbitrary: n)
  case (Suc k)
  from Suc.prems have "n div b < b ^ k" by (intro less_mult_imp_div_less) (simp add: mult.commute)
  with Suc show ?case by (cases "n = 0") (simp_all add: digits_step [of n])
qed simp

section \<open>Printing\<close>

fun put_bytes :: "mem \<Rightarrow> u32 \<Rightarrow> u8 list \<Rightarrow> mem" where
  "put_bytes m a [] = m"
| "put_bytes m a (c # cs) = put_bytes (m(a := c)) (a + 1) cs"

lemma put_bytes_other: "x \<notin> region a (length cs) \<Longrightarrow> put_bytes m a cs x = m x"
  by (induction cs arbitrary: m a) (auto simp: region_Suc)

lemma bytes_at_put: "length cs \<le> 2 ^ 32 \<Longrightarrow> bytes_at (put_bytes m a cs) a cs"
proof (induction cs arbitrary: m a)
  case (Cons c cs)
  then have "a \<notin> region (a + 1) (length cs)" by (intro not_in_region_step) simp
  with Cons show ?case by (simp add: put_bytes_other)
qed simp

definition dec_char :: "nat \<Rightarrow> u8" where
  "dec_char d = of_nat (48 + d)"

definition hex_char :: "nat \<Rightarrow> u8" where
  "hex_char d = (if d < 10 then of_nat (48 + d) else of_nat (55 + d))"

lemma int_sdiv_smod:
  "int n sdiv numeral k = int (n div numeral k)" "int n smod numeral k = int (n mod numeral k)"
  by (simp_all add: signed_divide_int_def signed_modulo_int_def sgn_if zdiv_int zmod_int
      minus_mult_div_eq_mod)

declare kitoa_loop.simps [simp del] kintlen_loop.simps [simp del] hex_loop.simps [simp del]

lemma kitoa_loop_digits:
  "kitoa_loop m p (int n) i =
    (put_bytes m p (map dec_char (rev (digits 10 n))), i + length (digits 10 n))"
proof (induction n arbitrary: m p i rule: less_induct)
  case (less n)
  show ?case
  proof (cases "n = 0")
    case False
    from False less [of "n div 10"] show ?thesis
      by (subst kitoa_loop.simps) (simp add: int_sdiv_smod digits_step [of n] dec_char_def [of "n mod 10"])
  qed (simp add: kitoa_loop.simps)
qed

lemma kintlen_loop_digits: "kintlen_loop (int n) = length (digits 10 n)"
proof (induction n rule: less_induct)
  case (less n)
  then show ?case
    by (cases "n = 0") (simp_all add: kintlen_loop.simps [of 0] kintlen_loop.simps [of "int n"]
        int_sdiv_smod digits_step [of n])
qed

lemma hex_loop_digits:
  "hex_loop m buf (int n) i =
    (put_bytes m (buf + of_nat i) (map hex_char (rev (digits 16 n))), i + length (digits 16 n))"
proof (induction n arbitrary: m i rule: less_induct)
  case (less n)
  show ?case
  proof (cases "n = 0")
    case False
    from False less [of "n div 16"] show ?thesis
      by (subst hex_loop.simps) (simp add: int_sdiv_smod Let_def digits_step [of n] hex_char_def [of "n mod 16"] algebra_simps)
  qed (simp add: hex_loop.simps)
qed

lemma str_at_put:
  assumes "0 \<notin> set cs" "length cs < 2 ^ 31"
  shows "str_at ((put_bytes m a cs)(a + of_nat (length cs) := 0)) a cs"
    and "same_outside (region a (Suc (length cs))) m ((put_bytes m a cs)(a + of_nat (length cs) := 0))"
proof -
  let ?m = "(put_bytes m a cs)(a + of_nat (length cs) := 0)"
  have ne: "a + of_nat i \<noteq> a + of_nat (length cs)" if "i < length cs" for i
    using offset_inj [of a i "length cs"] that assms(2) by auto
  have "bytes_at (put_bytes m a cs) a cs" using assms(2) by (intro bytes_at_put) simp
  then have "bytes_at ?m a cs" using ne by (simp add: bytes_at_nth)
  then show "str_at ?m a cs" using assms(1) by (simp add: str_at_iff)
  have "a + of_nat (length cs) \<in> region a (Suc (length cs))" by (auto simp: region_def)
  moreover have "region a (length cs) \<subseteq> region a (Suc (length cs))" by (rule region_mono) simp
  ultimately show "same_outside (region a (Suc (length cs))) m ?m"
    by (auto simp: same_outside_def intro!: put_bytes_other)
qed

text \<open>Writing a text backwards, closing it with a zero and reversing it in place.\<close>

lemma put_reverse:
  assumes "0 \<notin> set cs" "length cs < 2 ^ 31"
  shows "\<exists>m'. kreverse_charstr ((put_bytes m a (rev cs))(a + of_nat (length cs) := 0)) a = Some m'
    \<and> str_at m' a cs \<and> same_outside (region a (Suc (length cs))) m m'"
proof -
  let ?m = "(put_bytes m a (rev cs))(a + of_nat (length cs) := 0)"
  have "str_at ?m a (rev cs)" and o: "same_outside (region a (Suc (length cs))) m ?m"
    using str_at_put [where cs = "rev cs" and m = m and a = a] assms by simp_all
  with kreverse_charstr_str [of "?m" a "rev cs"] assms(2) obtain m'
    where m': "kreverse_charstr ?m a = Some m'" "str_at m' a cs"
      "same_outside (region a (length cs)) ?m m'" by auto
  from same_outside_trans [OF o m'(3)] have "same_outside (region a (Suc (length cs))) m m'"
    by (simp add: region_mono)
  with m' show ?thesis by blast
qed

definition neg_char :: "nat \<Rightarrow> u8" where
  "neg_char d = word_of_int (48 - int d)"

text \<open>
  What the decimal printer leaves, number by number: the decimal digits of a positive number,
  but nothing for zero and characters below the digit zero for a negative number.
\<close>

definition kitoa_chars :: "int \<Rightarrow> u8 list" where
  "kitoa_chars v = (if v \<ge> 0 then map dec_char (digits 10 (nat v)) else map neg_char (digits 10 (nat (- v))))"

lemma int_sdiv_smod_neg:
  "(- int n) sdiv numeral k = - int (n div numeral k)" "(- int n) smod numeral k = - int (n mod numeral k)"
  by (cases "n = 0"; simp add: signed_divide_int_def signed_modulo_int_def sgn_if zdiv_int zmod_int
      minus_mult_div_eq_mod)+

lemma kitoa_loop_neg:
  "kitoa_loop m p (- int n) i =
    (put_bytes m p (map neg_char (rev (digits 10 n))), i + length (digits 10 n))"
proof (induction n arbitrary: m p i rule: less_induct)
  case (less n)
  show ?case
  proof (cases "n = 0")
    case False
    from False less [of "n div 10"] show ?thesis
      by (subst kitoa_loop.simps)
        (simp add: int_sdiv_smod_neg int_sdiv_smod digits_step [of n] neg_char_def [of "n mod 10"])
  qed (simp add: kitoa_loop.simps)
qed

lemma kitoa_loop_text:
  "kitoa_loop m p v i = (put_bytes m p (rev (kitoa_chars v)), i + length (kitoa_chars v))"
  using kitoa_loop_digits [of m p "nat v" i] kitoa_loop_neg [of m p "nat (- v)" i]
  by (cases "v \<ge> 0") (simp_all add: kitoa_chars_def rev_map)

lemma char_nonzero:
  "d < 10 \<Longrightarrow> dec_char d \<noteq> 0" "d < 10 \<Longrightarrow> neg_char d \<noteq> 0" "d < 16 \<Longrightarrow> hex_char d \<noteq> 0"
proof -
  have nz: "(of_nat k :: u8) \<noteq> 0" if "0 < k" "k < 256" for k
    using unat_of_nat_word [where 'a = 8, of k] that by auto
  show "dec_char d \<noteq> 0" if "d < 10" unfolding dec_char_def using that by (intro nz) auto
  show "neg_char d \<noteq> 0" if "d < 10"
  proof -
    have "neg_char d = of_nat (48 - d)" using that by (simp add: neg_char_def of_nat_diff)
    with nz [of "48 - d"] that show ?thesis by simp
  qed
  show "hex_char d \<noteq> 0" if "d < 16"
    using nz [of "48 + d"] nz [of "55 + d"] that unfolding hex_char_def by simp
qed

lemma kitoa_chars_nonzero: "0 \<notin> set (kitoa_chars v)"
  using digits_less [of 10] by (auto simp: kitoa_chars_def char_nonzero dest!: sym [of 0])

lemma kitoa_chars_length: "length (kitoa_chars (sint (w :: c_int))) \<le> 10"
proof -
  have "sint w < 2 ^ 31" "- (2 ^ 31) \<le> sint w"
    using sint_greater_eq [of w] sint_less [of w] by simp_all
  then have "nat (sint w) < 10 ^ 10" "nat (- sint w) < 10 ^ 10" by auto
  then show ?thesis
    by (simp add: kitoa_chars_def length_digits_pow)
qed

lemma same_outside_kmemset4:
  "same_outside (region buf 4) m (kmemset m buf v 4)"
  by (simp add: same_outside_def kmemset_eq)

lemma kitoa_s_text:
  "\<exists>m'. kitoa_s m buf value sz = Some m' \<and> str_at m' buf (kitoa_chars (sint value))
     \<and> same_outside (region buf (max 4 (Suc (length (kitoa_chars (sint value)))))) m m'"
proof -
  let ?t = "kitoa_chars (sint value)" let ?m = "kmemset m buf 0 4"
  obtain m' where m': "kreverse_charstr ((put_bytes ?m buf (rev ?t))(buf + of_nat (length ?t) := 0)) buf = Some m'"
    "str_at m' buf ?t" "same_outside (region buf (Suc (length ?t))) ?m m'"
    using put_reverse [where cs = "?t" and m = "?m" and a = buf]
      kitoa_chars_nonzero [of "sint value"] kitoa_chars_length [of "value"] by auto
  have "same_outside (region buf (max 4 (Suc (length ?t)))) m m'"
    by (rule same_outside_trans [OF same_outside_kmemset4 m'(3)]) (rule region_mono, simp)+
  with m' show ?thesis by (simp add: kitoa_s_def kitoa_loop_text)
qed

lemma kintlen_text: "sint value > 0 \<Longrightarrow> kintlen value = of_nat (length (kitoa_chars (sint value)))"
  using kintlen_loop_digits [of "nat (sint value)"] by (auto simp: kintlen_def kitoa_chars_def)

lemma hex_text:
  assumes "0 \<le> sint n"
  shows "\<exists>m'. kdecimalToHexadecimal m buf n = Some m'
    \<and> str_at m' buf (if n = 0 then [48] else map hex_char (digits 16 (unat n)))
    \<and> same_outside (region buf (max 2 (Suc (length (digits 16 (unat n)))))) m m'"
proof (cases "n = 0")
  case True
  then show ?thesis by (simp add: kdecimalToHexadecimal_def same_outside_def region_Suc)
next
  case False
  let ?t = "map hex_char (digits 16 (unat n))"
  have v: "sint n = int (unat n)" using assms by (simp add: sint_nonneg)
  have z: "0 \<notin> set ?t" using digits_less [of 16] by (auto simp: char_nonzero dest!: sym [of 0])
  have "length (digits 16 (unat n)) \<le> 8"
    using unsigned_less [where 'a = nat, of n] by (intro length_digits_pow) simp_all
  then obtain m' where m': "kreverse_charstr ((put_bytes m buf (rev ?t))(buf + of_nat (length ?t) := 0)) buf = Some m'"
    "str_at m' buf ?t" "same_outside (region buf (Suc (length ?t))) m m'"
    using put_reverse [where cs = "?t" and m = m and a = buf] z by auto
  have "same_outside (region buf (max 2 (Suc (length ?t)))) m m'"
    by (rule same_outside_trans [OF same_outside_refl m'(3), of "{}"]) (rule empty_subsetI, rule region_mono, simp)
  moreover have "hex_loop m buf (sint n) 0 = (put_bytes m buf (rev ?t), length ?t)"
    unfolding v hex_loop_digits by (simp add: rev_map)
  ultimately show ?thesis using m' False by (simp add: kdecimalToHexadecimal_def)
qed

text \<open>
  What the hexadecimal printer leaves: the digits of a number whose top bit is clear, nothing
  for the others.
\<close>

definition khex_chars :: "c_int \<Rightarrow> u8 list" where
  "khex_chars n = (if n = 0 then [48] else if sint n < 0 then [] else map hex_char (digits 16 (unat n)))"

lemma hex_text_negative:
  assumes "sint n < 0"
  shows "kdecimalToHexadecimal m buf n = Some (m(buf := 0))"
proof -
  have "kstrlen (m(buf := 0)) buf = Some 0"
    using kstrlen_str [of "m(buf := 0)" buf "[]"] by simp
  moreover have "n \<noteq> 0" using assms by auto
  ultimately show ?thesis
    using assms by (simp add: kdecimalToHexadecimal_def hex_loop.simps kreverse_charstr_def
        kreverse_loop.simps)
qed

lemma hex_digits_length: "length (digits 16 (unat (n :: c_int))) \<le> 8"
  using unsigned_less [where 'a = nat, of n] by (intro length_digits_pow) simp_all

lemma hex_text_all:
  "\<exists>m'. kdecimalToHexadecimal m buf n = Some m' \<and> str_at m' buf (khex_chars n)
    \<and> same_outside (region buf 9) m m'"
proof (cases "sint n < 0")
  case True
  then have "n \<noteq> 0" by auto
  with True show ?thesis
    by (simp add: hex_text_negative khex_chars_def same_outside_def numeral_eq_Suc region_Suc)
next
  case False
  have "region buf (max 2 (Suc (length (digits 16 (unat n))))) \<subseteq> region buf 9"
    using hex_digits_length [of n] by (intro region_mono) simp
  moreover obtain m' where "kdecimalToHexadecimal m buf n = Some m'" "str_at m' buf (khex_chars n)"
    "same_outside (region buf (max 2 (Suc (length (digits 16 (unat n)))))) m m'"
    using False hex_text [of n m buf] unfolding khex_chars_def if_not_P [OF False] by auto
  ultimately show ?thesis using same_outside_mono by blast
qed

section \<open>The routines are correct\<close>

definition hex_digit :: "u8 \<Rightarrow> nat" where
  "hex_digit c = (if c < 58 then unat (c - 48) else unat (c - 55))"

text \<open>
  \<open>kmemcpy\<close> between areas that do not overlap leaves in the target the bytes the source
  held and changes nothing else; a negative size copies nothing.
\<close>

theorem kmemcpy_correct:
  assumes "region dest (nat (sint n)) \<inter> region src (nat (sint n)) = {}"
  shows "bytes_at (kmemcpy m dest src n) dest (map (\<lambda>i. m (src + of_nat i)) [0..<nat (sint n)])
    \<and> same_outside (region dest (nat (sint n))) m (kmemcpy m dest src n)"
proof (cases "sint n < 0")
  case False
  have "nat (sint n) \<le> 2 ^ 32" using sint_less [of n] by simp
  with False assms show ?thesis
    by (simp add: kmemcpy_def bytes_at_nth kmemcpy_loop_copy kmemcpy_loop_other same_outside_def)
qed (simp add: kmemset_negative)

theorem kmemcpy_correct_witness:
  "bytes_at (kmemcpy (\<lambda>x. if x = 0x200 then 3 else 4) 0x100 0x200 2) 0x100 [3, 4]"
proof -
  have n: "nat (sint (2 :: c_int)) = 2" by simp
  have l: "[0..<2 :: nat] = [0, 1]" by (simp add: numeral_2_eq_2)
  show ?thesis
    using kmemcpy_correct [where dest = "0x100" and src = "0x200" and n = 2
      and m = "\<lambda>x. if x = 0x200 then 3 else 4"]
    unfolding n l by (simp add: region_2)
qed

text \<open>
  \<open>kstrlen\<close> returns if and only if there is a zero byte anywhere in the address space,
  and what it returns is then the distance to the first one.
\<close>

theorem kstrlen_terminates:
  "(kstrlen m a = None) = (0 \<notin> range m)
   \<and> (0 \<in> range m \<longrightarrow> (\<exists>n. kstrlen m a = Some (of_nat n) \<and> m (a + of_nat n) = 0
       \<and> (\<forall>i<n. m (a + of_nat i) \<noteq> 0)))"
proof -
  have some: "\<exists>n. kstrlen m a = Some (of_nat n) \<and> m (a + of_nat n) = 0
      \<and> (\<forall>i<n. m (a + of_nat i) \<noteq> 0)" if "0 \<in> range m"
  proof -
    from that obtain x where "m x = 0" by auto
    then have "m (a + of_nat (unat (x - a))) = 0" by simp
    then have "\<exists>n. m (a + of_nat n) = 0" ..
    then have z: "m (a + of_nat (LEAST n. m (a + of_nat n) = 0)) = 0" by (rule LeastI_ex)
    moreover have "\<forall>i<(LEAST n. m (a + of_nat n) = 0). m (a + of_nat i) \<noteq> 0"
      using not_less_Least by blast
    moreover have "kstrlen m a = Some (of_nat (LEAST n. m (a + of_nat n) = 0))"
      using kstrlen_str [OF str_at_first_zero [of m a, OF z]] not_less_Least by fastforce
    ultimately show ?thesis by blast
  qed
  moreover have "0 \<in> range m" if "kstrlen m a \<noteq> None"
    using kstrlen_loop_zero [of m a 0] that by (force simp: kstrlen_def)
  ultimately show ?thesis by force
qed

theorem kstrlen_terminates_witness:
  "kstrlen (\<lambda>x. if x = 0x12 then 0 else 7) 0x10 = Some 2"
proof -
  let ?m = "(\<lambda>x. if x = 0x12 then 0 else 7) :: mem"
  have "0 \<in> range ?m" by (auto intro: image_eqI [of _ _ "0x12"])
  then obtain n where n: "kstrlen ?m 0x10 = Some (of_nat n)" "?m (0x10 + of_nat n) = 0"
    using kstrlen_terminates [of "?m" "0x10"] by blast
  from n(2) have "0x10 + of_nat n = (0x12 :: u32)" by (simp split: if_splits)
  then have "(of_nat n :: u32) = 2" by (simp add: add_eq_0_iff algebra_simps)
  with n(1) show ?thesis by simp
qed

text \<open>
  \<open>kstrcpy\<close> copies the characters of a string and nothing else: the terminating zero
  is not copied, so the byte after the copy keeps its old value.
\<close>

theorem kstrcpy_no_terminator:
  assumes "str_at m src cs" and "length cs < 2 ^ 31"
    and "region dest (length cs) \<inter> region src (length cs) = {}"
  shows "\<exists>m'. kstrcpy m dest src = Some m' \<and> bytes_at m' dest cs
    \<and> m' (dest + of_nat (length cs)) = m (dest + of_nat (length cs))"
proof -
  let ?n = "length cs"
  let ?m' = "kstrcpy_loop m dest src 0 ?n"
  have "kstrcpy m dest src = Some ?m'"
    using kstrlen_str [OF assms(1)] assms(2) by (simp add: kstrcpy_def sint_of_nat)
  moreover have "bytes_at ?m' dest cs"
    using assms kmemcpy_loop_copy [OF assms(3)] by (simp add: kstrcpy_loop_eq bytes_at_nth str_at_iff)
  moreover have "dest + of_nat ?n \<notin> region dest ?n"
  proof
    assume "dest + of_nat ?n \<in> region dest ?n"
    then obtain i where "i < ?n" "dest + of_nat ?n = dest + of_nat i" by (auto simp: region_def)
    with offset_inj [of dest "?n" i] assms(2) show False by simp
  qed
  ultimately show ?thesis by (auto simp: kstrcpy_loop_eq kmemcpy_loop_other)
qed

theorem kstrcpy_no_terminator_witness:
  "\<exists>m'. kstrcpy (\<lambda>x. if x = 0x200 then 65 else if x = 0x201 then 0 else 7) 0x100 0x200 = Some m'
     \<and> m' 0x100 = 65 \<and> m' 0x101 = 7"
  using kstrcpy_no_terminator [where m = "\<lambda>x. if x = 0x200 then 65 else if x = 0x201 then 0 else 7"
    and dest = "0x100" and src = "0x200" and cs = "[65]"]
  by (simp add: region_Suc)

text \<open>
  \<open>kswap\<close> exchanges two characters, but for the integer types the second operand
  keeps its value, so one of the two values is lost.
\<close>

theorem kswap_only_char:
  "kswap m p s CHAR_TYPE p = m s \<and> kswap m p s CHAR_TYPE s = m p
   \<and> ld32 (kswap m p s INT_TYPE) s = ld32 m s
   \<and> ld32 (kswap m p s UINT32_TYPE) s = ld32 m s
   \<and> ld16 (kswap m p s UINT16_TYPE) s = ld16 m s
   \<and> kswap m p s UINT8_TYPE s = m s"
  by (simp add: kswap_def Let_def ld32_st32 ld16_st16)

text \<open>
  \<open>kreverse_charstr\<close> returns on every string shorter than 2 GB, reverses it in
  place, and changes nothing outside it.
\<close>

theorem kreverse_charstr_correct:
  assumes "str_at m a cs" and "length cs < 2 ^ 31"
  shows "\<exists>m'. kreverse_charstr m a = Some m' \<and> str_at m' a (rev cs)
    \<and> same_outside (region a (length cs)) m m'"
  using assms by (rule kreverse_charstr_str)

text \<open>
  \<open>kitoa_s\<close> always returns, and what it leaves is \<open>kitoa_chars\<close>: the decimal digits of
  a positive number, the empty text for zero, and for a negative number characters
  below the digit zero.  It writes the text, its terminator and at least four bytes.
\<close>

theorem kitoa_s_prints:
  "\<exists>m'. kitoa_s m buf value sz = Some m' \<and> str_at m' buf (kitoa_chars (sint value))
     \<and> same_outside (region buf (max 4 (Suc (length (kitoa_chars (sint value)))))) m m'"
  by (rule kitoa_s_text)

text \<open>
  a positive number survives printing and reading back: the characters \<open>kitoa_s\<close>
  leaves are as many as \<open>kintlen\<close> announces, and read in base ten they are the number.
\<close>

theorem kitoa_s_roundtrip:
  assumes "0 < sint value"
  shows "\<exists>m' cs. kitoa_s m buf value sz = Some m' \<and> str_at m' buf cs
    \<and> of_nat (length cs) = kintlen value
    \<and> number_of 10 (map (\<lambda>c. unat (c - 48)) cs) = unat value"
proof -
  let ?ds = "digits 10 (unat value)"
  have v: "nat (sint value) = unat value" using assms by (simp add: sint_nonneg)
  have chars: "kitoa_chars (sint value) = map dec_char ?ds" using assms by (simp add: kitoa_chars_def v)
  have "map (\<lambda>c. unat (c - 48)) (map dec_char ?ds) = ?ds"
    using digits_less [of 10 "unat value"]
    by (auto simp: dec_char_def unat_of_nat_word intro!: map_idI)
  then have "number_of 10 (map (\<lambda>c. unat (c - 48)) (kitoa_chars (sint value))) = unat value"
    unfolding chars by (simp add: number_of_digits)
  with kitoa_s_text [of m buf "value" sz] kintlen_text [OF assms] show ?thesis by metis
qed

theorem kitoa_s_roundtrip_witness:
  "\<exists>m' cs. kitoa_s (\<lambda>_. 0) 0x100 42 3 = Some m' \<and> str_at m' 0x100 cs
    \<and> number_of 10 (map (\<lambda>c. unat (c - 48)) cs) = 42"
  using kitoa_s_roundtrip [of 42 "\<lambda>_. 0" "0x100" 3] by auto

text \<open>
  \<open>kdecimalToHexadecimal\<close> on a number that is not negative returns, and the
  characters it leaves, read as hexadecimal digits, are the number; at most eight
  characters and a terminator are written.
\<close>

theorem hexadecimal_roundtrip:
  assumes "0 \<le> sint n"
  shows "\<exists>m' cs. kdecimalToHexadecimal m buf n = Some m' \<and> str_at m' buf cs
    \<and> cs \<noteq> [] \<and> length cs \<le> 8 \<and> number_of 16 (map hex_digit cs) = unat n
    \<and> same_outside (region buf 9) m m'"
proof -
  let ?ds = "digits 16 (unat n)"
  let ?cs = "if n = 0 then [48] else map hex_char ?ds"
  have hd: "hex_digit (hex_char d) = d" if "d < 16" for d
  proof -
    have *: "unat (of_nat (48 + d) :: u8) = 48 + d" "unat (of_nat (55 + d) :: u8) = 55 + d"
      using that by (auto intro!: unat_of_nat_word simp del: of_nat_add)
    have "of_nat (48 + d) < (58 :: u8) \<longleftrightarrow> d < 10" "of_nat (55 + d) < (58 :: u8) \<longleftrightarrow> d < 3"
      unfolding word_less_nat_alt * by auto
    moreover have "of_nat (48 + d) - 48 = (of_nat d :: u8)" "of_nat (55 + d) - 55 = (of_nat d :: u8)"
      by simp_all
    moreover have "unat (of_nat d :: u8) = d" using that by (intro unat_of_nat_word) simp
    ultimately show ?thesis unfolding hex_digit_def hex_char_def by (simp only: split: if_split) simp
  qed
  have "map hex_digit (map hex_char ?ds) = ?ds"
    using digits_less [of 16 "unat n"] by (auto simp: hd intro!: map_idI)
  then have "number_of 16 (map hex_digit ?cs) = unat n"
    by (simp add: number_of_digits) (simp add: number_of_def hex_digit_def)
  moreover have len: "length ?ds \<le> 8"
    using unsigned_less [where 'a = nat, of n] by (intro length_digits_pow) simp_all
  moreover have "?cs \<noteq> []" using digits_step [of "unat n" 16] by (simp add: unat_gt_0)
  moreover have "region buf (max 2 (Suc (length ?ds))) \<subseteq> region buf 9"
    using len by (intro region_mono) simp
  moreover obtain m' where m': "kdecimalToHexadecimal m buf n = Some m'" "str_at m' buf ?cs"
    "same_outside (region buf (max 2 (Suc (length ?ds)))) m m'"
    using hex_text [OF assms, of m buf] by blast
  ultimately have "number_of 16 (map hex_digit ?cs) = unat n" "?cs \<noteq> []" "length ?cs \<le> 8"
    "same_outside (region buf 9) m m'"
    by (simp_all only: same_outside_def length_map split: if_split) auto
  with m'(1,2) show ?thesis by blast
qed

theorem hexadecimal_roundtrip_witness:
  "\<exists>m' cs. kdecimalToHexadecimal m 0x100 0xBEEF = Some m' \<and> str_at m' 0x100 cs
    \<and> number_of 16 (map hex_digit cs) = 0xBEEF"
  using hexadecimal_roundtrip [of "0xBEEF" m "0x100"] by auto

text \<open>
  a negative number makes \<open>kdecimalToHexadecimal\<close> print nothing at all, so no
  address at or above 0x80000000 can be printed.
\<close>

theorem hexadecimal_negative_empty:
  assumes "sint n < 0"
  shows "\<exists>m'. kdecimalToHexadecimal m buf n = Some m' \<and> str_at m' buf []"
  using hex_text_negative [OF assms, of m buf] by simp

theorem hexadecimal_negative_empty_witness:
  "\<exists>m'. kdecimalToHexadecimal m 0x100 0xC0000000 = Some m' \<and> str_at m' 0x100 []"
  using hexadecimal_negative_empty [of "0xC0000000" m "0x100"] by simp

end
