(* ===== verification/Log.thy ===== *)
theory Log
  imports Machine Klib
begin

text \<open>
  The serial log: \<open>source/kernel/tools/log.c\<close>, and the formatted printing of
  \<open>source/kernel/tools/klib.c\<close> (\<open>klog_vsprintf\<close>, \<open>klog_printf\<close>).  The local arrays of
  the printing functions live on the kernel stack, at addresses that are parameters
  (\<open>log_frame\<close>); the variable arguments are a function from their position to a word.
\<close>

unbundle bit_operations_syntax

section \<open>The serial port\<close>

definition PORT_COM1 :: u16 where "PORT_COM1 = 0x3F8"

definition log_init :: "machine \<Rightarrow> machine" where
  "log_init s =
    (let s = outb (PORT_COM1 + 1) 0x00 s;
         s = outb (PORT_COM1 + 3) 0x80 s;
         s = outb (PORT_COM1 + 0) 0x03 s;
         s = outb (PORT_COM1 + 1) 0x00 s;
         s = outb (PORT_COM1 + 3) 0x03 s;
         s = outb (PORT_COM1 + 2) 0xC7 s;
         s = outb (PORT_COM1 + 4) 0x0B s
     in s)"

text \<open>The result is the masked status byte converted to the enumeration \<open>bool\<close>.\<close>

definition is_transmit_empty :: "machine \<Rightarrow> u8 \<times> machine" where
  "is_transmit_empty s = (let (v, s) = inb (PORT_COM1 + 5) s in (v AND 0x20, s))"

partial_function (option) write_serial :: "u8 \<Rightarrow> machine \<Rightarrow> machine option" where
  "write_serial a s =
    (case is_transmit_empty s of (v, s) \<Rightarrow>
      if v = 0 then write_serial a s else Some (outb PORT_COM1 a s))"

definition write_serial_end :: "machine \<Rightarrow> machine" where
  "write_serial_end s = (let s = outb PORT_COM1 13 s in outb PORT_COM1 10 s)"

section \<open>Formatted printing\<close>

record log_frame =
  buf_addr :: u32
  p_addr :: u32
  cbuf_addr :: u32

datatype fmt_state = NORMAL | FORMAT

partial_function (option) copy_str :: "mem \<Rightarrow> u32 \<Rightarrow> u32 \<Rightarrow> (mem \<times> u32) option" where
  "copy_str m ch ptr =
    (if m ptr \<noteq> 0 then copy_str (m(ch := m ptr)) (ch + 1) (ptr + 1) else Some (m, ch))"

definition convert :: "log_frame \<Rightarrow> (nat \<Rightarrow> u32) \<Rightarrow> u8 \<Rightarrow> mem \<Rightarrow> u32 \<Rightarrow> nat
    \<Rightarrow> (mem \<times> u32 \<times> nat) option" where
  "convert fr args c m ch i =
    (if c = 37 then Some (m(ch := 37), ch + 1, i)
     else if c = 100 then
       let num = args i; len = kintlen num
       in case kitoa_s m (p_addr fr) num len of None \<Rightarrow> None
          | Some m \<Rightarrow> (case copy_str m ch (p_addr fr) of None \<Rightarrow> None
            | Some (m, ch) \<Rightarrow> Some (m, ch, Suc i))
     else if c = 99 then Some (m(ch := ucast (args i)), ch + 1, Suc i)
     else if c = 115 then
       (case copy_str m ch (args i) of None \<Rightarrow> None | Some (m, ch) \<Rightarrow> Some (m, ch, Suc i))
     else if c = 120 then
       let num = args i; m = kmemset m (cbuf_addr fr) 0 50
       in case kdecimalToHexadecimal m (cbuf_addr fr) num of None \<Rightarrow> None
          | Some m \<Rightarrow> (case copy_str (m(ch := 48, ch + 1 := 120)) (ch + 2) (cbuf_addr fr) of
              None \<Rightarrow> None | Some (m, ch) \<Rightarrow> Some (m, ch, Suc i))
     else Some (m, ch, i))"

partial_function (option) vsprintf_loop ::
  "log_frame \<Rightarrow> (nat \<Rightarrow> u32) \<Rightarrow> mem \<Rightarrow> fmt_state \<Rightarrow> u32 \<Rightarrow> u32 \<Rightarrow> nat \<Rightarrow> mem option" where
  "vsprintf_loop fr args m state fmt ch i =
    (if m fmt = 0 then Some m
     else case state of
       NORMAL \<Rightarrow>
         if m fmt = 37 then vsprintf_loop fr args m FORMAT (fmt + 1) ch i
         else if m fmt = 10 then
           vsprintf_loop fr args (m(ch := 10, ch + 1 := 13)) NORMAL (fmt + 1) (ch + 2) i
         else vsprintf_loop fr args (m(ch := m fmt)) NORMAL (fmt + 1) (ch + 1) i
     | FORMAT \<Rightarrow> Option.bind (convert fr args (m fmt) m ch i)
         (\<lambda>(m, ch, i). vsprintf_loop fr args m NORMAL (fmt + 1) ch i))"

definition klog_vsprintf :: "log_frame \<Rightarrow> mem \<Rightarrow> u32 \<Rightarrow> u32 \<Rightarrow> (nat \<Rightarrow> u32) \<Rightarrow> mem option" where
  "klog_vsprintf fr m buf fmt args = vsprintf_loop fr args m NORMAL fmt buf 0"

partial_function (option) print_loop :: "u32 \<Rightarrow> machine \<Rightarrow> machine option" where
  "print_loop p s =
    (if ram s p \<noteq> 0 then Option.bind (write_serial (ram s p) s) (print_loop (p + 1)) else Some s)"

definition klog_printf :: "log_frame \<Rightarrow> u32 \<Rightarrow> (nat \<Rightarrow> u32) \<Rightarrow> machine \<Rightarrow> machine option" where
  "klog_printf fr fmt args s =
    (let m = kmemset (ram s) (buf_addr fr) 0 256
     in case klog_vsprintf fr m (buf_addr fr) fmt args of None \<Rightarrow> None
        | Some m \<Rightarrow> print_loop (buf_addr fr) (s\<lparr>ram := m\<rparr>))"

section \<open>Waiting for the port\<close>

text \<open>The status the port gives on the read number \<open>k\<close>.\<close>

definition port_ready :: "machine \<Rightarrow> nat \<Rightarrow> bool" where
  "port_ready s k \<longleftrightarrow> ucast (device s k (PORT_COM1 + 5)) AND (0x20 :: u8) \<noteq> 0"

text \<open>The state after the port has been polled \<open>n\<close> times.\<close>

definition poll :: "machine \<Rightarrow> machine" where
  "poll s = snd (is_transmit_empty s)"

lemma poll_simps [simp]:
  "device (poll s) = device s" "reads (poll s) = Suc (reads s)" "ram (poll s) = ram s" "eflags (poll s) = eflags s"
  by (simp_all add: poll_def is_transmit_empty_def inb_def emit_def Let_def)

lemma polls_simps [simp]:
  "device ((poll ^^ n) s) = device s" "reads ((poll ^^ n) s) = reads s + n" "ram ((poll ^^ n) s) = ram s"
  "eflags ((poll ^^ n) s) = eflags s"
  by (induction n) simp_all

lemma is_transmit_empty_fst: "fst (is_transmit_empty s) \<noteq> 0 \<longleftrightarrow> port_ready s (reads s)"
  by (simp add: is_transmit_empty_def inb_def port_ready_def Let_def)

lemma write_serial_unfold:
  "write_serial a s = (if port_ready s (reads s) then Some (outb PORT_COM1 a (poll s))
     else write_serial a (poll s))"
  using is_transmit_empty_fst [of s]
  by (subst write_serial.simps) (auto simp: poll_def split: prod.splits)

lemma write_serial_polls:
  assumes "\<And>k. k < n \<Longrightarrow> \<not> port_ready s (reads s + k)"
  shows "write_serial a s = write_serial a ((poll ^^ n) s)"
  using assms
proof (induction n)
  case (Suc n)
  then have "write_serial a s = write_serial a ((poll ^^ n) s)" by simp
  also have "\<dots> = write_serial a ((poll ^^ Suc n) s)"
    using Suc.prems [of n] by (subst write_serial_unfold) (simp add: port_ready_def)
  finally show ?case .
qed simp

lemma write_serial_ready:
  assumes "write_serial a s = Some s'"
  shows "\<exists>k\<ge>reads s. port_ready s k"
proof (rule write_serial.raw_induct [OF _ assms])
  fix f a s r
  assume IH: "\<And>a s r. f a s = Some r \<Longrightarrow> \<exists>k\<ge>reads s. port_ready s k"
    and r: "(case is_transmit_empty s of (v, s) \<Rightarrow>
      if v = 0 then f a s else Some (outb PORT_COM1 a s)) = Some r"
  show "\<exists>k\<ge>reads s. port_ready s k"
  proof (cases "fst (is_transmit_empty s) = 0")
    case True
    with r have "f a (poll s) = Some r" by (simp add: poll_def split: prod.splits)
    from IH [OF this] show ?thesis by (auto simp: port_ready_def intro: Suc_leD)
  qed (use is_transmit_empty_fst in blast)
qed

definition ready_after :: "machine \<Rightarrow> nat" where
  "ready_after s = (LEAST n. port_ready s (reads s + n))"

lemma write_serial_eq:
  "write_serial a s = (if \<exists>k\<ge>reads s. port_ready s k
     then Some (outb PORT_COM1 a ((poll ^^ Suc (ready_after s)) s)) else None)"
proof (cases "\<exists>k\<ge>reads s. port_ready s k")
  case True
  then have ex: "\<exists>n. port_ready s (reads s + n)" by (metis le_add_diff_inverse)
  have "write_serial a s = write_serial a ((poll ^^ ready_after s) s)"
    unfolding ready_after_def by (rule write_serial_polls) (rule not_less_Least)
  also have "\<dots> = Some (outb PORT_COM1 a ((poll ^^ Suc (ready_after s)) s))"
    using LeastI_ex [OF ex] by (subst write_serial_unfold) (simp add: port_ready_def ready_after_def)
  finally show ?thesis using True by simp
next
  case False
  then show ?thesis using write_serial_ready by (cases "write_serial a s") auto
qed

text \<open>The bytes a trace sends to the serial port.\<close>

fun sent :: "io_event list \<Rightarrow> u8 list" where
  "sent [] = []"
| "sent (Outb p d # es) = (if p = PORT_COM1 then d # sent es else sent es)"
| "sent (e # es) = sent es"

lemma sent_append [simp]: "sent (es @ fs) = sent es @ sent fs"
  by (induction es rule: sent.induct) simp_all

lemma sent_poll [simp]: "sent (trace (poll s)) = sent (trace s)"
  by (simp add: poll_def is_transmit_empty_def inb_def Let_def)

lemma sent_polls [simp]: "sent (trace ((poll ^^ n) s)) = sent (trace s)"
  by (induction n) simp_all

text \<open>A port that is ready again and again.\<close>

definition keeps_ready :: "machine \<Rightarrow> bool" where
  "keeps_ready s \<longleftrightarrow> (\<forall>n. \<exists>k\<ge>n. port_ready s k)"

lemma write_serial_keeps_ready:
  assumes "keeps_ready s"
  obtains s' where "write_serial a s = Some s'" "ram s' = ram s" "keeps_ready s'"
    "sent (trace s') = sent (trace s) @ [a]" "eflags s' = eflags s" "device s' = device s"
proof (rule that)
  from assms have "\<exists>k\<ge>reads s. port_ready s k" by (simp add: keeps_ready_def)
  then show "write_serial a s = Some (outb PORT_COM1 a ((poll ^^ Suc (ready_after s)) s))"
    by (simp add: write_serial_eq)
qed (use assms in \<open>simp_all add: outb_def emit_def keeps_ready_def port_ready_def\<close>)

lemma print_loop_str:
  assumes "str_at (ram s) p cs" "keeps_ready s"
  shows "\<exists>s'. print_loop p s = Some s' \<and> ram s' = ram s \<and> sent (trace s') = sent (trace s) @ cs
    \<and> eflags s' = eflags s \<and> device s' = device s"
  using assms
proof (induction cs arbitrary: p s)
  case Nil
  then show ?case by (subst print_loop.simps) simp
next
  case (Cons c cs)
  obtain s1 where s1: "write_serial c s = Some s1" "ram s1 = ram s" "keeps_ready s1"
    "sent (trace s1) = sent (trace s) @ [c]" "eflags s1 = eflags s" "device s1 = device s"
    using write_serial_keeps_ready [OF Cons.prems(2)] .
  with Cons.prems(1) Cons.IH [of s1 "p + 1"] show ?case
    by (subst print_loop.simps) auto
qed

section \<open>What a format prints\<close>

text \<open>
  What a format describes, without the code: the text of a number is its decimal text, with a
  sign when it is negative, or \<open>0x\<close> and its hexadecimal digits.  A newline is followed by a
  carriage return; an unknown conversion and a lone percent sign at the end stand for nothing.
\<close>

definition takes_arg :: "u8 \<Rightarrow> bool" where
  "takes_arg c \<longleftrightarrow> c = 100 \<or> c = 99 \<or> c = 115 \<or> c = 120"

definition decimal_text :: "int \<Rightarrow> u8 list" where
  "decimal_text v = (if v < 0 then 45 # map dec_char (digits 10 (nat (- v)))
     else if v = 0 then [48] else map dec_char (digits 10 (nat v)))"

definition hexadecimal_text :: "u32 \<Rightarrow> u8 list" where
  "hexadecimal_text w = (if w = 0 then [48] else map hex_char (digits 16 (unat w)))"

definition conv_text :: "(u32 \<Rightarrow> u8 list) \<Rightarrow> u8 \<Rightarrow> u32 \<Rightarrow> u8 list" where
  "conv_text strs c v =
    (if c = 37 then [37] else if c = 100 then decimal_text (sint v) else if c = 99 then [ucast v]
     else if c = 115 then strs v else if c = 120 then 48 # 120 # hexadecimal_text v else [])"

definition plain_text :: "u8 \<Rightarrow> u8 list" where
  "plain_text c = (if c = 10 then [10, 13] else [c])"

fun format_text :: "(u8 \<Rightarrow> u32 \<Rightarrow> u8 list) \<Rightarrow> (nat \<Rightarrow> u32) \<Rightarrow> u8 list \<Rightarrow> nat \<Rightarrow> u8 list" where
  "format_text conv args [] i = []"
| "format_text conv args [c] i = (if c = 37 then [] else plain_text c)"
| "format_text conv args (c # d # fs) i =
    (if c = 37 then conv d (args i) @ format_text conv args fs (if takes_arg d then Suc i else i)
     else plain_text c @ format_text conv args (d # fs) i)"

definition render :: "(u32 \<Rightarrow> u8 list) \<Rightarrow> (nat \<Rightarrow> u32) \<Rightarrow> u8 list \<Rightarrow> nat \<Rightarrow> u8 list" where
  "render strs = format_text (conv_text strs)"

text \<open>The text of a number reads back as the number.\<close>

lemma decimal_text_reads:
  "number_of 10 (map (\<lambda>c. unat (c - 48)) (decimal_text (int n))) = n"
  "0 < n \<Longrightarrow> decimal_text (- int n) = 45 # decimal_text (int n)"
proof -
  have "map (\<lambda>c. unat (c - 48)) (map dec_char (digits 10 n)) = digits 10 n"
    using digits_less [of 10 n] by (auto simp: dec_char_def unat_of_nat_word intro!: map_idI)
  then show "number_of 10 (map (\<lambda>c. unat (c - 48)) (decimal_text (int n))) = n"
    by (simp add: decimal_text_def number_of_digits) (simp add: number_of_def)
  show "0 < n \<Longrightarrow> decimal_text (- int n) = 45 # decimal_text (int n)" by (simp add: decimal_text_def)
qed

text \<open>
  What the code writes for the same format, and the arguments for which it is the same: a
  number printed by \<open>%d\<close> is positive, one printed by \<open>%x\<close> is below \<open>2 ^ 31\<close>.  For every other number
  the code writes less than the format describes.
\<close>

definition written_conv :: "(u32 \<Rightarrow> u8 list) \<Rightarrow> u8 \<Rightarrow> u32 \<Rightarrow> u8 list" where
  "written_conv strs c v =
    (if c = 37 then [37] else if c = 100 then kitoa_chars (sint v) else if c = 99 then [ucast v]
     else if c = 115 then strs v else if c = 120 then 48 # 120 # khex_chars v else [])"

abbreviation written_text :: "(u32 \<Rightarrow> u8 list) \<Rightarrow> (nat \<Rightarrow> u32) \<Rightarrow> u8 list \<Rightarrow> nat \<Rightarrow> u8 list" where
  "written_text strs \<equiv> format_text (written_conv strs)"

definition number_ok :: "u8 \<Rightarrow> u32 \<Rightarrow> bool" where
  "number_ok c v \<longleftrightarrow> (c = 100 \<longrightarrow> 0 < sint v) \<and> (c = 120 \<longrightarrow> 0 \<le> sint v)"

fun numbers_ok :: "(nat \<Rightarrow> u32) \<Rightarrow> u8 list \<Rightarrow> nat \<Rightarrow> bool" where
  "numbers_ok args [] i = True"
| "numbers_ok args [c] i = True"
| "numbers_ok args (c # d # fs) i =
    (if c = 37 then number_ok d (args i) \<and> numbers_ok args fs (if takes_arg d then Suc i else i)
     else numbers_ok args (d # fs) i)"

lemma digits_nonempty: "1 < b \<Longrightarrow> 0 < n \<Longrightarrow> digits b n \<noteq> []"
  using digits_step [of n b] by simp

lemma written_conv_text:
  "if number_ok c v then written_conv strs c v = conv_text strs c v
   else length (written_conv strs c v) < length (conv_text strs c v)"
proof -
  have h: "khex_chars v = hexadecimal_text v" if "0 \<le> sint v"
    using that by (simp add: khex_chars_def hexadecimal_text_def)
  have "v \<noteq> 0" if "sint v < 0" using that by auto
  then have "khex_chars v = [] \<and> hexadecimal_text v \<noteq> []" if "sint v < 0"
    using that digits_nonempty [of 16 "unat v"] by (simp add: khex_chars_def hexadecimal_text_def unat_gt_0)
  moreover have "kitoa_chars (sint v) = decimal_text (sint v)" if "0 < sint v"
    using that by (simp add: kitoa_chars_def decimal_text_def)
  moreover have "length (kitoa_chars (sint v)) < length (decimal_text (sint v))" if "\<not> 0 < sint v"
    using that by (auto simp add: kitoa_chars_def decimal_text_def digits.simps)
  ultimately show ?thesis using h by (simp add: number_ok_def written_conv_def conv_text_def)
qed

lemma written_text_render:
  "if numbers_ok args fs i then written_text strs args fs i = render strs args fs i
   else length (written_text strs args fs i) < length (render strs args fs i)"
  unfolding render_def
proof (induction args fs i rule: numbers_ok.induct)
  case (3 args c d fs i)
  then show ?case
    using written_conv_text [of d "args i" strs] by (cases "c = 37") (auto split: if_splits)
qed simp_all


text \<open>The pointers a format prints as strings.\<close>

fun string_args :: "(nat \<Rightarrow> u32) \<Rightarrow> u8 list \<Rightarrow> nat \<Rightarrow> u32 set" where
  "string_args args [] i = {}"
| "string_args args [c] i = {}"
| "string_args args (c # d # fs) i =
    (if c = 37 then (if d = 115 then {args i} else {})
       \<union> string_args args fs (if takes_arg d then Suc i else i)
     else string_args args (d # fs) i)"

definition scratch_area :: "log_frame \<Rightarrow> u32 set" where
  "scratch_area fr = region (p_addr fr) 11 \<union> region (cbuf_addr fr) 50"

lemma copy_str_put:
  assumes "str_at m ptr cs" "region ch (length cs) \<inter> region ptr (Suc (length cs)) = {}"
  shows "copy_str m ch ptr = Some (put_bytes m ch cs, ch + of_nat (length cs))"
  using assms
proof (induction cs arbitrary: m ch ptr)
  case Nil
  then show ?case by (subst copy_str.simps) simp
next
  case (Cons c cs)
  have r: "region (ptr + 1) (Suc (length cs)) \<inter> {ch} = {}"
    using Cons.prems(2) by (auto simp: region_Suc)
  have o: "same_outside {ch} m (m(ch := c))" by (simp add: same_outside_def)
  from Cons.prems(1) have "str_at m (ptr + 1) cs" by simp
  from str_at_cong [OF this o r] have "str_at (m(ch := c)) (ptr + 1) cs" .
  moreover have "region (ch + 1) (length cs) \<inter> region (ptr + 1) (Suc (length cs)) = {}"
    using Cons.prems(2) by (auto simp: region_Suc)
  ultimately have "copy_str (m(ch := c)) (ch + 1) (ptr + 1)
      = Some (put_bytes (m(ch := c)) (ch + 1) cs, ch + 1 + of_nat (length cs))"
    by (rule Cons.IH)
  with Cons.prems(1) show ?case
    by (subst copy_str.simps) (simp add: add.assoc)
qed

lemma same_outside_put: "same_outside (region a (length cs)) m (put_bytes m a cs)"
  by (simp add: same_outside_def put_bytes_other)

lemma copy_str_correct:
  assumes "str_at m ptr cs" "region ch (length cs) \<inter> region ptr (Suc (length cs)) = {}"
    and "length cs < 2 ^ 32"
  shows "\<exists>m'. copy_str m ch ptr = Some (m', ch + of_nat (length cs)) \<and> bytes_at m' ch cs
    \<and> same_outside (region ch (length cs)) m m'"
  using copy_str_put [OF assms(1,2)] bytes_at_put [of cs m ch] same_outside_put assms(3) by simp

lemma str_region_mono: "length cs \<le> n \<Longrightarrow> R \<inter> region a (Suc n) = {} \<Longrightarrow> R \<inter> region a (Suc (length cs)) = {}"
  using region_mono [of "Suc (length cs)" "Suc n" a] by auto

lemma convert_correct:
  assumes w: "w = written_conv strs c (args i)"
    and out: "region ch (length w) \<inter> scratch_area fr = {}" "length w < 2 ^ 31"
    and strs: "c = 115 \<Longrightarrow> str_at m (args i) (strs (args i))
      \<and> region (args i) (Suc (length (strs (args i)))) \<inter> (region ch (length w) \<union> scratch_area fr) = {}"
  shows "\<exists>m'. convert fr args c m ch i
      = Some (m', ch + of_nat (length w), if takes_arg c then Suc i else i)
    \<and> bytes_at m' ch w \<and> same_outside (region ch (length w) \<union> scratch_area fr) m m'"
proof -
  consider "c = 100" | "c = 115" | "c = 120" | "c \<noteq> 100" "c \<noteq> 115" "c \<noteq> 120" by blast
  then show ?thesis
  proof cases
    case 1
    have wd: "w = kitoa_chars (sint (args i))" using 1 w by (simp add: written_conv_def)
    have len: "length w \<le> 10" unfolding wd by (rule kitoa_chars_length)
    obtain m1 where m1: "kitoa_s m (p_addr fr) (args i) (kintlen (args i)) = Some m1"
      "str_at m1 (p_addr fr) w" "same_outside (region (p_addr fr) (max 4 (Suc (length w)))) m m1"
      using kitoa_s_text unfolding wd by blast
    have "region ch (length w) \<inter> region (p_addr fr) (Suc (length w)) = {}"
      using out(1) str_region_mono [of w 10] len by (simp add: scratch_area_def Int_Un_distrib)
    then obtain m2 where m2: "copy_str m1 ch (p_addr fr) = Some (m2, ch + of_nat (length w))"
      "bytes_at m2 ch w" "same_outside (region ch (length w)) m1 m2"
      using copy_str_correct [OF m1(2)] out(2) by auto
    have "region (p_addr fr) (max 4 (Suc (length w))) \<subseteq> scratch_area fr"
      using len region_mono [of "max 4 (Suc (length w))" 11 "p_addr fr"] by (auto simp: scratch_area_def)
    then have "same_outside (region ch (length w) \<union> scratch_area fr) m m2"
      by (intro same_outside_trans [OF m1(3) m2(3)]) auto
    with 1 m1(1) m2(1,2) show ?thesis by (simp add: convert_def takes_arg_def Let_def)
  next
    case 2
    have wd: "w = strs (args i)" using 2 w by (simp add: written_conv_def)
    obtain m2 where "copy_str m ch (args i) = Some (m2, ch + of_nat (length w))"
      "bytes_at m2 ch w" "same_outside (region ch (length w)) m m2"
      using copy_str_correct [of m "args i" w ch] strs [OF 2] out(2) unfolding wd by auto
    with 2 show ?thesis
      by (auto simp: convert_def takes_arg_def intro: same_outside_mono)
  next
    case 3
    have wd: "w = 48 # 120 # khex_chars (args i)" using 3 w by (simp add: written_conv_def)
    let ?h = "khex_chars (args i)" let ?cb = "cbuf_addr fr"
    have len: "length ?h \<le> 49" using hex_digits_length [of "args i"] by (auto simp: khex_chars_def)
    let ?m0 = "kmemset m ?cb 0 50"
    obtain m1 where m1: "kdecimalToHexadecimal ?m0 ?cb (args i) = Some m1" "str_at m1 ?cb ?h"
      "same_outside (region ?cb 9) ?m0 m1" using hex_text_all by blast
    let ?m2 = "m1(ch := 48, ch + 1 := 120)"
    have ch: "region ch (length w) = insert ch (insert (ch + 1) (region (ch + 2) (length ?h)))"
      unfolding wd by (simp add: region_Suc add.assoc)
    have disj: "region ch (length w) \<inter> region ?cb (Suc (length ?h)) = {}"
      using out(1) str_region_mono [of "?h" 49 "region ch (length w)" "?cb"] len by (simp add: scratch_area_def Int_Un_distrib)
    have "same_outside {ch, ch + 1} m1 ?m2" by (simp add: same_outside_def)
    from str_at_cong [OF m1(2) this] disj have "str_at ?m2 ?cb ?h" unfolding ch by blast
    moreover have "region (ch + 2) (length ?h) \<inter> region ?cb (Suc (length ?h)) = {}"
      using disj unfolding ch by auto
    ultimately obtain m3 where m3: "copy_str ?m2 (ch + 2) ?cb = Some (m3, ch + 2 + of_nat (length ?h))"
      "bytes_at m3 (ch + 2) ?h" "same_outside (region (ch + 2) (length ?h)) ?m2 m3"
      using copy_str_correct [of "?m2" "?cb" "?h" "ch + 2"] len by auto
    have "region ch 2 \<inter> region (ch + 2) (length ?h) = {}"
      using region_add_disjoint [of 2 "length ?h" ch] len by simp
    then have "m3 ch = ?m2 ch" "m3 (ch + 1) = ?m2 (ch + 1)"
      using m3(3) by (auto simp: region_2 same_outside_def)
    then have "bytes_at m3 ch w" using m3(2) unfolding wd by (simp add: add.assoc)
    moreover have "same_outside (region ch (length w) \<union> scratch_area fr) m m3"
      unfolding same_outside_def
    proof (intro allI impI)
      fix x assume x: "x \<notin> region ch (length w) \<union> scratch_area fr"
      then have "x \<notin> region ?cb 50" "x \<notin> region ?cb 9" "x \<notin> region (ch + 2) (length ?h)" "x \<noteq> ch" "x \<noteq> ch + 1"
        using region_mono [of 9 50 "?cb"] by (auto simp: ch scratch_area_def)
      then show "m3 x = m x"
        using m1(3) m3(3) by (simp add: same_outside_def kmemset_eq)
    qed
    ultimately show ?thesis using 3 m1(1) m3(1) wd
      by (simp add: convert_def takes_arg_def Let_def add.assoc)
  next
    case 4
    then consider "c = 37" | "c = 99" | "\<not> takes_arg c" "c \<noteq> 37" by (auto simp: takes_arg_def)
    then show ?thesis
      using 4 w by cases (auto simp: convert_def written_conv_def takes_arg_def same_outside_def region_Suc)
  qed
qed

text \<open>One chunk of output followed by the rest of it.\<close>

lemma output_chunk:
  assumes "bytes_at m1 ch w" "same_outside (region ch (length w) \<union> S) m m1"
    and "bytes_at m2 (ch + of_nat (length w)) v"
    and "same_outside (region (ch + of_nat (length w)) (length v) \<union> S) m1 m2"
    and "region ch (length (w @ v)) \<inter> S = {}" "length (w @ v) < 2 ^ 31"
  shows "bytes_at m2 ch (w @ v) \<and> same_outside (region ch (length (w @ v)) \<union> S) m m2"
proof
  have split: "region ch (length (w @ v)) = region ch (length w) \<union> region (ch + of_nat (length w)) (length v)"
    by (simp add: region_add)
  have "region ch (length w) \<inter> (region (ch + of_nat (length w)) (length v) \<union> S) = {}"
    using region_add_disjoint [of "length w" "length v" ch] assms(5,6) split by auto
  then have "bytes_at m2 ch w" using bytes_at_cong assms(1,4) by blast
  then show "bytes_at m2 ch (w @ v)" using assms(3) by (simp add: bytes_at_append)
  show "same_outside (region ch (length (w @ v)) \<union> S) m m2"
    unfolding split by (rule same_outside_trans [OF assms(2,4)]) auto
qed

lemma vsprintf_end: "m fmt = 0 \<Longrightarrow> vsprintf_loop fr args m st fmt ch i = Some m"
  by (subst vsprintf_loop.simps) simp

lemma vsprintf_plain:
  assumes "m fmt \<noteq> 0" "m fmt \<noteq> 37"
  shows "vsprintf_loop fr args m NORMAL fmt ch i =
    vsprintf_loop fr args (put_bytes m ch (plain_text (m fmt))) NORMAL (fmt + 1)
      (ch + of_nat (length (plain_text (m fmt)))) i"
  using assms by (subst vsprintf_loop.simps) (simp add: plain_text_def)

lemma vsprintf_format:
  "vsprintf_loop fr args m FORMAT fmt ch i =
    (if m fmt = 0 then Some m
     else Option.bind (convert fr args (m fmt) m ch i)
       (\<lambda>(m, ch, i). vsprintf_loop fr args m NORMAL (fmt + 1) ch i))"
  by (subst vsprintf_loop.simps) simp

lemma vsprintf_percent:
  assumes "m fmt = 37"
  shows "vsprintf_loop fr args m NORMAL fmt ch i = vsprintf_loop fr args m FORMAT (fmt + 1) ch i"
  using assms by (subst vsprintf_loop.simps) simp

lemma vsprintf_written:
  assumes "str_at m fmt fs" "T = written_text strs args fs i" "length T < 2 ^ 31"
    and "D = region ch (length T) \<union> scratch_area fr" "region ch (length T) \<inter> scratch_area fr = {}"
    and "region fmt (Suc (length fs)) \<inter> D = {}"
    and "\<forall>v\<in>string_args args fs i. str_at m v (strs v) \<and> region v (Suc (length (strs v))) \<inter> D = {}"
  shows "\<exists>m'. vsprintf_loop fr args m NORMAL fmt ch i = Some m' \<and> bytes_at m' ch T \<and> same_outside D m m'"
  using assms
proof (induction args fs i arbitrary: m fmt ch T D rule: string_args.induct)
  case (1 args i)
  then show ?case by (simp add: vsprintf_end)
next
  case (2 args c i)
  let ?m = "put_bytes m ch (plain_text c)"
  show ?case
  proof (cases "c = 37")
    case True
    with 2 show ?thesis by (simp add: vsprintf_percent vsprintf_end)
  next
    case False
    have "fmt + 1 \<notin> region ch (length (plain_text c))"
      using 2 False by (auto simp: region_Suc)
    then have "?m (fmt + 1) = 0" using 2(1) by (simp add: put_bytes_other)
    then have "vsprintf_loop fr args m NORMAL fmt ch i = Some ?m"
      using 2(1) False by (simp add: vsprintf_plain vsprintf_end)
    moreover have "bytes_at ?m ch T"
      using 2(2) False by (simp add: bytes_at_put plain_text_def)
    moreover have "same_outside D m ?m"
      using same_outside_put 2(2,4) False by (auto intro: same_outside_mono)
    ultimately show ?thesis by blast
  qed
next
  case (3 args c d fs i)
  text \<open>What the rest of the format does after the chunk \<open>w\<close> has been written.\<close>
  have rest: "\<exists>m'. vsprintf_loop fr args m1 NORMAL (fmt + of_nat k) (ch + of_nat (length w)) j = Some m'
      \<and> bytes_at m' ch T \<and> same_outside D m m'"
    if IH: "\<And>m fmt ch T D. str_at m fmt gs \<Longrightarrow> T = written_text strs args gs j \<Longrightarrow> length T < 2 ^ 31
        \<Longrightarrow> D = region ch (length T) \<union> scratch_area fr \<Longrightarrow> region ch (length T) \<inter> scratch_area fr = {}
        \<Longrightarrow> region fmt (Suc (length gs)) \<inter> D = {}
        \<Longrightarrow> \<forall>v\<in>string_args args gs j. str_at m v (strs v) \<and> region v (Suc (length (strs v))) \<inter> D = {}
        \<Longrightarrow> \<exists>m'. vsprintf_loop fr args m NORMAL fmt ch j = Some m' \<and> bytes_at m' ch T \<and> same_outside D m m'"
      and T: "T = w @ written_text strs args gs j"
      and m1: "bytes_at m1 ch w" "same_outside (region ch (length w) \<union> scratch_area fr) m m1"
      and gs: "length gs + k = length (c # d # fs)" "str_at m (fmt + of_nat k) gs"
      and sargs: "string_args args gs j \<subseteq> string_args args (c # d # fs) i"
    for w gs j k m1
  proof -
    let ?v = "written_text strs args gs j" let ?ch = "ch + of_nat (length w)"
    let ?D = "region ?ch (length ?v) \<union> scratch_area fr"
    have split: "region ch (length T) = region ch (length w) \<union> region ?ch (length ?v)"
      unfolding T by (simp add: region_add)
    have sub: "?D \<subseteq> D" "region ch (length w) \<union> scratch_area fr \<subseteq> D" using 3(6) split by auto
    have "Suc (length (c # d # fs)) = k + Suc (length gs)" using gs(1) by simp
    then have "region fmt (Suc (length (c # d # fs))) = region fmt k \<union> region (fmt + of_nat k) (Suc (length gs))"
      by (simp only: region_add)
    with 3(8) have r: "region (fmt + of_nat k) (Suc (length gs)) \<inter> D = {}" by auto
    have keep: "str_at m1 a cs" if "str_at m a cs" "region a (Suc (length cs)) \<inter> D = {}" for a cs
      using str_at_cong [OF that(1) m1(2)] that(2) sub(2) by blast
    have args: "\<forall>v\<in>string_args args gs j. str_at m1 v (strs v)
        \<and> region v (Suc (length (strs v))) \<inter> ?D = {}"
      using 3(9) sargs keep sub(1) by blast
    have len: "length ?v < 2 ^ 31" using 3(5) T by simp
    have out: "region ?ch (length ?v) \<inter> scratch_area fr = {}" using 3(7) split by auto
    have fmt: "region (fmt + of_nat k) (Suc (length gs)) \<inter> ?D = {}" using r sub(1) by blast
    obtain m' where m': "vsprintf_loop fr args m1 NORMAL (fmt + of_nat k) ?ch j = Some m'"
      "bytes_at m' ?ch ?v" "same_outside ?D m1 m'"
      using IH [OF keep [OF gs(2) r] refl len refl out fmt args] by blast
    then show ?thesis
      using output_chunk [OF m1 m'(2,3)] 3(5,6,7) unfolding T by auto
  qed
  have c: "m fmt = c" "c \<noteq> 0" "m (fmt + 1) = d" "d \<noteq> 0" using 3(3) by simp_all
  show ?case
  proof (cases "c = 37")
    case False
    let ?m = "put_bytes m ch (plain_text c)"
    have "\<exists>m'. vsprintf_loop fr args ?m NORMAL (fmt + of_nat 1) (ch + of_nat (length (plain_text c))) i = Some m'
      \<and> bytes_at m' ch T \<and> same_outside D m m'"
    proof (rule rest [where gs = "d # fs", OF 3(2) [OF False]])
      show "same_outside (region ch (length (plain_text c)) \<union> scratch_area fr) m ?m"
        using same_outside_put by (rule same_outside_mono) simp
    qed (use False 3(3,4) in \<open>simp_all add: bytes_at_put plain_text_def\<close>)
    then show ?thesis using False c by (simp add: vsprintf_plain)
  next
    case True
    let ?w = "written_conv strs d (args i)" let ?j = "if takes_arg d then Suc i else i"
    have T: "T = ?w @ written_text strs args fs ?j" using 3(4) True by simp
    have "region ch (length ?w) \<subseteq> region ch (length T)" unfolding T by (intro region_mono) simp
    then have sub: "region ch (length ?w) \<union> scratch_area fr \<subseteq> D"
      and out: "region ch (length ?w) \<inter> scratch_area fr = {}" using 3(6,7) by blast+
    have len: "length ?w < 2 ^ 31" using 3(5) T by simp
    have "str_at m (args i) (strs (args i))
        \<and> region (args i) (Suc (length (strs (args i)))) \<inter> (region ch (length ?w) \<union> scratch_area fr) = {}"
      if "d = 115"
    proof -
      have "args i \<in> string_args args (c # d # fs) i" using that True by simp
      with 3(9) sub show ?thesis by blast
    qed
    from convert_correct [where strs = strs and c = d and args = args and i = i, OF refl out len this]
    obtain m1
      where m1: "convert fr args d m ch i = Some (m1, ch + of_nat (length ?w), ?j)"
      "bytes_at m1 ch ?w" "same_outside (region ch (length ?w) \<union> scratch_area fr) m m1" by blast
    have "\<exists>m'. vsprintf_loop fr args m1 NORMAL (fmt + of_nat 2) (ch + of_nat (length ?w)) ?j = Some m'
      \<and> bytes_at m' ch T \<and> same_outside D m m'"
      by (rule rest [OF 3(1) [OF True] T m1(2,3)]) (use True 3(3) in \<open>simp_all add: add.assoc\<close>)
    then show ?thesis using True c m1(1) by (simp add: vsprintf_percent vsprintf_format add.assoc)
  qed
qed

section \<open>The log prints what the format says\<close>

text \<open>
  \<open>write_serial\<close> polls the line status until the transmitter is empty and then sends
  the character; it returns exactly when the port becomes ready at some later read.
\<close>

theorem write_serial_waits:
  "write_serial a s =
    (if \<exists>k\<ge>reads s. port_ready s k
     then Some (outb PORT_COM1 a ((poll ^^ Suc (ready_after s)) s)) else None)"
  by (rule write_serial_eq)


definition sample_frame :: log_frame where
  "sample_frame = \<lparr>buf_addr = 0x2000, p_addr = 0x3000, cbuf_addr = 0x4000\<rparr>"

text \<open>The format ``x\<open>%\<close>d'' at address 0x1000.\<close>

definition sample_fmt :: mem where
  "sample_fmt = (\<lambda>_. 0)(0x1000 := 120, 0x1001 := 37, 0x1002 := 100)"

lemma sample_disjoint:
  "region 0x2000 k \<inter> scratch_area sample_frame = {}" if "k \<le> 256"
  using that by (auto simp: scratch_area_def sample_frame_def Int_Un_distrib region_before)

lemma sample_fmt_disjoint:
  "region 0x1000 (Suc (length [120, 37, 100 :: u8])) \<inter> (region 0x2000 k \<union> scratch_area sample_frame) = {}"
  if "k \<le> 256"
  using that by (auto simp: scratch_area_def sample_frame_def Int_Un_distrib region_before)

lemma sample_render: "render (\<lambda>_. []) (\<lambda>_. 42) [120, 37, 100] 0 = [120, 52, 50]"
  by (simp add: render_def conv_text_def plain_text_def decimal_text_def digits.simps dec_char_def)

lemma sample_numbers: "numbers_ok (\<lambda>_. 42) [120, 37, 100] 0"
  by (simp add: number_ok_def)


lemma klog_printf_effect:
  assumes "str_at (ram s) fmt fs" "T = written_text strs args fs 0" "length T < 256" "0 \<notin> set T"
    and "D = region (buf_addr fr) 256 \<union> scratch_area fr"
    and "region (buf_addr fr) 256 \<inter> scratch_area fr = {}"
    and "region fmt (Suc (length fs)) \<inter> D = {}"
    and "\<forall>v\<in>string_args args fs 0. str_at (ram s) v (strs v)
      \<and> region v (Suc (length (strs v))) \<inter> D = {}"
    and "keeps_ready s"
  shows "\<exists>s'. klog_printf fr fmt args s = Some s' \<and> sent (trace s') = sent (trace s) @ T
    \<and> eflags s' = eflags s \<and> device s' = device s \<and> same_outside D (ram s) (ram s')"
proof -
  let ?b = "buf_addr fr"
  let ?m = "kmemset (ram s) ?b 0 256"
  let ?D = "region ?b (length T) \<union> scratch_area fr"
  have sub: "region ?b (length T) \<subseteq> region ?b 256" using assms(3) by (intro region_mono) simp
  have o: "same_outside (region ?b 256) (ram s) ?m" by (simp add: same_outside_def kmemset_eq)
  have keep: "str_at ?m a cs" if "str_at (ram s) a cs" "region a (Suc (length cs)) \<inter> D = {}" for a cs
    using str_at_cong [OF that(1) o] that(2) assms(5) by blast
  have D: "?D \<subseteq> D" using sub assms(5) by blast
  have "\<exists>m'. klog_vsprintf fr ?m ?b fmt args = Some m' \<and> bytes_at m' ?b T \<and> same_outside ?D ?m m'"
  proof (rule vsprintf_written [of "?m" fmt fs T strs args 0 "?D" "?b" fr, folded klog_vsprintf_def])
    show "str_at ?m fmt fs" using keep assms(1,7) by blast
    show "\<forall>v\<in>string_args args fs 0. str_at ?m v (strs v) \<and> region v (Suc (length (strs v))) \<inter> ?D = {}"
      using keep assms(8) D by blast
  qed (use assms(2,3,6,7) sub D in auto)
  then obtain m' where m': "klog_vsprintf fr ?m ?b fmt args = Some m'" "bytes_at m' ?b T"
    "same_outside ?D ?m m'" by blast
  let ?e = "?b + of_nat (length T)"
  have e: "?e \<in> region ?b 256" using assms(3) by (auto simp: region_def)
  moreover have "?e \<notin> region ?b (length T)"
    using region_add_disjoint [of "length T" 1 "?b"] assms(3) by (auto simp: region_Suc)
  ultimately have "m' ?e = 0"
    using m'(3) assms(6) by (auto simp: same_outside_def kmemset_eq)
  with m'(2) assms(4) have "str_at m' ?b T" by (simp add: str_at_iff)
  then obtain s' where "print_loop ?b (s\<lparr>ram := m'\<rparr>) = Some s'" "sent (trace s') = sent (trace s) @ T" "ram s' = m'"
    "eflags s' = eflags s" "device s' = device s"
    using print_loop_str [of "s\<lparr>ram := m'\<rparr>" "?b" T] assms(9) by (auto simp: keeps_ready_def port_ready_def)
  moreover have "same_outside D (ram s) m'"
    using o m'(3) D assms(5) by (auto simp: same_outside_def subset_iff)
  ultimately show ?thesis using m'(1) by (simp add: klog_printf_def)
qed

text \<open>
  C31: when the text the format describes is shorter than the 256-byte buffer and has no zero in
  it, each number in it is one the code can print (positive for \<open>%d\<close>, below \<open>2 ^ 31\<close> for \<open>%x\<close>), the
  buffer, the scratch arrays, the format and the strings lie apart, and the port is ready
  again and again, \<open>klog_printf\<close> returns and has sent exactly that text.
\<close>

theorem klog_printf_sends:
  assumes "str_at (ram s) fmt fs" "T = render strs args fs 0" "length T < 256" "0 \<notin> set T"
    and "numbers_ok args fs 0"
    and "D = region (buf_addr fr) 256 \<union> scratch_area fr"
    and "region (buf_addr fr) 256 \<inter> scratch_area fr = {}"
    and "region fmt (Suc (length fs)) \<inter> D = {}"
    and "\<forall>v\<in>string_args args fs 0. str_at (ram s) v (strs v)
      \<and> region v (Suc (length (strs v))) \<inter> D = {}"
    and "keeps_ready s"
  shows "\<exists>s'. klog_printf fr fmt args s = Some s' \<and> sent (trace s') = sent (trace s) @ T"
proof -
  have "T = written_text strs args fs 0" using written_text_render [of args fs 0 strs] assms(2,5) by simp
  from klog_printf_effect [OF assms(1) this assms(3,4,6-)] show ?thesis by blast
qed

definition sample_machine :: machine where
  "sample_machine = \<lparr>ram = sample_fmt, eflags = EFLAGS_DEFAULT, cr0 = 0, cr3 = 0, cr4 = 0,
     gdtr = (0, 0), idtr = (0, 0), tr = 0, device = (\<lambda>_ _. 0x60), reads = 0, trace = []\<rparr>"

theorem klog_printf_sends_witness:
  "\<exists>s'. klog_printf sample_frame 0x1000 (\<lambda>_. 42) sample_machine = Some s'
     \<and> sent (trace s') = [120, 52, 50]"
proof -
  have k: "keeps_ready sample_machine"
    by (auto simp: keeps_ready_def port_ready_def sample_machine_def)
  have "\<exists>s'. klog_printf sample_frame 0x1000 (\<lambda>_. 42) sample_machine = Some s'
     \<and> sent (trace s') = sent (trace sample_machine) @ [120, 52, 50]"
  proof (rule klog_printf_sends [where fs = "[120, 37, 100]" and strs = "\<lambda>_. []",
        OF _ sample_render [symmetric] _ _ sample_numbers refl _ _ _ k])
    have b: "buf_addr sample_frame = 0x2000" by (simp add: sample_frame_def)
    show "region (buf_addr sample_frame) 256 \<inter> scratch_area sample_frame = {}"
      unfolding b by (rule sample_disjoint) simp
    show "region 0x1000 (Suc (length [120, 37, 100 :: u8]))
        \<inter> (region (buf_addr sample_frame) 256 \<union> scratch_area sample_frame) = {}"
      unfolding b by (rule sample_fmt_disjoint) simp
  qed (simp_all add: sample_machine_def sample_fmt_def)
  then show ?thesis by (simp add: sample_machine_def)
qed

end
