(* ===== verification/Irq.thy ===== *)
theory Irq
  imports Log Gdt
begin

text \<open>
  The interrupt layer of \<open>source/kernel/irq/irq.c\<close>: the 8259 controllers, the interrupt
  descriptor table, the exception handlers and the switching of the interrupt flag.  The
  table is 256 packed gates of eight bytes at the address \<open>idt\<close>; the addresses of the
  assembly entry points are a function \<open>entry\<close> of the routine, since the linker
  chooses them.
\<close>

unbundle bit_operations_syntax

section \<open>The interrupt controllers\<close>

definition PIC_M_CTRL :: u16 where "PIC_M_CTRL = 0x20"
definition PIC_M_DATA :: u16 where "PIC_M_DATA = 0x21"
definition PIC_S_CTRL :: u16 where "PIC_S_CTRL = 0xA0"
definition PIC_S_DATA :: u16 where "PIC_S_DATA = 0xA1"
definition PIC_START :: u8 where "PIC_START = 0x20"

definition pic_init :: "machine \<Rightarrow> machine" where
  "pic_init s =
    (let s = outb PIC_M_CTRL 0x11 s;
         s = outb PIC_M_DATA 0x20 s;
         s = outb PIC_M_DATA 0x04 s;
         s = outb PIC_M_DATA 0x01 s;
         s = outb PIC_S_CTRL 0x11 s;
         s = outb PIC_S_DATA 0x28 s;
         s = outb PIC_S_DATA 0x02 s;
         s = outb PIC_S_DATA 0x01 s
     in s)"

text \<open>
  The mask is computed in \<open>int\<close> and truncated by \<open>outb\<close>.  \<open>msg\<close> is the address of
  the error message; the log may wait for ever, hence the option.
\<close>

definition pic_enable :: "log_frame \<Rightarrow> u32 \<Rightarrow> u8 \<Rightarrow> machine \<Rightarrow> machine option" where
  "pic_enable fr msg pic_num s =
    (if pic_num < PIC_START then klog_printf fr msg (\<lambda>_. 0) s
     else
       let pic_num = pic_num - PIC_START
       in if pic_num < 8 then
            case inb PIC_M_DATA s of (v, s) \<Rightarrow>
              let mask = (ucast v :: c_int) AND NOT (c_shl 1 (ucast pic_num))
              in Some (outb PIC_M_DATA (ucast mask) s)
          else
            case inb PIC_S_DATA s of (v, s) \<Rightarrow>
              let mask = (ucast v :: c_int) AND NOT (c_shl 1 (ucast pic_num - 8))
              in Some (outb PIC_S_DATA (ucast mask) s))"

section \<open>The interrupt descriptor table\<close>

record irq_desc_t =
  limit15_0 :: u16
  irq_selector :: u16
  irq_attribute :: u16
  limit31_16 :: u16

definition irq_desc_at :: "mem \<Rightarrow> u32 \<Rightarrow> irq_desc_t" where
  "irq_desc_at m desc = \<lparr>limit15_0 = ld16 m desc, irq_selector = ld16 m (desc + 2),
     irq_attribute = ld16 m (desc + 4), limit31_16 = ld16 m (desc + 6)\<rparr>"

text \<open>
  The function has no return statement on its main path: its value is then undefined,
  which is the result \<open>None\<close>; on the early exit it is \<open>Some False\<close>.
\<close>

definition irq_segment_set :: "mem \<Rightarrow> u32 \<Rightarrow> u16 \<Rightarrow> u32 \<Rightarrow> u16 \<Rightarrow> bool option \<times> mem" where
  "irq_segment_set m desc selector offset attr =
    (if offset > 0xFFFFF then (Some False, m)
     else
       let m = st16 m desc (ucast (offset AND 0xFFFF));
           m = st16 m (desc + 2) selector;
           m = st16 m (desc + 4) attr;
           m = st16 m (desc + 6) (ucast (drop_bit 16 offset AND 0xFFFF))
       in (None, m))"

definition irq_install :: "u32 \<Rightarrow> mem \<Rightarrow> u16 \<Rightarrow> u32 \<Rightarrow> bool \<times> mem" where
  "irq_install idt m irq_num handler =
    (if unat irq_num \<ge> IDT_SIZE then (False, m)
     else (True, snd (irq_segment_set m (slot8 idt (unat irq_num)) KERNEL_SELECTOR_CS handler
                        (GATE_TYPE_IDT OR GATE_P OR GATE_DPL_0))))"

text \<open>The routines with an assembly entry point in \<open>start.S\<close>.\<close>

datatype isr = Unknown | Divider | Debug | NMI | Breakpoint | Overflow | Bound_range
  | Invalid_opcode | Device_unfound | Double_fault | Invalid_tss | Segment_not_present
  | Stack_segment_fault | General_protection | Page_fault | Float_point_error
  | Aligment_check | Machine_check | SIMD | Virtual_exception | Timer_isr | Syscall_isr

definition install_area :: "(u16 \<times> isr) list" where
  "install_area =
    [(0, Divider), (1, Debug), (2, NMI), (3, Breakpoint), (4, Overflow), (5, Bound_range),
     (6, Invalid_opcode), (7, Device_unfound), (8, Double_fault), (10, Invalid_tss),
     (11, Segment_not_present), (12, Stack_segment_fault), (13, General_protection),
     (14, Page_fault), (16, Float_point_error), (17, Aligment_check), (18, Machine_check),
     (19, SIMD), (20, Virtual_exception)]"

definition irq_init :: "u32 \<Rightarrow> (isr \<Rightarrow> u32) \<Rightarrow> machine \<Rightarrow> machine" where
  "irq_init idt entry s =
    (let s = pic_init s;
         m = fold (\<lambda>i m. snd (irq_segment_set m (slot8 idt i) KERNEL_SELECTOR_CS (entry Unknown)
                                (GATE_TYPE_IDT OR GATE_P OR GATE_DPL_0))) [0..<IDT_SIZE] (ram s);
         m = fold (\<lambda>(irq, h) m. snd (irq_install idt m irq (entry h))) install_area m;
         m = snd (irq_segment_set m (slot8 idt 0x80) KERNEL_SELECTOR_CS (entry Syscall_isr)
                    (GATE_TYPE_IDT OR GATE_P OR GATE_DPL_3))
     in lidt idt (of_nat (8 * IDT_SIZE)) (s\<lparr>ram := m\<rparr>))"

section \<open>The exception handlers\<close>

text \<open>The closing \<open>for (;;);\<close> of the handlers.\<close>

partial_function (option) spin_forever :: "machine \<Rightarrow> machine option" where
  "spin_forever s = spin_forever s"

definition irq_handler_unknown :: "machine \<Rightarrow> machine option" where
  "irq_handler_unknown s = Some s"
definition irq_handler_divider :: "machine \<Rightarrow> machine option" where
  "irq_handler_divider s = Some s"
definition irq_handler_debug :: "machine \<Rightarrow> machine option" where
  "irq_handler_debug s = spin_forever (hlt s)"
definition irq_handler_NMI :: "machine \<Rightarrow> machine option" where
  "irq_handler_NMI s = spin_forever (hlt s)"
definition irq_handler_breakpoint :: "machine \<Rightarrow> machine option" where
  "irq_handler_breakpoint s = spin_forever (hlt s)"
definition irq_handler_overflow :: "machine \<Rightarrow> machine option" where
  "irq_handler_overflow s = spin_forever (hlt s)"
definition irq_handler_bound_range :: "machine \<Rightarrow> machine option" where
  "irq_handler_bound_range s = spin_forever (hlt s)"
definition irq_handler_invalid_opcode :: "machine \<Rightarrow> machine option" where
  "irq_handler_invalid_opcode s = spin_forever (hlt s)"
definition irq_handler_device_unfound :: "machine \<Rightarrow> machine option" where
  "irq_handler_device_unfound s = spin_forever (hlt s)"
definition irq_handler_double_fault :: "machine \<Rightarrow> machine option" where
  "irq_handler_double_fault s = spin_forever (hlt s)"
definition irq_handler_invalid_tss :: "machine \<Rightarrow> machine option" where
  "irq_handler_invalid_tss s = spin_forever (hlt s)"
definition irq_handler_segment_not_present :: "machine \<Rightarrow> machine option" where
  "irq_handler_segment_not_present s = spin_forever (hlt s)"
definition irq_handler_stack_segment_fault :: "machine \<Rightarrow> machine option" where
  "irq_handler_stack_segment_fault s = spin_forever (hlt s)"
definition irq_handler_general_protection :: "machine \<Rightarrow> machine option" where
  "irq_handler_general_protection s = spin_forever (hlt s)"
definition irq_handler_page_fault :: "machine \<Rightarrow> machine option" where
  "irq_handler_page_fault s = spin_forever (hlt s)"
definition irq_handler_float_point_error :: "machine \<Rightarrow> machine option" where
  "irq_handler_float_point_error s = spin_forever (hlt s)"
definition irq_handler_aligment_check :: "machine \<Rightarrow> machine option" where
  "irq_handler_aligment_check s = spin_forever (hlt s)"
definition irq_handler_machine_check :: "machine \<Rightarrow> machine option" where
  "irq_handler_machine_check s = spin_forever (hlt s)"
definition irq_handler_SIMD :: "machine \<Rightarrow> machine option" where
  "irq_handler_SIMD s = spin_forever (hlt s)"
definition irq_handler_virtual_exception :: "machine \<Rightarrow> machine option" where
  "irq_handler_virtual_exception s = spin_forever (hlt s)"

text \<open>The C handler an assembly entry point calls, for the exceptions.\<close>

fun exception_handler :: "isr \<Rightarrow> (machine \<Rightarrow> machine option) option" where
  "exception_handler Unknown = Some irq_handler_unknown"
| "exception_handler Divider = Some irq_handler_divider"
| "exception_handler Debug = Some irq_handler_debug"
| "exception_handler NMI = Some irq_handler_NMI"
| "exception_handler Breakpoint = Some irq_handler_breakpoint"
| "exception_handler Overflow = Some irq_handler_overflow"
| "exception_handler Bound_range = Some irq_handler_bound_range"
| "exception_handler Invalid_opcode = Some irq_handler_invalid_opcode"
| "exception_handler Device_unfound = Some irq_handler_device_unfound"
| "exception_handler Double_fault = Some irq_handler_double_fault"
| "exception_handler Invalid_tss = Some irq_handler_invalid_tss"
| "exception_handler Segment_not_present = Some irq_handler_segment_not_present"
| "exception_handler Stack_segment_fault = Some irq_handler_stack_segment_fault"
| "exception_handler General_protection = Some irq_handler_general_protection"
| "exception_handler Page_fault = Some irq_handler_page_fault"
| "exception_handler Float_point_error = Some irq_handler_float_point_error"
| "exception_handler Aligment_check = Some irq_handler_aligment_check"
| "exception_handler Machine_check = Some irq_handler_machine_check"
| "exception_handler SIMD = Some irq_handler_SIMD"
| "exception_handler Virtual_exception = Some irq_handler_virtual_exception"
| "exception_handler Timer_isr = None"
| "exception_handler Syscall_isr = None"

lemmas halting_handlers = irq_handler_debug_def irq_handler_NMI_def irq_handler_breakpoint_def irq_handler_overflow_def irq_handler_bound_range_def irq_handler_invalid_opcode_def irq_handler_device_unfound_def irq_handler_double_fault_def irq_handler_invalid_tss_def irq_handler_segment_not_present_def irq_handler_stack_segment_fault_def irq_handler_general_protection_def irq_handler_page_fault_def irq_handler_float_point_error_def irq_handler_aligment_check_def irq_handler_machine_check_def irq_handler_SIMD_def irq_handler_virtual_exception_def

section \<open>The interrupt flag\<close>

definition get_irq_status :: "machine \<Rightarrow> irq_status" where
  "get_irq_status s = (if EFLAGS_IF AND eflags s \<noteq> 0 then INTR_ON else INTR_OFF)"

definition irq_enable :: "machine \<Rightarrow> irq_status \<times> machine" where
  "irq_enable s =
    (let old_status = get_irq_status s
     in (old_status, if old_status = INTR_OFF then sti s else s))"

definition irq_disable :: "machine \<Rightarrow> irq_status \<times> machine" where
  "irq_disable s =
    (let old_status = get_irq_status s
     in (old_status, if old_status = INTR_ON then cli s else s))"

definition irq_enter_protection :: "machine \<Rightarrow> irq_status \<times> machine" where
  "irq_enter_protection s = irq_disable s"

definition irq_set_status :: "irq_status \<Rightarrow> machine \<Rightarrow> irq_status \<times> machine" where
  "irq_set_status status s = (if status = INTR_ON then irq_enable s else irq_disable s)"

text \<open>Its result is never set: only the effect on the state is meaningful.\<close>

definition irq_leave_protection :: "irq_status \<Rightarrow> machine \<Rightarrow> machine" where
  "irq_leave_protection status s = snd (irq_set_status status s)"

section \<open>Gates\<close>

definition gate_offset :: "irq_desc_t \<Rightarrow> u32" where
  "gate_offset d = push_bit 16 (ucast (limit31_16 d)) OR ucast (limit15_0 d)"

definition gate_dpl :: "irq_desc_t \<Rightarrow> u16" where
  "gate_dpl d = drop_bit 13 (irq_attribute d) AND 3"

definition gate_present :: "irq_desc_t \<Rightarrow> bool" where
  "gate_present d \<longleftrightarrow> bit (irq_attribute d) 15"

definition gate_for :: "u16 \<Rightarrow> u32 \<Rightarrow> u16 \<Rightarrow> irq_desc_t" where
  "gate_for selector offset attr = \<lparr>limit15_0 = ucast (offset AND 0xFFFF), irq_selector = selector,
     irq_attribute = attr, limit31_16 = ucast (drop_bit 16 offset AND 0xFFFF)\<rparr>"

lemma gate_offset_for [simp]: "gate_offset (gate_for sel offset attr) = offset"
proof (rule bit_word_eqI)
  fix n assume "n < LENGTH(32)"
  then consider "n < 16" | "16 \<le> n" "n < 32" by fastforce
  then show "bit (gate_offset (gate_for sel offset attr)) n = bit offset n"
    by cases (auto simp: gate_offset_def gate_for_def bit_simps bit_masks)
qed

lemma gate_for_simps [simp]:
  "irq_selector (gate_for sel offset attr) = sel" "irq_attribute (gate_for sel offset attr) = attr"
  by (simp_all add: gate_for_def)

lemma irq_desc_at_set:
  assumes "offset \<le> 0xFFFFF"
  shows "irq_desc_at (snd (irq_segment_set m desc sel offset attr)) desc = gate_for sel offset attr"
proof -
  have st: "ld16 (st16 m b v) a = ld16 m a" if "b \<noteq> a" "b \<noteq> a + 1" "b + 1 \<noteq> a" for m a b v
    using that by (simp add: ld16_def st16_def)
  show ?thesis
    using assms [unfolded linorder_not_less [symmetric]]
    by (simp add: irq_desc_at_def irq_segment_set_def gate_for_def Let_def st ld16_st16 add.assoc)
qed

lemma irq_segment_set_byte:
  assumes "\<And>j. j < 8 \<Longrightarrow> x \<noteq> desc + of_nat j"
  shows "snd (irq_segment_set m desc sel offset attr) x = m x"
  using assms [of 0] assms [of 1] assms [of 2] assms [of 3] assms [of 4] assms [of 5]
    assms [of 6] assms [of 7]
  by (simp add: irq_segment_set_def Let_def st16_def add.assoc)

lemma irq_desc_at_cong:
  assumes "\<And>j. j < 8 \<Longrightarrow> m (a + of_nat j) = m' (a + of_nat j)"
  shows "irq_desc_at m a = irq_desc_at m' a"
  using assms [of 0] assms [of 1] assms [of 2] assms [of 3] assms [of 4] assms [of 5]
    assms [of 6] assms [of 7]
  by (simp add: irq_desc_at_def ld16_def add.assoc)

definition idt_gate :: "u32 \<Rightarrow> mem \<Rightarrow> nat \<Rightarrow> irq_desc_t" where
  "idt_gate idt m i = irq_desc_at m (slot8 idt i)"

lemma idt_gate_set:
  assumes "offset \<le> 0xFFFFF" "i < 8192" "k < 8192"
  shows "idt_gate idt (snd (irq_segment_set m (slot8 idt k) sel offset attr)) i
    = (if i = k then gate_for sel offset attr else idt_gate idt m i)"
proof (cases "i = k")
  case False
  have "irq_desc_at (snd (irq_segment_set m (slot8 idt k) sel offset attr)) (slot8 idt i)
      = irq_desc_at m (slot8 idt i)"
  proof (rule irq_desc_at_cong)
    fix j :: nat assume "j < 8"
    with False assms(2,3)
    show "snd (irq_segment_set m (slot8 idt k) sel offset attr) (slot8 idt i + of_nat j)
        = m (slot8 idt i + of_nat j)"
      by (intro irq_segment_set_byte) (metis slot_bytes_inj)
  qed
  with False show ?thesis by (simp add: idt_gate_def)
qed (simp add: idt_gate_def irq_desc_at_set assms(1))

abbreviation IRQ_ATTR :: u16 where
  "IRQ_ATTR \<equiv> GATE_TYPE_IDT OR GATE_P OR GATE_DPL_0"

lemma idt_gate_install:
  assumes "handler \<le> 0xFFFFF" "i < IDT_SIZE" "unat irq < IDT_SIZE"
  shows "idt_gate idt (snd (irq_install idt m irq handler)) i
    = (if i = unat irq then gate_for KERNEL_SELECTOR_CS handler IRQ_ATTR else idt_gate idt m i)"
  using assms by (simp add: irq_install_def idt_gate_set IDT_SIZE_def)

lemma idt_gate_install_all:
  assumes "\<And>h. entry h \<le> 0xFFFFF" "i < IDT_SIZE" "\<forall>(irq, h)\<in>set hs. unat irq < IDT_SIZE"
  shows "idt_gate idt (fold (\<lambda>(irq, h) m. snd (irq_install idt m irq (entry h))) hs m) i
    = (case map_of (rev (map (map_prod unat id) hs)) i of
         Some h \<Rightarrow> gate_for KERNEL_SELECTOR_CS (entry h) IRQ_ATTR
       | None \<Rightarrow> idt_gate idt m i)"
  using assms(3)
proof (induction hs rule: rev_induct)
  case (snoc x hs)
  then show ?case
    using assms(1,2) by (cases x) (simp add: idt_gate_install)
qed simp

lemma idt_gate_clear:
  assumes "offset \<le> 0xFFFFF"
  shows "i < n \<Longrightarrow> n \<le> 8192 \<Longrightarrow> idt_gate idt (fold (\<lambda>i m.
      snd (irq_segment_set m (slot8 idt i) sel offset attr)) [0..<n] m) i = gate_for sel offset attr"
proof (induction n)
  case (Suc n)
  then show ?case using assms by (cases "i = n") (simp_all add: idt_gate_set)
qed simp

section \<open>Critical sections\<close>

text \<open>
  What the rest of the kernel relies on: entering switches the interrupt flag off and
  remembers it, leaving puts back what was remembered, and neither touches anything else.
\<close>

definition protected :: "('s \<Rightarrow> 'k \<times> 's) \<Rightarrow> ('k \<Rightarrow> 's \<Rightarrow> 's) \<Rightarrow> ('s \<Rightarrow> 's) \<Rightarrow> 's \<Rightarrow> 's" where
  "protected enter leave body s = (case enter s of (k, s) \<Rightarrow> leave k (body s))"

locale critical_section =
  fixes enter :: "'s \<Rightarrow> 'k \<times> 's"
    and leave :: "'k \<Rightarrow> 's \<Rightarrow> 's"
    and flag :: "'s \<Rightarrow> bool"
    and other :: "'s \<Rightarrow> 'r"
  assumes enter_off: "\<not> flag (snd (enter s))"
    and enter_other: "other (snd (enter s)) = other s"
    and leave_flag: "flag (leave (fst (enter s)) t) = flag s"
    and leave_other: "other (leave k t) = other t"
begin

lemma flag_restored: "flag (protected enter leave body s) = flag s"
  using leave_flag [of s "body (snd (enter s))"] by (simp add: protected_def split_beta)

lemma body_runs_masked:
  assumes "\<And>t. \<not> flag t \<Longrightarrow> body t = body' t"
  shows "protected enter leave body s = protected enter leave body' s"
  using assms enter_off [of s] by (auto simp: protected_def split: prod.splits)

lemma nested_stays_masked: "\<not> flag t \<Longrightarrow> \<not> flag (protected enter leave body t)"
  by (simp add: flag_restored)

lemma other_of_body: "other (protected enter leave body s) = other (body (snd (enter s)))"
  by (simp add: protected_def leave_other split: prod.splits)

lemma idle_section: "other (protected enter leave (\<lambda>t. t) s) = other s"
  by (simp add: other_of_body enter_other)

end

lemma bit_EFLAGS_IF: "bit EFLAGS_IF n \<longleftrightarrow> n = 9"
  unfolding EFLAGS_IF_def by (simp only: bit_push_bit_iff bit_1_iff possible_bit_word) auto

lemma if_bit: "EFLAGS_IF AND e \<noteq> 0 \<longleftrightarrow> bit e 9"
proof -
  have "EFLAGS_IF AND e = (if bit e 9 then EFLAGS_IF else 0)"
    by (rule bit_word_eqI) (auto simp: bit_EFLAGS_IF bit_and_iff)
  then show ?thesis by (simp add: EFLAGS_IF_def)
qed

lemma get_irq_status_on [simp]: "get_irq_status s = INTR_ON \<longleftrightarrow> bit (eflags s) 9"
  "get_irq_status s = INTR_OFF \<longleftrightarrow> \<not> bit (eflags s) 9"
  by (simp_all add: get_irq_status_def if_bit)

lemma flag_cli_sti [simp]:
  "\<not> bit (eflags (cli s)) 9" "bit (eflags (sti s)) 9"
  by (simp_all add: cli_def sti_def EFLAGS_IF_def bit_simps)

definition without_flag :: "machine \<Rightarrow> machine" where
  "without_flag s = s\<lparr>eflags := eflags s AND NOT EFLAGS_IF\<rparr>"

lemma without_flag_cli_sti [simp]:
  "without_flag (cli s) = without_flag s" "without_flag (sti s) = without_flag s"
  by (simp_all add: without_flag_def cli_def sti_def bit.conj_disj_distrib2 and.assoc)

interpretation irqs: critical_section irq_enter_protection irq_leave_protection
  "\<lambda>s. get_irq_status s = INTR_ON" without_flag
  by unfold_locales
    (auto simp: irq_enter_protection_def irq_leave_protection_def irq_set_status_def irq_enable_def
      irq_disable_def Let_def)

lemma spin_forever_None: "spin_forever s = None"
proof (rule ccontr)
  assume "spin_forever s \<noteq> None"
  then obtain r where "spin_forever s = Some r" by auto
  then show False by (rule spin_forever.raw_induct [rotated])
qed

lemma map_of_rev_distinct: "distinct (map fst xs) \<Longrightarrow> map_of (rev xs) = map_of xs"
  by (intro map_of_eqI) (auto simp: distinct_map)

section \<open>The interrupt layer is correct\<close>

text \<open>The routine a vector is given by \<open>irq_init\<close>.\<close>

definition handler_of :: "nat \<Rightarrow> isr" where
  "handler_of i = (if i = 0x80 then Syscall_isr
     else case map_of (map (map_prod unat id) install_area) i of Some h \<Rightarrow> h | None \<Rightarrow> Unknown)"

lemma irq_init_gate:
  assumes "\<And>h. entry h \<le> 0xFFFFF" and "i < 256"
  shows "idt_gate idt (ram (irq_init idt entry s)) i =
    gate_for KERNEL_SELECTOR_CS (entry (handler_of i)) (if i = 0x80 then 0xEE00 else 0x8E00)"
proof -
  have attr: "IRQ_ATTR = 0x8E00" "GATE_TYPE_IDT OR GATE_P OR GATE_DPL_3 = 0xEE00"
    by (simp_all add: gate_defs)
  have small: "\<forall>(irq, h)\<in>set install_area. unat irq < IDT_SIZE"
    by (simp add: install_area_def IDT_SIZE_def)
  have dist: "distinct (map fst (map (map_prod unat id) install_area))"
    by (simp add: install_area_def)
  define m where "m = fold (\<lambda>i m. snd (irq_segment_set m (slot8 idt i) KERNEL_SELECTOR_CS
    (entry Unknown) IRQ_ATTR)) [0..<IDT_SIZE] (ram (pic_init s))"
  have m: "idt_gate idt m i = gate_for KERNEL_SELECTOR_CS (entry Unknown) IRQ_ATTR"
    unfolding m_def using assms by (intro idt_gate_clear) (simp_all add: IDT_SIZE_def)
  define m2 where "m2 = fold (\<lambda>(irq, h) m. snd (irq_install idt m irq (entry h))) install_area m"
  have m2: "idt_gate idt m2 i = (case map_of (map (map_prod unat id) install_area) i of
         Some h \<Rightarrow> gate_for KERNEL_SELECTOR_CS (entry h) IRQ_ATTR
       | None \<Rightarrow> gate_for KERNEL_SELECTOR_CS (entry Unknown) IRQ_ATTR)"
    unfolding m2_def m [symmetric] using assms small map_of_rev_distinct [OF dist]
    by (subst idt_gate_install_all) (auto simp: IDT_SIZE_def)
  have ram: "ram (irq_init idt entry s) = snd (irq_segment_set m2 (slot8 idt 0x80) KERNEL_SELECTOR_CS
      (entry Syscall_isr) (GATE_TYPE_IDT OR GATE_P OR GATE_DPL_3))"
    by (simp add: irq_init_def Let_def m_def m2_def)
  show ?thesis
    unfolding ram using assms
    by (simp add: idt_gate_set m2 attr handler_of_def split: option.split)
qed

text \<open>Nothing but the table changes.\<close>

lemma slot_region: "i < 256 \<Longrightarrow> j < 8 \<Longrightarrow> slot8 t i + of_nat j \<in> region t 2048"
  unfolding region_def slot8_def by (intro image_eqI [of _ _ "8 * i + j"]) simp_all

lemma gdt_table_cong:
  assumes "\<And>x. x \<in> region gdt 2048 \<Longrightarrow> m' x = m x"
  shows "gdt_table gdt m' = gdt_table gdt m"
  unfolding gdt_table_def
proof (rule map_cong)
  fix i assume "i \<in> set [0..<GDT_SIZE]"
  then show "gdt_entry_at m' (slot8 gdt i) = gdt_entry_at m (slot8 gdt i)"
    using slot_region [of i] by (intro gdt_entry_at_cong assms) (simp add: GDT_SIZE_def)
qed simp

lemma irq_segment_set_frame:
  assumes "i < 256"
  shows "same_outside (region idt 2048) m (snd (irq_segment_set m (slot8 idt i) sel offset attr))"
  unfolding same_outside_def using slot_region [OF assms] by (auto intro: irq_segment_set_byte)

lemma irq_install_frame: "same_outside (region idt 2048) m (snd (irq_install idt m irq handler))"
  using irq_segment_set_frame [of "unat irq"] by (simp add: irq_install_def IDT_SIZE_def)

lemma irq_init_frame: "same_outside (region idt 2048) (ram s) (ram (irq_init idt entry s))"
proof -
  have clear: "same_outside (region idt 2048) m (fold (\<lambda>i m. snd (irq_segment_set m (slot8 idt i) KERNEL_SELECTOR_CS
      (entry Unknown) IRQ_ATTR)) [0..<n] m)" if "n \<le> 256" for n m
    using that by (induction n) (auto intro: same_outside_step [OF _ irq_segment_set_frame])
  have install: "same_outside (region idt 2048) m (fold (\<lambda>(irq, h) m. snd (irq_install idt m irq (entry h))) hs m)" for hs m
    by (induction hs arbitrary: m) (auto intro: same_outside_step [OF irq_install_frame])
  let ?m1 = "fold (\<lambda>i m. snd (irq_segment_set m (slot8 idt i) KERNEL_SELECTOR_CS (entry Unknown) IRQ_ATTR)) [0..<IDT_SIZE] (ram s)"
  let ?m2 = "fold (\<lambda>(irq, h) m. snd (irq_install idt m irq (entry h))) install_area ?m1"
  have "same_outside (region idt 2048) (ram s) ?m1" by (rule clear) (simp add: IDT_SIZE_def)
  moreover have "same_outside (region idt 2048) ?m1 ?m2" by (rule install)
  moreover have "same_outside (region idt 2048) ?m2 (ram (irq_init idt entry s))"
    using irq_segment_set_frame [of "0x80"] by (simp add: irq_init_def pic_init_def Let_def)
  ultimately show ?thesis by (meson same_outside_step)
qed

text \<open>
  after \<open>irq_init\<close> the table register names the whole table, and each of its 256
  gates is present, in the kernel's code segment, at the address of the routine its
  vector is meant for; only the system call gate 0x80 may be used from user mode.
  This holds when the linker places the entry points below one megabyte.
\<close>

theorem irq_init_gates:
  assumes "\<And>h. entry h \<le> 0xFFFFF" and "i < 256"
  shows "let s' = irq_init idt entry s; d = idt_gate idt (ram s') i
    in idtr s' = (idt, 2047) \<and> gate_offset d = entry (handler_of i) \<and> gate_present d
       \<and> irq_selector d = KERNEL_SELECTOR_CS \<and> gate_dpl d = (if i = 0x80 then 3 else 0)"
proof -
  have "idtr (irq_init idt entry s) = (idt, 2047)"
    by (simp add: irq_init_def Let_def IDT_SIZE_def)
  then show ?thesis
    using irq_init_gate [of entry i, OF assms] by (simp add: Let_def gate_present_def gate_dpl_def)
qed

theorem irq_init_gates_witness:
  "gate_offset (idt_gate 0x8000 (ram (irq_init 0x8000 (\<lambda>h. if h = Page_fault then 0x1234 else 0x1000)
      sample_machine)) 14) = 0x1234"
proof -
  have h: "handler_of 14 = Page_fault" by (simp add: handler_of_def install_area_def)
  show ?thesis
    using irq_init_gates [of "\<lambda>h. if h = Page_fault then 0x1234 else 0x1000" 14 "0x8000" sample_machine]
    by (simp add: Let_def h)
qed

text \<open>
  a gate whose routine lies at or above one megabyte is not written at all, although
  its two fields hold all 32 bits of an address; \<open>irq_install\<close> does not notice and
  still reports success.
\<close>

theorem irq_install_ignores_failure:
  assumes "handler > 0xFFFFF" and "unat irq < 256"
  shows "irq_segment_set m desc sel handler attr = (Some False, m)
    \<and> irq_install idt m irq handler = (True, m)
    \<and> gate_offset (gate_for sel handler attr) = handler"
  using assms by (simp add: irq_segment_set_def irq_install_def IDT_SIZE_def)

theorem irq_install_ignores_failure_witness:
  "irq_install 0x8000 (\<lambda>_. 0) 14 0x100000 = (True, \<lambda>_. 0)"
  using irq_install_ignores_failure [of "0x100000" 14 "\<lambda>_. 0" 0 0 0 "0x8000"] by simp

text \<open>
  of the exception handlers only those for unknown vectors and for division errors
  return; every other exception halts the processor and then loops for ever.
\<close>

theorem exception_handlers_return:
  "map_option (\<lambda>f. f s) (exception_handler h) =
    (if h = Timer_isr \<or> h = Syscall_isr then None
     else if h = Unknown \<or> h = Divider then Some (Some s) else Some None)"
  by (cases h) (simp_all add: halting_handlers irq_handler_unknown_def irq_handler_divider_def
      spin_forever_None)

text \<open>
  C23: a critical section between \<open>irq_enter_protection\<close> and \<open>irq_leave_protection\<close>
  restores the interrupt flag it found, whatever its body does; the body runs with
  interrupts off; a section inside another leaves interrupts off; and apart from the flag
  the state is what the body made of it.
\<close>

theorem critical_section_correct:
  "get_irq_status (protected irq_enter_protection irq_leave_protection body s) = get_irq_status s
   \<and> get_irq_status (snd (irq_enter_protection s)) = INTR_OFF
   \<and> get_irq_status (protected irq_enter_protection irq_leave_protection body
        (snd (irq_enter_protection s))) = INTR_OFF
   \<and> without_flag (protected irq_enter_protection irq_leave_protection body s)
      = without_flag (body (snd (irq_enter_protection s)))"
proof -
  have eq: "get_irq_status a = get_irq_status b" if "(get_irq_status a = INTR_ON) = (get_irq_status b = INTR_ON)" for a b
    using that by (metis irq_status.exhaust)
  have off: "get_irq_status a = INTR_OFF" if "get_irq_status a \<noteq> INTR_ON" for a
    using that by (metis irq_status.exhaust)
  show ?thesis
    by (intro conjI eq [OF irqs.flag_restored] off [OF irqs.enter_off]
      off [OF irqs.nested_stays_masked [OF irqs.enter_off]] irqs.other_of_body)
qed

lemma pic_enable_line:
  assumes "0x20 \<le> num" "num < 0x30"
  shows "pic_enable fr msg num s =
    (let port = (if num < 0x28 then PIC_M_DATA else PIC_S_DATA); (v, s1) = inb port s
     in Some (outb port (v AND NOT (push_bit (unat num mod 8) 1)) s1))"
proof -
  define k where "k = unat num - 0x20"
  from assms have k: "k < 16" "unat (num - 0x20) = k" "unat num = 0x20 + k"
    by (auto simp: k_def word_le_nat_alt word_less_nat_alt unat_sub)
  have lt8: "num - 0x20 < 8 \<longleftrightarrow> k < 8" "num < 0x28 \<longleftrightarrow> k < 8"
    using k by (simp_all add: word_less_nat_alt)
  have mask: "ucast ((ucast v :: c_int) AND NOT (push_bit j 1)) = (v AND NOT (push_bit j 1) :: u8)"
    for v j by (rule bit_word_eqI) (auto simp: bit_simps)
  have "\<forall>k\<in>set [0..<16]. unat (of_nat k AND 31 :: u32) = k" by code_simp
  then have small: "unat (of_nat j AND 31 :: u32) = j" if "j < 16" for j using that by simp
  have u: "ucast (num - 0x20) = (of_nat k :: u32)" unfolding k(2) [symmetric] by simp
  have shift: "c_shl 1 (ucast (num - 0x20)) = push_bit k 1"
    "8 \<le> k \<Longrightarrow> c_shl 1 (ucast (num - 0x20) - 8) = push_bit (k - 8) 1"
    using small [of k] small [of "k - 8"] k(1) by (simp_all add: c_shl_def u of_nat_diff)
  have mod: "unat num mod 8 = (if k < 8 then k else k - 8)" using k by presburger
  show ?thesis
    using assms(1) [unfolded linorder_not_less [symmetric]] k(1) shift
    by (simp add: pic_enable_def PIC_START_def Let_def split_beta lt8 mod mask [simplified])
qed

text \<open>
  \<open>pic_enable\<close> for one of the sixteen lines reads the mask of the controller the line
  belongs to and writes it back with exactly that line's bit cleared.
\<close>

theorem pic_enable_unmasks:
  assumes "0x20 \<le> num" "num < 0x30"
  shows "\<exists>s'. pic_enable fr msg num s = Some s' \<and>
    (let port = (if num < 0x28 then PIC_M_DATA else PIC_S_DATA); v = fst (inb port s);
         line = unat num mod 8
     in trace s' = trace s @ [Inb port v, Outb port (v AND NOT (push_bit line 1))])"
  by (simp add: pic_enable_line [OF assms] Let_def split_beta inb_def outb_def)

theorem pic_enable_unmasks_witness:
  "\<exists>s'. pic_enable sample_frame 0x5000 0x20 sample_machine = Some s'
     \<and> trace s' = [Inb PIC_M_DATA 0x60, Outb PIC_M_DATA 0x60]"
  using pic_enable_unmasks [of "0x20" sample_frame "0x5000" sample_machine]
  by (simp add: Let_def inb_def sample_machine_def)

end
