(* ===== verification/Bitmap.thy ===== *)
theory Bitmap
  imports Klib
begin

text \<open>
  The bitmap of \<open>source/kernel/memory/bitmap.c\<close>.  The structure is a record; its bits
  are bytes of memory from \<open>bm_bits\<close> on, so an index past the end reaches whatever lies
  behind the array, as in C.  Loop counters are integers: they stay between the signed
  bounds of the arguments.
\<close>

unbundle bit_operations_syntax

record bitmap_t =
  bm_count :: c_int
  bm_bits :: u32

section \<open>The operations\<close>

definition bitmap_get_bytes :: "c_int \<Rightarrow> c_int" where
  "bitmap_get_bytes cnt = c_div (cnt + 8 - 1) 8"

definition bitmap_init :: "mem \<Rightarrow> c_int \<Rightarrow> u32 \<Rightarrow> bitmap_t \<times> mem" where
  "bitmap_init m cnt bits =
    (let b = \<lparr>bm_count = cnt, bm_bits = bits\<rparr>; num = bitmap_get_bytes (bm_count b)
     in (b, kmemset m (bm_bits b) 0 num))"

text \<open>The byte of a bit and its mask, for an index of either sign.\<close>

definition bit_byte :: "bitmap_t \<Rightarrow> int \<Rightarrow> u32" where
  "bit_byte b i = bm_bits b + word_of_int (i sdiv 8)"

definition bit_mask :: "int \<Rightarrow> u32" where
  "bit_mask i = c_shl 1 (word_of_int (i smod 8))"

function set_bit_loop :: "mem \<Rightarrow> bitmap_t \<Rightarrow> c_int \<Rightarrow> int \<Rightarrow> int \<Rightarrow> mem" where
  "set_bit_loop m b v i cnt =
    (if i < cnt then
       let byte = (ucast (m (bit_byte b i)) :: u32);
           byte = (if v \<noteq> 0 then byte OR bit_mask i else byte AND NOT (bit_mask i))
       in set_bit_loop (m(bit_byte b i := ucast byte)) b v (i + 1) cnt
     else m)"
  by auto
termination by (relation "measure (\<lambda>(m, b, v, i, cnt). nat (cnt - i))") auto

definition bitmap_set_bit :: "mem \<Rightarrow> bitmap_t \<Rightarrow> c_int \<Rightarrow> c_int \<Rightarrow> c_int \<Rightarrow> mem" where
  "bitmap_set_bit m b index cnt v =
    (if sint index \<ge> sint (bm_count b) then m
     else set_bit_loop m b v (sint index) (sint (index + cnt)))"

definition bitmap_get_bit :: "mem \<Rightarrow> bitmap_t \<Rightarrow> int \<Rightarrow> c_int" where
  "bitmap_get_bit m b i = (if ucast (m (bit_byte b i)) AND bit_mask i \<noteq> 0 then 1 else 0)"

definition bitmap_is_set :: "mem \<Rightarrow> bitmap_t \<Rightarrow> c_int \<Rightarrow> bool" where
  "bitmap_is_set m b index = (bitmap_get_bit m b (sint index) \<noteq> 0)"

text \<open>The inner loop of the search: the first set bit, if there is one in reach.\<close>

function scan_run :: "mem \<Rightarrow> bitmap_t \<Rightarrow> int \<Rightarrow> int \<Rightarrow> int \<Rightarrow> int option" where
  "scan_run m b i cnt j =
    (if j < sint (bm_count b) \<and> j - i + 1 \<le> cnt then
       if bitmap_get_bit m b j = 1 then Some j else scan_run m b i cnt (j + 1)
     else None)"
  by auto
termination by (relation "measure (\<lambda>(m, b, i, cnt, j). nat (sint (bm_count b) - j))") auto

declare scan_run.simps [simp del] set_bit_loop.simps [simp del]

lemma scan_run_Some:
  "scan_run m b i cnt j = Some k \<Longrightarrow>
    j \<le> k \<and> k < sint (bm_count b) \<and> k - i + 1 \<le> cnt \<and> bitmap_get_bit m b k = 1"
  by (induction m b i cnt j rule: scan_run.induct)
    (subst (asm) (2) scan_run.simps, auto split: if_splits)

function alloc_loop :: "mem \<Rightarrow> bitmap_t \<Rightarrow> int \<Rightarrow> c_int \<Rightarrow> mem \<times> c_int" where
  "alloc_loop m b i cnt =
    (if i < sint (bm_count b) then
       if bitmap_get_bit m b i = 0 then
         case scan_run m b i (sint cnt) i of
           None \<Rightarrow> (bitmap_set_bit m b (word_of_int i) cnt 1, word_of_int i)
         | Some j \<Rightarrow> alloc_loop m b (j + 1) cnt
       else alloc_loop m b (i + 1) cnt
     else (m, - 1))"
  by auto
termination
  by (relation "measure (\<lambda>(m, b, i, cnt). nat (sint (bm_count b) - i))")
    (auto dest: scan_run_Some)

declare alloc_loop.simps [simp del]

definition bitmap_alloc_nbits :: "mem \<Rightarrow> bitmap_t \<Rightarrow> c_int \<Rightarrow> c_int \<Rightarrow> mem \<times> c_int" where
  "bitmap_alloc_nbits m b index cnt = alloc_loop m b (sint index) cnt"

section \<open>Single bits\<close>

definition marked :: "mem \<Rightarrow> bitmap_t \<Rightarrow> int \<Rightarrow> bool" where
  "marked m b i \<longleftrightarrow> bitmap_get_bit m b i = 1"

lemma sdiv8: "0 \<le> i \<Longrightarrow> i sdiv 8 = i div (8 :: int)" "0 \<le> i \<Longrightarrow> i smod 8 = i mod (8 :: int)"
  using int_sdiv_smod [of "nat i" "num.Bit0 (num.Bit0 (num.Bit0 num.One))"] by (simp_all add: zdiv_int zmod_int)

lemma bit_mask_nonneg: "0 \<le> i \<Longrightarrow> bit_mask i = push_bit (nat (i mod 8)) 1"
proof -
  assume "0 \<le> i"
  have "\<forall>k\<in>set [0..<8]. unat (of_nat k AND 31 :: u32) = k" by code_simp
  moreover have "nat (i mod 8) \<in> set [0..<8]" using pos_mod_bound [of 8 i] by auto
  ultimately have "unat (of_nat (nat (i mod 8)) AND 31 :: u32) = nat (i mod 8)" by blast
  moreover have "(of_nat (nat (i mod 8)) :: u32) = word_of_int (i mod 8)" by simp
  ultimately show ?thesis using \<open>0 \<le> i\<close> by (simp add: bit_mask_def c_shl_def sdiv8)
qed

lemma bit_in_byte: "nat (i mod 8) < 8"
  using pos_mod_bound [of 8 i] by simp

lemma bitmap_get_bit_cases: "bitmap_get_bit m b i = 0 \<or> bitmap_get_bit m b i = 1"
  by (simp add: bitmap_get_bit_def)

lemma get_bit_zero: "bitmap_get_bit m b i = 0 \<longleftrightarrow> \<not> marked m b i"
  using bitmap_get_bit_cases [of m b i] by (auto simp: marked_def)

lemma marked_bit:
  assumes "0 \<le> i"
  shows "marked m b i \<longleftrightarrow> bit (m (bm_bits b + word_of_int (i div 8))) (nat (i mod 8))"
proof -
  define w where "w = (ucast (m (bm_bits b + word_of_int (i div 8))) :: u32)"
  define k where "k = nat (i mod 8)"
  have "k < 32" using bit_in_byte [of i] by (simp add: k_def)
  then have b: "bit (push_bit k 1 :: u32) n \<longleftrightarrow> n = k" for n
    by (simp only: bit_push_bit_iff bit_1_iff possible_bit_word) auto
  have "w AND push_bit k 1 = (if bit w k then push_bit k 1 else 0)"
    by (rule bit_word_eqI) (simp only: bit_and_iff b split: if_split, auto)
  moreover have "push_bit k 1 \<noteq> (0 :: u32)" using b [of k] by (metis bit_0_eq bot_apply bot_bool_def)
  ultimately have "marked m b i \<longleftrightarrow> bit w k"
    using assms by (simp add: marked_def bitmap_get_bit_def bit_byte_def bit_mask_nonneg sdiv8 w_def k_def)
  then show ?thesis using bit_in_byte [of i] by (simp add: w_def k_def bit_unsigned_iff)
qed

text \<open>One turn of the loop that sets or clears bits.\<close>

definition put_bit :: "mem \<Rightarrow> bitmap_t \<Rightarrow> c_int \<Rightarrow> int \<Rightarrow> mem" where
  "put_bit m b v i =
    (let byte = (ucast (m (bit_byte b i)) :: u32);
         byte = (if v \<noteq> 0 then byte OR bit_mask i else byte AND NOT (bit_mask i))
     in m(bit_byte b i := ucast byte))"

lemma set_bit_loop_step:
  "set_bit_loop m b v i cnt = (if i < cnt then set_bit_loop (put_bit m b v i) b v (i + 1) cnt else m)"
  by (subst set_bit_loop.simps) (simp add: put_bit_def Let_def)

lemma marked_put:
  assumes "0 \<le> i" "i < 2 ^ 31" "0 \<le> j" "j < 2 ^ 31"
  shows "marked (put_bit m b v i) b j \<longleftrightarrow> (if j = i then v \<noteq> 0 else marked m b j)"
proof -
  have byte: "bit_byte b k = bm_bits b + word_of_int (k div 8)" if "0 \<le> k" for k
    using that by (simp add: bit_byte_def sdiv8)
  have same: "bm_bits b + word_of_int (j div 8) = bm_bits b + word_of_int (i div 8) \<longleftrightarrow> j div 8 = i div 8"
    using assms by (intro int_offset_inj) auto
  have k: "nat (i mod 8) < 8" "nat (j mod 8) < 8" by (rule bit_in_byte)+
  have b: "bit (push_bit (nat (i mod 8)) 1 :: u32) n \<longleftrightarrow> n = nat (i mod 8)" for n
    using k by (simp only: bit_push_bit_iff bit_1_iff possible_bit_word) auto
  have eq: "j = i \<longleftrightarrow> j div 8 = i div 8 \<and> nat (j mod 8) = nat (i mod 8)"
    using assms(1,3) by (metis div_mult_mod_eq eq_nat_nat_iff pos_mod_sign zero_less_numeral)
  define new where "new = (ucast (if v \<noteq> 0 then ucast (m (bit_byte b i)) OR bit_mask i
    else (ucast (m (bit_byte b i)) :: u32) AND NOT (bit_mask i)) :: u8)"
  have new: "bit new n \<longleftrightarrow> (if n = nat (i mod 8) then v \<noteq> 0 else bit (m (bit_byte b i)) n)"
    if "n < 8" for n
    unfolding new_def using that
    by (cases "v = 0") (auto simp: bit_unsigned_iff bit_or_iff bit_and_iff bit_not_iff
        bit_mask_nonneg [OF assms(1)] b [simplified])
  have upd: "put_bit m b v i = m(bit_byte b i := new)"
    by (simp add: put_bit_def Let_def new_def)
  show ?thesis
  proof (cases "j div 8 = i div 8")
    case True
    then show ?thesis
      using new [OF k(2)] eq by (simp add: marked_bit [OF assms(3)] upd byte [OF assms(1)])
  next
    case False
    then show ?thesis
      using same eq by (simp add: marked_bit [OF assms(3)] upd byte [OF assms(1)])
  qed
qed

lemma put_bit_other: "0 \<le> i \<Longrightarrow> x \<noteq> bm_bits b + word_of_int (i div 8) \<Longrightarrow> put_bit m b v i x = m x"
  by (simp add: put_bit_def Let_def bit_byte_def sdiv8)

section \<open>Setting a range\<close>

lemma marked_set_loop:
  assumes "0 \<le> i" "cnt \<le> 2 ^ 31" "0 \<le> j" "j < 2 ^ 31"
  shows "marked (set_bit_loop m b v i cnt) b j \<longleftrightarrow> (if i \<le> j \<and> j < cnt then v \<noteq> 0 else marked m b j)"
  using assms
proof (induction "nat (cnt - i)" arbitrary: m i rule: less_induct)
  case less
  show ?case
  proof (cases "i < cnt")
    case True
    then have "marked (set_bit_loop (put_bit m b v i) b v (i + 1) cnt) b j
        \<longleftrightarrow> (if i + 1 \<le> j \<and> j < cnt then v \<noteq> 0 else marked (put_bit m b v i) b j)"
      using less.prems by (intro less.hyps) auto
    with True less.prems show ?thesis
      by (subst set_bit_loop_step) (auto simp: marked_put)
  qed (auto simp: set_bit_loop_step [of m])
qed

text \<open>The bytes that hold the first \<open>n\<close> bits.\<close>

definition bit_bytes :: "bitmap_t \<Rightarrow> int \<Rightarrow> u32 set" where
  "bit_bytes b n = region (bm_bits b) (nat ((n + 7) div 8))"

lemma bit_bytes_mem: "0 \<le> i \<Longrightarrow> i < n \<Longrightarrow> bm_bits b + word_of_int (i div 8) \<in> bit_bytes b n"
proof -
  assume i: "0 \<le> i" "i < n"
  then have "nat (i div 8) < nat ((n + 7) div 8)" by auto
  moreover have "(word_of_int (i div 8) :: u32) = of_nat (nat (i div 8))" using i by simp
  ultimately show ?thesis by (auto simp: bit_bytes_def region_def)
qed

lemma set_bit_loop_frame:
  assumes "0 \<le> i"
  shows "same_outside (bit_bytes b cnt) m (set_bit_loop m b v i cnt)"
  using assms
proof (induction "nat (cnt - i)" arbitrary: m i rule: less_induct)
  case less
  show ?case
  proof (cases "i < cnt")
    case True
    then have "same_outside (bit_bytes b cnt) (put_bit m b v i) (set_bit_loop (put_bit m b v i) b v (i + 1) cnt)"
      using less.prems by (intro less.hyps) auto
    moreover have "same_outside (bit_bytes b cnt) m (put_bit m b v i)"
      using bit_bytes_mem [OF less.prems True, of b] less.prems by (auto simp: same_outside_def intro!: put_bit_other)
    ultimately show ?thesis
      using True by (subst set_bit_loop_step) (auto intro: same_outside_trans)
  qed (simp add: set_bit_loop_step [of m])
qed

section \<open>The search\<close>

text \<open>
  The search accepts \<open>i\<close> when \<open>i\<close> is clear and so are the bits after it, up to \<open>n\<close> of
  them or the end of the bitmap, whichever comes first.
\<close>

definition fits :: "mem \<Rightarrow> bitmap_t \<Rightarrow> int \<Rightarrow> int \<Rightarrow> bool" where
  "fits m b n i \<longleftrightarrow> \<not> marked m b i
     \<and> (\<forall>j. i \<le> j \<and> j < i + n \<and> j < sint (bm_count b) \<longrightarrow> \<not> marked m b j)"

lemma scan_run_None:
  "scan_run m b i n j = None \<Longrightarrow> j \<le> k \<Longrightarrow> k < i + n \<Longrightarrow> k < sint (bm_count b) \<Longrightarrow> \<not> marked m b k"
proof (induction "nat (sint (bm_count b) - j)" arbitrary: j rule: less_induct)
  case less
  have j: "j < sint (bm_count b)" "j - i + 1 \<le> n" using less.prems by auto
  with less.prems(1) have r: "\<not> marked m b j" "scan_run m b i n (j + 1) = None"
    by (simp_all add: scan_run.simps [of m b i n j] marked_def split: if_splits)
  show ?case
  proof (cases "k = j")
    case False
    with less.prems j show ?thesis by (intro less.hyps [OF _ r(2)]) auto
  qed (use r in simp)
qed

lemma fits_scan:
  assumes "\<not> marked m b i"
  shows "fits m b n i \<longleftrightarrow> scan_run m b i n i = None"
proof
  assume "scan_run m b i n i = None"
  then show "fits m b n i" using assms scan_run_None unfolding fits_def by blast
next
  assume f: "fits m b n i"
  show "scan_run m b i n i = None"
  proof (rule ccontr)
    assume "scan_run m b i n i \<noteq> None"
    then obtain k where "scan_run m b i n i = Some k" by auto
    then have "i \<le> k" "k < sint (bm_count b)" "k - i + 1 \<le> n" "marked m b k"
      using scan_run_Some [of m b i n i k] by (auto simp: marked_def)
    with f show False by (auto simp: fits_def)
  qed
qed

lemma alloc_loop_spec:
  assumes "0 \<le> i"
  shows "(\<exists>k\<ge>i. k < sint (bm_count b) \<and> fits m b (sint n) k
      \<and> (\<forall>k'. i \<le> k' \<and> k' < k \<longrightarrow> \<not> fits m b (sint n) k')
      \<and> alloc_loop m b i n = (bitmap_set_bit m b (word_of_int k) n 1, word_of_int k))
    \<or> (\<forall>k. i \<le> k \<and> k < sint (bm_count b) \<longrightarrow> \<not> fits m b (sint n) k)
      \<and> alloc_loop m b i n = (m, - 1)"
  (is "?P i")
  using assms
proof (induction "nat (sint (bm_count b) - i)" arbitrary: i rule: less_induct)
  case less
  text \<open>Passing over candidates that do not fit.\<close>
  have skip: "?P i" if "i < sint (bm_count b)" "i < i'" "alloc_loop m b i n = alloc_loop m b i' n"
      "\<And>k. i \<le> k \<Longrightarrow> k < i' \<Longrightarrow> k < sint (bm_count b) \<Longrightarrow> \<not> fits m b (sint n) k" for i'
  proof -
    have "?P i'" using less.prems that(1,2) by (intro less.hyps) auto
    then show ?thesis
    proof (elim disjE exE conjE)
      fix k assume k: "i' \<le> k" "k < sint (bm_count b)" "fits m b (sint n) k"
        "\<forall>k'. i' \<le> k' \<and> k' < k \<longrightarrow> \<not> fits m b (sint n) k'"
        "alloc_loop m b i' n = (bitmap_set_bit m b (word_of_int k) n 1, word_of_int k)"
      have "\<not> fits m b (sint n) k'" if "i \<le> k'" "k' < k" for k'
        using k(2,4) that \<open>\<And>k. i \<le> k \<Longrightarrow> k < i' \<Longrightarrow> k < sint (bm_count b) \<Longrightarrow> \<not> fits m b (sint n) k\<close> [of k']
        by (cases "i' \<le> k'") auto
      with k that(2,3) show ?thesis by (intro disjI1 exI [of _ k]) auto
    next
      assume "\<forall>k. i' \<le> k \<and> k < sint (bm_count b) \<longrightarrow> \<not> fits m b (sint n) k"
        "alloc_loop m b i' n = (m, - 1)"
      with that show ?thesis by (intro disjI2) (metis not_le)
    qed
  qed
  show ?case
  proof (cases "i < sint (bm_count b)")
    case False
    then show ?thesis by (subst (1 2) alloc_loop.simps) auto
  next
    case True
    show ?thesis
    proof (cases "marked m b i")
      case True
      with \<open>i < sint (bm_count b)\<close> have "alloc_loop m b i n = alloc_loop m b (i + 1) n"
        by (subst alloc_loop.simps) (simp add: get_bit_zero)
      then show ?thesis
        using True \<open>i < sint (bm_count b)\<close> by (intro skip [of "i + 1"]) (auto simp: fits_def)
    next
      case False
      show ?thesis
      proof (cases "scan_run m b i (sint n) i")
        case None
        with False True have "alloc_loop m b i n = (bitmap_set_bit m b (word_of_int i) n 1, word_of_int i)"
          by (subst alloc_loop.simps) (simp add: get_bit_zero)
        moreover have "fits m b (sint n) i" using None fits_scan [OF False] by simp
        ultimately show ?thesis using True by (intro disjI1 exI [of _ i]) auto
      next
        case (Some j)
        with False True have e: "alloc_loop m b i n = alloc_loop m b (j + 1) n"
          by (subst alloc_loop.simps) (simp add: get_bit_zero)
        have j: "i \<le> j" "j < sint (bm_count b)" "j - i + 1 \<le> sint n" "marked m b j"
          using scan_run_Some [OF Some] by (auto simp: marked_def)
        have "\<not> fits m b (sint n) k" if "i \<le> k" "k < j + 1" for k
          using that j by (auto simp: fits_def)
        with e j(1) True show ?thesis by (intro skip [of "j + 1"]) auto
      qed
    qed
  qed
qed

section \<open>The bitmap is correct\<close>

lemma marked_set_bit:
  assumes "0 \<le> sint index" "sint index < sint (bm_count b)" "sint index + sint n < 2 ^ 31"
    and "0 \<le> j" "j < 2 ^ 31"
  shows "marked (bitmap_set_bit m b index n v) b j
    \<longleftrightarrow> (if sint index \<le> j \<and> j < sint index + sint n then v \<noteq> 0 else marked m b j)"
proof -
  have "sint (index + n) = sint index + sint n"
    using assms(1,3) sint_greater_eq [of n] by (intro sint_plus_small) auto
  with assms show ?thesis by (simp add: bitmap_set_bit_def marked_set_loop)
qed

lemma bitmap_set_bit_frame:
  assumes "0 \<le> sint index" "sint index + sint n < 2 ^ 31"
  shows "same_outside (bit_bytes b (sint index + sint n)) m (bitmap_set_bit m b index n v)"
proof -
  have "sint (index + n) = sint index + sint n"
    using assms sint_greater_eq [of n] by (intro sint_plus_small) auto
  with assms show ?thesis
    using set_bit_loop_frame [of "sint index" b "sint (index + n)" m v]
    by (simp add: bitmap_set_bit_def)
qed

text \<open>
  setting or clearing a range from an index inside the bitmap gives every bit of the
  range the value asked for, leaves every other bit alone, and writes only the bytes up to
  the end of the range.
\<close>

theorem bitmap_set_bit_correct:
  assumes "0 \<le> sint index" "sint index < sint (bm_count b)" "sint index + sint n < 2 ^ 31"
    and "0 \<le> j" "j < 2 ^ 31"
  shows "(marked (bitmap_set_bit m b index n v) b j
      \<longleftrightarrow> (if sint index \<le> j \<and> j < sint index + sint n then v \<noteq> 0 else marked m b j))
    \<and> same_outside (bit_bytes b (sint index + sint n)) m (bitmap_set_bit m b index n v)"
  using marked_set_bit [OF assms] bitmap_set_bit_frame [OF assms(1,3)] by blast

definition sample_bitmap :: bitmap_t where
  "sample_bitmap = \<lparr>bm_count = 8, bm_bits = 0x100\<rparr>"

theorem bitmap_set_bit_correct_witness:
  "marked (bitmap_set_bit (\<lambda>_. 0) sample_bitmap 2 3 1) sample_bitmap 4
   \<and> \<not> marked (bitmap_set_bit (\<lambda>_. 0) sample_bitmap 2 3 1) sample_bitmap 5"
proof -
  have "\<not> marked (\<lambda>_. 0) sample_bitmap 5" by (simp add: marked_def bitmap_get_bit_def)
  then show ?thesis
    using bitmap_set_bit_correct [of 2 sample_bitmap 3 4 "\<lambda>_. 0" 1]
      bitmap_set_bit_correct [of 2 sample_bitmap 3 5 "\<lambda>_. 0" 1]
    by (simp add: sample_bitmap_def)
qed

lemma bitmap_alloc_spec:
  assumes "0 \<le> sint index" and "sint (bm_count b) + sint n < 2 ^ 31"
    and "bitmap_alloc_nbits m b index n = (m', r)"
  shows "if \<exists>k\<ge>sint index. k < sint (bm_count b) \<and> fits m b (sint n) k
    then sint index \<le> sint r \<and> sint r < sint (bm_count b) \<and> fits m b (sint n) (sint r)
      \<and> \<not> (\<exists>k. sint index \<le> k \<and> k < sint r \<and> fits m b (sint n) k)
      \<and> {j \<in> {0..<2 ^ 31}. marked m' b j} = {j \<in> {0..<2 ^ 31}. marked m b j} \<union> {sint r..<sint r + sint n}
    else r = - 1 \<and> m' = m"
proof -
  let ?P = "\<lambda>k. sint index \<le> k \<and> k < sint (bm_count b) \<and> fits m b (sint n) k"
  from alloc_loop_spec [OF assms(1), of b m n] consider
    (found) k where "?P k" "\<forall>k'. sint index \<le> k' \<and> k' < k \<longrightarrow> \<not> fits m b (sint n) k'"
      "m' = bitmap_set_bit m b (word_of_int k) n 1" "r = word_of_int k"
    | (none) "\<not> (\<exists>k. ?P k)" "m' = m" "r = - 1"
    using assms(3) by (auto simp: bitmap_alloc_nbits_def)
  then show ?thesis
  proof cases
    case found
    have r: "sint r = k"
      using found(1,4) assms(1) sint_less [of "bm_count b"] by (simp add: sint_word_of_int_id)
    have "marked m' b j \<longleftrightarrow> (k \<le> j \<and> j < k + sint n) \<or> marked m b j" if "0 \<le> j" "j < 2 ^ 31" for j
      using marked_set_bit [of r b n j m 1] found(1,3,4) r that assms(1,2) by auto
    with found(1) assms(1,2) have "{j \<in> {0..<2 ^ 31}. marked m' b j}
        = {j \<in> {0..<2 ^ 31}. marked m b j} \<union> {sint r..<sint r + sint n}"
      unfolding r by auto
    with found r show ?thesis by auto
  qed auto
qed

text \<open>
  C20: the search is first fit.  It returns the smallest index from the start index on that
  fits, and marks \<open>n\<close> bits from there and nothing else; when no index fits it returns
  \<open>-1\<close> and writes nothing.
\<close>

theorem bitmap_alloc_first_fit:
  assumes "0 \<le> sint index" and "sint (bm_count b) + sint n < 2 ^ 31"
    and "bitmap_alloc_nbits m b index n = (m', r)"
  shows "if \<exists>k\<ge>sint index. k < sint (bm_count b) \<and> fits m b (sint n) k
    then sint index \<le> sint r \<and> sint r < sint (bm_count b) \<and> fits m b (sint n) (sint r)
      \<and> \<not> (\<exists>k. sint index \<le> k \<and> k < sint r \<and> fits m b (sint n) k)
      \<and> {j \<in> {0..<2 ^ 31}. marked m' b j} = {j \<in> {0..<2 ^ 31}. marked m b j} \<union> {sint r..<sint r + sint n}
    else r = - 1 \<and> m' = m"
  using assms by (rule bitmap_alloc_spec)

theorem bitmap_alloc_first_fit_witness:
  "snd (bitmap_alloc_nbits (\<lambda>_. 0) sample_bitmap 2 3) = 2"
proof -
  obtain m' r where a: "bitmap_alloc_nbits (\<lambda>_. 0) sample_bitmap 2 3 = (m', r)" by fastforce
  have f: "fits (\<lambda>_. 0) sample_bitmap 3 k" for k
    by (simp add: fits_def marked_def bitmap_get_bit_def)
  have "sint r = 2"
  proof (rule antisym)
    show "2 \<le> sint r" "sint r \<le> 2"
      using bitmap_alloc_first_fit [OF _ _ a] f by (auto simp: sample_bitmap_def split: if_splits)
  qed
  moreover have "r = word_of_int (sint r)" by simp
  ultimately have "r = 2" by simp
  with a show ?thesis by simp
qed

text \<open>
  C33: near the end of the bitmap the search succeeds with fewer than \<open>n\<close> clear bits: when
  everything below \<open>k\<close> is taken, only the bits from \<open>k\<close> to the end are clear, and
  there are fewer than \<open>n\<close> of them, it returns \<open>k\<close> and marks bits beyond the end of
  the bitmap.
\<close>

theorem bitmap_alloc_overruns:
  assumes "0 \<le> k" "k < sint (bm_count b)" "sint (bm_count b) < k + sint n"
    and "sint (bm_count b) + sint n < 2 ^ 31"
    and "\<forall>j\<in>{0..<k}. marked m b j" and "\<forall>j\<in>{k..<sint (bm_count b)}. \<not> marked m b j"
  shows "\<exists>m'. bitmap_alloc_nbits m b 0 n = (m', word_of_int k) \<and> marked m' b (sint (bm_count b))"
proof -
  obtain m' r where a: "bitmap_alloc_nbits m b 0 n = (m', r)" by fastforce
  have f: "fits m b (sint n) k" using assms(1,2,6) by (auto simp: fits_def)
  have nf: "\<not> fits m b (sint n) j" if "0 \<le> j" "j < k" for j
    using assms(5) that by (simp add: fits_def)
  have ex: "\<exists>k\<ge>sint (0 :: c_int). k < sint (bm_count b) \<and> fits m b (sint n) k"
    using f assms(1,2) by auto
  note r = bitmap_alloc_spec [OF _ assms(4) a, unfolded if_P [OF ex]]
  from r have "0 \<le> sint r" "fits m b (sint n) (sint r)" "sint r \<le> k"
    using f assms(1) by (auto simp: not_less [symmetric])
  with nf have k: "sint r = k" by (metis not_less order_antisym_conv)
  then have "r = word_of_int k" by auto
  moreover have "marked m' b (sint (bm_count b))"
    using r k assms(1-4) sint_less [of "bm_count b"] by auto
  ultimately show ?thesis using a by blast
qed

theorem bitmap_alloc_overruns_witness:
  "\<exists>m'. bitmap_alloc_nbits ((\<lambda>_. 0)(0x100 := 0x0F)) sample_bitmap 0 5 = (m', 4)
     \<and> marked m' sample_bitmap 8"
proof -
  let ?m = "(\<lambda>_. 0)(0x100 := 0x0F) :: mem"
  have m: "marked ?m sample_bitmap j \<longleftrightarrow> j < 4" if "j \<in> {0..<8}" for j
    using that bit_in_byte [of j] by (simp add: marked_bit sample_bitmap_def bit_masks nat_less_iff)
  then show ?thesis
    using bitmap_alloc_overruns [of 4 sample_bitmap 5 "?m"] by (simp add: sample_bitmap_def)
qed

text \<open>
  a range that was clear is clear again after it has been allocated and released.
\<close>

theorem bitmap_alloc_free_roundtrip:
  assumes "0 \<le> sint index" and "sint (bm_count b) + sint n < 2 ^ 31"
    and "bitmap_alloc_nbits m b index n = (m', r)" "r \<noteq> - 1" "sint r + sint n \<le> sint (bm_count b)"
    and "0 \<le> j" "j < 2 ^ 31"
  shows "marked (bitmap_set_bit m' b r n 0) b j = marked m b j"
proof -
  note r = bitmap_alloc_spec [OF assms(1-3)]
  have ex: "\<exists>k\<ge>sint index. k < sint (bm_count b) \<and> fits m b (sint n) k"
    using r assms(4) by (rule_tac ccontr) (simp only: if_False, simp)
  note r = r [unfolded if_P [OF ex]]
  have m': "marked m' b j \<longleftrightarrow> marked m b j \<or> sint r \<le> j \<and> j < sint r + sint n"
    using r assms(6,7) by (auto simp: set_eq_iff)
  have clear: "sint r \<le> j \<Longrightarrow> j < sint r + sint n \<Longrightarrow> \<not> marked m b j"
    using r assms(5) by (simp add: fits_def)
  have "marked (bitmap_set_bit m' b r n 0) b j
      \<longleftrightarrow> (if sint r \<le> j \<and> j < sint r + sint n then False else marked m' b j)"
    using r assms(1,2,6,7) by (subst marked_set_bit) auto
  with m' clear show ?thesis by auto
qed

theorem bitmap_alloc_free_roundtrip_witness:
  "\<not> marked (bitmap_set_bit (fst (bitmap_alloc_nbits (\<lambda>_. 0) sample_bitmap 2 3)) sample_bitmap 2 3 0)
     sample_bitmap 3"
proof -
  have f: "fits (\<lambda>_. 0) sample_bitmap 3 k" for k
    by (simp add: fits_def marked_def bitmap_get_bit_def)
  have "scan_run (\<lambda>_. 0) sample_bitmap 2 3 2 = None"
    using f [of 2] fits_scan [of "\<lambda>_. 0" sample_bitmap 2 3] by (simp add: fits_def)
  then have "bitmap_alloc_nbits (\<lambda>_. 0) sample_bitmap 2 3
      = (bitmap_set_bit (\<lambda>_. 0) sample_bitmap 2 3 1, 2)"
    by (simp add: bitmap_alloc_nbits_def alloc_loop.simps [of _ _ 2] bitmap_get_bit_def)
      (simp add: sample_bitmap_def)
  moreover have "\<not> marked (\<lambda>_. 0) sample_bitmap 3" by (simp add: marked_def bitmap_get_bit_def)
  ultimately show ?thesis
    using bitmap_alloc_free_roundtrip [of 2 sample_bitmap 3 "\<lambda>_. 0" _ 2 3]
    by (simp add: sample_bitmap_def)
qed

text \<open>after \<open>bitmap_init\<close> every bit of the bitmap is clear.\<close>

theorem bitmap_init_clear:
  assumes "0 \<le> sint n" "sint n < 2 ^ 31 - 8" "bitmap_init m n bits = (b, m')"
  shows "bm_count b = n \<and> \<not> (\<exists>j\<in>{0..<sint n}. marked m' b j) \<and> same_outside (bit_bytes b (sint n)) m m'"
proof -
  have "sint (7 + n) = 7 + sint n" using assms(1,2) by (subst sint_plus_small) auto
  then have bytes: "sint (bitmap_get_bytes n) = (sint n + 7) div 8"
    using assms(1,2) by (simp add: bitmap_get_bytes_def c_div_def sdiv8 sint_word_of_int_id add.commute)
  have b: "b = \<lparr>bm_count = n, bm_bits = bits\<rparr>" "m' = kmemset m bits 0 (bitmap_get_bytes n)"
    using assms(3) by (auto simp: bitmap_init_def Let_def)
  have eq: "m' x = (if x \<in> bit_bytes b (sint n) then 0 else m x)" for x
    using bytes assms(1) by (simp add: b kmemset_eq bit_bytes_def)
  have "\<not> marked m' b j" if "0 \<le> j" "j < sint n" for j
    using bit_bytes_mem [OF that, of b] by (simp add: marked_bit [OF that(1)] eq)
  then show ?thesis by (auto simp: b(1) [symmetric] eq same_outside_def) (simp add: b(1))
qed

theorem bitmap_init_clear_witness:
  "\<not> marked (snd (bitmap_init (\<lambda>_. 0xFF) 8 0x100)) (fst (bitmap_init (\<lambda>_. 0xFF) 8 0x100)) 7"
  using bitmap_init_clear [of 8 "\<lambda>_. 0xFF" "0x100"] by (cases "bitmap_init (\<lambda>_. 0xFF) 8 0x100") auto

end
