(* ===== verification/Memory.thy ===== *)
theory Memory
  imports Bitmap Os_Cfg
begin

text \<open>
  The page allocator of \<open>source/kernel/memory/memory.c\<close>.  \<open>addr_manager\<close> is a record,
  set once by \<open>memory_init\<close>; what changes afterwards are the bits of its bitmap, bytes of
  memory.  The memory map left by the loader is read from memory at \<open>mi\<close>: twenty pairs of
  words and a count.  \<open>ASSERT\<close> expands to nothing in the kernel's build.
\<close>

unbundle bit_operations_syntax

record addr_alloc_t =
  bitmap :: bitmap_t
  page_size :: u32
  kernelstart :: u32
  userstart :: u32
  mem_size :: u32

section \<open>The operations\<close>

definition DOWN2 :: "u32 \<Rightarrow> u32 \<Rightarrow> u32" where
  "DOWN2 data bound = data AND NOT (bound - 1)"

definition UP2 :: "u32 \<Rightarrow> u32 \<Rightarrow> u32" where
  "UP2 data bound = (data + bound - 1) AND NOT (bound - 1)"

definition kfree_pages :: "addr_alloc_t \<Rightarrow> mem \<Rightarrow> u32 \<Rightarrow> c_int \<Rightarrow> mem" where
  "kfree_pages am m addr n =
    (let pg_idx = (addr - kernelstart am) div page_size am
     in bitmap_set_bit m (bitmap am) pg_idx n 0)"

definition kalloc_pages :: "addr_alloc_t \<Rightarrow> mem \<Rightarrow> c_int \<Rightarrow> mem \<times> u32" where
  "kalloc_pages am m n =
    (case bitmap_alloc_nbits m (bitmap am) 0 n of (m, page_index) \<Rightarrow>
      if sint page_index \<ge> 1023 then (m, 0)
      else if sint page_index \<ge> 0 then (m, kernelstart am + page_index * MEM_PAGE_SIZE)
      else (m, 0))"

definition ualloc_pages :: "addr_alloc_t \<Rightarrow> mem \<Rightarrow> c_int \<Rightarrow> mem \<times> u32" where
  "ualloc_pages am m n =
    (case bitmap_alloc_nbits m (bitmap am)
        ((MEM_USERFREE_START - MEM_KERNELFREE_START) div MEM_PAGE_SIZE) n of (m, page_index) \<Rightarrow>
      if sint page_index \<ge> 0 then (m, kernelstart am + page_index * MEM_PAGE_SIZE) else (m, 0))"

definition alloc_init :: "mem \<Rightarrow> u32 \<Rightarrow> u32 \<Rightarrow> u32 \<Rightarrow> u32 \<Rightarrow> u32 \<Rightarrow> addr_alloc_t \<times> mem" where
  "alloc_init m bits sz kstart ustart pgsize =
    (case bitmap_init m (sz div pgsize) bits of (b, m) \<Rightarrow>
      (\<lparr>bitmap = b, page_size = pgsize, kernelstart = kstart, userstart = ustart, mem_size = sz\<rparr>, m))"

definition info_offset :: "mem \<Rightarrow> u32 \<Rightarrow> nat \<Rightarrow> u32" where
  "info_offset m mi i = ld32 m (mi + of_nat (8 * i) + 4)"

definition info_count :: "mem \<Rightarrow> u32 \<Rightarrow> c_int" where
  "info_count m mi = ld32 m (mi + 160)"

definition total_mem_size :: "mem \<Rightarrow> u32 \<Rightarrow> u32" where
  "total_mem_size m mi =
    fold (\<lambda>i mem_size. mem_size + info_offset m mi i) [0..<nat (sint (info_count m mi))] 0"

text \<open>\<open>free_addr\<close> is the address of the linker symbol of that name.\<close>

definition memory_init :: "mem \<Rightarrow> u32 \<Rightarrow> u32 \<Rightarrow> addr_alloc_t \<times> mem" where
  "memory_init m free_addr mi =
    (let mem_free = free_addr;
         mem_free_size = total_mem_size m mi - MEM_KERNELFREE_START;
         mem_free_size = DOWN2 mem_free_size MEM_PAGE_SIZE
     in alloc_init m mem_free mem_free_size MEM_KERNELFREE_START MEM_USERFREE_START MEM_PAGE_SIZE)"

section \<open>Pages\<close>

text \<open>
  The pages of an allocator: page \<open>i\<close> is the 4 KB at \<open>page_addr am i\<close>, and it is in use
  when its bit is set.
\<close>

definition page_addr :: "addr_alloc_t \<Rightarrow> int \<Rightarrow> u32" where
  "page_addr am i = kernelstart am + word_of_int (i * 4096)"

definition npages :: "addr_alloc_t \<Rightarrow> int" where
  "npages am = sint (bm_count (bitmap am))"

definition used :: "addr_alloc_t \<Rightarrow> mem \<Rightarrow> int set" where
  "used am m = {i. 0 \<le> i \<and> i < npages am \<and> marked m (bitmap am) i}"

definition wf_alloc :: "addr_alloc_t \<Rightarrow> bool" where
  "wf_alloc am \<longleftrightarrow> page_size am = MEM_PAGE_SIZE \<and> 0 \<le> npages am \<and> 0 < uint (kernelstart am)
     \<and> 4096 dvd uint (kernelstart am) \<and> uint (kernelstart am) + 4096 * npages am \<le> 2 ^ 32"

lemma wf_npages: "wf_alloc am \<Longrightarrow> npages am < 2 ^ 20"
  unfolding wf_alloc_def by simp

lemma uint_page_addr:
  assumes "wf_alloc am" "0 \<le> i" "i < npages am"
  shows "uint (page_addr am i) = uint (kernelstart am) + 4096 * i"
proof -
  have "page_addr am i = word_of_int (uint (kernelstart am) + 4096 * i)"
    by (simp add: page_addr_def mult.commute)
  moreover have "uint (kernelstart am) + 4096 * i < 2 ^ 32" "0 < uint (kernelstart am)"
    using assms by (simp_all add: wf_alloc_def)
  ultimately show ?thesis using assms(2) by (simp only: uint_word_of_int_id)
qed

lemma page_addr_inj:
  assumes "wf_alloc am" "0 \<le> i" "i < npages am" "0 \<le> j" "j < npages am"
  shows "page_addr am i = page_addr am j \<longleftrightarrow> i = j"
proof
  assume "page_addr am i = page_addr am j"
  then have "uint (page_addr am i) = uint (page_addr am j)" by simp
  then show "i = j" by (simp only: uint_page_addr [OF assms(1-3)] uint_page_addr [OF assms(1,4,5)])
qed simp

lemma page_addr_nonzero:
  assumes "wf_alloc am" "0 \<le> i" "i < npages am"
  shows "page_addr am i \<noteq> 0"
proof
  assume "page_addr am i = 0"
  then have "uint (page_addr am i) = 0" by simp
  moreover have "0 < uint (kernelstart am)" using assms(1) by (simp only: wf_alloc_def)
  ultimately show False using assms(2) unfolding uint_page_addr [OF assms] by linarith
qed

lemma page_index:
  assumes "wf_alloc am" "0 \<le> i" "i < npages am"
  shows "(page_addr am i - kernelstart am) div page_size am = word_of_int i"
proof -
  have ps: "page_size am = 4096" using assms(1) by (simp add: wf_alloc_def MEM_PAGE_SIZE_def)
  have i: "i < 2 ^ 20" using assms(3) wf_npages [OF assms(1)] by linarith
  have d: "page_addr am i - kernelstart am = word_of_int (i * 4096)" by (simp add: page_addr_def)
  have "uint (word_of_int (i * 4096) div (4096 :: u32)) = uint (word_of_int (i * 4096) :: u32) div 4096"
    by (simp add: uint_div)
  also have "\<dots> = i" using i assms(2) by (subst uint_word_of_int_id) auto
  also have "i = uint (word_of_int i :: u32)" using i assms(2) by (subst uint_word_of_int_id) auto
  finally show ?thesis unfolding d ps by (rule word_eq_iff_unsigned [where 'a = int, THEN iffD2])
qed

section \<open>What an allocation does to the pages\<close>

lemma used_set_bit:
  assumes "wf_alloc am" "0 \<le> i" "i < npages am"
  shows "used am (bitmap_set_bit m (bitmap am) (word_of_int i) 1 v) =
    (if v \<noteq> 0 then insert i (used am m) else used am m - {i})"
proof -
  have "npages am < 2 ^ 20" by (rule wf_npages [OF assms(1)])
  then have i: "sint (word_of_int i :: c_int) = i" "i + 1 < 2 ^ 31" "npages am < 2 ^ 31"
    using assms(2,3) by (auto intro: sint_word_of_int_id)
  have "marked (bitmap_set_bit m (bitmap am) (word_of_int i) 1 v) (bitmap am) j
      \<longleftrightarrow> (if i = j then v \<noteq> 0 else marked m (bitmap am) j)" if "0 \<le> j" "j < npages am" for j
    using assms(2,3) i that by (subst marked_set_bit) (auto simp: npages_def)
  then show ?thesis using assms(2,3) by (auto simp: used_def split: if_splits)
qed

text \<open>One page asked for from page \<open>start\<close> on.\<close>

lemma alloc_one:
  assumes "wf_alloc am" "0 \<le> sint start"
  shows "(\<exists>i\<ge>sint start. i < npages am \<and> i \<notin> used am m \<and> {sint start..<i} \<subseteq> used am m
      \<and> bitmap_alloc_nbits m (bitmap am) start 1
        = (bitmap_set_bit m (bitmap am) (word_of_int i) 1 1, word_of_int i)
      \<and> sint (word_of_int i :: c_int) = i)
    \<or> {sint start..<npages am} \<subseteq> used am m \<and> bitmap_alloc_nbits m (bitmap am) start 1 = (m, - 1)"
proof -
  have fits: "fits m (bitmap am) 1 k \<longleftrightarrow> k \<notin> used am m" if "0 \<le> k" "k < npages am" for k
    using that by (auto simp: fits_def used_def npages_def)
  have small: "sint (word_of_int k :: c_int) = k" if "0 \<le> k" "k < npages am" for k
    using that wf_npages [OF assms(1)] by (intro sint_word_of_int_id) auto
  from alloc_loop_spec [OF assms(2), of "bitmap am" m 1] show ?thesis
  proof (elim disjE exE conjE)
    fix k assume k: "sint start \<le> k" "k < sint (bm_count (bitmap am))" "fits m (bitmap am) (sint (1 :: c_int)) k"
      "\<forall>k'. sint start \<le> k' \<and> k' < k \<longrightarrow> \<not> fits m (bitmap am) (sint (1 :: c_int)) k'"
      "alloc_loop m (bitmap am) (sint start) 1 = (bitmap_set_bit m (bitmap am) (word_of_int k) 1 1, word_of_int k)"
    then have "0 \<le> k" "k < npages am" using assms(2) by (auto simp: npages_def)
    moreover have "{sint start..<k} \<subseteq> used am m" using k(4) fits \<open>k < npages am\<close> assms(2) by auto
    ultimately show ?thesis
      using k fits small by (intro disjI1 exI [of _ k]) (auto simp: bitmap_alloc_nbits_def)
  next
    assume "\<forall>k. sint start \<le> k \<and> k < sint (bm_count (bitmap am)) \<longrightarrow> \<not> fits m (bitmap am) (sint (1 :: c_int)) k"
      "alloc_loop m (bitmap am) (sint start) 1 = (m, - 1)"
    then show ?thesis using fits assms(2) by (auto simp: bitmap_alloc_nbits_def npages_def)
  qed
qed

lemma page_result: "kernelstart am + word_of_int i * MEM_PAGE_SIZE = page_addr am i"
  by (simp add: page_addr_def MEM_PAGE_SIZE_def)

text \<open>The three outcomes of asking the kernel for a page, and the two of asking for a user page.\<close>

lemma kalloc_cases:
  assumes "wf_alloc am"
  obtains (page) i where "0 \<le> i" "i < 1023" "i < npages am" "i \<notin> used am m" "{0..<i} \<subseteq> used am m"
      "kalloc_pages am m 1 = (bitmap_set_bit m (bitmap am) (word_of_int i) 1 1, page_addr am i)"
    | (beyond) i where "1023 \<le> i" "i < npages am" "i \<notin> used am m" "{0..<i} \<subseteq> used am m"
      "kalloc_pages am m 1 = (bitmap_set_bit m (bitmap am) (word_of_int i) 1 1, 0)"
    | (full) "{0..<npages am} \<subseteq> used am m" "kalloc_pages am m 1 = (m, 0)"
proof -
  have z: "sint (0 :: c_int) = 0" by simp
  from alloc_one [OF assms, of 0 m, unfolded z, OF order_refl] show thesis
  proof (elim disjE exE conjE)
    fix i assume i: "0 \<le> i" "i < npages am" "i \<notin> used am m" "{0..<i} \<subseteq> used am m"
      "bitmap_alloc_nbits m (bitmap am) 0 1 = (bitmap_set_bit m (bitmap am) (word_of_int i) 1 1, word_of_int i)"
      "sint (word_of_int i :: c_int) = i"
    show thesis
    proof (cases "i < 1023")
      case True
      with i show thesis by (intro page) (simp_all add: kalloc_pages_def page_result)
    next
      case False
      with i show thesis by (intro beyond) (simp_all add: kalloc_pages_def)
    qed
  qed (use full in \<open>simp_all add: kalloc_pages_def\<close>)
qed

lemma ualloc_cases:
  assumes "wf_alloc am"
  obtains (page) i where "256 \<le> i" "i < npages am" "i \<notin> used am m" "{256..<i} \<subseteq> used am m"
      "ualloc_pages am m 1 = (bitmap_set_bit m (bitmap am) (word_of_int i) 1 1, page_addr am i)"
    | (full) "{256..<npages am} \<subseteq> used am m" "ualloc_pages am m 1 = (m, 0)"
proof -
  have st: "(MEM_USERFREE_START - MEM_KERNELFREE_START) div MEM_PAGE_SIZE = 256"
    by (simp add: MEM_USERFREE_START_def MEM_KERNELFREE_START_def MEM_PAGE_SIZE_def)
  have z: "sint (256 :: c_int) = 256" and p: "0 \<le> (256 :: int)" by simp_all
  from alloc_one [OF assms, of 256 m, unfolded z, OF p] show thesis
  proof (elim disjE exE conjE)
    fix i assume "256 \<le> i" "i < npages am" "i \<notin> used am m" "{256..<i} \<subseteq> used am m"
      "bitmap_alloc_nbits m (bitmap am) 256 1 = (bitmap_set_bit m (bitmap am) (word_of_int i) 1 1, word_of_int i)"
      "sint (word_of_int i :: c_int) = i"
    then show thesis by (intro page) (simp_all add: ualloc_pages_def page_result st)
  qed (use full in \<open>simp_all add: ualloc_pages_def st\<close>)
qed

lemma kfree_page:
  assumes "wf_alloc am" "0 \<le> i" "i < npages am"
  shows "kfree_pages am m (page_addr am i) 1 = bitmap_set_bit m (bitmap am) (word_of_int i) 1 0"
  by (simp add: kfree_pages_def page_index [OF assms])

section \<open>The interface of a page pool\<close>

text \<open>
  What the page tables and tasks may rely on: a page that has been taken was not in use
  before, is in use afterwards, and nothing else changes; giving it back undoes that.
  Address 0 means that there is no page.
\<close>

fun take_many :: "('s \<Rightarrow> 's \<times> u32) \<Rightarrow> nat \<Rightarrow> 's \<Rightarrow> 's \<times> u32 list" where
  "take_many tk 0 s = (s, [])"
| "take_many tk (Suc n) s =
    (case tk s of (s, a) \<Rightarrow> case take_many tk n s of (s, as) \<Rightarrow> (s, a # as))"

locale page_pool =
  fixes ok :: "'s \<Rightarrow> bool"
    and tk :: "'s \<Rightarrow> 's \<times> u32"
    and give :: "u32 \<Rightarrow> 's \<Rightarrow> 's"
    and in_use :: "'s \<Rightarrow> u32 set"
  assumes take_ok: "ok s \<Longrightarrow> tk s = (s', a) \<Longrightarrow> ok s'"
    and give_ok: "ok s \<Longrightarrow> ok (give a s)"
    and take_page: "ok s \<Longrightarrow> tk s = (s', a) \<Longrightarrow> a \<noteq> 0
      \<Longrightarrow> a \<notin> in_use s \<and> in_use s' = insert a (in_use s)"
    and take_none: "ok s \<Longrightarrow> tk s = (s', 0) \<Longrightarrow> in_use s \<subseteq> in_use s'"
    and give_page: "ok s \<Longrightarrow> a \<in> in_use s \<Longrightarrow> in_use (give a s) = in_use s - {a}"
begin

lemma take_keeps: "ok s \<Longrightarrow> tk s = (s', a) \<Longrightarrow> in_use s \<subseteq> in_use s'"
  using take_page take_none by (cases "a = 0") auto

lemma take_many_keeps:
  "ok s \<Longrightarrow> take_many tk n s = (s', as) \<Longrightarrow> ok s' \<and> in_use s \<subseteq> in_use s'"
proof (induction n arbitrary: s as)
  case (Suc n)
  obtain s1 a where a: "tk s = (s1, a)" by fastforce
  with Suc.prems obtain bs where "take_many tk n s1 = (s', bs)" by (auto split: prod.splits)
  with Suc.IH [OF take_ok [OF Suc.prems(1) a] this] take_keeps [OF Suc.prems(1) a] show ?case
    by blast
qed simp

lemma take_many_distinct:
  "ok s \<Longrightarrow> take_many tk n s = (s', as) \<Longrightarrow> distinct (filter (\<lambda>a. a \<noteq> 0) as)
     \<and> set (filter (\<lambda>a. a \<noteq> 0) as) \<inter> in_use s = {} \<and> set (filter (\<lambda>a. a \<noteq> 0) as) \<subseteq> in_use s'"
proof (induction n arbitrary: s as)
  case (Suc n)
  obtain s1 a where a: "tk s = (s1, a)" by fastforce
  with Suc.prems obtain bs where bs: "take_many tk n s1 = (s', bs)" "as = a # bs"
    by (auto split: prod.splits)
  have ok: "ok s1" using take_ok [OF Suc.prems(1) a] .
  note IH = Suc.IH [OF ok bs(1)]
  have keep: "in_use s1 \<subseteq> in_use s'" using take_many_keeps [OF ok bs(1)] by blast
  show ?case
  proof (cases "a = 0")
    case True
    with IH bs(2) take_keeps [OF Suc.prems(1) a] show ?thesis by auto
  next
    case False
    with take_page [OF Suc.prems(1) a] IH bs(2) keep show ?thesis by auto
  qed
qed simp

lemma take_give: "ok s \<Longrightarrow> tk s = (s', a) \<Longrightarrow> a \<noteq> 0 \<Longrightarrow> in_use (give a s') = in_use s"
  using take_page take_ok give_page by fastforce

end

section \<open>Both allocators are page pools\<close>

type_synonym pool = "addr_alloc_t \<times> mem"

definition pool_ok :: "pool \<Rightarrow> bool" where
  "pool_ok s = wf_alloc (fst s)"

definition kalloc_page :: "pool \<Rightarrow> pool \<times> u32" where
  "kalloc_page s = (case kalloc_pages (fst s) (snd s) 1 of (m, a) \<Rightarrow> ((fst s, m), a))"

definition ualloc_page :: "pool \<Rightarrow> pool \<times> u32" where
  "ualloc_page s = (case ualloc_pages (fst s) (snd s) 1 of (m, a) \<Rightarrow> ((fst s, m), a))"

definition kfree_one :: "u32 \<Rightarrow> pool \<Rightarrow> pool" where
  "kfree_one a s = (fst s, kfree_pages (fst s) (snd s) a 1)"

definition used_addrs :: "pool \<Rightarrow> u32 set" where
  "used_addrs s = page_addr (fst s) ` used (fst s) (snd s)"

lemma used_range: "i \<in> used am m \<Longrightarrow> 0 \<le> i \<and> i < npages am"
  by (simp add: used_def)

lemma page_in_used:
  assumes "wf_alloc am" "0 \<le> i" "i < npages am"
  shows "page_addr am i \<in> page_addr am ` used am m \<longleftrightarrow> i \<in> used am m"
proof
  assume "page_addr am i \<in> page_addr am ` used am m"
  then obtain j where "j \<in> used am m" "page_addr am i = page_addr am j" by auto
  with page_addr_inj [OF assms] used_range show "i \<in> used am m" by metis
qed simp

lemma image_remove:
  assumes "wf_alloc am" "0 \<le> i" "i < npages am"
  shows "page_addr am ` (used am m - {i}) = page_addr am ` used am m - {page_addr am i}"
proof -
  have "inj_on (page_addr am) {i. 0 \<le> i \<and> i < npages am}"
    using page_addr_inj [OF assms(1)] by (intro inj_onI) auto
  from inj_on_image_set_diff [OF this, of "used am m" "{i}"] show ?thesis
    using used_range assms(2,3) by (auto simp: subset_eq)
qed

lemma kalloc_page_law:
  assumes "wf_alloc am" "kalloc_pages am m 1 = (m', a)"
  shows "if a = 0 then used am m \<subseteq> used am m'
    else \<exists>i. 0 \<le> i \<and> i < npages am \<and> i \<notin> used am m \<and> a = page_addr am i \<and> used am m' = insert i (used am m)"
  using assms(1)
proof (cases rule: kalloc_cases [of _ m])
  case (page i)
  then show ?thesis
    using assms page_addr_nonzero [OF assms(1), of i] used_set_bit [OF assms(1), of i m 1] by auto
next
  case (beyond i)
  then show ?thesis using assms used_set_bit [OF assms(1), of i m 1] by auto
qed (use assms in auto)

lemma ualloc_page_law:
  assumes "wf_alloc am" "ualloc_pages am m 1 = (m', a)"
  shows "if a = 0 then used am m \<subseteq> used am m'
    else \<exists>i. 0 \<le> i \<and> i < npages am \<and> i \<notin> used am m \<and> a = page_addr am i \<and> used am m' = insert i (used am m)"
  using assms(1)
proof (cases rule: ualloc_cases [of _ m])
  case (page i)
  then show ?thesis
    using assms page_addr_nonzero [OF assms(1), of i] used_set_bit [OF assms(1), of i m 1]
    by (auto intro!: exI [of _ i])
qed (use assms in auto)

lemma kfree_page_law:
  assumes "wf_alloc am" "a \<in> page_addr am ` used am m"
  shows "page_addr am ` used am (kfree_pages am m a 1) = page_addr am ` used am m - {a}"
proof -
  from assms(2) obtain i where i: "a = page_addr am i" "i \<in> used am m" by auto
  with used_range have r: "0 \<le> i" "i < npages am" by auto
  show ?thesis
    unfolding i(1) kfree_page [OF assms(1) r] used_set_bit [OF assms(1) r] image_remove [OF assms(1) r, symmetric]
    by simp
qed

text \<open>An allocator that obeys the law of a single page makes a page pool.\<close>

lemma page_poolI:
  assumes law: "\<And>am m m' a. wf_alloc am \<Longrightarrow> alloc am m 1 = (m', a) \<Longrightarrow>
      if a = 0 then used am m \<subseteq> used am m'
      else \<exists>i. 0 \<le> i \<and> i < npages am \<and> i \<notin> used am m \<and> a = page_addr am i
        \<and> used am m' = insert i (used am m)"
    and tk: "\<And>s. tk s = (case alloc (fst s) (snd s) (1 :: c_int) of (m, a) \<Rightarrow> ((fst s, m), a))"
  shows "page_pool pool_ok tk kfree_one used_addrs"
proof
  fix s s' :: pool and a
  assume ok: "pool_ok s"
  then have wf: "wf_alloc (fst s)" by (simp add: pool_ok_def)
  show "pool_ok (kfree_one a s)" using wf by (simp add: pool_ok_def kfree_one_def)
  show "a \<in> used_addrs s \<Longrightarrow> used_addrs (kfree_one a s) = used_addrs s - {a}"
    using kfree_page_law [OF wf] by (simp add: used_addrs_def kfree_one_def)
  {
    assume "tk s = (s', a)"
    then obtain m' where k: "alloc (fst s) (snd s) 1 = (m', a)" "s' = (fst s, m')"
      by (auto simp: tk split: prod.splits)
    then show "pool_ok s'" using wf by (simp add: pool_ok_def)
    show "a \<noteq> 0 \<Longrightarrow> a \<notin> used_addrs s \<and> used_addrs s' = insert a (used_addrs s)"
      using law [OF wf k(1)] page_in_used [OF wf] k(2) by (auto simp: used_addrs_def)
  }
  show "tk s = (s', 0) \<Longrightarrow> used_addrs s \<subseteq> used_addrs s'"
    using law [OF wf] by (fastforce simp: used_addrs_def tk split: prod.splits)
qed

interpretation kpool: page_pool pool_ok kalloc_page kfree_one used_addrs
  by (rule page_poolI [where alloc = kalloc_pages], erule (1) kalloc_page_law, rule kalloc_page_def)

interpretation upool: page_pool pool_ok ualloc_page kfree_one used_addrs
  by (rule page_poolI [where alloc = ualloc_pages], erule (1) ualloc_page_law, rule ualloc_page_def)

section \<open>The page allocator is correct\<close>

definition sample_am :: addr_alloc_t where
  "sample_am = \<lparr>bitmap = \<lparr>bm_count = 512, bm_bits = 0x100\<rparr>, page_size = MEM_PAGE_SIZE,
     kernelstart = MEM_KERNELFREE_START, userstart = MEM_USERFREE_START, mem_size = 0x200000\<rparr>"

lemma sample_am_wf: "wf_alloc sample_am" "npages sample_am = 512"
    "kernelstart sample_am = MEM_KERNELFREE_START"
  by (simp_all add: wf_alloc_def npages_def sample_am_def MEM_KERNELFREE_START_def MEM_PAGE_SIZE_def)

lemma sample_am_used: "used sample_am (\<lambda>_. 0) = {}"
  by (simp add: used_def marked_def bitmap_get_bit_def)

text \<open>
  any number of pages taken one after the other from the kernel allocator are distinct,
  none of them was in use before, and all of them are in use afterwards.
\<close>

theorem kalloc_pages_distinct:
  assumes "wf_alloc (fst s)" and "take_many kalloc_page n s = (s', as)"
  shows "distinct (filter (\<lambda>a. a \<noteq> 0) as) \<and> set (filter (\<lambda>a. a \<noteq> 0) as) \<inter> used_addrs s = {}
    \<and> set (filter (\<lambda>a. a \<noteq> 0) as) \<subseteq> used_addrs s'"
  using assms by (intro kpool.take_many_distinct) (simp_all add: pool_ok_def)

theorem kalloc_pages_distinct_witness:
  "distinct (filter (\<lambda>a. a \<noteq> 0) (snd (take_many kalloc_page 3 (sample_am, \<lambda>_. 0))))"
  using kalloc_pages_distinct [where n = 3 and s = "(sample_am, \<lambda>_. 0)"] sample_am_wf(1)
  by (cases "take_many kalloc_page 3 (sample_am, \<lambda>_. 0)") auto

text \<open>
  a kernel or user page that has been allocated and freed again leaves exactly the pages
  in use that were in use before.
\<close>

theorem page_alloc_free_roundtrip:
  assumes "wf_alloc am" and "a \<noteq> 0"
    and "kalloc_pages am m 1 = (m', a) \<or> ualloc_pages am m 1 = (m', a)"
  shows "used_addrs (am, kfree_pages am m' a 1) = used_addrs (am, m)"
proof -
  have ok: "pool_ok (am, m)" using assms(1) by (simp add: pool_ok_def)
  from assms(3) have "kalloc_page (am, m) = ((am, m'), a) \<or> ualloc_page (am, m) = ((am, m'), a)"
    by (auto simp: kalloc_page_def ualloc_page_def)
  then have "used_addrs (kfree_one a (am, m')) = used_addrs (am, m)"
    using kpool.take_give [OF ok _ assms(2)] upool.take_give [OF ok _ assms(2)] by blast
  then show ?thesis by (simp add: kfree_one_def)
qed

theorem page_alloc_free_roundtrip_witness:
  "\<exists>m'. ualloc_pages sample_am (\<lambda>_. 0) 1 = (m', 0x200000)
     \<and> used_addrs (sample_am, kfree_pages sample_am m' 0x200000 1) = {}"
proof -
  obtain i m' where i: "256 \<le> i" "{256..<i} \<subseteq> used sample_am (\<lambda>_. 0)"
    "ualloc_pages sample_am (\<lambda>_. 0) 1 = (m', page_addr sample_am i)"
    using sample_am_wf(1)
    by (cases rule: ualloc_cases [of _ "\<lambda>_. 0"]) (auto simp: sample_am_used sample_am_wf(2))
  have "i = 256" using i(1,2) by (simp add: sample_am_used)
  then have "page_addr sample_am i = 0x200000"
    by (simp add: page_addr_def sample_am_wf(3) MEM_KERNELFREE_START_def)
  with i(3) page_alloc_free_roundtrip [OF sample_am_wf(1), of "0x200000" "\<lambda>_. 0" m'] show ?thesis
    by (simp add: used_addrs_def sample_am_used)
qed

lemma kalloc_result:
  assumes "wf_alloc am" and "kalloc_pages am m 1 = (m', a)"
  shows "if {0..<npages am} \<subseteq> used am m then m' = m \<and> a = 0
    else \<exists>i. 0 \<le> i \<and> i < npages am \<and> i \<notin> used am m \<and> {0..<i} \<subseteq> used am m
      \<and> used am m' = insert i (used am m) \<and> a = (if i < 1023 then page_addr am i else 0)"
  using assms(1)
proof (cases rule: kalloc_cases [of _ m])
  case (page i)
  moreover have "\<not> {0..<npages am} \<subseteq> used am m" using page by auto
  ultimately show ?thesis using assms used_set_bit [OF assms(1), of i m 1] by auto
next
  case (beyond i)
  then have "i \<in> {0..<npages am}" by simp
  with beyond(3) have "\<not> {0..<npages am} \<subseteq> used am m" by blast
  with beyond show ?thesis
    using assms used_set_bit [OF assms(1), of i m 1] by (auto intro!: exI [of _ i])
qed (use assms in auto)

text \<open>
  asked for one page, the kernel allocator marks the lowest free page and returns its
  address when its number is below 1023; when the lowest free page lies beyond, it returns
  0 although the page has been marked, so the page is lost; and it returns 0 and
  changes nothing when no page is free.
\<close>

theorem kalloc_lowest_or_leak:
  assumes "wf_alloc am" and "kalloc_pages am m 1 = (m', a)"
  shows "if {0..<npages am} \<subseteq> used am m then m' = m \<and> a = 0
    else \<exists>i. 0 \<le> i \<and> i < npages am \<and> i \<notin> used am m \<and> {0..<i} \<subseteq> used am m
      \<and> used am m' = insert i (used am m) \<and> a = (if i < 1023 then page_addr am i else 0)"
  using assms by (rule kalloc_result)

theorem kalloc_lowest_or_leak_witness:
  "snd (kalloc_pages sample_am (\<lambda>_. 0) 1) = 0x100000"
proof -
  obtain m' a where k: "kalloc_pages sample_am (\<lambda>_. 0) 1 = (m', a)" by fastforce
  obtain i where "0 \<le> i" "{0..<i} \<subseteq> {}" "a = (if i < 1023 then page_addr sample_am i else 0)"
    using kalloc_lowest_or_leak [OF sample_am_wf(1) k] by (auto simp: sample_am_used sample_am_wf(2))
  then have "a = page_addr sample_am 0" by simp
  with k show ?thesis by (simp add: page_addr_def sample_am_wf(3) MEM_KERNELFREE_START_def)
qed

text \<open>
  the user allocator returns the lowest free page from page 256 on, at or above the
  start of user memory two megabytes up, or 0 when there is none.
\<close>

theorem ualloc_lowest:
  assumes "wf_alloc am" and "kernelstart am = MEM_KERNELFREE_START" and "ualloc_pages am m 1 = (m', a)"
  shows "if {256..<npages am} \<subseteq> used am m then m' = m \<and> a = 0
    else MEM_USERFREE_START \<le> a \<and> (\<exists>i\<ge>256. i < npages am \<and> i \<notin> used am m
      \<and> {256..<i} \<subseteq> used am m \<and> used am m' = insert i (used am m) \<and> a = page_addr am i)"
  using assms(1)
proof (cases rule: ualloc_cases [of _ m])
  case (page i)
  have "uint (page_addr am i) = 0x100000 + 4096 * i"
    using uint_page_addr [OF assms(1)] page assms(2) by (simp add: MEM_KERNELFREE_START_def)
  then have "MEM_USERFREE_START \<le> page_addr am i"
    using page(1) by (simp add: word_le_def MEM_USERFREE_START_def)
  moreover have "\<not> {256..<npages am} \<subseteq> used am m" using page by auto
  ultimately show ?thesis
    using assms page used_set_bit [OF assms(1), of i m 1] by (auto intro!: exI [of _ i])
qed (use assms in auto)

theorem ualloc_lowest_witness:
  "MEM_USERFREE_START \<le> snd (ualloc_pages sample_am (\<lambda>_. 0) 1)"
proof -
  obtain m' a where k: "ualloc_pages sample_am (\<lambda>_. 0) 1 = (m', a)" by fastforce
  show ?thesis
    using ualloc_lowest [OF sample_am_wf(1,3) k] k by (simp add: sample_am_used sample_am_wf(2))
qed

text \<open>
  nothing keeps the kernel allocator out of user memory: once the 256 pages below two
  megabytes are taken, the next kernel page is the first page of user memory.
\<close>

theorem kalloc_enters_user_memory:
  assumes "wf_alloc am" and "kernelstart am = MEM_KERNELFREE_START"
    and "{0..<256} \<subseteq> used am m" and "256 < npages am" "256 \<notin> used am m"
  shows "snd (kalloc_pages am m 1) = MEM_USERFREE_START"
proof -
  obtain m' a where k: "kalloc_pages am m 1 = (m', a)" by fastforce
  have "256 \<in> {0..<npages am}" using assms(4) by simp
  with assms(5) have "\<not> {0..<npages am} \<subseteq> used am m" by blast
  with kalloc_result [OF assms(1) k] obtain i where i: "0 \<le> i" "i \<notin> used am m"
    "{0..<i} \<subseteq> used am m" "a = (if i < 1023 then page_addr am i else 0)" by auto
  have "i = 256"
  proof (rule antisym)
    show "i \<le> 256"
    proof (rule ccontr)
      assume "\<not> i \<le> 256"
      then have "256 \<in> {0..<i}" by simp
      with i(3) assms(5) show False by blast
    qed
    show "256 \<le> i"
    proof (rule ccontr)
      assume "\<not> 256 \<le> i"
      then have "i \<in> {0..<256}" using i(1) by simp
      with i(2) assms(3) show False by blast
    qed
  qed
  with i(4) k show ?thesis
    by (simp add: page_addr_def assms(2) MEM_KERNELFREE_START_def MEM_USERFREE_START_def)
qed

theorem kalloc_enters_user_memory_witness:
  "snd (kalloc_pages sample_am (\<lambda>x. if x < 0x120 then 0xFF else 0) 1) = 0x200000"
proof -
  let ?m = "(\<lambda>x. if x < 0x120 then 0xFF else 0) :: mem"
  have b: "bm_bits (bitmap sample_am) = 0x100" by (simp add: sample_am_def)
  have byte: "?m (0x100 + word_of_int k) = (if k < 32 then 0xFF else 0)" if "0 \<le> k" "k < 64" for k
  proof -
    have "uint (0x100 + word_of_int k :: u32) = 0x100 + k"
      using uint_word_of_int_id [of "0x100 + k"] that by simp
    then show ?thesis by (simp add: word_less_def)
  qed
  have m: "marked ?m (bitmap sample_am) i \<longleftrightarrow> i < 256" if "0 \<le> i" "i < 512" for i
  proof -
    have "i div 8 < 32 \<longleftrightarrow> i < 256" "0 \<le> i div 8" "i div 8 < 64" using that by auto
    with byte [of "i div 8"] that bit_in_byte [of i] show ?thesis
      by (simp add: marked_bit b bit_masks)
  qed
  have "{0..<256} \<subseteq> used sample_am ?m" "256 \<notin> used sample_am ?m"
    using m by (auto simp: used_def sample_am_wf(2))
  from kalloc_enters_user_memory [OF sample_am_wf(1,3) this(1) _ this(2)] show ?thesis
    by (simp add: sample_am_wf(2) MEM_USERFREE_START_def)
qed

text \<open>
  \<open>kfree_pages\<close> of an allocated page clears exactly its bit; an address below the
  start of the pool wraps to an index beyond its end and changes nothing.
\<close>

theorem kfree_pages_correct:
  assumes "wf_alloc am" and "a \<in> used_addrs (am, m)" and "b < kernelstart am"
  shows "used_addrs (am, kfree_pages am m a 1) = used_addrs (am, m) - {a}
    \<and> kfree_pages am m b 1 = m"
proof
  show "used_addrs (am, kfree_pages am m a 1) = used_addrs (am, m) - {a}"
    using kfree_page_law [OF assms(1)] assms(2) by (simp add: used_addrs_def)
  have wf: "0 \<le> npages am" "uint (kernelstart am) + 4096 * npages am \<le> 2 ^ 32" "page_size am = 4096"
    using assms(1) by (simp_all add: wf_alloc_def MEM_PAGE_SIZE_def)
  have e: "b - kernelstart am = word_of_int (uint b - uint (kernelstart am) + 2 ^ 32)" by simp
  have lt: "uint b < uint (kernelstart am)" using assms(3) by (simp add: word_less_def)
  have d: "uint (b - kernelstart am) = uint b - uint (kernelstart am) + 2 ^ 32"
    unfolding e
  proof (rule uint_word_of_int_id)
    show "0 \<le> uint b - uint (kernelstart am) + 2 ^ 32"
    proof -
      have "uint (kernelstart am) < 4294967296" using uint_bounded [of "kernelstart am"] by simp
      with uint_ge_0 [of b] have "0 \<le> uint b - uint (kernelstart am) + 4294967296" by linarith
      then show ?thesis by simp
    qed
  qed (use lt in simp)
  let ?pg = "(b - kernelstart am) div page_size am"
  have pg: "uint ?pg = (uint b - uint (kernelstart am) + 2 ^ 32) div 4096"
    by (simp add: wf(3) uint_div d)
  have "uint ?pg < 2 ^ 31" using lt unfolding pg by simp
  then have "sint ?pg = uint ?pg" by (rule sint_uint_small)
  moreover have "npages am \<le> uint ?pg" using wf(2) uint_ge_0 [of b] unfolding pg by linarith
  ultimately show "kfree_pages am m b 1 = m"
    by (simp add: kfree_pages_def bitmap_set_bit_def npages_def)
qed

theorem kfree_pages_correct_witness:
  "used_addrs (sample_am, kfree_pages sample_am (bitmap_set_bit (\<lambda>_. 0) (bitmap sample_am) 3 1 1) 0x103000 1) = {}"
proof -
  let ?m = "bitmap_set_bit (\<lambda>_. 0) (bitmap sample_am) 3 1 1"
  have "used sample_am ?m = {3}"
    using used_set_bit [OF sample_am_wf(1), of 3 "\<lambda>_. 0" 1] by (simp add: sample_am_wf(2) sample_am_used)
  then have u: "used_addrs (sample_am, ?m) = {0x103000}"
    by (simp add: used_addrs_def page_addr_def sample_am_wf(3) MEM_KERNELFREE_START_def)
  show ?thesis
    using kfree_pages_correct [OF sample_am_wf(1), of "0x103000" "?m" 0] u
    by (simp add: sample_am_wf(3) MEM_KERNELFREE_START_def)
qed

lemma DOWN2_div: "DOWN2 x 4096 div 4096 = x div 4096"
proof -
  have d: "v div 4096 = drop_bit 12 v" for v :: u32 by (simp add: drop_bit_eq_div)
  have "drop_bit 12 (x AND NOT 0xFFF) = drop_bit 12 x"
    by (rule bit_word_eqI) (auto simp: bit_simps bit_masks dest: bit_imp_le_length)
  then show ?thesis by (simp add: DOWN2_def d)
qed

lemma memory_init_eq:
  assumes "memory_init m free_addr mi = (am, m')"
  shows "page_size am = MEM_PAGE_SIZE" "kernelstart am = MEM_KERNELFREE_START"
    and "npages am = uint (total_mem_size m mi - MEM_KERNELFREE_START) div 4096"
    and "used am m' = {}" "same_outside (bit_bytes (bitmap am) (npages am)) m m'"
proof -
  let ?x = "total_mem_size m mi - MEM_KERNELFREE_START"
  let ?n = "DOWN2 ?x MEM_PAGE_SIZE div MEM_PAGE_SIZE"
  have n: "uint ?n = uint ?x div 4096"
    by (simp add: MEM_PAGE_SIZE_def DOWN2_div uint_div)
  have b: "uint ?n < 2 ^ 20" unfolding n using uint_bounded [of "?x"] by simp
  then have sn: "sint ?n = uint ?n" by (intro sint_uint_small) simp
  obtain bm where bm: "bitmap_init m ?n free_addr = (bm, m')" and am: "am = \<lparr>bitmap = bm,
      page_size = MEM_PAGE_SIZE, kernelstart = MEM_KERNELFREE_START, userstart = MEM_USERFREE_START,
      mem_size = DOWN2 ?x MEM_PAGE_SIZE\<rparr>"
    using assms by (auto simp: memory_init_def alloc_init_def Let_def split: prod.splits)
  from am show "page_size am = MEM_PAGE_SIZE" "kernelstart am = MEM_KERNELFREE_START" by simp_all
  have "bm_count bm = ?n \<and> \<not> (\<exists>j\<in>{0..<sint ?n}. marked m' bm j) \<and> same_outside (bit_bytes bm (sint ?n)) m m'"
    using bitmap_init_clear [OF _ _ bm] b unfolding sn by auto
  then show "npages am = uint ?x div 4096" "used am m' = {}" "same_outside (bit_bytes (bitmap am) (npages am)) m m'"
    by (auto simp: npages_def used_def am sn n)
qed

definition sample_map :: "u32 \<Rightarrow> mem" where
  "sample_map len = st32 (st32 (\<lambda>_. 0) 0x5004 len) 0x50A0 1"

lemma sample_map_total: "total_mem_size (sample_map len) 0x5000 = len"
  by (simp add: total_mem_size_def info_count_def info_offset_def sample_map_def mem_simps
      aligned4_numeral)

lemma memory_init_pool:
  assumes "MEM_KERNELFREE_START \<le> total_mem_size m mi" and "memory_init m free_addr mi = (am, m')"
  shows "wf_alloc am \<and> used am m' = {} \<and> kernelstart am = MEM_KERNELFREE_START
    \<and> uint MEM_KERNELFREE_START + 4096 * npages am \<le> uint (total_mem_size m mi)
    \<and> uint (total_mem_size m mi) < uint MEM_KERNELFREE_START + 4096 * npages am + 4096"
proof -
  note eq = memory_init_eq [OF assms(2)]
  have "uint (total_mem_size m mi - MEM_KERNELFREE_START) = uint (total_mem_size m mi) - uint MEM_KERNELFREE_START"
    using assms(1) by (simp add: uint_sub_if' word_le_def)
  then have n: "npages am = (uint (total_mem_size m mi) - 0x100000) div 4096"
    unfolding eq(3) by (simp add: MEM_KERNELFREE_START_def)
  have "0x100000 \<le> uint (total_mem_size m mi)" "uint (total_mem_size m mi) < 2 ^ 32"
    using assms(1) uint_bounded [of "total_mem_size m mi"] by (simp_all add: word_le_def MEM_KERNELFREE_START_def)
  then show ?thesis
    using eq(1,2,4) by (auto simp: wf_alloc_def n MEM_KERNELFREE_START_def)
qed

text \<open>
  on a machine that reports less than one megabyte the subtraction wraps: the allocator
  then claims pages far beyond all the memory there is.
\<close>

lemma memory_init_underflow:
  assumes "total_mem_size m mi < MEM_KERNELFREE_START" and "memory_init m free_addr mi = (am, m')"
  shows "uint (total_mem_size m mi) < 4096 * npages am"
proof -
  define t where "t = uint (total_mem_size m mi)"
  have t: "t < 0x100000" "0 \<le> t"
    using assms(1) by (simp_all add: word_less_def MEM_KERNELFREE_START_def t_def)
  have "uint (total_mem_size m mi - MEM_KERNELFREE_START) = t - 0x100000 + 2 ^ 32"
    using t(1) by (simp add: uint_sub_if' MEM_KERNELFREE_START_def t_def)
  then have "npages am = (t - 0x100000 + 2 ^ 32) div 4096"
    using memory_init_eq(3) [OF assms(2)] by (simp only:)
  with t show ?thesis unfolding t_def [symmetric] by simp
qed

text \<open>
  C26: when the sizes of the ranges the loader lists add up to at least one megabyte,
  \<open>memory_init\<close> sets up an allocator with every page free; its pages start at one megabyte, are
  whole and aligned, and end within that sum, less than a page below it.  The sum is what
  \<open>total_mem_size\<close> computes, a 32-bit number; it is more than the memory there is when the
  loader lists a range repeatedly.  When the sum is below one megabyte the subtraction wraps:
  the allocator claims more memory than the sum.
\<close>

theorem memory_init_wf:
  assumes "memory_init m free_addr mi = (am, m')"
  shows "if MEM_KERNELFREE_START \<le> total_mem_size m mi
    then wf_alloc am \<and> used am m' = {} \<and> kernelstart am = MEM_KERNELFREE_START
      \<and> uint MEM_KERNELFREE_START + 4096 * npages am \<le> uint (total_mem_size m mi)
      \<and> uint (total_mem_size m mi) < uint MEM_KERNELFREE_START + 4096 * npages am + 4096
    else uint (total_mem_size m mi) < 4096 * npages am"
  using memory_init_pool [OF _ assms] memory_init_underflow [OF _ assms] by (simp add: not_le)

theorem memory_init_wf_witness:
  "wf_alloc (fst (memory_init (sample_map 0x8000000) 0x10000 0x5000))
   \<and> 0x9FC00 < 4096 * npages (fst (memory_init (sample_map 0x9FC00) 0x10000 0x5000))"
proof -
  obtain am m' am' m'' where i: "memory_init (sample_map 0x8000000) 0x10000 0x5000 = (am, m')"
    "memory_init (sample_map 0x9FC00) 0x10000 0x5000 = (am', m'')" by (metis surj_pair)
  show ?thesis
    using memory_init_wf [OF i(1)] memory_init_wf [OF i(2)] i
    by (simp add: sample_map_total MEM_KERNELFREE_START_def)
qed

end
