(* ===== verification/Pool_Run.thy ===== *)
theory Pool_Run
  imports Memory
begin

text \<open>
  The page allocator in use: a machine that has run \<open>memory_init\<close> takes pages for the kernel
  and for user programs, frees pages it has, and stores into pages it has, in any order.  The
  ghost list of a state holds the pages that have been handed out and not freed.
\<close>

definition page_bytes :: "u32 \<Rightarrow> u32 set" where
  "page_bytes a = {x. uint a \<le> uint x \<and> uint x < uint a + 4096}"

inductive page_step :: "pool \<times> u32 list \<Rightarrow> pool \<times> u32 list \<Rightarrow> bool" where
  kernel_page: "kalloc_page p = (p', a) \<Longrightarrow> page_step (p, hs) (p', if a = 0 then hs else a # hs)"
| user_page: "ualloc_page p = (p', a) \<Longrightarrow> page_step (p, hs) (p', if a = 0 then hs else a # hs)"
| free_page: "a \<in> set hs \<Longrightarrow> page_step (p, hs) (kfree_one a p, remove1 a hs)"
| store: "a \<in> set hs \<Longrightarrow> x \<in> page_bytes a \<Longrightarrow> page_step ((am, m), hs) ((am, m(x := v)), hs)"

inductive_cases page_stepE: "page_step (p, hs) q"

text \<open>The bitmap lies below the pages it stands for.\<close>

definition bitmap_below :: "addr_alloc_t \<Rightarrow> bool" where
  "bitmap_below am \<longleftrightarrow> uint (bm_bits (bitmap am)) + (npages am + 7) div 8 \<le> uint (kernelstart am)"

definition pool_inv :: "addr_alloc_t \<Rightarrow> pool \<times> u32 list \<Rightarrow> bool" where
  "pool_inv am = (\<lambda>(p, hs). fst p = am \<and> distinct hs \<and> 0 \<notin> set hs \<and> set hs \<subseteq> used_addrs p
     \<and> (npages am \<le> 1023 \<longrightarrow> used_addrs p = set hs))"

text \<open>Below page 1023 the kernel allocator loses no page: returning 0 it has marked none.\<close>

lemma kalloc_no_leak:
  assumes "wf_alloc (fst p)" "npages (fst p) \<le> 1023" "kalloc_page p = (p', 0)"
  shows "used_addrs p' = used_addrs p"
  using assms(1)
proof (cases rule: kalloc_cases [of _ "snd p"])
  case (page i)
  then show ?thesis using assms page_addr_nonzero [OF assms(1) page(1,3)] by (simp add: kalloc_page_def)
qed (use assms in \<open>auto simp: kalloc_page_def used_addrs_def\<close>)

lemma ualloc_no_leak:
  assumes "wf_alloc (fst p)" "ualloc_page p = (p', 0)"
  shows "used_addrs p' = used_addrs p"
  using assms(1)
proof (cases rule: ualloc_cases [of _ "snd p"])
  case (page i)
  then show ?thesis using assms page_addr_nonzero [OF assms(1), of i] by (simp add: ualloc_page_def)
qed (use assms in \<open>auto simp: ualloc_page_def used_addrs_def\<close>)

text \<open>A store into a page in use leaves the bitmap alone.\<close>

lemma store_keeps_used:
  assumes wf: "wf_alloc am" and below: "bitmap_below am" and a: "a \<in> used_addrs (am, m)" and x: "x \<in> page_bytes a"
  shows "used_addrs (am, m(x := v)) = used_addrs (am, m)"
proof -
  obtain i where i: "i \<in> used am m" "a = page_addr am i" using a by (auto simp: used_addrs_def)
  then have "uint (kernelstart am) \<le> uint x"
    using uint_page_addr [OF wf, of i] used_range [OF i(1)] x by (simp add: page_bytes_def)
  then have ge: "uint (bm_bits (bitmap am)) + (npages am + 7) div 8 \<le> uint x"
    using below by (simp add: bitmap_below_def)
  have "marked (m(x := v)) (bitmap am) j \<longleftrightarrow> marked m (bitmap am) j" if j: "0 \<le> j" "j < npages am" for j
  proof -
    have d: "0 \<le> j div 8" "j div 8 < (npages am + 7) div 8" using j by auto
    have "uint x < 2 ^ 32" using uint_bounded [of x] by simp
    then have "uint (bm_bits (bitmap am)) + j div 8 < 2 ^ 32" using ge d by linarith
    then have "uint (bm_bits (bitmap am) + word_of_int (j div 8)) = uint (bm_bits (bitmap am)) + j div 8"
      using uint_word_of_int_id [of "uint (bm_bits (bitmap am)) + j div 8"] d(1)
      by (simp del: uint_word_of_int_id)
    then have "bm_bits (bitmap am) + word_of_int (j div 8) \<noteq> x" using ge d by auto
    with j show ?thesis by (simp add: marked_bit)
  qed
  then show ?thesis by (auto simp: used_addrs_def used_def)
qed

lemma pool_inv_take:
  assumes inv: "pool_inv am (p, hs)" and am: "wf_alloc am"
    and "kalloc_page p = (p', a) \<or> ualloc_page p = (p', a)"
  shows "pool_inv am (p', if a = 0 then hs else a # hs)"
proof -
  have p: "fst p = am" "pool_ok p" using inv am by (simp_all add: pool_inv_def pool_ok_def)
  have p': "fst p' = am" using assms(3) p(1) by (auto simp: kalloc_page_def ualloc_page_def split: prod.splits)
  show ?thesis
  proof (cases "a = 0")
    case True
    then have "used_addrs p \<subseteq> used_addrs p'"
      using assms(3) kpool.take_none [OF p(2)] upool.take_none [OF p(2)] by blast
    moreover have "npages am \<le> 1023 \<Longrightarrow> used_addrs p' = used_addrs p"
      using True assms(3) kalloc_no_leak [of p p'] ualloc_no_leak [of p p'] p(1) am by auto
    ultimately show ?thesis using True inv p' by (auto simp: pool_inv_def)
  next
    case False
    then have "a \<notin> used_addrs p \<and> used_addrs p' = insert a (used_addrs p)"
      using assms(3) kpool.take_page [OF p(2)] upool.take_page [OF p(2)] by blast
    with False inv p' show ?thesis by (auto simp: pool_inv_def)
  qed
qed

lemma pool_inv_step:
  assumes am: "wf_alloc am" "bitmap_below am" and "page_step q q'" "pool_inv am q"
  shows "pool_inv am q'"
  using assms(3,4)
proof cases
  case (free_page a hs p)
  then have "pool_ok p" "a \<in> used_addrs p" using assms(4) am(1) by (auto simp: pool_inv_def pool_ok_def)
  from kpool.give_page [OF this] free_page assms(4) show ?thesis
    by (auto simp: pool_inv_def kfree_one_def)
next
  case (store a hs x am' m v)
  then have "am' = am" "a \<in> used_addrs (am, m)" using assms(4) by (auto simp: pool_inv_def)
  with store_keeps_used [OF am this(2) store(4)] store assms(4) show ?thesis by (simp add: pool_inv_def)
qed (use pool_inv_take [OF _ am(1)] assms(4) in blast)+

lemma pool_inv_run:
  assumes "(rtranclp page_step) q q'" "wf_alloc am" "bitmap_below am" "pool_inv am q"
  shows "pool_inv am q'"
  using assms by (induction rule: rtranclp_induct) (auto intro: pool_inv_step)

text \<open>Two different pages of the pool have no byte in common.\<close>

lemma page_bytes_disjoint:
  assumes "wf_alloc am" "a \<in> used_addrs (am, m)" "b \<in> used_addrs (am, m)" "a \<noteq> b"
  shows "page_bytes a \<inter> page_bytes b = {}"
proof -
  obtain i j where ij: "a = page_addr am i" "i \<in> used am m" "b = page_addr am j" "j \<in> used am m"
    using assms(2,3) by (auto simp: used_addrs_def)
  then have "uint a = uint (kernelstart am) + 4096 * i" "uint b = uint (kernelstart am) + 4096 * j" "i \<noteq> j"
    using uint_page_addr [OF assms(1)] used_range assms(4) by auto
  then show ?thesis by (auto simp: page_bytes_def)
qed

text \<open>
  C8: whatever sequence of allocations, frees of pages in hand and stores into pages in hand
  follows \<open>memory_init\<close>, no page is in hand twice, the pages in hand are marked in use and have
  no byte in common, so no two owners can write to the same memory; and on a machine whose pool
  has at most 1023 pages the allocator accounts for every page: what is marked is in hand.
\<close>

theorem page_accounting:
  assumes "MEM_KERNELFREE_START \<le> total_mem_size m mi" and "memory_init m free_addr mi = (am, m0)"
    and "bitmap_below am" and "(rtranclp page_step) ((am, m0), []) (p, hs)"
  shows "distinct hs \<and> set hs \<subseteq> used_addrs p
    \<and> (\<forall>a\<in>set hs. \<forall>b\<in>set hs. a \<noteq> b \<longrightarrow> page_bytes a \<inter> page_bytes b = {})
    \<and> (npages am \<le> 1023 \<longrightarrow> used_addrs p = set hs)"
proof -
  have wf: "wf_alloc am" and u: "used am m0 = {}"
    using memory_init_pool [OF assms(1,2)] by simp_all
  have "pool_inv am ((am, m0), [])" using u by (simp add: pool_inv_def used_addrs_def)
  from pool_inv_run [OF assms(4) wf assms(3) this] have inv: "pool_inv am (p, hs)" .
  moreover have "page_bytes a \<inter> page_bytes b = {}" if "a \<in> set hs" "b \<in> set hs" "a \<noteq> b" for a b
    using page_bytes_disjoint [OF wf, of a "snd p" b] inv that by (cases p) (auto simp: pool_inv_def)
  ultimately show ?thesis by (auto simp: pool_inv_def)
qed

text \<open>A machine with three megabytes that takes a kernel page, writes to it, and frees it.\<close>

theorem page_accounting_witness:
  "\<exists>am m0 p. memory_init (sample_map 0x300000) 0x10000 0x5000 = (am, m0)
     \<and> (rtranclp page_step) ((am, m0), []) (p, [0x100000]) \<and> used_addrs p = {0x100000}"
proof -
  obtain am m0 where i: "memory_init (sample_map 0x300000) 0x10000 0x5000 = (am, m0)" by fastforce
  have t: "MEM_KERNELFREE_START \<le> total_mem_size (sample_map 0x300000) 0x5000"
    by (simp add: sample_map_total MEM_KERNELFREE_START_def)
  have am: "wf_alloc am" "used am m0 = {}" "kernelstart am = MEM_KERNELFREE_START"
    using memory_init_pool [OF t i] by simp_all
  have n: "npages am = 512"
    using memory_init_eq(3) [OF i] by (simp add: sample_map_total MEM_KERNELFREE_START_def)
  have b: "bm_bits (bitmap am) = 0x10000"
    using i by (auto simp: memory_init_def alloc_init_def bitmap_init_def Let_def)
  have below: "bitmap_below am" by (simp add: bitmap_below_def n b am(3) MEM_KERNELFREE_START_def)
  have f: "page_addr am 0 = 0x100000" by (simp add: page_addr_def am(3) MEM_KERNELFREE_START_def)
  obtain p where p: "kalloc_page (am, m0) = (p, 0x100000)"
    using am(1)
  proof (cases rule: kalloc_cases [of _ m0])
    case (page j)
    then have "j = 0" using am(2) by (cases "j = 0") (auto dest: subsetD [of _ _ 0])
    with page f that show thesis by (simp add: kalloc_page_def)
  qed (use am(2) n in auto)
  then have "page_step ((am, m0), []) (p, [0x100000])"
    using kernel_page [of "(am, m0)" p "0x100000" "[]"] by simp
  then have "(rtranclp page_step) ((am, m0), []) (p, [0x100000])" by blast
  moreover from this have "used_addrs p = {0x100000}" using page_accounting [OF t i below] n by auto
  ultimately show ?thesis using i by blast
qed

end
