(* ===== verification/PageTable.thy ===== *)
theory PageTable
  imports Memory Log
begin

text \<open>
  Paging: \<open>source/kernel/mmu/pagetable.c\<close>.  Directories and tables are arrays of 1024
  words in memory.  The allocator works on its bitmap in the same memory, so the model
  keeps track of which bytes each step may touch.  \<open>walk\<close> is what the processor does
  with a directory.
\<close>

unbundle bit_operations_syntax

section \<open>The operations\<close>

definition PDE_P :: u32 where "PDE_P = push_bit 0 1"
definition PDE_W :: u32 where "PDE_W = push_bit 1 1"
definition PDE_U :: u32 where "PDE_U = push_bit 2 1"
definition PTE_P :: u32 where "PTE_P = push_bit 0 1"
definition PTE_W :: u32 where "PTE_W = push_bit 1 1"
definition PTE_R :: u32 where "PTE_R = push_bit 1 0"
definition PTE_U :: u32 where "PTE_U = push_bit 2 1"

lemmas pte_defs = PDE_P_def PDE_W_def PDE_U_def PTE_P_def PTE_W_def PTE_R_def PTE_U_def

definition VADDR_DIR :: "u32 \<Rightarrow> u32" where
  "VADDR_DIR vaddr = drop_bit 22 vaddr"

definition VADDR_TABLE :: "u32 \<Rightarrow> u32" where
  "VADDR_TABLE vaddr = drop_bit 12 vaddr AND 0x3FF"

text \<open>The address field of an entry, and its present bit.\<close>

definition entry_addr :: "u32 \<Rightarrow> u32" where
  "entry_addr v = push_bit 12 (drop_bit 12 v)"

definition present :: "u32 \<Rightarrow> bool" where
  "present v \<longleftrightarrow> bit v 0"

definition find_pte :: "addr_alloc_t \<Rightarrow> mem \<Rightarrow> u32 \<Rightarrow> u32 \<Rightarrow> mem \<times> u32" where
  "find_pte am m dir vaddr =
    (let pde = dir + 4 * VADDR_DIR vaddr
     in if present (ld32 m pde) then (m, entry_addr (ld32 m pde) + 4 * VADDR_TABLE vaddr)
        else case kalloc_pages am m 1 of (m, page_table_addr) \<Rightarrow>
          if page_table_addr = 0 then (m, 0)
          else
            let m = st32 m pde (page_table_addr OR PDE_P OR PDE_W OR PDE_U);
                m = kmemset m page_table_addr 0 MEM_PAGE_SIZE
            in (m, page_table_addr + 4 * VADDR_TABLE vaddr))"

text \<open>The loop of \<open>vaddr2paddr\<close>; the flag says whether every page was mapped.\<close>

fun map_loop :: "addr_alloc_t \<Rightarrow> mem \<Rightarrow> u32 \<Rightarrow> u32 \<Rightarrow> u32 \<Rightarrow> u32 \<Rightarrow> nat \<Rightarrow> mem \<times> bool" where
  "map_loop am m dir vaddr paddr perm 0 = (m, True)"
| "map_loop am m dir vaddr paddr perm (Suc n) =
    (case find_pte am m dir vaddr of (m, pte) \<Rightarrow>
      if pte = 0 then (m, False)
      else map_loop am (st32 m pte (paddr OR perm OR PTE_P)) dir
             (vaddr + MEM_PAGE_SIZE) (paddr + MEM_PAGE_SIZE) perm n)"

text \<open>On failure the error is logged; \<open>fr\<close> and \<open>msg\<close> are what the log needs.\<close>

definition vaddr2paddr :: "log_frame \<Rightarrow> u32 \<Rightarrow> addr_alloc_t \<Rightarrow> u32 \<Rightarrow> u32 \<Rightarrow> u32 \<Rightarrow> c_int \<Rightarrow> u32
    \<Rightarrow> machine \<Rightarrow> machine option" where
  "vaddr2paddr fr msg am dir vaddr paddr cnt perm s =
    (case map_loop am (ram s) dir vaddr paddr perm (nat (sint cnt)) of (m, ok) \<Rightarrow>
      if ok then Some (s\<lparr>ram := m\<rparr>) else klog_printf fr msg (\<lambda>_. 0) (s\<lparr>ram := m\<rparr>))"

text \<open>The symbols of the linker script the kernel map is built from.\<close>

record link_map =
  kernel_base :: u32
  kernel_end :: u32
  stext :: u32
  etext :: u32
  sdata :: u32

definition kernel_map :: "link_map \<Rightarrow> (u32 \<times> u32 \<times> u32 \<times> u32) list" where
  "kernel_map l =
    [(kernel_base l, kernel_end l, kernel_base l, PTE_W OR PTE_U),
     (stext l, etext l, stext l, PTE_R OR PTE_U),
     (sdata l, MEM_EBDA_START - 1, sdata l, PTE_W OR PTE_U),
     (MEM_KERNELFREE_START, MEM_KERNELFREE_END * 10, MEM_KERNELFREE_START, PTE_W OR PTE_U)]"

fun map_segments :: "log_frame \<Rightarrow> u32 \<Rightarrow> addr_alloc_t \<Rightarrow> u32 \<Rightarrow> (u32 \<times> u32 \<times> u32 \<times> u32) list
    \<Rightarrow> machine \<Rightarrow> machine option" where
  "map_segments fr msg am table [] s = Some s"
| "map_segments fr msg am table ((vs, ve, ps, perm) # segs) s =
    (let vstart = DOWN2 vs MEM_PAGE_SIZE;
         vend = UP2 ve MEM_PAGE_SIZE;
         npage = c_div (vend - vstart) MEM_PAGE_SIZE
     in Option.bind (vaddr2paddr fr msg am table vstart ps npage perm s)
          (map_segments fr msg am table segs))"

definition create_kernel_table :: "log_frame \<Rightarrow> u32 \<Rightarrow> addr_alloc_t \<Rightarrow> link_map \<Rightarrow> u32
    \<Rightarrow> machine \<Rightarrow> machine option" where
  "create_kernel_table fr msg am l kernel_table s =
    (let s = s\<lparr>ram := kmemset (ram s) kernel_table 0 4096\<rparr>
     in case map_segments fr msg am kernel_table (kernel_map l) s of None \<Rightarrow> None
        | Some s \<Rightarrow> let s = wcr3 kernel_table s in Some (wcr0 (rcr0 s OR CR0_PG) s))"

definition pagetable_init :: "log_frame \<Rightarrow> u32 \<Rightarrow> addr_alloc_t \<Rightarrow> link_map \<Rightarrow> u32
    \<Rightarrow> machine \<Rightarrow> machine option" where
  "pagetable_init fr msg am l kernel_table s = create_kernel_table fr msg am l kernel_table s"

text \<open>The directory is not checked for 0: then the first page of memory is used.\<close>

definition create_page_table :: "addr_alloc_t \<Rightarrow> mem \<Rightarrow> u32 \<Rightarrow> mem \<times> u32" where
  "create_page_table am m kernel_table =
    (case ualloc_pages am m 1 of (m, dir) \<Rightarrow>
      let m = kmemset m dir 0 MEM_PAGE_SIZE;
          user_pde_start = VADDR_DIR MEM_KERNELFREE_END;
          m = fold (\<lambda>i m. st32 m (dir + 4 * of_nat i) (ld32 m (kernel_table + 4 * of_nat i)))
                [0..<Suc (unat user_pde_start)] m
      in (m, dir))"

definition free_table :: "addr_alloc_t \<Rightarrow> mem \<Rightarrow> u32 \<Rightarrow> mem" where
  "free_table am m table =
    fold (\<lambda>j m. let pte = ld32 m (table + 4 * of_nat j)
                in if present pte then kfree_pages am m (entry_addr pte) 1 else m) [0..<1024] m"

definition free_entry :: "addr_alloc_t \<Rightarrow> u32 \<Rightarrow> nat \<Rightarrow> mem \<Rightarrow> mem" where
  "free_entry am dir i m =
    (let pde = ld32 m (dir + 4 * of_nat i)
     in if present pde then kfree_pages am (free_table am m (entry_addr pde)) (entry_addr pde) 1 else m)"

definition pagetable_destroy :: "addr_alloc_t \<Rightarrow> mem \<Rightarrow> u32 \<Rightarrow> mem" where
  "pagetable_destroy am m dir =
    (let user_pde_start = VADDR_DIR MEM_KERNELFREE_END;
         m = fold (free_entry am dir) [unat user_pde_start..<1024] m
     in kfree_pages am m dir 1)"

text \<open>
  \<open>PTE_ADDR\<close> is applied to the entry \<open>find_pte\<close> points to, which may be the word at
  address 0 when no table could be allocated.
\<close>

definition get_v2p :: "addr_alloc_t \<Rightarrow> mem \<Rightarrow> u32 \<Rightarrow> u32 \<Rightarrow> mem \<times> u32" where
  "get_v2p am m dir vaddr =
    (case find_pte am m dir vaddr of (m, pte) \<Rightarrow>
      (m, entry_addr (ld32 m pte) + (vaddr AND 0xFFF)))"

section \<open>What the processor does\<close>

definition walk :: "mem \<Rightarrow> u32 \<Rightarrow> u32 \<Rightarrow> u32 option" where
  "walk m dir va =
    (let pde = ld32 m (dir + 4 * VADDR_DIR va)
     in if present pde then
          let pte = ld32 m (entry_addr pde + 4 * VADDR_TABLE va)
          in if present pte then Some (entry_addr pte OR (va AND 0xFFF)) else None
        else None)"

text \<open>
  \<open>copy_pagetable\<close> copies page contents at virtual addresses, through the directory
  \<open>cr3\<close> holds; every other access of this file is to pages the kernel maps to
  themselves.  \<open>None\<close> is a page fault.  The permissions are read again after the
  allocation.
\<close>

definition copy_page :: "u32 \<Rightarrow> u32 \<Rightarrow> machine \<Rightarrow> machine option" where
  "copy_page page vaddr s =
    (case walk (ram s) (cr3 s) page of None \<Rightarrow> None
     | Some dest \<Rightarrow> (case walk (ram s) (cr3 s) vaddr of None \<Rightarrow> None
     | Some src \<Rightarrow> Some (s\<lparr>ram := kmemcpy (ram s) dest src MEM_PAGE_SIZE\<rparr>)))"

fun copy_ptes :: "log_frame \<Rightarrow> u32 \<Rightarrow> addr_alloc_t \<Rightarrow> u32 \<Rightarrow> u32 \<Rightarrow> nat \<Rightarrow> nat list \<Rightarrow> machine
    \<Rightarrow> machine option" where
  "copy_ptes fr msg am to_page_dir table i [] s = Some s"
| "copy_ptes fr msg am to_page_dir table i (j # js) s =
    (let pte = table + 4 * of_nat j
     in if \<not> present (ld32 (ram s) pte) then copy_ptes fr msg am to_page_dir table i js s
        else case ualloc_pages am (ram s) 1 of (m, page) \<Rightarrow>
          let vaddr = push_bit 22 (of_nat i) OR push_bit 12 (of_nat j)
          in Option.bind
               (vaddr2paddr fr msg am to_page_dir vaddr page 1 (ld32 m pte AND 0x1FF) (s\<lparr>ram := m\<rparr>))
               (\<lambda>s. Option.bind (copy_page page vaddr s) (copy_ptes fr msg am to_page_dir table i js)))"

fun copy_pdes :: "log_frame \<Rightarrow> u32 \<Rightarrow> addr_alloc_t \<Rightarrow> u32 \<Rightarrow> u32 \<Rightarrow> nat list \<Rightarrow> machine
    \<Rightarrow> machine option" where
  "copy_pdes fr msg am to_page_dir dir [] s = Some s"
| "copy_pdes fr msg am to_page_dir dir (i # is) s =
    (let pde = ld32 (ram s) (dir + 4 * of_nat i)
     in if \<not> present pde then copy_pdes fr msg am to_page_dir dir is s
        else Option.bind (copy_ptes fr msg am to_page_dir (entry_addr pde) i [0..<1024] s)
               (copy_pdes fr msg am to_page_dir dir is))"

definition copy_pagetable :: "log_frame \<Rightarrow> u32 \<Rightarrow> addr_alloc_t \<Rightarrow> u32 \<Rightarrow> u32 \<Rightarrow> machine
    \<Rightarrow> (machine \<times> u32) option" where
  "copy_pagetable fr msg am kernel_table dir s =
    (case create_page_table am (ram s) kernel_table of (m, to_page_dir) \<Rightarrow>
      map_option (\<lambda>s. (s, to_page_dir))
        (copy_pdes fr msg am to_page_dir dir [unat (VADDR_DIR MEM_KERNELFREE_END)..<1024]
           (s\<lparr>ram := m\<rparr>)))"

section \<open>Pages of memory\<close>

definition page_of :: "u32 \<Rightarrow> nat" where
  "page_of x = unat x div 4096"

definition page_aligned :: "u32 \<Rightarrow> bool" where
  "page_aligned p \<longleftrightarrow> 4096 dvd unat p"

lemma unat_in_page:
  assumes "page_aligned p" "k < 4096"
  shows "unat (p + of_nat k) = unat p + k"
proof -
  have "unat p < 2 ^ 32" using unsigned_less [where 'a = nat, of p] by simp
  with assms have "unat p + k < 2 ^ 32" unfolding page_aligned_def by (elim dvdE) simp
  with assms(2) show ?thesis by (simp add: unat_word_ariths unat_of_nat_word)
qed

lemma page_of_in_page: "page_aligned p \<Longrightarrow> k < 4096 \<Longrightarrow> page_of (p + of_nat k) = page_of p"
  by (auto simp: page_of_def unat_in_page page_aligned_def elim!: dvdE)

lemma page_of_eq: "page_aligned p \<Longrightarrow> page_aligned q \<Longrightarrow> page_of p = page_of q \<longleftrightarrow> p = q"
  unfolding page_of_def page_aligned_def
  by (metis dvd_div_mult_self word_eq_iff_unsigned [where 'a = nat])

lemma in_region_page: "page_aligned p \<Longrightarrow> x \<in> region p 4096 \<Longrightarrow> page_of x = page_of p"
  by (auto simp: region_def page_of_in_page)

text \<open>The words of a table.\<close>

lemma word_bytes_page:
  assumes "page_aligned p" "t < 1024" "x \<in> word_bytes (p + 4 * of_nat t)"
  shows "page_of x = page_of p"
proof -
  have "x = p + of_nat (4 * t + 0) \<or> x = p + of_nat (4 * t + 1) \<or> x = p + of_nat (4 * t + 2)
      \<or> x = p + of_nat (4 * t + 3)"
    using assms(3) by (auto simp: word_bytes_def add.assoc)
  then have "\<exists>j<4. x = p + of_nat (4 * t + j)"
    by (elim disjE) (rule exI, rule conjI [rotated], assumption, simp)+
  then obtain j where "j < 4" "x = p + of_nat (4 * t + j)" by blast
  with assms(1,2) show ?thesis by (simp only:) (rule page_of_in_page; simp)
qed

lemma aligned4_table: "page_aligned p \<Longrightarrow> aligned4 (p + 4 * of_nat t)"
proof -
  assume "page_aligned p"
  then have "aligned4 p" by (auto simp: page_aligned_def aligned4_def elim!: dvdE)
  moreover have "aligned4 (4 * of_nat t :: u32)"
    by (simp add: aligned4_def unat_word_ariths dvd_mod_iff)
  ultimately show ?thesis by (rule aligned4_add)
qed

lemma table_words_inj:
  assumes "t < 1024" "t' < 1024"
  shows "p + 4 * of_nat t = p + (4 * of_nat t' :: u32) \<longleftrightarrow> t = t'"
proof
  assume "p + 4 * of_nat t = p + (4 * of_nat t' :: u32)"
  then have "p + of_nat (4 * t) = p + (of_nat (4 * t') :: u32)" by simp
  from offset_inj [OF this] assms show "t = t'" by simp
qed simp

section \<open>Address spaces\<close>

definition pde :: "mem \<Rightarrow> u32 \<Rightarrow> nat \<Rightarrow> u32" where
  "pde m dir d = ld32 m (dir + 4 * of_nat d)"

text \<open>The entry that counts for directory index \<open>d\<close> and table index \<open>t\<close>; 0 when absent.\<close>

definition mapped :: "mem \<Rightarrow> u32 \<Rightarrow> nat \<Rightarrow> nat \<Rightarrow> u32" where
  "mapped m dir d t =
    (if present (pde m dir d) then
       let v = ld32 m (entry_addr (pde m dir d) + 4 * of_nat t) in if present v then v else 0
     else 0)"

text \<open>
  The bitmap does not lie in the directory or in a page of the pool; the directory is not
  a free page; every table in use is an allocated page of its own, not the directory.
\<close>

definition bitmap_apart :: "addr_alloc_t \<Rightarrow> u32 \<Rightarrow> bool" where
  "bitmap_apart am dir \<longleftrightarrow> (\<forall>x\<in>bit_bytes (bitmap am) (npages am). page_of x \<noteq> page_of dir
     \<and> (\<forall>i. 0 \<le> i \<and> i < npages am \<longrightarrow> page_of x \<noteq> page_of (page_addr am i)))"

definition tables_ok :: "addr_alloc_t \<Rightarrow> mem \<Rightarrow> u32 \<Rightarrow> bool" where
  "tables_ok am m dir \<longleftrightarrow>
     (\<forall>d<1024. present (pde m dir d) \<longrightarrow>
        (\<exists>i\<in>used am m. entry_addr (pde m dir d) = page_addr am i) \<and> entry_addr (pde m dir d) \<noteq> dir)
   \<and> (\<forall>d<1024. \<forall>d'<1024. present (pde m dir d) \<and> present (pde m dir d') \<and> d \<noteq> d' \<longrightarrow>
        entry_addr (pde m dir d) \<noteq> entry_addr (pde m dir d'))"

definition space_ok :: "addr_alloc_t \<Rightarrow> mem \<Rightarrow> u32 \<Rightarrow> bool" where
  "space_ok am m dir \<longleftrightarrow> wf_alloc am \<and> page_aligned dir \<and> bitmap_apart am dir
     \<and> (\<forall>i. 0 \<le> i \<and> i < npages am \<and> i \<notin> used am m \<longrightarrow> page_addr am i \<noteq> dir)
     \<and> tables_ok am m dir"

lemma page_addr_aligned:
  assumes "wf_alloc am" "0 \<le> i" "i < npages am"
  shows "page_aligned (page_addr am i)"
proof -
  have "4096 dvd uint (page_addr am i)"
    unfolding uint_page_addr [OF assms] using assms(1) by (simp add: wf_alloc_def)
  then have "int 4096 dvd int (unat (page_addr am i))" by simp
  then show ?thesis unfolding page_aligned_def by (simp only: int_dvd_int_iff)
qed

lemma low_flags: "(f :: u32) < 0x1000 \<longleftrightarrow> take_bit 12 f = f"
proof -
  have "f < 0x1000 \<longleftrightarrow> take_bit 12 (unat f) = unat f"
    by (simp add: word_less_nat_alt take_bit_nat_eq_self_iff)
  also have "\<dots> \<longleftrightarrow> unat (take_bit 12 f) = unat f" by (simp only: unsigned_take_bit_eq)
  finally show ?thesis by (simp only: word_eq_iff_unsigned [where 'a = nat, symmetric])
qed

lemma entry_addr_or:
  assumes "page_aligned p" "f < 0x1000"
  shows "entry_addr (p OR f) = p"
proof -
  have "unat p mod 4096 = 0" using assms(1) by (simp add: page_aligned_def dvd_eq_mod_eq_0)
  then have "unat (take_bit 12 p) = 0" by (simp only: unsigned_take_bit_eq) (simp add: take_bit_eq_mod)
  then have "take_bit 12 p = 0" by (simp only: unsigned_0 word_eq_iff_unsigned [where 'a = nat])
  then have p: "12 \<le> n" if "bit p n" for n
    using that by (metis bit_0_eq bit_take_bit_iff bot_apply bot_bool_def not_less)
  have "take_bit 12 f = f" using assms(2) by (simp only: low_flags)
  then have f: "\<not> bit f n" if "12 \<le> n" for n
    using that by (metis bit_take_bit_iff not_less)
  show ?thesis
  proof (rule bit_word_eqI)
    fix n assume "n < LENGTH(32)"
    then show "bit (entry_addr (p OR f)) n = bit p n"
      using p [of n] f [of n] by (cases "12 \<le> n") (auto simp: entry_addr_def bit_simps)
  qed
qed

section \<open>What stays the same\<close>

definition pool_bits :: "addr_alloc_t \<Rightarrow> u32 set" where
  "pool_bits am = bit_bytes (bitmap am) (npages am)"

lemma used_cong:
  assumes "\<And>x. x \<in> pool_bits am \<Longrightarrow> m' x = m x"
  shows "used am m' = used am m"
proof -
  have "marked m' (bitmap am) i = marked m (bitmap am) i" if "0 \<le> i" "i < npages am" for i
    using assms bit_bytes_mem [OF that, of "bitmap am"] that(1)
    by (simp add: marked_bit pool_bits_def)
  then show ?thesis by (auto simp: used_def)
qed

lemma bit_bytes_mono: "n \<le> k \<Longrightarrow> bit_bytes b n \<subseteq> bit_bytes b k"
  unfolding bit_bytes_def by (intro region_mono nat_mono zdiv_mono1) simp_all

lemma alloc_bit_frame:
  assumes "wf_alloc am" "0 \<le> i" "i < npages am"
  shows "same_outside (pool_bits am) m (bitmap_set_bit m (bitmap am) (word_of_int i) 1 v)"
proof -
  have i: "sint (word_of_int i :: c_int) = i" "i + 1 < 2 ^ 31"
    using wf_npages [OF assms(1)] assms(2,3) by (auto intro: sint_word_of_int_id)
  have "same_outside (bit_bytes (bitmap am) (i + 1)) m (bitmap_set_bit m (bitmap am) (word_of_int i) 1 v)"
    using bitmap_set_bit_frame [of "word_of_int i" 1 "bitmap am" m v] i assms(2) by simp
  then show ?thesis
    unfolding pool_bits_def by (rule same_outside_mono) (intro bit_bytes_mono, use assms(3) in simp)
qed

text \<open>A word of a table is unchanged when every changed byte lies in other pages.\<close>

lemma table_word_cong:
  assumes "page_aligned p" "t < 1024" "\<And>x. page_of x = page_of p \<Longrightarrow> m' x = m x"
  shows "ld32 m' (p + 4 * of_nat t) = ld32 m (p + 4 * of_nat t)"
  using assms word_bytes_page by (intro ld32_cong) blast

lemma table_word_store:
  assumes "page_aligned p" "t < 1024" "page_aligned q" "u < 1024"
  shows "ld32 (st32 m (p + 4 * of_nat t) v) (q + 4 * of_nat u)
    = (if p = q \<and> t = u then v else ld32 m (q + 4 * of_nat u))"
proof (cases "p = q")
  case True
  show ?thesis
  proof (cases "t = u")
    case False
    then have "p + 4 * of_nat t \<noteq> q + 4 * of_nat u" using True table_words_inj assms(2,4) by blast
    with False show ?thesis using aligned4_table assms(1,3) by (simp add: ld32_st32_other)
  qed (simp add: True ld32_st32)
next
  case False
  have "ld32 (st32 m (p + 4 * of_nat t) v) (q + 4 * of_nat u) = ld32 m (q + 4 * of_nat u)"
  proof (rule table_word_cong [OF assms(3,4)])
    fix x assume "page_of x = page_of q"
    with False page_of_eq [OF assms(1,3)] word_bytes_page [OF assms(1,2)]
    have "x \<notin> word_bytes (p + 4 * of_nat t)" by metis
    then show "st32 m (p + 4 * of_nat t) v x = m x" by (rule st32_other_byte)
  qed
  with False show ?thesis by simp
qed

lemma ld32_zero: "(\<And>x. x \<in> word_bytes a \<Longrightarrow> m x = 0) \<Longrightarrow> ld32 m a = 0"
  by (simp add: ld32_def word_bytes_def)

section \<open>Storing a page table entry\<close>

lemma table_page:
  assumes "space_ok am m dir" "d < 1024" "present (pde m dir d)"
  obtains i where "i \<in> used am m" "entry_addr (pde m dir d) = page_addr am i"
    "page_aligned (entry_addr (pde m dir d))" "entry_addr (pde m dir d) \<noteq> dir"
proof -
  from assms obtain i where i: "i \<in> used am m" "entry_addr (pde m dir d) = page_addr am i"
      "entry_addr (pde m dir d) \<noteq> dir"
    by (auto simp: space_ok_def tables_ok_def)
  moreover have "page_aligned (page_addr am i)"
    using assms(1) used_range [OF i(1)] by (intro page_addr_aligned) (auto simp: space_ok_def)
  ultimately show thesis using that by simp
qed

lemma bits_not_in_page:
  assumes "space_ok am m dir" "x \<in> pool_bits am" "p = dir \<or> (\<exists>i. 0 \<le> i \<and> i < npages am \<and> p = page_addr am i)"
  shows "page_of x \<noteq> page_of p"
  using assms by (auto simp: space_ok_def bitmap_apart_def pool_bits_def)

lemma store_pte:
  fixes v :: u32
  assumes ok: "space_ok am m dir" and d: "d < 1024" "present (pde m dir d)" and t: "t < 1024"
  defines "m' \<equiv> st32 m (entry_addr (pde m dir d) + 4 * of_nat t) v"
  shows "space_ok am m' dir" and "used am m' = used am m"
    and "d' < 1024 \<Longrightarrow> pde m' dir d' = pde m dir d'"
    and "d' < 1024 \<Longrightarrow> t' < 1024 \<Longrightarrow> mapped m' dir d' t'
      = (if d' = d \<and> t' = t then (if present v then v else 0) else mapped m dir d' t')"
proof -
  obtain i where i: "i \<in> used am m" "entry_addr (pde m dir d) = page_addr am i"
    "page_aligned (entry_addr (pde m dir d))" "entry_addr (pde m dir d) \<noteq> dir"
    using table_page [OF ok d] .
  have dir: "page_aligned dir" using ok by (simp add: space_ok_def)
  show p: "d' < 1024 \<Longrightarrow> pde m' dir d' = pde m dir d'" for d'
    using table_word_store [OF i(3) t dir] i(4) by (simp add: pde_def m'_def)
  have "m' x = m x" if "x \<in> pool_bits am" for x
  proof -
    have "page_of x \<noteq> page_of (entry_addr (pde m dir d))"
      using bits_not_in_page [OF ok that] used_range [OF i(1)] i(2) by auto
    then have "x \<notin> word_bytes (entry_addr (pde m dir d) + 4 * of_nat t)"
      using word_bytes_page [OF i(3) t] by blast
    then show ?thesis unfolding m'_def by (rule st32_other_byte)
  qed
  then show u: "used am m' = used am m" by (rule used_cong)
  show "space_ok am m' dir"
    using ok p by (simp add: space_ok_def tables_ok_def u)
  assume d': "d' < 1024" and t': "t' < 1024"
  show "mapped m' dir d' t' = (if d' = d \<and> t' = t then (if present v then v else 0) else mapped m dir d' t')"
  proof (cases "present (pde m dir d')")
    case True
    have al: "page_aligned (entry_addr (pde m dir d'))" using table_page [OF ok d' True] by metis
    have "entry_addr (pde m dir d) = entry_addr (pde m dir d') \<longleftrightarrow> d = d'"
      using ok d d' True by (auto simp: space_ok_def tables_ok_def)
    with True show ?thesis
      using table_word_store [OF i(3) t al t', of m v] p [OF d']
      by (auto simp: mapped_def Let_def m'_def)
  next
    case False
    with d(2) p [OF d'] show ?thesis by (auto simp: mapped_def)
  qed
qed

section \<open>Looking up an entry\<close>

lemma page_in_region:
  assumes "page_aligned p" "page_of x = page_of p"
  shows "x \<in> region p 4096"
proof -
  obtain q where q: "unat p = 4096 * q" using assms(1) by (auto simp: page_aligned_def)
  then have "unat x div 4096 = q" using assms(2) by (simp add: page_of_def)
  then have x: "unat x = unat p + unat x mod 4096" using q div_mult_mod_eq [of "unat x" 4096] by simp
  then have "unat x = unat (p + of_nat (unat x mod 4096))"
    using unat_in_page [OF assms(1), of "unat x mod 4096"] by simp
  then have "x = p + of_nat (unat x mod 4096)" by (rule word_eq_iff_unsigned [THEN iffD2])
  then show ?thesis unfolding region_def by (intro image_eqI [of _ _ "unat x mod 4096"]) simp_all
qed

lemma pt_index_less: "unat (VADDR_DIR va) < 1024" "unat (VADDR_TABLE va) < 1024"
proof -
  have "unat va < 2 ^ 32" using unsigned_less [where 'a = nat, of va] by simp
  then show "unat (VADDR_DIR va) < 1024" by (simp add: VADDR_DIR_def drop_bit_eq_div unat_div)
  have "(0x3FF :: u32) = mask 10" by (simp add: mask_eq_exp_minus_1)
  then have "VADDR_TABLE va = take_bit 10 (drop_bit 12 va)" by (simp add: VADDR_TABLE_def take_bit_eq_mask)
  then show "unat (VADDR_TABLE va) < 1024" by (simp only: unsigned_take_bit_eq) (simp add: take_bit_eq_mod)
qed

lemma entry_flags: "(p OR PDE_P OR PDE_W OR PDE_U) = p OR 7"
  by (simp add: pte_defs or.assoc)

lemma present_flags: "present (p OR 7)"
  by (simp add: present_def bit_simps)

text \<open>Putting a fresh, cleared page of the pool into an absent directory entry.\<close>

lemma new_table:
  assumes ok: "space_ok am m dir" and d: "d < 1024" "\<not> present (pde m dir d)"
    and i: "0 \<le> i" "i < npages am" "i \<notin> used am m"
    and m1: "same_outside (pool_bits am) m m1" "used am m1 = insert i (used am m)"
    and m': "m' = kmemset (st32 m1 (dir + 4 * of_nat d) (page_addr am i OR 7)) (page_addr am i) 0 MEM_PAGE_SIZE"
  shows "space_ok am m' dir" and "pde m' dir d = page_addr am i OR 7"
    and "used am m' = insert i (used am m)"
    and "d' < 1024 \<Longrightarrow> d' \<noteq> d \<Longrightarrow> pde m' dir d' = pde m dir d'"
    and "d' < 1024 \<Longrightarrow> t < 1024 \<Longrightarrow> mapped m' dir d' t = mapped m dir d' t"
proof -
  let ?a = "page_addr am i"
  have wf: "wf_alloc am" and dir: "page_aligned dir" and ne: "?a \<noteq> dir"
    and tab: "tables_ok am m dir" and apart: "bitmap_apart am dir"
    using ok i by (auto simp: space_ok_def)
  have a: "page_aligned ?a" using page_addr_aligned [OF wf i(1,2)] .
  have pg: "page_of ?a \<noteq> page_of dir" using page_of_eq [OF a dir] ne by simp
  have sz: "nat (sint MEM_PAGE_SIZE) = 4096" "0 \<le> sint MEM_PAGE_SIZE" by (simp_all add: MEM_PAGE_SIZE_def)
  have keep: "m' x = m x" if "x \<notin> pool_bits am" "page_of x \<noteq> page_of dir" "page_of x \<noteq> page_of ?a" for x
  proof -
    have "x \<notin> region ?a 4096" using in_region_page [OF a] that(3) by blast
    moreover have "x \<notin> word_bytes (dir + 4 * of_nat d)" using word_bytes_page [OF dir d(1)] that(2) by blast
    ultimately show ?thesis
      using m1(1) that(1) by (simp add: m' kmemset_eq sz st32_other_byte same_outside_def)
  qed
  have zero: "m' x = 0" if "page_of x = page_of ?a" for x
    using page_in_region [OF a that] by (simp add: m' kmemset_eq sz)
  have dirword: "pde m' dir e = (if e = d then ?a OR 7 else pde m dir e)" if "e < 1024" for e
  proof -
    have "pde m' dir e = ld32 (st32 m1 (dir + 4 * of_nat d) (?a OR 7)) (dir + 4 * of_nat e)"
      unfolding pde_def
    proof (rule table_word_cong [OF dir that])
      fix x assume "page_of x = page_of dir"
      then have "x \<notin> region ?a 4096" using in_region_page [OF a] pg by metis
      then show "m' x = st32 m1 (dir + 4 * of_nat d) (?a OR 7) x" by (simp add: m' kmemset_eq sz)
    qed
    also have "\<dots> = (if e = d then ?a OR 7 else ld32 m1 (dir + 4 * of_nat e))"
      using table_word_store [OF dir d(1) dir that] by simp
    also have "ld32 m1 (dir + 4 * of_nat e) = pde m dir e"
      unfolding pde_def
    proof (rule table_word_cong [OF dir that])
      fix x assume "page_of x = page_of dir"
      then have "x \<notin> pool_bits am" using apart by (auto simp: bitmap_apart_def pool_bits_def)
      with m1(1) show "m1 x = m x" by (simp add: same_outside_def)
    qed
    finally show ?thesis .
  qed
  show "pde m' dir d = ?a OR 7" using dirword [OF d(1)] by simp
  show "d' < 1024 \<Longrightarrow> d' \<noteq> d \<Longrightarrow> pde m' dir d' = pde m dir d'" using dirword [of d'] by simp
  have ea: "entry_addr (?a OR 7) = ?a" using entry_addr_or [OF a] by simp
  have "used am m' = used am m1"
  proof (rule used_cong)
    fix x assume "x \<in> pool_bits am"
    then have x: "page_of x \<noteq> page_of dir" "page_of x \<noteq> page_of ?a"
      using apart i by (auto simp: bitmap_apart_def pool_bits_def)
    then have "x \<notin> region ?a 4096" "x \<notin> word_bytes (dir + 4 * of_nat d)"
      using in_region_page [OF a] word_bytes_page [OF dir d(1)] by blast+
    then show "m' x = m1 x" by (simp add: m' kmemset_eq sz st32_other_byte)
  qed
  then show u: "used am m' = insert i (used am m)" using m1(2) by simp
  have fresh: "entry_addr (pde m dir e) \<noteq> ?a" if e: "e < 1024" "present (pde m dir e)" for e
  proof
    obtain j where j: "j \<in> used am m" "entry_addr (pde m dir e) = page_addr am j"
      using table_page [OF ok e] .
    assume "entry_addr (pde m dir e) = ?a"
    with j(2) have "j = i" using page_addr_inj [OF wf _ _ i(1,2)] used_range [OF j(1)] by auto
    with j(1) i(3) show False by simp
  qed
  have "tables_ok am m' dir"
    unfolding tables_ok_def u
  proof (intro conjI allI impI; (elim conjE)?)
    fix e :: nat assume e: "e < 1024" "present (pde m' dir e)"
    show "\<exists>j\<in>insert i (used am m). entry_addr (pde m' dir e) = page_addr am j"
      "entry_addr (pde m' dir e) \<noteq> dir"
      using e tab ea ne dirword [OF e(1)] by (auto simp: tables_ok_def split: if_splits)
  next
    fix e e' :: nat assume "e < 1024" "e' < 1024" "present (pde m' dir e)" "present (pde m' dir e')" "e \<noteq> e'"
    then show "entry_addr (pde m' dir e) \<noteq> entry_addr (pde m' dir e')"
      using tab ea fresh [of e] fresh [of e'] dirword [of e] dirword [of e']
      by (auto simp: tables_ok_def split: if_splits)
  qed
  then show "space_ok am m' dir" using ok by (simp add: space_ok_def u)
  show "mapped m' dir d' t = mapped m dir d' t" if d': "d' < 1024" and t: "t < 1024"
  proof (cases "d' = d")
    case True
    have "ld32 m' (?a + 4 * of_nat t) = 0"
      using word_bytes_page [OF a t] zero by (intro ld32_zero) blast
    with True d(2) show ?thesis
      using dirword [OF d(1)] ea by (simp add: mapped_def present_def)
  next
    case False
    then have p: "pde m' dir d' = pde m dir d'" using dirword [OF d'] by simp
    show ?thesis
    proof (cases "present (pde m dir d')")
      case True
      obtain j where j: "j \<in> used am m" "entry_addr (pde m dir d') = page_addr am j"
        "page_aligned (entry_addr (pde m dir d'))" "entry_addr (pde m dir d') \<noteq> dir"
        using table_page [OF ok d' True] .
      have "ld32 m' (entry_addr (pde m dir d') + 4 * of_nat t) = ld32 m (entry_addr (pde m dir d') + 4 * of_nat t)"
      proof (rule table_word_cong [OF j(3) t])
        fix x assume x: "page_of x = page_of (entry_addr (pde m dir d'))"
        have "x \<notin> pool_bits am"
          using bits_not_in_page [OF ok] used_range [OF j(1)] j(2) x by metis
        moreover have "page_of x \<noteq> page_of dir" "page_of x \<noteq> page_of ?a"
          using page_of_eq [OF j(3) dir] page_of_eq [OF j(3) a] j(4) fresh [OF d' True] x by auto
        ultimately show "m' x = m x" by (rule keep)
      qed
      then show ?thesis by (simp add: mapped_def p)
    qed (simp add: mapped_def p)
  qed
qed

text \<open>Bits of the pool that only gain marks leave every address space as it is.\<close>

lemma bits_only:
  assumes ok: "space_ok am m dir" and m1: "same_outside (pool_bits am) m m1" "used am m \<subseteq> used am m1"
  shows "space_ok am m1 dir" and "d < 1024 \<Longrightarrow> pde m1 dir d = pde m dir d"
    and "d < 1024 \<Longrightarrow> t < 1024 \<Longrightarrow> mapped m1 dir d t = mapped m dir d t"
proof -
  have dir: "page_aligned dir" using ok by (simp add: space_ok_def)
  show p: "pde m1 dir d = pde m dir d" if "d < 1024" for d
    unfolding pde_def
  proof (rule table_word_cong [OF dir that])
    fix x assume "page_of x = page_of dir"
    then have "x \<notin> pool_bits am" using bits_not_in_page [OF ok, of x dir] by blast
    with m1(1) show "m1 x = m x" by (simp add: same_outside_def)
  qed
  show "space_ok am m1 dir"
    using ok m1(2) p unfolding space_ok_def tables_ok_def by (simp add: subset_iff Bex_def) blast
  show "mapped m1 dir d t = mapped m dir d t" if d: "d < 1024" and t: "t < 1024"
  proof (cases "present (pde m dir d)")
    case True
    obtain i where i: "i \<in> used am m" "entry_addr (pde m dir d) = page_addr am i"
      "page_aligned (entry_addr (pde m dir d))"
      using table_page [OF ok d True] .
    have "ld32 m1 (entry_addr (pde m dir d) + 4 * of_nat t) = ld32 m (entry_addr (pde m dir d) + 4 * of_nat t)"
    proof (rule table_word_cong [OF i(3) t])
      fix x assume "page_of x = page_of (entry_addr (pde m dir d))"
      then have "x \<notin> pool_bits am" using bits_not_in_page [OF ok, of x] used_range [OF i(1)] i(2) by metis
      with m1(1) show "m1 x = m x" by (simp add: same_outside_def)
    qed
    then show ?thesis by (simp add: mapped_def p [OF d])
  qed (simp add: mapped_def p [OF d])
qed

text \<open>The bytes paging may write to: the bitmap, the directory and the pages of the pool.\<close>

definition space_bytes :: "addr_alloc_t \<Rightarrow> u32 \<Rightarrow> u32 set" where
  "space_bytes am dir = {x. x \<in> pool_bits am \<or> page_of x = page_of dir
     \<or> (\<exists>i. 0 \<le> i \<and> i < npages am \<and> page_of x = page_of (page_addr am i))}"

text \<open>
  The three outcomes of \<open>find_pte\<close>: the table is there; it is a page taken from the
  allocator; or no kernel page below number 1023 is free, and 0 is returned.
\<close>

lemma find_pte_cases:
  assumes ok: "space_ok am m dir" and run: "find_pte am m dir va = (m', p)"
    and d: "d = unat (VADDR_DIR va)" and t: "t = unat (VADDR_TABLE va)"
  obtains (hit) "present (pde m dir d)" "m' = m" "p = entry_addr (pde m dir d) + 4 * of_nat t" "p \<noteq> 0"
    | (fresh) i where "\<not> present (pde m dir d)" "i \<notin> used am m" "space_ok am m' dir"
        "present (pde m' dir d)" "bit (pde m' dir d) 2" "p = entry_addr (pde m' dir d) + 4 * of_nat t" "p \<noteq> 0"
        "used am m' = insert i (used am m)"
        "\<forall>d'<1024. d' \<noteq> d \<longrightarrow> pde m' dir d' = pde m dir d'"
        "\<forall>d'<1024. \<forall>t'<1024. mapped m' dir d' t' = mapped m dir d' t'"
        "same_outside (space_bytes am dir) m m'"
    | (none) "\<not> present (pde m dir d)" "p = 0" "same_outside (pool_bits am) m m'"
        "used am m \<subseteq> used am m'" "\<exists>i. used am m' \<subseteq> insert i (used am m)"
        "{0..<min 1023 (npages am)} \<subseteq> used am m"
proof -
  have idx: "4 * VADDR_DIR va = 4 * of_nat d" "4 * VADDR_TABLE va = 4 * of_nat t" by (simp_all add: d t)
  have dt: "d < 1024" "t < 1024" unfolding d t by (rule pt_index_less)+
  have wf: "wf_alloc am" using ok by (simp add: space_ok_def)
  have nz: "q + 4 * of_nat t \<noteq> 0" if q: "page_aligned q" "q \<noteq> 0" for q :: u32
  proof
    assume "q + 4 * of_nat t = 0"
    then have "unat (q + of_nat (4 * t)) = 0" by simp
    then show False using unat_in_page [OF q(1), of "4 * t"] dt(2) q(2) by (simp add: unat_eq_0)
  qed
  show thesis
  proof (cases "present (pde m dir d)")
    case True
    obtain i where i: "i \<in> used am m" "entry_addr (pde m dir d) = page_addr am i"
      "page_aligned (entry_addr (pde m dir d))"
      using table_page [OF ok dt(1) True] .
    have "page_addr am i \<noteq> 0" using page_addr_nonzero [OF wf] used_range [OF i(1)] by blast
    with i have "entry_addr (pde m dir d) + 4 * of_nat t \<noteq> 0" by (intro nz) auto
    moreover have "m' = m" "p = entry_addr (pde m dir d) + 4 * of_nat t"
      using run True by (auto simp: find_pte_def idx pde_def)
    ultimately show ?thesis by (intro hit [OF True]) simp_all
  next
    case False
    obtain m1 a where k: "kalloc_pages am m 1 = (m1, a)" by fastforce
    have run': "(if a = 0 then (m1, 0)
        else (kmemset (st32 m1 (dir + 4 * of_nat d) (a OR 7)) a 0 MEM_PAGE_SIZE, a + 4 * of_nat t)) = (m', p)"
      using run False by (simp add: find_pte_def idx pde_def entry_flags Let_def k cong: if_cong)
    from wf show ?thesis
    proof (cases rule: kalloc_cases [of _ m])
      case (page i)
      let ?m1 = "bitmap_set_bit m (bitmap am) (word_of_int i) 1 1"
      have a: "page_addr am i \<noteq> 0" "page_aligned (page_addr am i)"
        using page_addr_nonzero [OF wf page(1,3)] page_addr_aligned [OF wf page(1,3)] .
      have m': "m' = kmemset (st32 ?m1 (dir + 4 * of_nat d) (page_addr am i OR 7)) (page_addr am i) 0 MEM_PAGE_SIZE"
        and p: "p = page_addr am i + 4 * of_nat t"
        using run' page a k by auto
      have u: "used am ?m1 = insert i (used am m)" using used_set_bit [OF wf page(1,3), of m 1] by simp
      note new = new_table [OF ok dt(1) False page(1,3,4) alloc_bit_frame [OF wf page(1,3)] u m']
      have "m' x = m x" if "x \<notin> space_bytes am dir" for x
      proof -
        have "x \<notin> pool_bits am" "page_of x \<noteq> page_of dir" "page_of x \<noteq> page_of (page_addr am i)"
          using that page(1,3) by (auto simp: space_bytes_def)
        moreover from this have "x \<notin> word_bytes (dir + 4 * of_nat d)" "x \<notin> region (page_addr am i) 4096"
          using word_bytes_page [OF _ dt(1)] in_region_page [OF a(2)] ok by (auto simp: space_ok_def)
        moreover have "nat (sint MEM_PAGE_SIZE) = 4096" "0 \<le> sint MEM_PAGE_SIZE" by (simp_all add: MEM_PAGE_SIZE_def)
        ultimately show ?thesis
          using alloc_bit_frame [OF wf page(1,3), of m 1] unfolding m'
          by (simp add: kmemset_eq st32_other_byte same_outside_def)
      qed
      then have "same_outside (space_bytes am dir) m m'" by (simp add: same_outside_def)
      moreover have "p \<noteq> 0" using nz [OF a(2,1)] p by simp
      ultimately show ?thesis
        using new p entry_addr_or [OF a(2), of 7] by (intro fresh [OF False page(4)]) (auto simp: present_flags bit_simps)
    next
      case (beyond i)
      have i: "0 \<le> i" using beyond(1) by simp
      have m': "m' = bitmap_set_bit m (bitmap am) (word_of_int i) 1 1" "p = 0" using run' beyond k by auto
      have "{0..<min 1023 (npages am)} \<subseteq> {0..<i}" using beyond(1) by auto
      with beyond(4) have "{0..<min 1023 (npages am)} \<subseteq> used am m" by blast
      with used_set_bit [OF wf i beyond(2), of m 1] show ?thesis
        by (intro none [OF False m'(2)]) (auto simp: m'(1) alloc_bit_frame [OF wf i beyond(2)])
    next
      case full
      then have "m' = m" "p = 0" using run' k by auto
      with full(1) show ?thesis by (intro none [OF False]) (auto simp: same_outside_def)
    qed
  qed
qed

text \<open>
  \<open>find_pte\<close> keeps the address space and its mappings; it returns the place of the entry
  in a present table, or 0 when no kernel page below 1023 is free.
\<close>

lemma find_pte_spec:
  assumes ok: "space_ok am m dir" and run: "find_pte am m dir va = (m', p)"
  defines "d \<equiv> unat (VADDR_DIR va)" and "t \<equiv> unat (VADDR_TABLE va)"
  shows "space_ok am m' dir"
    and "\<forall>d'<1024. \<forall>t'<1024. mapped m' dir d' t' = mapped m dir d' t'"
    and "if p = 0 then {0..<min 1023 (npages am)} \<subseteq> used am m'
      else present (pde m' dir d) \<and> p = entry_addr (pde m' dir d) + 4 * of_nat t"
    and "used am m \<subseteq> used am m'" "\<exists>i. used am m' \<subseteq> insert i (used am m)"
proof -
  have "space_ok am m' dir \<and> (\<forall>d'<1024. \<forall>t'<1024. mapped m' dir d' t' = mapped m dir d' t')
    \<and> (if p = 0 then {0..<min 1023 (npages am)} \<subseteq> used am m'
      else present (pde m' dir d) \<and> p = entry_addr (pde m' dir d) + 4 * of_nat t)
    \<and> used am m \<subseteq> used am m' \<and> (\<exists>i. used am m' \<subseteq> insert i (used am m))"
    using ok run meta_eq_to_obj_eq [OF d_def] meta_eq_to_obj_eq [OF t_def]
  proof (cases rule: find_pte_cases)
    case none
    with bits_only [OF ok none(3,4)] show ?thesis by auto
  qed (use ok in auto)
  then show "space_ok am m' dir"
    and "\<forall>d'<1024. \<forall>t'<1024. mapped m' dir d' t' = mapped m dir d' t'"
    and "if p = 0 then {0..<min 1023 (npages am)} \<subseteq> used am m'
      else present (pde m' dir d) \<and> p = entry_addr (pde m' dir d) + 4 * of_nat t"
    and "used am m \<subseteq> used am m'" "\<exists>i. used am m' \<subseteq> insert i (used am m)"
    by blast+
qed

lemma finite_used [simp]: "finite (used am m)"
  by (rule finite_subset [of _ "{0..<npages am}"]) (auto simp: used_def)

section \<open>Mapping a range\<close>

text \<open>The entry of virtual page \<open>n\<close>, and the walk in terms of it.\<close>

definition entry :: "mem \<Rightarrow> u32 \<Rightarrow> nat \<Rightarrow> u32" where
  "entry m dir n = mapped m dir (n div 1024) (n mod 1024)"

lemma pt_index: "unat (VADDR_DIR va) = page_of va div 1024" "unat (VADDR_TABLE va) = page_of va mod 1024"
proof -
  show "unat (VADDR_DIR va) = page_of va div 1024"
    by (simp add: VADDR_DIR_def drop_bit_eq_div unat_div page_of_def div_mult2_eq [symmetric])
  have "(0x3FF :: u32) = mask 10" by (simp add: mask_eq_exp_minus_1)
  then have "VADDR_TABLE va = take_bit 10 (drop_bit 12 va)" by (simp add: VADDR_TABLE_def take_bit_eq_mask)
  then have "unat (VADDR_TABLE va) = take_bit 10 (unat (drop_bit 12 va))" by (simp only: unsigned_take_bit_eq)
  then show "unat (VADDR_TABLE va) = page_of va mod 1024"
    by (simp add: take_bit_eq_mod drop_bit_eq_div unat_div page_of_def)
qed

lemma page_of_less: "page_of x < 1024 * 1024"
proof -
  have "unat x < 2 ^ 32" using unsigned_less [where 'a = nat, of x] by simp
  then show ?thesis by (simp add: page_of_def)
qed

lemma walk_entry:
  "walk m dir va = (let v = entry m dir (page_of va)
     in if present v then Some (entry_addr v OR (va AND 0xFFF)) else None)"
proof -
  have e: "4 * VADDR_DIR va = 4 * of_nat (page_of va div 1024)" "4 * VADDR_TABLE va = 4 * of_nat (page_of va mod 1024)"
    by (simp_all only: pt_index [symmetric]) simp_all
  show ?thesis by (auto simp: walk_def e entry_def mapped_def pde_def Let_def present_def)
qed

lemma page_of_step: "page_of va + 1 < 1024 * 1024 \<Longrightarrow> page_of (va + MEM_PAGE_SIZE) = page_of va + 1"
proof -
  assume "page_of va + 1 < 1024 * 1024"
  then have "unat va + 4096 < 2 ^ 32" by (simp add: page_of_def)
  then show ?thesis by (simp add: page_of_def MEM_PAGE_SIZE_def unat_word_ariths)
qed

lemma index_eq: "n div 1024 = k div 1024 \<and> n mod 1024 = k mod 1024 \<longleftrightarrow> n = (k :: nat)"
  by (metis div_mult_mod_eq)

text \<open>
  The loop maps a range of pages, all of it or, when no kernel page below 1023 is left, a
  proper prefix; every other mapping stays.
\<close>

lemma map_loop_spec:
  assumes "space_ok am m dir" and "map_loop am m dir va pa perm n = (m', b)"
    and "page_of va + n \<le> 1024 * 1024"
  shows "space_ok am m' dir \<and> (\<exists>k\<le>n. (if b then k = n else k < n \<and> {0..<min 1023 (npages am)} \<subseteq> used am m')
    \<and> (\<forall>q<1024 * 1024. entry m' dir q = (if page_of va \<le> q \<and> q < page_of va + k
         then (pa + of_nat (q - page_of va) * MEM_PAGE_SIZE) OR perm OR PTE_P else entry m dir q)))"
  using assms
proof (induction n arbitrary: m va pa)
  case (Suc n)
  obtain m1 p where f: "find_pte am m dir va = (m1, p)" by fastforce
  let ?v = "pa OR perm OR PTE_P"
  have v: "present ?v" by (simp add: present_def pte_defs bit_simps)
  note spec = find_pte_spec [OF Suc.prems(1) f]
  have same: "entry m1 dir q = entry m dir q" if "q < 1024 * 1024" for q
    using spec(2) that by (simp add: entry_def)
  show ?case
  proof (cases "p = 0")
    case True
    with Suc.prems(2) f have "m' = m1" "\<not> b" by auto
    with True spec same show ?thesis by (intro conjI exI [of _ 0]) auto
  next
    case False
    let ?m2 = "st32 m1 p ?v"
    have p: "present (pde m1 dir (page_of va div 1024))"
      "p = entry_addr (pde m1 dir (page_of va div 1024)) + 4 * of_nat (page_of va mod 1024)"
      using spec(3) False by (simp_all add: pt_index)
    have "page_of va div 1024 < 1024" using page_of_less [of va] by simp
    note st = store_pte [OF spec(1) this p(1), where t = "page_of va mod 1024" and v = ?v, folded p(2), simplified]
    have upd: "entry ?m2 dir q = (if q = page_of va then ?v else entry m dir q)" if "q < 1024 * 1024" for q
    proof -
      have "q div 1024 < 1024" "q mod 1024 < 1024" using that by simp_all
      then have "entry ?m2 dir q = (if q = page_of va then ?v else entry m1 dir q)"
        using st(4) index_eq [of q "page_of va"] v unfolding entry_def by auto
      then show ?thesis using same [OF that] by simp
    qed
    have run: "map_loop am ?m2 dir (va + MEM_PAGE_SIZE) (pa + MEM_PAGE_SIZE) perm n = (m', b)"
      using Suc.prems(2) f False by simp
    show ?thesis
    proof (cases n)
      case 0
      with run have "m' = ?m2" "b" by auto
      with upd st(1) 0 show ?thesis by (intro conjI exI [of _ 1]) auto
    next
      case (Suc n0)
      then have step: "page_of (va + MEM_PAGE_SIZE) = page_of va + 1"
        using Suc.prems(3) by (intro page_of_step) simp
      from Suc.IH [OF st(1) run] step Suc.prems(3) obtain k where k: "space_ok am m' dir" "k \<le> n"
        "if b then k = n else k < n \<and> {0..<min 1023 (npages am)} \<subseteq> used am m'"
        "\<forall>q<1024 * 1024. entry m' dir q = (if page_of va + 1 \<le> q \<and> q < page_of va + 1 + k
           then (pa + MEM_PAGE_SIZE + of_nat (q - (page_of va + 1)) * MEM_PAGE_SIZE) OR perm OR PTE_P
           else entry ?m2 dir q)"
        by auto
      have "entry m' dir q = (if page_of va \<le> q \<and> q < page_of va + Suc k
          then (pa + of_nat (q - page_of va) * MEM_PAGE_SIZE) OR perm OR PTE_P else entry m dir q)"
        if "q < 1024 * 1024" for q
      proof (cases "page_of va + 1 \<le> q \<and> q < page_of va + 1 + k")
        case True
        then have "page_of va < q" by simp
        then have "q - page_of va = Suc (q - (page_of va + 1))" by (simp add: Suc_diff_Suc)
        then have "pa + of_nat (q - page_of va) * MEM_PAGE_SIZE
            = pa + MEM_PAGE_SIZE + of_nat (q - (page_of va + 1)) * MEM_PAGE_SIZE"
          by (simp only: of_nat_Suc distrib_right mult_1_left add.assoc)
        with True k(4) that show ?thesis by (simp add: add.assoc)
      next
        case False
        with k(4) that upd [OF that] show ?thesis by auto
      qed
      with k(1-3) show ?thesis by (intro conjI exI [of _ "Suc k"]) (auto split: if_splits)
    qed
  qed
qed (auto simp: intro!: exI [of _ 0])

lemma page_plus_aligned:
  assumes "page_aligned p"
  shows "page_aligned (p + of_nat n * MEM_PAGE_SIZE)"
proof -
  have "unat (p + of_nat (n * 4096)) = (unat p + n * 4096) mod 2 ^ 32"
    by (simp add: unat_word_ariths unsigned_of_nat take_bit_eq_mod mod_simps)
  moreover have "4096 dvd (unat p + n * 4096) mod 2 ^ 32"
    using assms by (simp add: page_aligned_def dvd_mod_iff)
  ultimately have "4096 dvd unat (p + of_nat (n * 4096))" by (simp only:)
  then show ?thesis by (simp add: page_aligned_def MEM_PAGE_SIZE_def)
qed

lemma walk_stored:
  assumes "page_aligned p" "perm < 0x1000" "entry m dir (page_of va) = (p OR perm OR PTE_P)"
  shows "walk m dir va = Some (p OR (va AND 0xFFF))"
proof -
  have "perm OR PTE_P < 0x1000"
    using assms(2) by (simp add: low_flags take_bit_or pte_defs)
  then have "entry_addr (p OR perm OR PTE_P) = p"
    using entry_addr_or [OF assms(1), of "perm OR PTE_P"] by (simp add: or.assoc)
  moreover have "present (p OR perm OR PTE_P)" by (simp add: present_def pte_defs bit_simps)
  ultimately show ?thesis by (simp add: walk_entry assms(3))
qed

lemma map_loop_used:
  "space_ok am m dir \<Longrightarrow> map_loop am m dir va pa perm n = (m', b)
     \<Longrightarrow> card (used am m') \<le> card (used am m) + n"
proof (induction n arbitrary: m va pa)
  case (Suc n)
  obtain m1 p where f: "find_pte am m dir va = (m1, p)" by fastforce
  note spec = find_pte_spec [OF Suc.prems(1) f]
  obtain i where "used am m1 \<subseteq> insert i (used am m)" using spec(5) by blast
  then have "card (used am m1) \<le> card (insert i (used am m))" by (intro card_mono) simp_all
  also have "\<dots> \<le> Suc (card (used am m))" by (rule card_insert_le_m1) simp_all
  finally have c: "card (used am m1) \<le> Suc (card (used am m))" .
  show ?case
  proof (cases "p = 0")
    case True
    with Suc.prems(2) f c show ?thesis by auto
  next
    case False
    have p: "present (pde m1 dir (page_of va div 1024))"
      "p = entry_addr (pde m1 dir (page_of va div 1024)) + 4 * of_nat (page_of va mod 1024)"
      using spec(3) False by (simp_all add: pt_index)
    have "page_of va div 1024 < 1024" using page_of_less [of va] by simp
    note st = store_pte [OF spec(1) this p(1), where t = "page_of va mod 1024", folded p(2), simplified]
    from Suc.IH [OF st(1), of _ "va + MEM_PAGE_SIZE" "pa + MEM_PAGE_SIZE"] Suc.prems(2) f False c
    show ?thesis by (fastforce simp: st(2))
  qed
qed simp

lemma walk_mapped:
  assumes "\<forall>q<1024 * 1024. entry m' dir q = (if page_of va \<le> q \<and> q < page_of va + k
      then (pa + of_nat (q - page_of va) * MEM_PAGE_SIZE) OR perm OR PTE_P else entry m dir q)"
    and "page_aligned pa" "perm < 0x1000"
  shows "walk m' dir x = (if page_of va \<le> page_of x \<and> page_of x < page_of va + k
    then Some ((pa + of_nat (page_of x - page_of va) * MEM_PAGE_SIZE) OR (x AND 0xFFF))
    else walk m dir x)"
proof (cases "page_of va \<le> page_of x \<and> page_of x < page_of va + k")
  case True
  with assms(1) page_of_less [of x] have "entry m' dir (page_of x)
      = (pa + of_nat (page_of x - page_of va) * MEM_PAGE_SIZE) OR perm OR PTE_P" by simp
  from walk_stored [OF page_plus_aligned [OF assms(2)] assms(3) this] True show ?thesis by simp
next
  case False
  with assms(1) page_of_less [of x] have "entry m' dir (page_of x) = entry m dir (page_of x)" by auto
  then have "walk m' dir x = walk m dir x" by (simp add: walk_entry)
  with False show ?thesis by auto
qed

section \<open>Theorems\<close>

text \<open>
  C13: while enough kernel pages are free, \<open>vaddr2paddr\<close> succeeds: afterwards the processor
  translates every address of the given pages to the physical range, and every other address
  exactly as before; the address space stays well formed.
\<close>

theorem vaddr2paddr_maps:
  assumes "space_ok am (ram s) dir" and "page_aligned pa" "perm < 0x1000"
    and "page_of va + nat (sint cnt) \<le> 1024 * 1024"
    and "int (card (used am (ram s)) + nat (sint cnt)) < min 1023 (npages am)"
  shows "\<exists>m'. vaddr2paddr fr msg am dir va pa cnt perm s = Some (s\<lparr>ram := m'\<rparr>) \<and> space_ok am m' dir
    \<and> (\<forall>x. walk m' dir x =
        (if page_of va \<le> page_of x \<and> page_of x < page_of va + nat (sint cnt)
         then Some ((pa + of_nat (page_of x - page_of va) * MEM_PAGE_SIZE) OR (x AND 0xFFF))
         else walk (ram s) dir x))"
proof -
  obtain m' b where run: "map_loop am (ram s) dir va pa perm (nat (sint cnt)) = (m', b)" by fastforce
  from map_loop_spec [OF assms(1) run assms(4)] obtain k where k: "space_ok am m' dir"
    "if b then k = nat (sint cnt) else k < nat (sint cnt) \<and> {0..<min 1023 (npages am)} \<subseteq> used am m'"
    "\<forall>q<1024 * 1024. entry m' dir q = (if page_of va \<le> q \<and> q < page_of va + k
         then (pa + of_nat (q - page_of va) * MEM_PAGE_SIZE) OR perm OR PTE_P else entry (ram s) dir q)"
    by blast
  have b
  proof (rule ccontr)
    assume "\<not> b"
    with k(2) have "card {0..<min 1023 (npages am)} \<le> card (used am m')" by (intro card_mono) simp_all
    with map_loop_used [OF assms(1) run]
    have "nat (min 1023 (npages am)) \<le> card (used am (ram s)) + nat (sint cnt)" by simp
    with assms(5) show False by (simp only: nat_le_iff)
  qed
  with run have "vaddr2paddr fr msg am dir va pa cnt perm s = Some (s\<lparr>ram := m'\<rparr>)"
    by (simp add: vaddr2paddr_def)
  moreover have "k = nat (sint cnt)" using k(2) \<open>b\<close> by simp
  ultimately show ?thesis using k(1) walk_mapped [OF k(3) assms(2,3)] by blast
qed

lemma sample_space: "space_ok sample_am (\<lambda>_. 0) 0x8000"
proof -
  have far: "0x100 \<le> page_of (page_addr sample_am i)" if "0 \<le> i" "i < npages sample_am" for i
  proof -
    have "0x100000 \<le> uint (page_addr sample_am i)"
      using uint_page_addr [OF sample_am_wf(1) that] that by (simp add: sample_am_wf(3) MEM_KERNELFREE_START_def)
    from nat_mono [OF this] have "0x100000 \<le> unat (page_addr sample_am i)" by simp
    then show ?thesis by (simp add: page_of_def)
  qed
  have bits: "page_of x = 0" if "x \<in> bit_bytes (bitmap sample_am) (npages sample_am)" for x
  proof -
    have "x \<in> region 0x100 64" using that by (simp add: bit_bytes_def sample_am_wf(2)) (simp add: sample_am_def)
    from region_range [OF this] show ?thesis by (simp add: page_of_def)
  qed
  have dir: "page_of 0x8000 = 8" by (simp add: page_of_def)
  have z: "\<not> present (pde (\<lambda>_. 0) 0x8000 d)" for d
    using ld32_zero [of "0x8000 + 4 * of_nat d" "\<lambda>_. 0"] by (simp add: pde_def present_def)
  have ne: "page_addr sample_am i \<noteq> 0x8000" "0 \<noteq> page_of (page_addr sample_am i)"
    if "0 \<le> i" "i < npages sample_am" for i
    using far [OF that] dir by auto
  have "bitmap_apart sample_am 0x8000" unfolding bitmap_apart_def dir using bits ne(2) by simp
  moreover have "tables_ok sample_am (\<lambda>_. 0) 0x8000" unfolding tables_ok_def using z by blast
  moreover have "page_aligned 0x8000" by (simp add: page_aligned_def)
  ultimately show ?thesis unfolding space_ok_def using sample_am_wf(1) ne(1) by blast
qed

theorem vaddr2paddr_maps_witness:
  "\<exists>m'. vaddr2paddr sample_frame 0 sample_am 0x8000 0x800000 0x300000 2 PTE_W (sample_machine\<lparr>ram := \<lambda>_. 0\<rparr>)
       = Some (sample_machine\<lparr>ram := m'\<rparr>) \<and> walk m' 0x8000 0x801234 = Some 0x301234"
proof -
  have "page_of 0x800000 = 0x800" "page_of 0x801234 = 0x801" by (simp_all add: page_of_def)
  moreover have "(0x301000 OR (0x801234 AND 0xFFF) :: u32) = 0x301234" by simp
  ultimately show ?thesis
    using vaddr2paddr_maps [of sample_am "sample_machine\<lparr>ram := \<lambda>_. 0\<rparr>" "0x8000" "0x300000" PTE_W
        "0x800000" 2 sample_frame 0] sample_space
    by (auto simp: page_aligned_def pte_defs sample_am_used sample_am_wf(2) MEM_PAGE_SIZE_def)
qed

text \<open>
  when \<open>vaddr2paddr\<close> gives up, every kernel page below number 1023 is taken, and a
  proper prefix of the pages asked for stays mapped: nothing is rolled back.
\<close>

theorem vaddr2paddr_partial:
  assumes "space_ok am m dir" and "page_aligned pa" "perm < 0x1000"
    and "page_of va + n \<le> 1024 * 1024" and "map_loop am m dir va pa perm n = (m', False)"
  shows "{0..<min 1023 (npages am)} \<subseteq> used am m' \<and> space_ok am m' dir \<and> (\<exists>k<n. \<forall>x. walk m' dir x =
      (if page_of va \<le> page_of x \<and> page_of x < page_of va + k
       then Some ((pa + of_nat (page_of x - page_of va) * MEM_PAGE_SIZE) OR (x AND 0xFFF))
       else walk m dir x))"
proof -
  from map_loop_spec [OF assms(1,5,4)] obtain k where k: "space_ok am m' dir" "k < n"
    "{0..<min 1023 (npages am)} \<subseteq> used am m'"
    "\<forall>q<1024 * 1024. entry m' dir q = (if page_of va \<le> q \<and> q < page_of va + k
         then (pa + of_nat (q - page_of va) * MEM_PAGE_SIZE) OR perm OR PTE_P else entry m dir q)"
    by auto
  with walk_mapped [OF k(4) assms(2,3)] show ?thesis by blast
qed

definition empty_am :: addr_alloc_t where
  "empty_am = sample_am\<lparr>bitmap := \<lparr>bm_count = 0, bm_bits = 0x100\<rparr>\<rparr>"

lemma empty_am_space: "space_ok empty_am (\<lambda>_. 0) 0x8000" "npages empty_am = 0"
proof -
  have z: "\<not> present (pde (\<lambda>_. 0) 0x8000 d)" for d
    using ld32_zero [of "0x8000 + 4 * of_nat d" "\<lambda>_. 0"] by (simp add: pde_def present_def)
  show n: "npages empty_am = 0" by (simp add: npages_def empty_am_def)
  have "wf_alloc empty_am" using sample_am_wf(1) n by (simp add: wf_alloc_def empty_am_def)
  with n z show "space_ok empty_am (\<lambda>_. 0) 0x8000"
    by (auto simp: space_ok_def bitmap_apart_def tables_ok_def bit_bytes_def page_aligned_def)
qed

theorem vaddr2paddr_partial_witness:
  "space_ok empty_am (\<lambda>_. 0) 0x8000 \<and> walk (fst (map_loop empty_am (\<lambda>_. 0) 0x8000 0x800000 0x300000 PTE_W 1)) 0x8000 0x800000
     = walk (\<lambda>_. 0) 0x8000 0x800000"
proof -
  have z: "\<not> present (ld32 (\<lambda>_. 0) a)" for a by (simp add: present_def ld32_def)
  have wf: "wf_alloc empty_am" using empty_am_space(1) by (simp add: space_ok_def)
  have "kalloc_pages empty_am (\<lambda>_. 0) 1 = (\<lambda>_. 0, 0)"
    using wf by (cases rule: kalloc_cases [of _ "\<lambda>_. 0"]) (simp_all add: empty_am_space(2))
  then have run: "map_loop empty_am (\<lambda>_. 0) 0x8000 0x800000 0x300000 PTE_W 1 = (\<lambda>_. 0, False)"
    by (simp add: find_pte_def z)
  have "\<exists>k<1. \<forall>x. walk (\<lambda>_. 0) 0x8000 x =
      (if page_of 0x800000 \<le> page_of x \<and> page_of x < page_of 0x800000 + k
       then Some ((0x300000 + of_nat (page_of x - page_of 0x800000) * MEM_PAGE_SIZE) OR (x AND 0xFFF))
       else walk (\<lambda>_. 0) 0x8000 x)"
    using vaddr2paddr_partial [OF empty_am_space(1) _ _ _ run]
    by (simp add: page_aligned_def pte_defs page_of_def)
  then show ?thesis using run empty_am_space(1) by simp
qed

text \<open>
  \<open>get_v2p\<close> of an address that is mapped is what the processor computes, and changes
  nothing; of an address whose directory entry is absent it is not a lookup: it may take a
  page from the allocator, and returns no more than the offset in the page.
\<close>

theorem get_v2p_correct:
  assumes "walk m dir va = Some pa"
  shows "get_v2p am m dir va = (m, pa)"
proof -
  let ?pd = "ld32 m (dir + 4 * VADDR_DIR va)"
  let ?pt = "entry_addr ?pd + 4 * VADDR_TABLE va"
  from assms have w: "present ?pd" "pa = entry_addr (ld32 m ?pt) OR (va AND 0xFFF)"
    by (auto simp: walk_def Let_def split: if_splits)
  have "entry_addr v AND (va AND 0xFFF) = 0" for v
    by (rule bit_word_eqI) (auto simp: entry_addr_def bit_simps bit_masks)
  then have "entry_addr v + (va AND 0xFFF) = entry_addr v OR (va AND 0xFFF)" for v
    by (rule disjunctive_add_eq_or)
  with w show ?thesis by (simp add: get_v2p_def find_pte_def)
qed

theorem get_v2p_correct_witness:
  "get_v2p sample_am (st32 (st32 (\<lambda>_. 0) 0x8004 0x9007) 0x9004 0xA003) 0x8000 0x401234
     = (st32 (st32 (\<lambda>_. 0) 0x8004 0x9007) 0x9004 0xA003, 0xA234)"
proof (rule get_v2p_correct)
  have "VADDR_DIR 0x401234 = 1" "VADDR_TABLE 0x401234 = 1" "entry_addr 0x9007 = 0x9000" "entry_addr 0xA003 = 0xA000"
    by (simp_all add: VADDR_DIR_def VADDR_TABLE_def entry_addr_def)
  then show "walk (st32 (st32 (\<lambda>_. 0) 0x8004 0x9007) 0x9004 0xA003) 0x8000 0x401234 = Some 0xA234"
    by (simp add: walk_def Let_def mem_simps aligned4_numeral present_def)
qed

section \<open>Directories of processes\<close>

text \<open>A page of the pool that was free may be written without touching the address space.\<close>

lemma fresh_page:
  assumes ok: "space_ok am m dir" and i: "0 \<le> i" "i < npages am" "i \<notin> used am m"
    and m': "\<And>x. page_of x \<noteq> page_of (page_addr am i)
      \<Longrightarrow> m' x = bitmap_set_bit m (bitmap am) (word_of_int i) 1 1 x"
  shows "space_ok am m' dir" and "used am m' = insert i (used am m)"
    and "d < 1024 \<Longrightarrow> pde m' dir d = pde m dir d"
    and "d < 1024 \<Longrightarrow> t < 1024 \<Longrightarrow> mapped m' dir d t = mapped m dir d t"
proof -
  let ?m1 = "bitmap_set_bit m (bitmap am) (word_of_int i) 1 1" let ?a = "page_addr am i"
  have wf: "wf_alloc am" and dir: "page_aligned dir" and ne: "?a \<noteq> dir"
    using ok i by (auto simp: space_ok_def)
  have a: "page_aligned ?a" using page_addr_aligned [OF wf i(1,2)] .
  have u1: "used am ?m1 = insert i (used am m)" using used_set_bit [OF wf i(1,2), of m 1] by simp
  have "used am m \<subseteq> used am ?m1" using u1 by blast
  note b = bits_only [OF ok alloc_bit_frame [OF wf i(1,2)] this]
  have "used am m' = used am ?m1"
  proof (rule used_cong)
    fix x assume "x \<in> pool_bits am"
    then have "page_of x \<noteq> page_of ?a" using bits_not_in_page [OF ok, of x ?a] i by blast
    then show "m' x = ?m1 x" by (rule m')
  qed
  then show u: "used am m' = insert i (used am m)" using u1 by simp
  have same: "ld32 m' (q + 4 * of_nat t) = ld32 ?m1 (q + 4 * of_nat t)"
    if "page_aligned q" "q \<noteq> ?a" "t < 1024" for q t
    using table_word_cong [OF that(1,3), of m' ?m1] m' page_of_eq [OF that(1) a] that(2) by metis
  show p: "d < 1024 \<Longrightarrow> pde m' dir d = pde m dir d" for d
    using same [OF dir ne [symmetric]] b(2) by (simp add: pde_def)
  show "space_ok am m' dir"
    using b(1) p b(2) u u1 by (simp add: space_ok_def tables_ok_def)
  show "mapped m' dir d t = mapped m dir d t" if d: "d < 1024" and t: "t < 1024"
  proof (cases "present (pde m dir d)")
    case True
    obtain j where j: "j \<in> used am m" "entry_addr (pde m dir d) = page_addr am j"
      "page_aligned (entry_addr (pde m dir d))"
      using table_page [OF ok d True] .
    have "entry_addr (pde m dir d) \<noteq> ?a"
      using j(1,2) i(3) page_addr_inj [OF wf _ _ i(1,2)] used_range [OF j(1)] by metis
    from same [OF j(3) this t] have "mapped m' dir d t = mapped ?m1 dir d t"
      by (simp add: mapped_def p [OF d] b(2) [OF d])
    then show ?thesis using b(3) [OF d t] by simp
  next
    case False
    then show ?thesis by (simp add: mapped_def p [OF d])
  qed
qed

lemma user_pde_start: "VADDR_DIR MEM_KERNELFREE_END = 0"
  by (simp add: VADDR_DIR_def MEM_KERNELFREE_END_def)

lemma create_page_table_facts:
  assumes ok: "space_ok am m kernel_table"
    and run: "create_page_table am m kernel_table = (m', dir)" and "dir \<noteq> 0"
  shows "pde m' dir 0 = pde m kernel_table 0 \<and> (\<forall>d\<in>{1..<1024}. pde m' dir d = 0)
    \<and> dir \<notin> used_addrs (am, m) \<and> used_addrs (am, m') = insert dir (used_addrs (am, m))
    \<and> space_ok am m' kernel_table \<and> (\<forall>d<1024. pde m' kernel_table d = pde m kernel_table d)"
proof -
  have wf: "wf_alloc am" and kt: "page_aligned kernel_table" using ok by (simp_all add: space_ok_def)
  have sz: "nat (sint MEM_PAGE_SIZE) = 4096" "0 \<le> sint MEM_PAGE_SIZE" by (simp_all add: MEM_PAGE_SIZE_def)
  from wf obtain i where i: "256 \<le> i" "i < npages am" "i \<notin> used am m"
    "ualloc_pages am m 1 = (bitmap_set_bit m (bitmap am) (word_of_int i) 1 1, page_addr am i)"
    using run assms(3) by (cases rule: ualloc_cases [of _ m]) (auto simp: create_page_table_def Let_def)
  let ?m1 = "bitmap_set_bit m (bitmap am) (word_of_int i) 1 1" let ?m2 = "kmemset ?m1 dir 0 MEM_PAGE_SIZE"
  have m': "m' = st32 ?m2 dir (ld32 ?m2 kernel_table)" and dir: "dir = page_addr am i"
    using run i(4) by (auto simp: create_page_table_def Let_def user_pde_start)
  have i0: "0 \<le> i" using i(1) by simp
  have al: "page_aligned dir" using page_addr_aligned [OF wf i0 i(2)] dir by simp
  have d0: "dir = dir + 4 * of_nat 0" by simp
  have m2: "?m2 x = ?m1 x" if "page_of x \<noteq> page_of dir" for x
    using in_region_page [OF al, of x] that by (auto simp: kmemset_eq sz)
  have "m' x = ?m2 x" if "page_of x \<noteq> page_of dir" for x
    unfolding m' by (rule st32_other_byte) (use word_bytes_page [OF al, of 0 x] that in auto)
  with m2 have out: "page_of x \<noteq> page_of (page_addr am i) \<Longrightarrow> m' x = ?m1 x" for x
    by (simp add: dir)
  note new = fresh_page [OF ok i0 i(2,3) out]
  have k2: "ld32 ?m2 kernel_table = pde m kernel_table 0"
    using fresh_page(3) [OF ok i0 i(2,3), of ?m2 0] m2 by (simp add: pde_def dir)
  have z: "ld32 ?m2 (dir + 4 * of_nat d) = 0" if "d < 1024" for d
  proof (rule ld32_zero)
    fix x assume "x \<in> word_bytes (dir + 4 * of_nat d)"
    then have "x \<in> region dir 4096"
      using page_in_region [OF al] word_bytes_page [OF al that] by blast
    then show "?m2 x = 0" by (simp add: kmemset_eq sz)
  qed
  have w: "pde m' dir d = (if d = 0 then pde m kernel_table 0 else 0)" if "d < 1024" for d
    using table_word_store [OF al _ al that, of 0 ?m2 "pde m kernel_table 0"] z [OF that]
    by (auto simp: pde_def m' k2)
  have "used_addrs (am, m') = insert dir (used_addrs (am, m))" by (simp add: used_addrs_def new(2) dir)
  moreover have "dir \<notin> used_addrs (am, m)"
  proof
    assume "dir \<in> used_addrs (am, m)"
    then obtain j where j: "j \<in> used am m" "page_addr am i = page_addr am j"
      by (auto simp: used_addrs_def dir)
    then have "i = j" using page_addr_inj [OF wf i0 i(2)] used_range [OF j(1)] by blast
    with j(1) i(3) show False by simp
  qed
  ultimately show ?thesis using w new(1,3) by simp
qed

text \<open>
  a new directory shares the kernel's first table, which covers the first four
  megabytes, and nothing else: user memory from two to four megabytes is shared as well,
  and the rest of the kernel's mapping is not there.
\<close>

theorem create_page_table_shares:
  assumes ok: "space_ok am m kernel_table"
    and run: "create_page_table am m kernel_table = (m', dir)" and "dir \<noteq> 0"
  shows "pde m' dir 0 = pde m kernel_table 0 \<and> (\<forall>d\<in>{1..<1024}. pde m' dir d = 0)
    \<and> dir \<notin> used_addrs (am, m) \<and> used_addrs (am, m') = insert dir (used_addrs (am, m))
    \<and> space_ok am m' kernel_table \<and> (\<forall>d<1024. pde m' kernel_table d = pde m kernel_table d)"
  by (rule create_page_table_facts [OF assms])

definition sample_kernel :: mem where
  "sample_kernel = fst (find_pte sample_am (\<lambda>_. 0) 0x8000 0)"

lemma sample_kernel_space:
  "space_ok sample_am sample_kernel 0x8000" "present (pde sample_kernel 0x8000 0)"
  "\<exists>m' dir. create_page_table sample_am sample_kernel 0x8000 = (m', dir) \<and> dir \<noteq> 0"
proof -
  obtain p where f: "find_pte sample_am (\<lambda>_. 0) 0x8000 0 = (sample_kernel, p)"
    by (cases "find_pte sample_am (\<lambda>_. 0) 0x8000 0") (simp add: sample_kernel_def)
  note spec = find_pte_spec [OF sample_space f]
  show "space_ok sample_am sample_kernel 0x8000" by (rule spec(1))
  obtain i where i: "used sample_am sample_kernel \<subseteq> {i}" using spec(5) by (auto simp: sample_am_used)
  have no: "\<not> {k..<512} \<subseteq> used sample_am sample_kernel" if "k < 500" for k :: int
  proof
    assume "{k..<512} \<subseteq> used sample_am sample_kernel"
    with i have "{k..<512} \<subseteq> {i}" by blast
    with that have "k \<in> {i}" "k + 1 \<in> {i}" by (simp_all add: subset_iff)
    then show False by simp
  qed
  have n: "min 1023 (npages sample_am) = 512" by (simp add: sample_am_wf(2))
  have "p \<noteq> 0"
  proof
    assume "p = 0"
    with spec(3) n have "{0..<512} \<subseteq> used sample_am sample_kernel" by simp
    with no [of 0] show False by simp
  qed
  then show "present (pde sample_kernel 0x8000 0)" using spec(3) by (simp add: VADDR_DIR_def)
  from sample_am_wf(1) obtain j where j: "256 \<le> j" "j < npages sample_am"
    "ualloc_pages sample_am sample_kernel 1
       = (bitmap_set_bit sample_kernel (bitmap sample_am) (word_of_int j) 1 1, page_addr sample_am j)"
    using no [of 256] by (cases rule: ualloc_cases [of _ sample_kernel]) (auto simp: sample_am_wf(2))
  have "page_addr sample_am j \<noteq> 0" using page_addr_nonzero [OF sample_am_wf(1)] j(1,2) by simp
  with j(3) show "\<exists>m' dir. create_page_table sample_am sample_kernel 0x8000 = (m', dir) \<and> dir \<noteq> 0"
    by (auto simp: create_page_table_def Let_def)
qed

theorem create_page_table_shares_witness:
  "present (pde (fst (create_page_table sample_am sample_kernel 0x8000))
      (snd (create_page_table sample_am sample_kernel 0x8000)) 0)"
proof -
  obtain m' dir where r: "create_page_table sample_am sample_kernel 0x8000 = (m', dir)" "dir \<noteq> 0"
    using sample_kernel_space(3) by blast
  from create_page_table_shares [OF sample_kernel_space(1) r] sample_kernel_space(2) r(1)
  show ?thesis by simp
qed

text \<open>Freeing never marks a page, and changes only the bits of the pool.\<close>

lemma kfree_any:
  assumes "wf_alloc am"
  shows "same_outside (pool_bits am) m (kfree_pages am m a 1) \<and> used am (kfree_pages am m a 1) \<subseteq> used am m"
proof -
  let ?pg = "(a - kernelstart am) div page_size am"
  have "page_size am = 4096" using assms by (simp add: wf_alloc_def MEM_PAGE_SIZE_def)
  then have "uint ?pg < 2 ^ 31"
    using uint_bounded [of "a - kernelstart am"] by (simp add: uint_div)
  then have s: "sint ?pg = uint ?pg" by (rule sint_uint_small)
  show ?thesis
  proof (cases "uint ?pg < npages am")
    case True
    have e: "kfree_pages am m a 1 = bitmap_set_bit m (bitmap am) (word_of_int (uint ?pg)) 1 0"
      by (simp add: kfree_pages_def)
    show ?thesis
      unfolding e using alloc_bit_frame [OF assms _ True] used_set_bit [OF assms _ True, of m 0] by auto
  next
    case False
    then show ?thesis using s by (simp add: kfree_pages_def bitmap_set_bit_def npages_def)
  qed
qed

lemma free_table_any:
  assumes "wf_alloc am"
  shows "same_outside (pool_bits am) m (free_table am m table) \<and> used am (free_table am m table) \<subseteq> used am m"
proof -
  have "same_outside (pool_bits am) m (fold (\<lambda>j m. let pte = ld32 m (table + 4 * of_nat j)
      in if present pte then kfree_pages am m (entry_addr pte) 1 else m) js m)
    \<and> used am (fold (\<lambda>j m. let pte = ld32 m (table + 4 * of_nat j)
      in if present pte then kfree_pages am m (entry_addr pte) 1 else m) js m) \<subseteq> used am m" for js :: "nat list"
  proof (induction js arbitrary: m)
    case (Cons j js)
    let ?pte = "ld32 m (table + 4 * of_nat j)"
    let ?m1 = "if present ?pte then kfree_pages am m (entry_addr ?pte) 1 else m"
    have "same_outside (pool_bits am) m ?m1 \<and> used am ?m1 \<subseteq> used am m" using kfree_any [OF assms] by simp
    with Cons.IH [of ?m1] show ?case
      by (auto simp: Let_def intro: same_outside_trans)
  qed simp
  then show ?thesis by (simp add: free_table_def)
qed

lemma free_entries_used: "wf_alloc am \<Longrightarrow> used am (fold (free_entry am dir) is m) \<subseteq> used am m"
proof (induction "is" arbitrary: m)
  case (Cons i "is")
  have "used am (kfree_pages am (free_table am m t) t 1) \<subseteq> used am m" for t
    using kfree_any [OF Cons.prems, of "free_table am m t" t] free_table_any [OF Cons.prems, of m t] by blast
  then have "used am (free_entry am dir i m) \<subseteq> used am m" by (simp add: free_entry_def Let_def)
  with Cons.IH [OF Cons.prems] show ?case by (fastforce simp: o_def)
qed simp

text \<open>
  destroying a directory that was just created, with nothing added to it, gives the
  page of the kernel's own first table back to the allocator although the kernel's directory
  still refers to it: the loop that is meant to skip the kernel part starts at entry 0.
\<close>

theorem pagetable_destroy_frees_kernel:
  assumes "space_ok am m kernel_table" and "present (pde m kernel_table 0)"
    and "create_page_table am m kernel_table = (m', dir)" and "dir \<noteq> 0"
  shows "entry_addr (pde m' kernel_table 0) \<in> used_addrs (am, m')
    \<and> entry_addr (pde m' kernel_table 0) \<notin> used_addrs (am, pagetable_destroy am m' dir)"
proof -
  have wf: "wf_alloc am" using assms(1) by (simp add: space_ok_def)
  note new = create_page_table_facts [OF assms(1,3,4)]
  then have p: "pde m' kernel_table 0 = pde m kernel_table 0" "pde m' dir 0 = pde m kernel_table 0" by simp_all
  obtain i where i: "i \<in> used am m'" "entry_addr (pde m' kernel_table 0) = page_addr am i"
  proof -
    have "space_ok am m' kernel_table" "present (pde m' kernel_table 0)" using new assms(2) p by simp_all
    from table_page [OF this(1) _ this(2)] that show thesis by simp metis
  qed
  let ?m1 = "free_entry am dir 0 m'"
  let ?ft = "free_table am m' (page_addr am i)"
  have d0: "pde m' dir 0 = ld32 m' dir" by (simp add: pde_def)
  have "?m1 = kfree_pages am ?ft (page_addr am i) 1"
    using i(2) p assms(2) d0 by (simp add: free_entry_def Let_def)
  also have "\<dots> = bitmap_set_bit ?ft (bitmap am) (word_of_int i) 1 0"
    using kfree_page [OF wf] used_range [OF i(1)] by blast
  finally have "i \<notin> used am ?m1" using used_set_bit [OF wf, of i ?ft 0] used_range [OF i(1)] by simp
  moreover have "pagetable_destroy am m' dir = kfree_pages am (fold (free_entry am dir) [1..<1024] ?m1) dir 1"
    by (simp add: pagetable_destroy_def Let_def user_pde_start upt_conv_Cons [of 0] del: upt_Suc)
  ultimately have "i \<notin> used am (pagetable_destroy am m' dir)"
    using kfree_any [OF wf] free_entries_used [OF wf] by (metis subset_iff)
  then have "page_addr am i \<notin> used_addrs (am, pagetable_destroy am m' dir)"
    using page_in_used [OF wf] used_range [OF i(1)] by (simp add: used_addrs_def)
  with i show ?thesis by (simp add: used_addrs_def)
qed

theorem pagetable_destroy_frees_kernel_witness:
  "\<exists>m' dir. create_page_table sample_am sample_kernel 0x8000 = (m', dir)
     \<and> entry_addr (pde m' 0x8000 0) \<notin> used_addrs (sample_am, pagetable_destroy sample_am m' dir)"
proof -
  obtain m' dir where r: "create_page_table sample_am sample_kernel 0x8000 = (m', dir)" "dir \<noteq> 0"
    using sample_kernel_space(3) by blast
  from pagetable_destroy_frees_kernel [OF sample_kernel_space(1,2) r] r(1) show ?thesis by blast
qed

text \<open>
  C32: since the first table is shared, mapping one page below four megabytes into a new
  directory, as \<open>copy_pagetable\<close> does for every page it copies there, changes what the
  kernel itself sees at that address.
\<close>

theorem user_mapping_changes_kernel:
  assumes "space_ok am (ram s) kernel_table" and "present (pde (ram s) kernel_table 0)"
    and "create_page_table am (ram s) kernel_table = (m', dir)" and "dir \<noteq> 0"
    and "page_of va < 1024" and "page_aligned page" "perm < 0x1000"
  shows "\<exists>m''. vaddr2paddr fr msg am dir va page 1 perm (s\<lparr>ram := m'\<rparr>) = Some (s\<lparr>ram := m''\<rparr>)
    \<and> walk m'' kernel_table va = Some (page OR (va AND 0xFFF))"
proof -
  note new = create_page_table_facts [OF assms(1,3,4)]
  have p: "pde m' kernel_table 0 = pde m' dir 0" "present (pde m' kernel_table 0)" using new assms(2) by simp_all
  have t: "unat (VADDR_DIR va) = 0" "page_of va = unat (VADDR_TABLE va)"
    using pt_index [of va] assms(5) by simp_all
  have idx: "VADDR_DIR va = 0" "VADDR_TABLE va = of_nat (page_of va)"
    using t(1) unfolding t(2) by (simp_all add: unat_eq_0)
  let ?v = "page OR perm OR PTE_P"
  have v: "present ?v" by (simp add: present_def pte_defs bit_simps)
  have wf: "wf_alloc am" using assms(1) by (simp add: space_ok_def)
  obtain i where i: "i \<in> used am m'" "entry_addr (pde m' kernel_table 0) = page_addr am i"
    "page_aligned (entry_addr (pde m' kernel_table 0))"
    using table_page [of am m' kernel_table 0] new p(2) by (metis zero_less_numeral)
  let ?pte = "entry_addr (pde m' kernel_table 0) + 4 * of_nat (page_of va)"
  have "?pte \<noteq> 0"
  proof
    assume "?pte = 0"
    then have "unat (page_addr am i + of_nat (4 * page_of va)) = 0" using i(2) by simp
    then show False
      using unat_in_page [OF i(3), of "4 * page_of va"] i(2) assms(5) page_addr_nonzero [OF wf, of i]
        used_range [OF i(1)] by (simp add: unat_eq_0)
  qed
  moreover have "ld32 m' dir = pde m' kernel_table 0" using p(1) by (simp add: pde_def)
  ultimately have "vaddr2paddr fr msg am dir va page 1 perm (s\<lparr>ram := m'\<rparr>) = Some (s\<lparr>ram := st32 m' ?pte ?v\<rparr>)"
    using p(2) by (simp add: vaddr2paddr_def find_pte_def idx)
  moreover have "space_ok am m' kernel_table" using new by simp
  from store_pte(4) [OF this _ p(2) assms(5) _ assms(5), of 0 ?v]
  have "entry (st32 m' ?pte ?v) kernel_table (page_of va) = ?v"
    using assms(5) v by (simp add: entry_def)
  from walk_stored [OF assms(6,7) this] have "walk (st32 m' ?pte ?v) kernel_table va = Some (page OR (va AND 0xFFF))" .
  ultimately show ?thesis by blast
qed

theorem user_mapping_changes_kernel_witness:
  "\<exists>m' dir m''. create_page_table sample_am sample_kernel 0x8000 = (m', dir)
     \<and> vaddr2paddr sample_frame 0 sample_am dir 0x200000 0x400000 1 PTE_W (sample_machine\<lparr>ram := m'\<rparr>)
         = Some (sample_machine\<lparr>ram := m''\<rparr>)
     \<and> walk m'' 0x8000 0x200000 = Some 0x400000"
proof -
  obtain m' dir where r: "create_page_table sample_am sample_kernel 0x8000 = (m', dir)" "dir \<noteq> 0"
    using sample_kernel_space(3) by blast
  have "\<exists>m''. vaddr2paddr sample_frame 0 sample_am dir 0x200000 0x400000 1 PTE_W (sample_machine\<lparr>ram := m'\<rparr>)
         = Some (sample_machine\<lparr>ram := m''\<rparr>) \<and> walk m'' 0x8000 0x200000 = Some 0x400000"
    using user_mapping_changes_kernel [of sample_am "sample_machine\<lparr>ram := sample_kernel\<rparr>" "0x8000" m' dir
        "0x200000" "0x400000" PTE_W sample_frame 0] sample_kernel_space(1,2) r
    by (simp add: page_of_def page_aligned_def pte_defs)
  with r(1) show ?thesis by blast
qed

end
