(* ===== verification/Kernel_Map.thy ===== *)
theory Kernel_Map
  imports PageTable
begin

text \<open>
  What \<open>pagetable_init\<close> leaves behind: the kernel's page tables map the segments of the linker
  script and the first twenty megabytes to themselves and nothing else.  The number of page
  tables this takes is bounded by the directory entries below the highest address.
\<close>

unbundle bit_operations_syntax

section \<open>The page tables that are needed\<close>

text \<open>The directory entries below \<open>lim\<close> that have no table yet.\<close>

definition missing :: "mem \<Rightarrow> u32 \<Rightarrow> nat \<Rightarrow> nat set" where
  "missing m dir lim = {d. d < lim \<and> \<not> present (pde m dir d)}"

definition room :: "addr_alloc_t \<Rightarrow> mem \<Rightarrow> u32 \<Rightarrow> nat \<Rightarrow> nat" where
  "room am m dir lim = card (used am m) + card (missing m dir lim)"

lemma finite_missing [simp]: "finite (missing m dir lim)"
  by (simp add: missing_def)

lemma missing_cong:
  assumes "\<And>d. d < lim \<Longrightarrow> pde m' dir d = pde m dir d"
  shows "missing m' dir lim = missing m dir lim"
  using assms by (auto simp: missing_def)

text \<open>Every table is opened to user mode.\<close>

definition tables_user :: "mem \<Rightarrow> u32 \<Rightarrow> bool" where
  "tables_user m dir \<longleftrightarrow> (\<forall>d<1024. present (pde m dir d) \<longrightarrow> bit (pde m dir d) 2)"

lemma find_pte_room:
  assumes ok: "space_ok am m dir" and run: "find_pte am m dir va = (m', p)"
    and lim: "page_of va < 1024 * lim" "lim \<le> 1024"
    and fits: "int (room am m dir lim) \<le> min 1023 (npages am)"
  shows "p \<noteq> 0 \<and> room am m' dir lim = room am m dir lim \<and> (tables_user m dir \<longrightarrow> tables_user m' dir)
    \<and> same_outside (space_bytes am dir) m m'"
proof -
  let ?d = "page_of va div 1024"
  have d: "?d < lim" using lim(1) by (simp add: less_mult_imp_div_less mult.commute)
  from ok run pt_index(1) [symmetric] refl show ?thesis
  proof (cases rule: find_pte_cases)
    case (fresh i)
    have "pde m' dir d' = pde m dir d'" if "d' < lim" "d' \<noteq> ?d" for d' using fresh that lim(2) by simp
    note other = this
    have "missing m' dir lim = missing m dir lim - {?d}"
    proof (rule set_eqI)
      fix d' show "d' \<in> missing m' dir lim \<longleftrightarrow> d' \<in> missing m dir lim - {?d}"
        using other [of d'] fresh(4) by (cases "d' = ?d") (auto simp: missing_def)
    qed
    moreover have "?d \<in> missing m dir lim" using fresh d by (simp add: missing_def)
    ultimately have "Suc (card (missing m' dir lim)) = card (missing m dir lim)"
      by (metis card.remove finite_missing)
    moreover have "card (used am m') = Suc (card (used am m))" using fresh by simp
    moreover have "tables_user m' dir" if "tables_user m dir"
      unfolding tables_user_def
    proof (intro allI impI)
      fix d' assume "d' < 1024" "present (pde m' dir d')"
      with that fresh show "bit (pde m' dir d') 2" by (cases "d' = ?d") (auto simp: tables_user_def)
    qed
    ultimately show ?thesis using fresh by (simp add: room_def)
  next
    case none
    have "?d \<in> missing m dir lim" using none d by (simp add: missing_def)
    then have "0 < card (missing m dir lim)" by (auto simp: card_gt_0_iff)
    moreover have "card {0..<min 1023 (npages am)} \<le> card (used am m)" using none by (intro card_mono) simp_all
    then have "min 1023 (npages am) \<le> int (card (used am m))" by (simp only: card_atLeastLessThan_int nat_le_iff diff_zero)
    ultimately have False using fits unfolding room_def by linarith
    then show ?thesis ..
  qed simp
qed

lemma map_loop_room:
  assumes "space_ok am m dir" and "map_loop am m dir va pa perm n = (m', b)"
    and "page_of va + n \<le> 1024 * lim" "lim \<le> 1024" and "int (room am m dir lim) \<le> min 1023 (npages am)"
  shows "b \<and> room am m' dir lim = room am m dir lim \<and> (tables_user m dir \<longrightarrow> tables_user m' dir)
    \<and> same_outside (space_bytes am dir) m m'"
  using assms
proof (induction n arbitrary: m va pa)
  case (Suc n)
  obtain m1 p where f: "find_pte am m dir va = (m1, p)" by fastforce
  note spec = find_pte_spec [OF Suc.prems(1) f]
  have r: "p \<noteq> 0" "room am m1 dir lim = room am m dir lim" "tables_user m dir \<longrightarrow> tables_user m1 dir"
    "same_outside (space_bytes am dir) m m1"
    using find_pte_room [OF Suc.prems(1) f _ Suc.prems(4,5)] Suc.prems(3) by simp_all
  let ?m2 = "st32 m1 p (pa OR perm OR PTE_P)"
  have p: "present (pde m1 dir (page_of va div 1024))"
    "p = entry_addr (pde m1 dir (page_of va div 1024)) + 4 * of_nat (page_of va mod 1024)"
    using spec(3) r(1) by (simp_all add: pt_index)
  have "page_of va div 1024 < 1024" using page_of_less [of va] by simp
  note st = store_pte [OF spec(1) this p(1), where t = "page_of va mod 1024" and v = "pa OR perm OR PTE_P",
      folded p(2), simplified]
  have "missing ?m2 dir lim = missing m1 dir lim"
    using st(3) Suc.prems(4) by (intro missing_cong) simp
  then have r2: "room am ?m2 dir lim = room am m dir lim" using r(2) st(2) by (simp add: room_def)
  have f2: "same_outside (space_bytes am dir) m ?m2"
  proof (rule same_outside_step [OF r(4)])
    obtain i where i: "i \<in> used am m1" "entry_addr (pde m1 dir (page_of va div 1024)) = page_addr am i"
      "page_aligned (page_addr am i)" using table_page [OF spec(1) _ p(1)] page_of_less [of va] by force
    have "page_of x = page_of (page_addr am i)" if "x \<in> word_bytes p" for x
      using word_bytes_page [OF i(3), of "page_of va mod 1024" x] that p(2) i(2) by simp
    then have "word_bytes p \<subseteq> space_bytes am dir" using used_range [OF i(1)] by (auto simp: space_bytes_def)
    then show "same_outside (space_bytes am dir) m1 ?m2"
      unfolding same_outside_def using st32_other_byte by blast
  qed
  have u2: "tables_user ?m2 dir" if "tables_user m dir" using that r(3) st(3) by (simp add: tables_user_def)
  have run: "map_loop am ?m2 dir (va + MEM_PAGE_SIZE) (pa + MEM_PAGE_SIZE) perm n = (m', b)"
    using Suc.prems(2) f r(1) by simp
  show ?case
  proof (cases n)
    case 0
    with run r2 u2 f2 show ?thesis by auto
  next
    case (Suc n0)
    have "page_of va + 1 < 1024 * 1024" using Suc Suc.prems(3,4) by simp
    then have "page_of (va + MEM_PAGE_SIZE) + n \<le> 1024 * lim" using page_of_step Suc.prems(3) by simp
    from Suc.IH [OF st(1) run this Suc.prems(4)] Suc.prems(5) r2 u2 have
      "b \<and> room am m' dir lim = room am m dir lim \<and> (tables_user m dir \<longrightarrow> tables_user m' dir)
       \<and> same_outside (space_bytes am dir) ?m2 m'" by simp
    with same_outside_step [OF f2] show ?thesis by blast
  qed
qed simp

section \<open>Identity maps\<close>

text \<open>The pages of \<open>P\<close> are mapped to themselves, open to user mode, and no other page is.\<close>

definition id_map :: "mem \<Rightarrow> u32 \<Rightarrow> nat set \<Rightarrow> bool" where
  "id_map m dir P \<longleftrightarrow> (\<forall>q<1024 * 1024. if q \<in> P
     then \<exists>perm<0x1000. bit perm 2 \<and> entry m dir q = (of_nat q * MEM_PAGE_SIZE) OR perm OR PTE_P
     else entry m dir q = 0)"

text \<open>What the processor checks before user code may read an address.\<close>

definition user_can :: "mem \<Rightarrow> u32 \<Rightarrow> u32 \<Rightarrow> bool" where
  "user_can m dir x \<longleftrightarrow> (let d = pde m dir (page_of x div 1024); t = entry m dir (page_of x)
     in present d \<and> bit d 2 \<and> present t \<and> bit t 2)"

lemma of_nat_page: "of_nat (page_of x) * MEM_PAGE_SIZE = entry_addr x"
proof -
  have "unat (drop_bit 12 x) = page_of x" by (simp add: drop_bit_eq_div unat_div page_of_def)
  then have "of_nat (page_of x) = drop_bit 12 x" by (metis of_nat_unat ucast_id)
  then show ?thesis by (simp add: entry_addr_def push_bit_eq_mult MEM_PAGE_SIZE_def)
qed

lemma aligned_page: "page_aligned p \<Longrightarrow> p = of_nat (page_of p) * MEM_PAGE_SIZE"
  using entry_addr_or [of p 0] by (simp add: of_nat_page)

lemma id_map_step:
  assumes "space_ok am (ram s) dir" "tables_user (ram s) dir" "id_map (ram s) dir P"
    and "page_aligned v" "perm < 0x1000" "bit perm 2"
    and "page_of v + nat (sint cnt) \<le> 1024 * lim" "lim \<le> 1024"
    and "int (room am (ram s) dir lim) \<le> min 1023 (npages am)"
  shows "\<exists>m'. vaddr2paddr fr msg am dir v v cnt perm s = Some (s\<lparr>ram := m'\<rparr>) \<and> space_ok am m' dir
    \<and> tables_user m' dir \<and> id_map m' dir (P \<union> {page_of v..<page_of v + nat (sint cnt)})
    \<and> room am m' dir lim = room am (ram s) dir lim \<and> same_outside (space_bytes am dir) (ram s) m'"
proof -
  obtain m' b where run: "map_loop am (ram s) dir v v perm (nat (sint cnt)) = (m', b)" by fastforce
  have r: "b" "room am m' dir lim = room am (ram s) dir lim" "tables_user m' dir"
    "same_outside (space_bytes am dir) (ram s) m'"
    using map_loop_room [OF assms(1) run assms(7-9)] assms(2) by simp_all
  have "page_of v + nat (sint cnt) \<le> 1024 * 1024" using assms(7,8) by linarith
  from map_loop_spec [OF assms(1) run this] r(1) have ok: "space_ok am m' dir"
    and e: "\<And>q. q < 1024 * 1024 \<Longrightarrow> entry m' dir q = (if page_of v \<le> q \<and> q < page_of v + nat (sint cnt)
       then (v + of_nat (q - page_of v) * MEM_PAGE_SIZE) OR perm OR PTE_P else entry (ram s) dir q)"
    by auto
  have v: "v + of_nat (q - page_of v) * MEM_PAGE_SIZE = of_nat q * MEM_PAGE_SIZE" if "page_of v \<le> q" for q
  proof -
    have "v + of_nat (q - page_of v) * MEM_PAGE_SIZE = (of_nat (page_of v) + of_nat (q - page_of v)) * MEM_PAGE_SIZE"
      by (subst aligned_page [OF assms(4)]) (simp only: distrib_right)
    also have "of_nat (page_of v) + of_nat (q - page_of v) = (of_nat q :: u32)"
      using that by (simp flip: of_nat_add)
    finally show ?thesis .
  qed
  have "id_map m' dir (P \<union> {page_of v..<page_of v + nat (sint cnt)})"
    unfolding id_map_def
  proof (intro allI impI)
    fix q :: nat assume q: "q < 1024 * 1024"
    show "if q \<in> P \<union> {page_of v..<page_of v + nat (sint cnt)}
      then \<exists>perm<0x1000. bit perm 2 \<and> entry m' dir q = (of_nat q * MEM_PAGE_SIZE) OR perm OR PTE_P
      else entry m' dir q = 0"
    proof (cases "page_of v \<le> q \<and> q < page_of v + nat (sint cnt)")
      case True
      with e [OF q] v [of q] assms(5,6) show ?thesis by auto
    next
      case False
      with e [OF q] assms(3) q show ?thesis by (auto simp: id_map_def)
    qed
  qed
  moreover have "vaddr2paddr fr msg am dir v v cnt perm s = Some (s\<lparr>ram := m'\<rparr>)"
    using run r(1) by (simp add: vaddr2paddr_def)
  ultimately show ?thesis using ok r by blast
qed

text \<open>A segment covers the pages from its start to the page its last byte lies in.\<close>

fun seg_pages :: "u32 \<times> u32 \<times> u32 \<times> u32 \<Rightarrow> nat set" where
  "seg_pages (vs, ve, ps, perm) = {page_of vs..<(unat ve + 4095) div 4096}"

fun seg_ok :: "nat \<Rightarrow> u32 \<times> u32 \<times> u32 \<times> u32 \<Rightarrow> bool" where
  "seg_ok lim (vs, ve, ps, perm) \<longleftrightarrow> ps = vs \<and> page_aligned vs \<and> vs \<le> ve \<and> unat ve \<le> 4194304 * lim
     \<and> perm < 0x1000 \<and> bit perm 2"

lemma mask_page: "x AND NOT (MEM_PAGE_SIZE - 1) = entry_addr x"
  by (rule bit_word_eqI) (auto simp: entry_addr_def MEM_PAGE_SIZE_def bit_simps bit_masks dest: bit_imp_le_length)

lemma seg_count:
  assumes "seg_ok lim (vs, ve, ps, perm)" "lim \<le> 511"
  shows "DOWN2 vs MEM_PAGE_SIZE = vs"
    and "page_of vs + nat (sint (c_div (UP2 ve MEM_PAGE_SIZE - vs) MEM_PAGE_SIZE)) = (unat ve + 4095) div 4096"
proof -
  have al: "page_aligned vs" and le: "vs \<le> ve" and hi: "unat ve \<le> 4194304 * lim" using assms(1) by simp_all
  show "DOWN2 vs MEM_PAGE_SIZE = vs"
    using entry_addr_or [OF al, of 0] by (simp add: DOWN2_def mask_page)
  let ?K = "(unat ve + 4095) div 4096"
  have n: "unat (ve + MEM_PAGE_SIZE - 1) = unat ve + 4095"
    using hi assms(2) by (simp add: MEM_PAGE_SIZE_def unat_word_ariths)
  have up: "UP2 ve MEM_PAGE_SIZE = of_nat ?K * MEM_PAGE_SIZE"
    using n of_nat_page [of "ve + MEM_PAGE_SIZE - 1"] by (simp add: UP2_def mask_page page_of_def)
  have k: "page_of vs \<le> ?K"
    using le by (simp add: page_of_def word_le_nat_alt div_le_mono)
  define D where "D = ?K - page_of vs"
  have D: "D * 4096 < 2 ^ 31" "?K = page_of vs + D" using hi assms(2) k by (simp_all add: D_def)
  have "UP2 ve MEM_PAGE_SIZE - vs = of_nat (D * 4096)"
    using arg_cong2 [OF up aligned_page [OF al], of "(-)"] by (simp add: D(2) MEM_PAGE_SIZE_def algebra_simps)
  moreover have "sint (of_nat (D * 4096) :: c_int) = int (D * 4096)" using D(1) by (intro sint_of_nat) simp
  moreover have "sint (MEM_PAGE_SIZE) = 4096" by (simp add: MEM_PAGE_SIZE_def)
  moreover have "int (D * 4096) sdiv 4096 = int D" by (auto simp: signed_divide_int_def sgn_mult)
  moreover have "sint (word_of_int (int D) :: c_int) = int D" using D(1) by (intro sint_word_of_int_id) simp_all
  ultimately have "nat (sint (c_div (UP2 ve MEM_PAGE_SIZE - vs) MEM_PAGE_SIZE)) = D" by (simp add: c_div_def)
  with D(2) show "page_of vs + nat (sint (c_div (UP2 ve MEM_PAGE_SIZE - vs) MEM_PAGE_SIZE)) = ?K" by simp
qed

lemma map_segments_id:
  assumes "space_ok am (ram s) dir" "tables_user (ram s) dir" "id_map (ram s) dir P"
    and "\<forall>g\<in>set segs. seg_ok lim g" "lim \<le> 511"
    and "int (room am (ram s) dir lim) \<le> min 1023 (npages am)"
  shows "\<exists>m'. map_segments fr msg am dir segs s = Some (s\<lparr>ram := m'\<rparr>) \<and> space_ok am m' dir
    \<and> tables_user m' dir \<and> id_map m' dir (P \<union> (\<Union>g\<in>set segs. seg_pages g))
    \<and> same_outside (space_bytes am dir) (ram s) m'"
  using assms
proof (induction segs arbitrary: s P)
  case Nil
  then show ?case by (intro exI [of _ "ram s"]) simp
next
  case (Cons g segs)
  obtain vs ve ps perm where g: "g = (vs, ve, ps, perm)" by (cases g)
  have ok: "seg_ok lim (vs, ve, ps, perm)" using Cons.prems(4) g by simp
  note cnt = seg_count [OF ok Cons.prems(5)]
  let ?n = "c_div (UP2 ve MEM_PAGE_SIZE - vs) MEM_PAGE_SIZE"
  have "unat ve \<le> 4194304 * lim" using ok by simp
  then have "(unat ve + 4095) div 4096 \<le> 1024 * lim" by simp
  then have "page_of vs + nat (sint ?n) \<le> 1024 * lim" using cnt(2) by simp
  from id_map_step [OF Cons.prems(1-3) _ _ _ this _ Cons.prems(6), of perm fr msg] ok Cons.prems(5)
  obtain m1 where m1: "vaddr2paddr fr msg am dir vs vs ?n perm s = Some (s\<lparr>ram := m1\<rparr>)" "space_ok am m1 dir"
    "tables_user m1 dir" "id_map m1 dir (P \<union> seg_pages g)" "room am m1 dir lim = room am (ram s) dir lim"
    "same_outside (space_bytes am dir) (ram s) m1"
    using g cnt(2) by auto
  from Cons.IH [of "s\<lparr>ram := m1\<rparr>"] m1(2-5) Cons.prems(4-6) obtain m' where
    "map_segments fr msg am dir segs (s\<lparr>ram := m1\<rparr>) = Some (s\<lparr>ram := m'\<rparr>)" "space_ok am m' dir"
    "tables_user m' dir" "id_map m' dir (P \<union> seg_pages g \<union> (\<Union>g\<in>set segs. seg_pages g))"
    "same_outside (space_bytes am dir) m1 m'" by auto
  moreover from this(1) have "map_segments fr msg am dir (g # segs) s = Some (s\<lparr>ram := m'\<rparr>)"
    using m1(1) ok cnt(1) by (simp add: g Let_def)
  moreover have "same_outside (space_bytes am dir) (ram s) m'" using same_outside_step [OF m1(6)] calculation by blast
  ultimately show ?case by (auto simp: Un_assoc)
qed

section \<open>The kernel's map\<close>

text \<open>The symbols of the linker script, as far as the map relies on them.\<close>

definition link_ok :: "link_map \<Rightarrow> bool" where
  "link_ok l \<longleftrightarrow> page_aligned (kernel_base l) \<and> page_aligned (stext l) \<and> page_aligned (sdata l)
     \<and> kernel_base l \<le> kernel_end l \<and> stext l \<le> etext l \<and> sdata l < MEM_EBDA_START
     \<and> kernel_end l \<le> MEM_EBDA_START \<and> etext l \<le> MEM_EBDA_START"

definition kernel_pages :: "link_map \<Rightarrow> nat set" where
  "kernel_pages l = {page_of (kernel_base l)..<(unat (kernel_end l) + 4095) div 4096}
     \<union> {page_of (stext l)..<(unat (etext l) + 4095) div 4096}
     \<union> {page_of (sdata l)..<0x80} \<union> {0x100..<0x1400}"

lemma kernel_segments:
  assumes "link_ok l"
  shows "\<forall>g\<in>set (kernel_map l). seg_ok 5 g" "(\<Union>g\<in>set (kernel_map l). seg_pages g) = kernel_pages l"
proof -
  note d = kernel_map_def MEM_EBDA_START_def MEM_KERNELFREE_START_def MEM_KERNELFREE_END_def
  have "unat (kernel_end l) \<le> 4194304 * 5" "unat (etext l) \<le> 4194304 * 5" "sdata l \<le> 0x7FFFF"
    using assms by (simp_all add: link_ok_def MEM_EBDA_START_def word_le_nat_alt word_less_nat_alt)
  then show "\<forall>g\<in>set (kernel_map l). seg_ok 5 g"
    using assms by (simp add: d link_ok_def pte_defs page_aligned_def bit_simps)
  show "(\<Union>g\<in>set (kernel_map l). seg_pages g) = kernel_pages l"
    by (auto simp: d kernel_pages_def page_of_def)
qed

lemma id_map_entry:
  assumes "id_map m dir P" "page_of x \<in> P"
  obtains perm where "perm < 0x1000" "bit perm 2" "entry m dir (page_of x) = entry_addr x OR perm OR PTE_P"
proof -
  have "\<exists>perm<0x1000. bit perm 2 \<and> entry m dir (page_of x) = (of_nat (page_of x) * MEM_PAGE_SIZE) OR perm OR PTE_P"
    using assms page_of_less [of x] by (simp add: id_map_def)
  then show thesis using that unfolding of_nat_page by blast
qed

lemma page_split: "entry_addr x OR (x AND 0xFFF) = x"
  by (rule bit_word_eqI) (auto simp: entry_addr_def bit_simps bit_masks)

lemma entry_addr_aligned: "page_aligned (entry_addr x)"
proof -
  have "take_bit 12 (entry_addr x) = 0" by (rule bit_word_eqI) (simp add: entry_addr_def bit_simps)
  then have "unat (take_bit 12 (entry_addr x)) = 0" by (simp only: unsigned_0)
  then have "unat (entry_addr x) mod 4096 = 0" by (simp only: unsigned_take_bit_eq) (simp add: take_bit_eq_mod)
  then show ?thesis by (simp add: page_aligned_def dvd_eq_mod_eq_0)
qed

lemma id_map_walk:
  assumes "id_map m dir P"
  shows "walk m dir x = (if page_of x \<in> P then Some x else None)"
proof (cases "page_of x \<in> P")
  case True
  obtain perm where "perm < 0x1000" "entry m dir (page_of x) = entry_addr x OR perm OR PTE_P"
    using id_map_entry [OF assms True] .
  from walk_stored [OF entry_addr_aligned this] True show ?thesis by (simp add: page_split)
next
  case False
  then have "entry m dir (page_of x) = 0" using assms page_of_less [of x] by (simp add: id_map_def)
  with False show ?thesis by (simp add: walk_entry present_def)
qed

lemma id_map_user:
  assumes "id_map m dir P" "tables_user m dir" "page_of x \<in> P"
  shows "user_can m dir x"
proof -
  obtain perm where e: "bit perm 2" "entry m dir (page_of x) = entry_addr x OR perm OR PTE_P"
    using id_map_entry [OF assms(1,3)] .
  then have t: "present (entry m dir (page_of x))" "bit (entry m dir (page_of x)) 2"
    by (simp_all add: present_def PTE_P_def bit_simps)
  then have d: "present (pde m dir (page_of x div 1024))"
    by (auto simp: entry_def mapped_def present_def split: if_splits)
  moreover have "page_of x div 1024 < 1024" using page_of_less [of x] by simp
  ultimately show ?thesis using t assms(2) by (simp add: user_can_def tables_user_def)
qed

text \<open>The directory after it has been cleared.\<close>

lemma cleared_directory:
  assumes "wf_alloc am" "page_aligned dir" "bitmap_apart am dir"
    and "\<forall>i. 0 \<le> i \<and> i < npages am \<and> i \<notin> used am m \<longrightarrow> page_addr am i \<noteq> dir"
  defines "m' \<equiv> kmemset m dir 0 4096"
  shows "space_ok am m' dir" "tables_user m' dir" "id_map m' dir {}" "used am m' = used am m"
    "same_outside (space_bytes am dir) m m'"
proof -
  have m': "m' x = (if x \<in> region dir 4096 then 0 else m x)" for x by (simp add: m'_def kmemset_eq)
  have z: "pde m' dir d = 0" if "d < 1024" for d
    unfolding pde_def
  proof (rule ld32_zero)
    fix x assume "x \<in> word_bytes (dir + 4 * of_nat d)"
    then have "x \<in> region dir 4096"
      using page_in_region [OF assms(2)] word_bytes_page [OF assms(2) that] by blast
    then show "m' x = 0" by (simp add: m')
  qed
  show u: "used am m' = used am m"
  proof (rule used_cong)
    fix x assume "x \<in> pool_bits am"
    then have "page_of x \<noteq> page_of dir" using assms(3) by (auto simp: bitmap_apart_def pool_bits_def)
    then show "m' x = m x" using in_region_page [OF assms(2), of x] by (auto simp: m')
  qed
  show "space_ok am m' dir" "tables_user m' dir"
    using assms(1-4) z u by (simp_all add: space_ok_def tables_ok_def tables_user_def present_def)
  show "same_outside (space_bytes am dir) m m'"
    using in_region_page [OF assms(2)] by (auto simp: same_outside_def m' space_bytes_def)
  show "id_map m' dir {}"
    using z by (simp add: id_map_def entry_def mapped_def present_def)
qed

lemma pagetable_init_spec:
  assumes "wf_alloc am" "page_aligned kt" "bitmap_apart am kt" "link_ok l"
    and "\<forall>i. 0 \<le> i \<and> i < npages am \<and> i \<notin> used am (ram s) \<longrightarrow> page_addr am i \<noteq> kt"
    and "int (card (used am (ram s))) + 5 \<le> min 1023 (npages am)"
  obtains m' where "pagetable_init fr msg am l kt s = Some (s\<lparr>ram := m', cr3 := kt, cr0 := cr0 s OR CR0_PG\<rparr>)"
    "space_ok am m' kt" "tables_user m' kt" "id_map m' kt (kernel_pages l)" "same_outside (space_bytes am kt) (ram s) m'"
proof -
  let ?m = "kmemset (ram s) kt 0 4096"
  note c = cleared_directory [OF assms(1-3,5)]
  have "card (missing ?m kt 5) \<le> card {0..<5::nat}" by (intro card_mono) (auto simp: missing_def)
  then have "int (room am (ram (s\<lparr>ram := ?m\<rparr>)) kt 5) \<le> min 1023 (npages am)"
    using assms(6) c(4) by (simp add: room_def)
  from map_segments_id [OF _ _ _ kernel_segments(1) [OF assms(4)] _ this, of "{}" fr msg] c(1-3)
  obtain m' where m': "map_segments fr msg am kt (kernel_map l) (s\<lparr>ram := ?m\<rparr>) = Some (s\<lparr>ram := m'\<rparr>)"
    "space_ok am m' kt" "tables_user m' kt" "id_map m' kt (kernel_pages l)" "same_outside (space_bytes am kt) ?m m'"
    using kernel_segments(2) [OF assms(4)] by auto
  show thesis
  proof (rule that [OF _ m'(2-4)])
    show "same_outside (space_bytes am kt) (ram s) m'" using same_outside_step [OF c(5) m'(5)] .
  qed (simp add: pagetable_init_def create_kernel_table_def m'(1) wcr3_def wcr0_def rcr0_def)
qed

text \<open>What happens outside the bytes of paging leaves the map alone.\<close>

lemma space_kept:
  assumes ok: "space_ok am m dir" and same: "\<And>x. x \<in> space_bytes am dir \<Longrightarrow> m' x = m x"
  shows "d < 1024 \<Longrightarrow> pde m' dir d = pde m dir d" and "q < 1024 * 1024 \<Longrightarrow> entry m' dir q = entry m dir q"
proof -
  have dir: "page_aligned dir" using ok by (simp add: space_ok_def)
  show p: "d < 1024 \<Longrightarrow> pde m' dir d = pde m dir d" for d
    unfolding pde_def by (rule table_word_cong [OF dir]) (auto intro: same simp: space_bytes_def)
  assume "q < 1024 * 1024"
  then have d: "q div 1024 < 1024" and t: "q mod 1024 < 1024" by simp_all
  show "entry m' dir q = entry m dir q"
  proof (cases "present (pde m dir (q div 1024))")
    case True
    obtain i where i: "i \<in> used am m" "entry_addr (pde m dir (q div 1024)) = page_addr am i"
      "page_aligned (entry_addr (pde m dir (q div 1024)))" using table_page [OF ok d True] .
    have "ld32 m' (entry_addr (pde m dir (q div 1024)) + 4 * of_nat (q mod 1024))
        = ld32 m (entry_addr (pde m dir (q div 1024)) + 4 * of_nat (q mod 1024))"
      by (rule table_word_cong [OF i(3) t], rule same) (use i(2) used_range [OF i(1)] in \<open>auto simp: space_bytes_def\<close>)
    then show ?thesis by (simp add: entry_def mapped_def p [OF d])
  qed (simp add: entry_def mapped_def p [OF d])
qed

lemma id_map_kept:
  assumes "space_ok am m dir" "\<And>x. x \<in> space_bytes am dir \<Longrightarrow> m' x = m x" "id_map m dir P"
  shows "id_map m' dir P"
  using assms(3) unfolding id_map_def by (simp add: space_kept(2) [OF assms(1,2)])

text \<open>
  C6: paging is switched on with the kernel's own map in force.  Started with a pool in which
  five kernel pages are free, \<open>pagetable_init\<close> succeeds, loads the directory and sets the
  paging bit; from then on the processor translates every address of the kernel's image, of the
  low memory up to 512 KB from the data segment on, and from one to twenty megabytes, to itself,
  and no other address at all.  The kernel is not protected: user code may read every one of
  these pages.
\<close>

theorem pagetable_init_identity:
  assumes "wf_alloc am" "page_aligned kt" "bitmap_apart am kt" "link_ok l"
    and "\<forall>i. 0 \<le> i \<and> i < npages am \<and> i \<notin> used am (ram s) \<longrightarrow> page_addr am i \<noteq> kt"
    and "int (card (used am (ram s))) + 5 \<le> min 1023 (npages am)"
  shows "\<exists>m'. pagetable_init fr msg am l kt s = Some (s\<lparr>ram := m', cr3 := kt, cr0 := cr0 s OR CR0_PG\<rparr>)
    \<and> space_ok am m' kt
    \<and> (\<forall>x. walk m' kt x = (if page_of x \<in> kernel_pages l then Some x else None))
    \<and> (\<forall>x. page_of x \<in> kernel_pages l \<longrightarrow> user_can m' kt x)"
proof -
  obtain m' where "pagetable_init fr msg am l kt s = Some (s\<lparr>ram := m', cr3 := kt, cr0 := cr0 s OR CR0_PG\<rparr>)"
    "space_ok am m' kt" "tables_user m' kt" "id_map m' kt (kernel_pages l)"
    using pagetable_init_spec [OF assms] by blast
  then show ?thesis using id_map_walk [of m' kt "kernel_pages l"] id_map_user [of m' kt "kernel_pages l"] by blast
qed

theorem pagetable_init_identity_witness:
  "\<exists>m'. pagetable_init sample_frame 0 sample_am \<lparr>kernel_base = 0, kernel_end = 0x10000, stext = 0x10000,
       etext = 0x14123, sdata = 0x15000\<rparr> 0x8000 (sample_machine\<lparr>ram := \<lambda>_. 0\<rparr>)
     = Some (sample_machine\<lparr>ram := m', cr3 := 0x8000, cr0 := 0x80000000\<rparr>)
     \<and> walk m' 0x8000 0x123456 = Some 0x123456 \<and> walk m' 0x8000 0xA0000 = None"
proof -
  let ?l = "\<lparr>kernel_base = 0, kernel_end = 0x10000, stext = 0x10000, etext = 0x14123, sdata = 0x15000\<rparr>"
  have l: "link_ok ?l" by (simp add: link_ok_def page_aligned_def MEM_EBDA_START_def)
  have sp: "bitmap_apart sample_am 0x8000" "page_aligned 0x8000"
    "\<forall>i. 0 \<le> i \<and> i < npages sample_am \<and> i \<notin> used sample_am (\<lambda>_. 0) \<longrightarrow> page_addr sample_am i \<noteq> 0x8000"
    using sample_space by (auto simp: space_ok_def)
  have "page_of 0x123456 \<in> kernel_pages ?l" "page_of 0xA0000 \<notin> kernel_pages ?l"
    by (simp_all add: kernel_pages_def page_of_def)
  with pagetable_init_identity [of sample_am "0x8000" ?l "sample_machine\<lparr>ram := \<lambda>_. 0\<rparr>" sample_frame 0,
      OF sample_am_wf(1) sp(2,1) l] sp(3)
  show ?thesis
    by (auto simp: sample_am_used sample_am_wf(2) sample_machine_def CR0_PG_def)
qed

end
