(* ===== verification/Task.thy ===== *)
theory Task
  imports Klist Gdt Irq Log
begin

text \<open>
  The scheduler of \<open>source/kernel/core/task.c\<close>.  Tasks, their task-state segments and
  the three queues of \<open>task_manager\<close> live in memory; the offsets of their fields are those
  of \<open>task_t\<close>, \<open>tss_t\<close> and \<open>task_manager_t\<close>.  A function is an operation on memory or on
  the machine, partial where it runs a list loop or prints.

  The file does not compile as it stands, and the model fills each gap in the way the rest of
  the text suggests: \<open>gdt_alloc_desc\<close> and \<open>OS_TICKS_MS\<close> are declared nowhere and are
  parameters; \<open>tss_init\<close> has four parameters and is called with three arguments, so the last
  one is a parameter too; the comma missing in \<open>task_manager_init\<close> is read as present.
\<close>

unbundle bit_operations_syntax

section \<open>Data\<close>

datatype state_t = CREATED | RUNNING | SLEEP | READY | WAITTING

fun state_code :: "state_t \<Rightarrow> u32" where
  "state_code CREATED = 0"
| "state_code RUNNING = 1"
| "state_code SLEEP = 2"
| "state_code READY = 3"
| "state_code WAITTING = 4"

text \<open>
  What the functions refer to by name: \<open>task_manager\<close>, \<open>gdt_table\<close>, the entry and the
  stack of the idle task, the missing function and constant, and what the log needs.
\<close>

record task_env =
  tm :: u32
  gdt_tab :: u32
  idle_code :: u32
  idle_task_stack :: u32
  gdt_alloc_desc :: "mem \<Rightarrow> mem \<times> c_int"
  OS_TICKS_MS :: c_int
  missing_arg :: u32
  log_fr :: log_frame
  failed_msg :: u32
  idle_name :: u32
  first_name :: u32

definition TASK_TIME_SLICE_DEFAULT :: c_int where "TASK_TIME_SLICE_DEFAULT = 10"
definition IDLE_TASK_SIZE :: u32 where "IDLE_TASK_SIZE = 1024"

text \<open>\<open>task_t\<close>, 172 bytes.\<close>

definition t_state :: "u32 \<Rightarrow> u32" where "t_state task = task"
definition t_name :: "u32 \<Rightarrow> u32" where "t_name task = task + 4"
definition t_sleep_ticks :: "u32 \<Rightarrow> u32" where "t_sleep_ticks task = task + 36"
definition t_slice_ticks :: "u32 \<Rightarrow> u32" where "t_slice_ticks task = task + 40"
definition t_time_ticks :: "u32 \<Rightarrow> u32" where "t_time_ticks task = task + 44"
definition t_run_node :: "u32 \<Rightarrow> u32" where "t_run_node task = task + 48"
definition t_all_node :: "u32 \<Rightarrow> u32" where "t_all_node task = task + 56"
definition t_tss :: "u32 \<Rightarrow> u32" where "t_tss task = task + 64"
definition t_tss_sel :: "u32 \<Rightarrow> u32" where "t_tss_sel task = task + 168"

text \<open>\<open>task_manager_t\<close>.\<close>

definition curr_task :: "task_env \<Rightarrow> u32" where "curr_task e = tm e"
definition ready_list :: "task_env \<Rightarrow> u32" where "ready_list e = tm e + 4"
definition task_list :: "task_env \<Rightarrow> u32" where "task_list e = tm e + 24"
definition sleep_list :: "task_env \<Rightarrow> u32" where "sleep_list e = tm e + 44"
definition first_task :: "task_env \<Rightarrow> u32" where "first_task e = tm e + 64"
definition idle_task :: "task_env \<Rightarrow> u32" where "idle_task e = tm e + 236"

lemmas task_fields = t_state_def t_name_def t_sleep_ticks_def t_slice_ticks_def t_time_ticks_def
  t_run_node_def t_all_node_def t_tss_def t_tss_sel_def
lemmas manager_fields = curr_task_def ready_list_def task_list_def sleep_list_def first_task_def
  idle_task_def

text \<open>\<open>tss_t\<close>: 26 words.\<close>

datatype tss_reg = Pre_link | Esp0 | Ss0 | Esp1 | Ss1 | Esp2 | Ss2 | Cr3 | Eip | Eflags | Eax | Ecx
  | Edx | Ebx | Esp | Ebp | Esi | Edi | Es | Cs | Ss | Ds | Fs | Gs | Ldt | Iomap

fun tss_offset :: "tss_reg \<Rightarrow> u32" where
  "tss_offset Pre_link = 0" | "tss_offset Esp0 = 4" | "tss_offset Ss0 = 8" | "tss_offset Esp1 = 12"
| "tss_offset Ss1 = 16" | "tss_offset Esp2 = 20" | "tss_offset Ss2 = 24" | "tss_offset Cr3 = 28"
| "tss_offset Eip = 32" | "tss_offset Eflags = 36" | "tss_offset Eax = 40" | "tss_offset Ecx = 44"
| "tss_offset Edx = 48" | "tss_offset Ebx = 52" | "tss_offset Esp = 56" | "tss_offset Ebp = 60"
| "tss_offset Esi = 64" | "tss_offset Edi = 68" | "tss_offset Es = 72" | "tss_offset Cs = 76"
| "tss_offset Ss = 80" | "tss_offset Ds = 84" | "tss_offset Fs = 88" | "tss_offset Gs = 92"
| "tss_offset Ldt = 96" | "tss_offset Iomap = 100"

definition set_reg :: "mem \<Rightarrow> u32 \<Rightarrow> tss_reg \<Rightarrow> u32 \<Rightarrow> mem" where
  "set_reg m task r v = st32 m (t_tss task + tss_offset r) v"

definition get_reg :: "mem \<Rightarrow> u32 \<Rightarrow> tss_reg \<Rightarrow> u32" where
  "get_reg m task r = ld32 m (t_tss task + tss_offset r)"

definition sizeof_tss :: u32 where "sizeof_tss = 104"

section \<open>Task states and queues\<close>

definition task_set_ready :: "task_env \<Rightarrow> mem \<Rightarrow> u32 \<Rightarrow> mem" where
  "task_set_ready e m task =
    (if task = idle_task e then m
     else st32 (klist_append m (ready_list e) (t_run_node task)) (t_state task) (state_code READY))"

definition task_set_block :: "task_env \<Rightarrow> mem \<Rightarrow> u32 \<Rightarrow> mem option" where
  "task_set_block e m task =
    (if task = idle_task e then Some m
     else map_option snd (klist_remove m (ready_list e) (t_run_node task)))"

definition KLIST_STRUCT_ADDR :: "u32 \<Rightarrow> u32" where
  "KLIST_STRUCT_ADDR node = (if node \<noteq> 0 then node - 48 else 0)"

definition task_next_run :: "task_env \<Rightarrow> mem \<Rightarrow> u32" where
  "task_next_run e m =
    (if klist_len m (ready_list e) = 0 then idle_task e
     else let task_node = klist_get_first_node m (ready_list e) in KLIST_STRUCT_ADDR task_node)"

definition task_current :: "task_env \<Rightarrow> mem \<Rightarrow> u32" where
  "task_current e m = ld32 m (curr_task e)"

text \<open>Declared to return a pointer, the function names the structure itself.\<close>

definition get_first_task :: "task_env \<Rightarrow> u32" where
  "get_first_task e = first_task e"

definition task_set_sleep :: "task_env \<Rightarrow> mem \<Rightarrow> u32 \<Rightarrow> u32 \<Rightarrow> mem" where
  "task_set_sleep e m task ticks =
    (if ticks = 0 then m
     else let m = st32 m (t_sleep_ticks task) ticks;
              m = st32 m (t_state task) (state_code SLEEP)
          in klist_append m (sleep_list e) (t_run_node task))"

definition task_set_wakeup :: "task_env \<Rightarrow> mem \<Rightarrow> u32 \<Rightarrow> mem option" where
  "task_set_wakeup e m task = map_option snd (klist_remove m (sleep_list e) (t_run_node task))"

section \<open>Switching\<close>

definition switch_to_tss :: "c_int \<Rightarrow> machine \<Rightarrow> machine" where
  "switch_to_tss tss_sel s = far_jmp tss_sel 0 s"

definition task_switch_from_to :: "u32 \<Rightarrow> u32 \<Rightarrow> machine \<Rightarrow> machine" where
  "task_switch_from_to from_task to_task s = switch_to_tss (ld32 (ram s) (t_tss_sel to_task)) s"

definition task_dispatch :: "task_env \<Rightarrow> machine \<Rightarrow> machine" where
  "task_dispatch e s =
    (case irq_enter_protection s of (status, s) \<Rightarrow>
      let to_task = task_next_run e (ram s);
          s = (if to_task \<noteq> task_current e (ram s) then
                 let from_task = task_current e (ram s);
                     m = st32 (ram s) (curr_task e) to_task;
                     m = st32 m (t_state to_task) (state_code RUNNING)
                 in task_switch_from_to from_task to_task (s\<lparr>ram := m\<rparr>)
               else s)
      in irq_leave_protection status s)"

definition sys_sched_yield :: "task_env \<Rightarrow> machine \<Rightarrow> (machine \<times> c_int) option" where
  "sys_sched_yield e s =
    (case irq_enter_protection s of (status, s) \<Rightarrow>
      map_option (\<lambda>s. (irq_leave_protection status s, 0))
        (if sint (klist_count (ram s) (ready_list e)) > 1 then
           let cur = task_current e (ram s)
           in map_option (\<lambda>m. task_dispatch e (s\<lparr>ram := task_set_ready e m cur\<rparr>))
                (task_set_block e (ram s) cur)
         else Some s))"

text \<open>
  The two halves of \<open>task_time_tick\<close>: the time slice of the running task, and the loop over
  the sleeping tasks.
\<close>

definition tick_slice :: "task_env \<Rightarrow> machine \<Rightarrow> machine option" where
  "tick_slice e s =
    (let cur = task_current e (ram s);
         m = st32 (ram s) (t_slice_ticks cur) (ld32 (ram s) (t_slice_ticks cur) - 1)
     in if ld32 m (t_slice_ticks cur) = 0 then
          let m = st32 m (t_slice_ticks cur) (ld32 m (t_time_ticks cur))
          in map_option (\<lambda>m. task_dispatch e (s\<lparr>ram := task_set_ready e m cur\<rparr>))
               (task_set_block e m cur)
        else Some (s\<lparr>ram := m\<rparr>))"

partial_function (option) sleep_loop :: "task_env \<Rightarrow> mem \<Rightarrow> u32 \<Rightarrow> mem option" where
  "sleep_loop e m cur =
    (if cur = 0 then Some m
     else
       let task = KLIST_STRUCT_ADDR cur;
           next_node = klist_get_next_node m cur;
           m = st32 m (t_sleep_ticks task) (ld32 m (t_sleep_ticks task) - 1)
       in if ld32 m (t_sleep_ticks task) = 0 then
            Option.bind (task_set_wakeup e m task)
              (\<lambda>m. sleep_loop e (task_set_ready e m task) next_node)
          else sleep_loop e m next_node)"

definition task_time_tick :: "task_env \<Rightarrow> machine \<Rightarrow> machine option" where
  "task_time_tick e s =
    Option.bind (tick_slice e s) (\<lambda>s.
      map_option (\<lambda>m. task_dispatch e (s\<lparr>ram := m\<rparr>))
        (sleep_loop e (ram s) (klist_get_first_node (ram s) (sleep_list e))))"

text \<open>The argument is the address of the pointer \<open>curr_task\<close>, not the pointer.\<close>

definition sys_sleep :: "task_env \<Rightarrow> u32 \<Rightarrow> machine \<Rightarrow> machine option" where
  "sys_sleep e ms s =
    (case irq_enter_protection s of (status, s) \<Rightarrow>
      map_option (\<lambda>m. irq_leave_protection status (task_dispatch e (s\<lparr>ram :=
          task_set_sleep e m (curr_task e) (ms + c_div (OS_TICKS_MS e - 1) (OS_TICKS_MS e))\<rparr>)))
        (task_set_block e (ram s) (curr_task e)))"

partial_function (option) idle_task_entry :: "machine \<Rightarrow> machine option" where
  "idle_task_entry s = idle_task_entry (hlt s)"

section \<open>Creating tasks\<close>

definition tss_setup :: "task_env \<Rightarrow> mem \<Rightarrow> u32 \<Rightarrow> c_int \<Rightarrow> u32 \<Rightarrow> u32 \<Rightarrow> mem" where
  "tss_setup e m task tss_sel entry esp =
    (let m = gdt_segment_set (gdt_tab e) m (ucast tss_sel) sizeof_tss (t_tss task)
               (SEG_S_SYSTEM OR SEG_TYPE_TSS OR SEG_DPL0 OR SEG_P_PRESENT);
         m = set_reg m task Eip entry;
         m = set_reg m task Esp0 esp;
         m = set_reg m task Esp esp;
         m = set_reg m task Ss0 (ucast KERNEL_SELECTOR_DS);
         m = set_reg m task Ss (ucast KERNEL_SELECTOR_DS);
         m = set_reg m task Gs (ucast KERNEL_SELECTOR_CS);
         m = set_reg m task Fs (ucast KERNEL_SELECTOR_CS);
         m = set_reg m task Ds (ucast KERNEL_SELECTOR_CS);
         m = set_reg m task Es (ucast KERNEL_SELECTOR_CS);
         m = set_reg m task Cs (ucast KERNEL_SELECTOR_CS);
         m = set_reg m task Eflags (EFLAGS_DEFAULT OR EFLAGS_IF)
     in st32 m (t_tss_sel task) tss_sel)"

definition tss_init :: "task_env \<Rightarrow> u32 \<Rightarrow> c_int \<Rightarrow> u32 \<Rightarrow> u32 \<Rightarrow> machine \<Rightarrow> (machine \<times> c_int) option" where
  "tss_init e task flag entry esp s =
    (case gdt_alloc_desc e (kmemset (ram s) (t_tss task) 0 sizeof_tss) of (m, tss_sel) \<Rightarrow>
      if sint tss_sel < 0 then
        map_option (\<lambda>s. (s, - 1)) (klog_printf (log_fr e) (failed_msg e) (\<lambda>_. 0) (s\<lparr>ram := m\<rparr>))
      else Some (s\<lparr>ram := tss_setup e m task tss_sel entry esp\<rparr>, 0))"

text \<open>\<open>sizeof(name)\<close> is the size of a pointer: four bytes of the name are copied.\<close>

definition task_init :: "task_env \<Rightarrow> u32 \<Rightarrow> u32 \<Rightarrow> u32 \<Rightarrow> u32 \<Rightarrow> machine \<Rightarrow> (machine \<times> c_int) option" where
  "task_init e task name entry esp s =
    map_option (\<lambda>(s, _).
      let m = st32 (ram s) (t_state task) (state_code CREATED);
          m = kmemcpy m (t_name task) name 4;
          m = st32 m (t_time_ticks task) TASK_TIME_SLICE_DEFAULT;
          m = st32 m (t_slice_ticks task) (ld32 m (t_time_ticks task));
          m = klist_node_init m (t_run_node task);
          m = klist_node_init m (t_all_node task);
          m = task_set_ready e m task;
          m = klist_append m (task_list e) (t_all_node task)
      in (s\<lparr>ram := m\<rparr>, 0))
     (tss_init e task entry esp (missing_arg e) s)"

definition task_manager_init :: "task_env \<Rightarrow> machine \<Rightarrow> machine option" where
  "task_manager_init e s =
    (let m = klist_init (ram s) (ready_list e);
         m = klist_init m (task_list e);
         m = klist_init m (sleep_list e);
         m = st32 m (curr_task e) 0
     in map_option fst (task_init e (idle_task e) (idle_name e) (idle_code e)
                          (idle_task_stack e + 4 * IDLE_TASK_SIZE) (s\<lparr>ram := m\<rparr>)))"

definition task_first_init :: "task_env \<Rightarrow> machine \<Rightarrow> machine option" where
  "task_first_init e s =
    map_option (\<lambda>(s, _).
      let s = ltr (ld32 (ram s) (t_tss_sel (first_task e))) s
      in s\<lparr>ram := st32 (ram s) (curr_task e) (first_task e)\<rparr>)
     (task_init e (first_task e) (first_name e) 0 0 s)"

section \<open>The interrupt flag around the scheduler\<close>

lemma irq_keeps [simp]:
  "ram (snd (irq_enter_protection s)) = ram s" "trace (snd (irq_enter_protection s)) = trace s"
  "ram (irq_leave_protection st s) = ram s" "trace (irq_leave_protection st s) = trace s"
  by (simp_all add: irq_enter_protection_def irq_leave_protection_def irq_set_status_def irq_enable_def
      irq_disable_def cli_def sti_def Let_def)

lemma irq_restore:
  "get_irq_status (irq_leave_protection (fst (irq_enter_protection s)) s') = get_irq_status s"
proof -
  have "get_irq_status (protected irq_enter_protection irq_leave_protection (\<lambda>_. s') s) = INTR_ON
      \<longleftrightarrow> get_irq_status s = INTR_ON"
    by (rule irqs.flag_restored)
  then have "get_irq_status (irq_leave_protection (fst (irq_enter_protection s)) s') = INTR_ON
      \<longleftrightarrow> get_irq_status s = INTR_ON"
    by (simp add: protected_def split_beta)
  then show ?thesis by (metis irq_status.exhaust)
qed

lemma task_dispatch_eqs:
  fixes e s
  defines "to_task \<equiv> task_next_run e (ram s)"
  defines "m \<equiv> st32 (st32 (ram s) (curr_task e) to_task) (t_state to_task) (state_code RUNNING)"
  shows "ram (task_dispatch e s) = (if to_task \<noteq> task_current e (ram s) then m else ram s)"
    and "trace (task_dispatch e s) = trace s
      @ (if to_task \<noteq> task_current e (ram s) then [FarJmp (ld32 m (t_tss_sel to_task)) 0] else [])"
    and "get_irq_status (task_dispatch e s) = get_irq_status s"
  by (simp_all add: task_dispatch_def split_beta Let_def irq_restore m_def to_task_def
      task_switch_from_to_def switch_to_tss_def far_jmp_def)

section \<open>The ready queue\<close>

text \<open>
  The tasks \<open>ts\<close> stand in the ready queue, in order; the words of their structures the
  scheduler uses besides the queue node, and the pointer to the running task, are apart.
\<close>

definition task_words :: "u32 \<Rightarrow> u32 set" where
  "task_words t = {t_state t, t_sleep_ticks t, t_slice_ticks t, t_time_ticks t, t_tss_sel t}"

definition ready_cells :: "task_env \<Rightarrow> u32 list \<Rightarrow> u32 set" where
  "ready_cells e ts = list_cells (ready_list e) (map t_run_node ts)"

definition tasks_apart :: "task_env \<Rightarrow> u32 list \<Rightarrow> bool" where
  "tasks_apart e ts \<longleftrightarrow> aligned4 (tm e) \<and> tm e \<notin> ready_cells e ts \<and> length ts < 2 ^ 31
     \<and> (\<forall>t\<in>set ts. aligned4 t \<and> t \<noteq> idle_task e
          \<and> (\<forall>w\<in>task_words t. w \<noteq> tm e \<and> w \<notin> ready_cells e ts)
          \<and> (\<forall>u\<in>set ts. u \<noteq> t \<longrightarrow> task_words t \<inter> task_words u = {}))"

definition queued :: "task_env \<Rightarrow> mem \<Rightarrow> u32 list \<Rightarrow> bool" where
  "queued e m ts \<longleftrightarrow> tasks_apart e ts \<and> dlist m (ready_list e) (map t_run_node ts)"

lemma ready_cells_set: "set xs = set ys \<Longrightarrow> ready_cells e xs = ready_cells e ys"
  by (simp add: ready_cells_def list_cells_def list_nodes_def)

lemma tasks_apart_set: "set xs = set ys \<Longrightarrow> length xs = length ys \<Longrightarrow> tasks_apart e xs = tasks_apart e ys"
  using ready_cells_set [of xs ys e] by (simp add: tasks_apart_def)

lemma task_words_aligned: "aligned4 t \<Longrightarrow> w \<in> task_words t \<Longrightarrow> aligned4 w"
  by (auto simp: task_words_def task_fields align_simps)

lemma state_word: "t \<in> task_words t"
  by (simp add: task_words_def task_fields)

text \<open>The state of one task is no word of another, and no other word of its own.\<close>

lemma words_not_state:
  "tasks_apart e ts \<Longrightarrow> t \<in> set ts \<Longrightarrow> u \<in> set ts \<Longrightarrow> w \<in> task_words t \<Longrightarrow> w \<noteq> t \<Longrightarrow> w \<noteq> u"
  unfolding tasks_apart_def using state_word by blast

lemma queued_aligned: "queued e m ts \<Longrightarrow> c \<in> ready_cells e ts \<Longrightarrow> aligned4 c"
  using list_cells_aligned by (auto simp: queued_def ready_cells_def)

text \<open>A store to a word outside the queue.\<close>

lemma queued_store:
  assumes "queued e m ts" "aligned4 a" "a \<notin> ready_cells e ts"
  shows "queued e (st32 m a v) ts"
proof -
  have "unchanged_outside {a} m (st32 m a v)" by (intro frame_intros) simp
  from dlist_frame [OF _ this] show ?thesis
    using assms by (simp add: queued_def ready_cells_def)
qed

lemma node_task [simp]: "KLIST_STRUCT_ADDR (t_run_node t) = (if t_run_node t = 0 then 0 else t)"
  by (simp add: KLIST_STRUCT_ADDR_def t_run_node_def)

lemma queued_next:
  assumes "queued e m ts"
  shows "task_next_run e m = (if ts = [] then idle_task e else hd ts)"
    and "sint (klist_count m (ready_list e)) = int (length ts)"
proof -
  have d: "dlist m (ready_list e) (map t_run_node ts)" and n: "length ts < 2 ^ 31"
    using assms by (simp_all add: queued_def tasks_apart_def)
  have len: "klist_len m (ready_list e) = of_nat (length ts)" using d by (simp add: dlist_def klist_len_def)
  show "sint (klist_count m (ready_list e)) = int (length ts)"
    using n by (simp add: klist_count_len len sint_of_nat)
  have "klist_len m (ready_list e) = 0 \<longleftrightarrow> ts = []"
    using klist_empty_dlist [OF d] by (simp add: klist_empty_def)
  moreover have "klist_get_first_node m (ready_list e) = t_run_node (hd ts) \<and> t_run_node (hd ts) \<noteq> 0"
    if "ts \<noteq> []"
  proof -
    have "t_run_node (hd ts) \<in> set (list_nodes (ready_list e) (map t_run_node ts))"
      using that by (simp add: list_nodes_def)
    then have "t_run_node (hd ts) \<noteq> 0" using d by (auto simp: dlist_def sep_nodes_def)
    with that show ?thesis using klist_ends_dlist(1) [OF d] by (cases ts) (simp_all add: node_after_def)
  qed
  ultimately show "task_next_run e m = (if ts = [] then idle_task e else hd ts)"
    by (auto simp: task_next_run_def Let_def)
qed

text \<open>Blocking a queued task and making it ready again moves it to the end.\<close>

lemma block_ready:
  assumes "queued e m (as @ t # bs)"
  shows "\<exists>m'. task_set_block e m t = Some m' \<and> queued e (task_set_ready e m' t) (as @ bs @ [t])
    \<and> ld32 (task_set_ready e m' t) (t_state t) = state_code READY
    \<and> unchanged_outside (insert t (ready_cells e (as @ t # bs))) m (task_set_ready e m' t)"
proof -
  let ?l = "ready_list e" and ?n = "t_run_node t"
  let ?as = "map t_run_node as" and ?bs = "map t_run_node bs"
  have d: "dlist m ?l (?as @ ?n # ?bs)" and apart: "tasks_apart e (as @ t # bs)"
    using assms by (simp_all add: queued_def)
  have t: "t \<noteq> idle_task e" "aligned4 t" "t \<notin> ready_cells e (as @ t # bs)"
    using apart state_word [of t] by (simp_all add: tasks_apart_def)
  let ?m1 = "klist_unlink m ?l ?n" let ?m2 = "klist_append ?m1 ?l ?n" let ?m3 = "st32 ?m2 t (state_code READY)"
  have b: "task_set_block e m t = Some ?m1"
    using t(1) klist_remove_found [OF d] by (simp add: task_set_block_def)
  have r: "task_set_ready e ?m1 t = ?m3" using t(1) by (simp add: task_set_ready_def t_state_def)
  have d1: "dlist ?m1 ?l (?as @ ?bs)" by (rule klist_unlink_dlist [OF d])
  have f: "fresh_node ?l (?as @ ?bs) ?n" by (rule removed_node_fresh [OF d])
  have d2: "dlist ?m2 ?l (map t_run_node (as @ bs @ [t]))" using klist_append_dlist [OF d1 f] by simp
  have cells: "ready_cells e (as @ bs @ [t]) = ready_cells e (as @ t # bs)" by (rule ready_cells_set) auto
  have "tasks_apart e (as @ bs @ [t])" using apart by (subst tasks_apart_set [of _ "as @ t # bs"]) auto
  with d2 have q2: "queued e ?m2 (as @ bs @ [t])" by (simp add: queued_def)
  have "unchanged_outside (ready_cells e (as @ t # bs)) m ?m1"
    using klist_unlink_frame [OF d] by (simp add: ready_cells_def)
  moreover have "unchanged_outside (ready_cells e (as @ t # bs)) ?m1 ?m2"
    using klist_append_frame [OF d1 f] cells by (simp add: ready_cells_def)
  ultimately have u: "unchanged_outside (ready_cells e (as @ t # bs)) m ?m2" by (rule unchanged_trans)
  have "unchanged_outside (insert t (ready_cells e (as @ t # bs))) m ?m3"
    by (rule unchanged_st32) (use unchanged_mono [OF u] in auto)
  have "queued e ?m3 (as @ bs @ [t])" by (rule queued_store [OF q2]) (use t(2,3) cells in simp_all)
  with b r \<open>unchanged_outside _ m ?m3\<close> show ?thesis by (intro exI [of _ ?m1]) (simp add: t_state_def ld32_st32)
qed

section \<open>Yielding\<close>

text \<open>The running task is the first of the queue.\<close>

definition sched_ok :: "task_env \<Rightarrow> mem \<Rightarrow> u32 list \<Rightarrow> bool" where
  "sched_ok e m ts \<longleftrightarrow> queued e m ts \<and> ts \<noteq> [] \<and> task_current e m = hd ts"

lemma words_in_queue:
  assumes "tasks_apart e ts" "t \<in> set ts" "w \<in> task_words t"
  shows "aligned4 w" "w \<noteq> tm e" "w \<notin> ready_cells e ts"
  using assms task_words_aligned unfolding tasks_apart_def by blast+

lemma queued_distinct: "queued e m ts \<Longrightarrow> distinct ts"
  by (auto simp: queued_def dlist_def list_nodes_def t_run_node_def distinct_map inj_on_def)

text \<open>The words a change of the running task may write.\<close>

definition queue_frame :: "task_env \<Rightarrow> u32 list \<Rightarrow> u32 set" where
  "queue_frame e ts = insert (tm e) (ready_cells e ts \<union> set ts)"

lemma queue_frame_aligned:
  assumes "queued e m ts" "c \<in> queue_frame e ts"
  shows "aligned4 c"
  using assms queued_aligned [OF assms(1)] by (auto simp: queue_frame_def queued_def tasks_apart_def)

lemma queue_frame_words:
  assumes "tasks_apart e ts" "t \<in> set ts" "w \<in> task_words t" "w \<noteq> t"
  shows "w \<notin> queue_frame e ts"
  using words_in_queue [OF assms(1-3)] words_not_state [OF assms(1,2) _ assms(3,4)] by (auto simp: queue_frame_def)

text \<open>The dispatcher makes the first task of the queue the running one.\<close>

lemma dispatch_first:
  assumes q: "queued e m (u # us)" and c: "task_current e m = t"
  shows "sched_ok e (ram (task_dispatch e (s\<lparr>ram := m\<rparr>))) (u # us)"
    and "u \<noteq> t \<Longrightarrow> ld32 (ram (task_dispatch e (s\<lparr>ram := m\<rparr>))) (t_state u) = state_code RUNNING"
    and "u = t \<Longrightarrow> ram (task_dispatch e (s\<lparr>ram := m\<rparr>)) = m"
    and "trace (task_dispatch e (s\<lparr>ram := m\<rparr>)) = trace s @ (if u = t then [] else [FarJmp (ld32 m (t_tss_sel u)) 0])"
    and "get_irq_status (task_dispatch e (s\<lparr>ram := m\<rparr>)) = get_irq_status s"
    and "unchanged_outside {tm e, u} m (ram (task_dispatch e (s\<lparr>ram := m\<rparr>)))"
proof -
  let ?m1 = "st32 m (tm e) u" let ?m2 = "st32 ?m1 u (state_code RUNNING)"
  have n: "task_next_run e m = u" using queued_next(1) [OF q] by simp
  have apart: "tasks_apart e (u # us)" and tm: "aligned4 (tm e)" "tm e \<notin> ready_cells e (u # us)"
    using q by (simp_all add: queued_def tasks_apart_def)
  have u: "u \<in> set (u # us)" by simp
  note w = words_in_queue [OF apart u state_word]
  have r: "ram (task_dispatch e (s\<lparr>ram := m\<rparr>)) = (if u = t then m else ?m2)"
    by (simp add: task_dispatch_eqs(1) n c curr_task_def t_state_def)
  show "get_irq_status (task_dispatch e (s\<lparr>ram := m\<rparr>)) = get_irq_status s"
    by (subst task_dispatch_eqs(3)) (simp add: get_irq_status_def)
  show "u = t \<Longrightarrow> ram (task_dispatch e (s\<lparr>ram := m\<rparr>)) = m" by (simp add: r)
  show "u \<noteq> t \<Longrightarrow> ld32 (ram (task_dispatch e (s\<lparr>ram := m\<rparr>))) (t_state u) = state_code RUNNING"
    by (simp add: r t_state_def ld32_st32)
  show "unchanged_outside {tm e, u} m (ram (task_dispatch e (s\<lparr>ram := m\<rparr>)))"
    unfolding r by (auto intro!: frame_intros)
  have "queued e ?m2 (u # us)" by (rule queued_store [OF queued_store [OF q tm] w(1,3)])
  moreover have "ld32 ?m2 (tm e) = u" using w tm(1) by (simp add: ld32_st32_other ld32_st32)
  ultimately show "sched_ok e (ram (task_dispatch e (s\<lparr>ram := m\<rparr>))) (u # us)"
    using q c by (cases "u = t") (simp_all add: r sched_ok_def task_current_def curr_task_def)
  have "t_tss_sel u \<in> task_words u" "t_tss_sel u \<noteq> u" by (simp_all add: task_words_def task_fields)
  then have "ld32 ?m2 (t_tss_sel u) = ld32 m (t_tss_sel u)"
    using words_in_queue [OF apart u, of "t_tss_sel u"] w tm(1) by (simp add: ld32_st32_other not_sym)
  then show "trace (task_dispatch e (s\<lparr>ram := m\<rparr>)) = trace s @ (if u = t then [] else [FarJmp (ld32 m (t_tss_sel u)) 0])"
    by (simp add: task_dispatch_eqs(2) n c curr_task_def t_state_def)
qed

lemma requeue_dispatch:
  assumes "sched_ok e m (t # ts)"
  shows "\<exists>m1. task_set_block e m t = Some m1 \<and> (\<forall>s.
    let s' = task_dispatch e (s\<lparr>ram := task_set_ready e m1 t\<rparr>)
    in sched_ok e (ram s') (ts @ [t]) \<and> ld32 (ram s') (t_state t) = state_code READY
      \<and> (ts \<noteq> [] \<longrightarrow> ld32 (ram s') (t_state (hd ts)) = state_code RUNNING)
      \<and> trace s' = trace s @ (if ts = [] then [] else [FarJmp (ld32 m (t_tss_sel (hd ts))) 0])
      \<and> get_irq_status s' = get_irq_status s
      \<and> unchanged_outside (queue_frame e (t # ts)) m (ram s')
      \<and> (\<forall>v\<in>set (t # ts). \<forall>w\<in>task_words v. w \<noteq> v \<longrightarrow> ld32 (ram s') w = ld32 m w))"
proof -
  let ?ts = "t # ts" and ?F = "queue_frame e (t # ts)"
  have q: "queued e m ?ts" and c: "task_current e m = t" using assms by (simp_all add: sched_ok_def)
  obtain m1 where m1: "task_set_block e m t = Some m1" "queued e (task_set_ready e m1 t) (ts @ [t])"
      "ld32 (task_set_ready e m1 t) (t_state t) = state_code READY"
      "unchanged_outside (insert t (ready_cells e ?ts)) m (task_set_ready e m1 t)"
    using block_ready [of e m "[]" t ts] q by auto
  let ?m2 = "task_set_ready e m1 t" and ?u = "hd (ts @ [t])"
  have apart: "tasks_apart e ?ts" using q by (simp add: queued_def)
  have al: "\<forall>c\<in>?F. aligned4 c" using queue_frame_aligned [OF q] by blast
  have f2: "unchanged_outside ?F m ?m2" by (rule unchanged_mono [OF m1(4)]) (auto simp: queue_frame_def)
  have keep: "ld32 m' w = ld32 m w" if "unchanged_outside ?F m m'" "v \<in> set ?ts" "w \<in> task_words v" "w \<noteq> v" for m' v w
    using unchanged_ld32 [OF that(1) al words_in_queue(1) [OF apart that(2,3)] queue_frame_words [OF apart that(2-4)]] .
  have "tm e \<notin> insert t (ready_cells e ?ts)" "aligned4 (tm e)"
    using apart words_in_queue(2) [OF apart, of t t] state_word by (auto simp: tasks_apart_def)
  moreover have "\<forall>c\<in>insert t (ready_cells e ?ts). aligned4 c" using al by (simp add: queue_frame_def)
  ultimately have c2: "task_current e ?m2 = t"
    using unchanged_ld32 [OF m1(4), of "tm e"] c by (simp add: task_current_def curr_task_def)
  obtain us where us: "ts @ [t] = ?u # us" by (cases ts) auto
  have "queued e ?m2 (?u # us)" unfolding us [symmetric] by (rule m1(2))
  note d = dispatch_first [OF this c2]
  have u: "?u = t \<longleftrightarrow> ts = []" "?u \<in> set ?ts" using queued_distinct [OF q] by (cases ts; auto)+
  have f3: "unchanged_outside ?F m (ram (task_dispatch e (s\<lparr>ram := ?m2\<rparr>)))" for s
    by (rule unchanged_trans [OF f2 unchanged_mono [OF d(6)]]) (use u(2) in \<open>auto simp: queue_frame_def\<close>)
  have "t \<notin> {tm e, ?u} \<or> ts = []" using words_in_queue(2) [OF apart, of t t] state_word u by auto
  then have "ld32 (ram (task_dispatch e (s\<lparr>ram := ?m2\<rparr>))) (t_state t) = state_code READY" for s
  proof
    assume "t \<notin> {tm e, ?u}"
    moreover have "\<forall>c\<in>{tm e, ?u}. aligned4 c" "aligned4 t" using al u(2) by (auto simp: queue_frame_def)
    ultimately show ?thesis using unchanged_ld32 [OF d(6), of t] m1(3) by (simp add: t_state_def)
  next
    assume "ts = []"
    then show ?thesis using d(3) u(1) m1(3) by simp
  qed
  moreover have "ld32 ?m2 (t_tss_sel ?u) = ld32 m (t_tss_sel ?u)"
    by (rule keep [OF f2 u(2)]) (simp_all add: task_words_def task_fields)
  moreover have "\<forall>v\<in>set ?ts. \<forall>w\<in>task_words v. w \<noteq> v \<longrightarrow>
      ld32 (ram (task_dispatch e (s\<lparr>ram := ?m2\<rparr>))) w = ld32 m w" for s
    using keep [OF f3] by blast
  ultimately show ?thesis using m1(1) d(1) [folded us] d(2,4,5) u(1) f3
    by (intro exI [of _ m1] conjI allI) (auto simp: Let_def)
qed

lemma yield_alone: "sched_ok e (ram s) [t] \<Longrightarrow> \<exists>s'. sys_sched_yield e s = Some (s', 0)
    \<and> ram s' = ram s \<and> trace s' = trace s \<and> get_irq_status s' = get_irq_status s"
  using queued_next(2) [of e "ram s" "[t]"]
  by (simp add: sys_sched_yield_def split_beta sched_ok_def irq_restore)

lemma yield_step:
  assumes "sched_ok e (ram s) (t # u # ts)"
  shows "\<exists>s'. sys_sched_yield e s = Some (s', 0) \<and> sched_ok e (ram s') (u # ts @ [t])
    \<and> ld32 (ram s') (t_state u) = state_code RUNNING \<and> ld32 (ram s') (t_state t) = state_code READY
    \<and> trace s' = trace s @ [FarJmp (ld32 (ram s) (t_tss_sel u)) 0]
    \<and> get_irq_status s' = get_irq_status s
    \<and> unchanged_outside (queue_frame e (t # u # ts)) (ram s) (ram s')"
proof -
  have c: "task_current e (ram s) = t" and q: "queued e (ram s) (t # u # ts)"
    using assms by (simp_all add: sched_ok_def)
  obtain m1 where b: "task_set_block e (ram s) t = Some m1" and
    d: "\<And>s0. let s' = task_dispatch e (s0\<lparr>ram := task_set_ready e m1 t\<rparr>)
      in sched_ok e (ram s') (u # ts @ [t]) \<and> ld32 (ram s') (t_state t) = state_code READY
      \<and> ld32 (ram s') (t_state u) = state_code RUNNING
      \<and> trace s' = trace s0 @ [FarJmp (ld32 (ram s) (t_tss_sel u)) 0]
      \<and> unchanged_outside (queue_frame e (t # u # ts)) (ram s) (ram s')"
    using requeue_dispatch [OF assms] by (auto simp: Let_def)
  let ?d = "task_dispatch e (snd (irq_enter_protection s)\<lparr>ram := task_set_ready e m1 t\<rparr>)"
  have "sint (klist_count (ram s) (ready_list e)) > 1" using queued_next(2) [OF q] by simp
  then have y: "sys_sched_yield e s = Some (irq_leave_protection (fst (irq_enter_protection s)) ?d, 0)"
    by (simp add: sys_sched_yield_def split_beta c b)
  with y d [of "snd (irq_enter_protection s)"] irq_restore [of s ?d] show ?thesis
    by (simp add: Let_def)
qed

lemma yield_rotate1:
  assumes "sched_ok e (ram s) ts"
  shows "\<exists>s'. sys_sched_yield e s = Some (s', 0) \<and> sched_ok e (ram s') (rotate1 ts)
    \<and> get_irq_status s' = get_irq_status s \<and> unchanged_outside (queue_frame e ts) (ram s) (ram s')
    \<and> (if length ts = 1 then ram s' = ram s \<and> trace s' = trace s
       else ld32 (ram s') (t_state (hd ts)) = state_code READY
         \<and> ld32 (ram s') (t_state (ts ! 1)) = state_code RUNNING
         \<and> trace s' = trace s @ [FarJmp (ld32 (ram s) (t_tss_sel (ts ! 1))) 0])"
proof -
  have "ts \<noteq> []" using assms by (simp add: sched_ok_def)
  then consider t where "ts = [t]" | t u us where "ts = t # u # us" by (metis list.exhaust)
  then show ?thesis
  proof cases
    case 1
    with yield_alone [of e s] assms show ?thesis by (fastforce intro: unchanged_refl)
  next
    case 2
    with yield_step [of e s] assms show ?thesis by fastforce
  qed
qed

lemma tick_slice_step:
  assumes "sched_ok e (ram s) ts" and "t = hd ts" "n = ld32 (ram s) (t_slice_ticks t)"
  shows "\<exists>s'. tick_slice e s = Some s' \<and> get_irq_status s' = get_irq_status s
    \<and> (if n = 1 then sched_ok e (ram s') (rotate1 ts)
         \<and> ld32 (ram s') (t_slice_ticks t) = ld32 (ram s) (t_time_ticks t)
         \<and> trace s' = trace s @ (if length ts = 1 then [] else [FarJmp (ld32 (ram s) (t_tss_sel (ts ! 1))) 0])
       else ram s' = st32 (ram s) (t_slice_ticks t) (n - 1) \<and> sched_ok e (ram s') ts \<and> trace s' = trace s)
    \<and> unchanged_outside (insert (t_slice_ticks t) (queue_frame e ts)) (ram s) (ram s')"
proof -
  obtain us where ts: "ts = t # us" using assms(1,2) by (cases ts) (simp_all add: sched_ok_def)
  let ?sl = "t_slice_ticks t"
  have w: "?sl \<in> task_words t" "t_time_ticks t \<in> task_words t" "?sl \<noteq> t_time_ticks t" "?sl \<noteq> t"
    by (simp_all add: task_words_def task_fields)
  have apart: "tasks_apart e ts" and q: "queued e (ram s) ts" and c: "task_current e (ram s) = t"
    using assms(1,2) by (simp_all add: sched_ok_def queued_def)
  have al: "aligned4 t" using apart by (simp add: tasks_apart_def ts)
  have sl: "aligned4 ?sl" "?sl \<noteq> tm e" "?sl \<notin> ready_cells e ts" "aligned4 (t_time_ticks t)" "aligned4 (tm e)"
    using apart w task_words_aligned [OF al] by (auto simp: tasks_apart_def ts)
  have keep: "sched_ok e (st32 m ?sl v) ts" if "sched_ok e m ts" for m v
    using that queued_store [OF _ sl(1,3)] sl
    by (simp add: sched_ok_def task_current_def curr_task_def ld32_st32_other)
  have dec: "ld32 (st32 (ram s) ?sl (n - 1)) ?sl = n - 1"
    "ld32 (st32 (ram s) ?sl (n - 1)) (t_time_ticks t) = ld32 (ram s) (t_time_ticks t)"
    using sl w(3) by (simp_all add: ld32_st32 ld32_st32_other)
  show ?thesis
  proof (cases "n = 1")
    case True
    let ?m = "st32 (st32 (ram s) ?sl (n - 1)) ?sl (ld32 (ram s) (t_time_ticks t))"
    have "sched_ok e ?m (t # us)" using keep [OF keep [OF assms(1)]] ts by simp
    from requeue_dispatch [OF this] obtain m1 where b: "task_set_block e ?m t = Some m1" and
      d: "let s' = task_dispatch e (s\<lparr>ram := task_set_ready e m1 t\<rparr>)
        in sched_ok e (ram s') (us @ [t]) \<and> get_irq_status s' = get_irq_status s
          \<and> trace s' = trace s @ (if us = [] then [] else [FarJmp (ld32 ?m (t_tss_sel (hd us))) 0])
          \<and> unchanged_outside (queue_frame e ts) ?m (ram s')
          \<and> (\<forall>w\<in>task_words t. w \<noteq> t \<longrightarrow> ld32 (ram s') w = ld32 ?m w)"
      by (auto simp: Let_def ts)
    have "unchanged_outside {?sl} (ram s) ?m" by (intro frame_intros) simp_all
    then have f: "unchanged_outside (insert ?sl (queue_frame e ts)) (ram s) ?m" by (rule unchanged_mono) simp
    have f': "unchanged_outside (insert ?sl (queue_frame e ts)) (ram s) m'" if "unchanged_outside (queue_frame e ts) ?m m'" for m'
      by (rule unchanged_trans [OF f unchanged_mono [OF that]]) auto
    have sel: "ld32 ?m (t_tss_sel (hd us)) = ld32 (ram s) (t_tss_sel (hd us))" if "us \<noteq> []"
    proof -
      have "hd us \<in> set ts" "hd us \<noteq> t" using that ts queued_distinct [OF q] by (auto simp: hd_in_set)
      moreover have "t_tss_sel (hd us) \<in> task_words (hd us)" by (simp add: task_words_def)
      ultimately have "t_tss_sel (hd us) \<notin> task_words t" "aligned4 (t_tss_sel (hd us))"
        using apart words_in_queue(1) [OF apart] ts unfolding tasks_apart_def by (auto simp: disjoint_iff)
      moreover from this(1) w(1) have "?sl \<noteq> t_tss_sel (hd us)" by auto
      ultimately show ?thesis using sl(1) by (simp add: ld32_st32_other)
    qed
    have "tick_slice e s = Some (task_dispatch e (s\<lparr>ram := task_set_ready e m1 t\<rparr>))"
      using True b c dec by (simp add: tick_slice_def Let_def assms(3) [symmetric])
    with d w True ts sel f' show ?thesis by (auto simp: Let_def ld32_st32 hd_conv_nth)
  next
    case False
    then have "n - 1 \<noteq> 0" by simp
    moreover have "unchanged_outside (insert ?sl (queue_frame e ts)) (ram s) (st32 (ram s) ?sl (n - 1))"
      by (intro frame_intros) simp
    ultimately show ?thesis using False dec c keep [OF assms(1)]
      by (simp add: tick_slice_def Let_def assms(3) [symmetric] get_irq_status_def)
  qed
qed

section \<open>Theorems about the running queue\<close>

text \<open>
  C24: \<open>sys_sched_yield\<close> implements a rotation of the queue of ready tasks: the running
  task goes to the end and becomes ready, the next one becomes the running task and the
  processor is sent to its task-state segment; a task that is alone goes on.  The interrupt
  flag is restored.
\<close>

theorem sys_sched_yield_rotates:
  assumes "sched_ok e (ram s) ts"
  shows "\<exists>s'. sys_sched_yield e s = Some (s', 0) \<and> sched_ok e (ram s') (rotate1 ts)
    \<and> get_irq_status s' = get_irq_status s
    \<and> (if length ts = 1 then ram s' = ram s \<and> trace s' = trace s
       else ld32 (ram s') (t_state (hd ts)) = state_code READY
         \<and> ld32 (ram s') (t_state (ts ! 1)) = state_code RUNNING
         \<and> trace s' = trace s @ [FarJmp (ld32 (ram s) (t_tss_sel (ts ! 1))) 0])"
  using yield_rotate1 [OF assms] by blast

fun yields :: "task_env \<Rightarrow> nat \<Rightarrow> machine \<Rightarrow> machine option" where
  "yields e 0 s = Some s"
| "yields e (Suc k) s = Option.bind (sys_sched_yield e s) (\<lambda>(s, _). yields e k s)"

lemma yields_rotate:
  "sched_ok e (ram s) ts \<Longrightarrow> \<exists>s'. yields e k s = Some s' \<and> sched_ok e (ram s') (rotate k ts)
     \<and> get_irq_status s' = get_irq_status s"
proof (induction k arbitrary: s ts)
  case (Suc k)
  obtain s1 where s1: "sys_sched_yield e s = Some (s1, 0)" "sched_ok e (ram s1) (rotate1 ts)"
      "get_irq_status s1 = get_irq_status s" using yield_rotate1 [OF Suc.prems] by blast
  from Suc.IH [OF s1(2)] s1(1,3) show ?case by (simp add: rotate1_rotate_swap)
qed simp

text \<open>
  C28: scheduling is round robin: after \<open>k\<close> yields the running task is the one that stood
  \<open>k\<close> places (modulo the number of tasks) behind the first; so every ready task runs within
  as many yields as there are others.
\<close>

theorem yield_round_robin:
  assumes "sched_ok e (ram s) ts"
  shows "\<exists>s'. yields e k s = Some s' \<and> task_current e (ram s') = ts ! (k mod length ts)
    \<and> sched_ok e (ram s') (rotate k ts)"
proof -
  obtain s' where s': "yields e k s = Some s'" "sched_ok e (ram s') (rotate k ts)"
    using yields_rotate [OF assms] by blast
  have "ts \<noteq> []" using assms by (simp add: sched_ok_def)
  then have "hd (rotate k ts) = ts ! (k mod length ts)" by (rule hd_rotate_conv_nth)
  with s' show ?thesis by (auto simp: sched_ok_def)
qed

text \<open>
  the time slice of the running task: each tick takes one from it; when it reaches
  zero it is reloaded and the task goes to the end of the queue, the next one becoming the
  running task; before that nothing else changes.
\<close>

theorem tick_slice_correct:
  assumes "sched_ok e (ram s) ts" and "t = hd ts" "n = ld32 (ram s) (t_slice_ticks t)"
  shows "\<exists>s'. tick_slice e s = Some s' \<and> get_irq_status s' = get_irq_status s
    \<and> (if n = 1 then sched_ok e (ram s') (rotate1 ts)
         \<and> ld32 (ram s') (t_slice_ticks t) = ld32 (ram s) (t_time_ticks t)
       else ram s' = st32 (ram s) (t_slice_ticks t) (n - 1) \<and> sched_ok e (ram s') ts \<and> trace s' = trace s)"
  using tick_slice_step [OF assms] by (auto split: if_splits)

section \<open>A concrete queue\<close>

definition sample_env :: task_env where
  "sample_env = \<lparr>tm = 0x1000, gdt_tab = 0x8000, idle_code = 0x20000, idle_task_stack = 0x30000,
     gdt_alloc_desc = (\<lambda>m. (m, 40)), OS_TICKS_MS = 10, missing_arg = 0, log_fr = sample_frame,
     failed_msg = 0x6000, idle_name = 0x6100, first_name = 0x6200\<rparr>"

definition sample_queue :: mem where
  "sample_queue = klist_append (klist_append (klist_init (\<lambda>_. 0) 0x1004) 0x1004 0x2030) 0x1004 0x3030"

definition sample_sched :: mem where
  "sample_sched = st32 (st32 (st32 sample_queue 0x1000 0x2000) 0x2028 1) 0x202C 10"

lemma sample_sched_ok: "sched_ok sample_env sample_sched [0x2000, 0x3000]"
proof -
  note numeric = sep_nodes_def fresh_node_def list_nodes_def aligned4_numeral
  have "dlist (klist_init (\<lambda>_. 0) 0x1004) 0x1004 []" by (rule klist_init_dlist) (simp add: numeric)
  from klist_append_dlist [OF this, of "0x2030"]
  have "dlist (klist_append (klist_init (\<lambda>_. 0) 0x1004) 0x1004 0x2030) 0x1004 [0x2030]" by (simp add: numeric)
  from klist_append_dlist [OF this, of "0x3030"]
  have d: "dlist sample_queue 0x1004 [0x2030, 0x3030]" by (simp add: numeric sample_queue_def)
  have cells: "ready_cells sample_env [0x2000, 0x3000]
      = {0x1014, 0x1004, 0x1008, 0x2030, 0x2034, 0x3030, 0x3034, 0x100C, 0x1010}"
    by (auto simp: ready_cells_def list_cells_def list_nodes_def sample_env_def manager_fields t_run_node_def)
  have "tasks_apart sample_env [0x2000, 0x3000]"
    unfolding tasks_apart_def cells
    by (simp add: sample_env_def task_words_def task_fields manager_fields aligned4_numeral)
  with d have "queued sample_env sample_queue [0x2000, 0x3000]"
    by (simp add: queued_def sample_env_def manager_fields t_run_node_def)
  then have "queued sample_env sample_sched [0x2000, 0x3000]"
    unfolding sample_sched_def by (intro queued_store) (simp_all add: cells aligned4_numeral)
  moreover have "task_current sample_env sample_sched = 0x2000"
    by (simp add: task_current_def manager_fields sample_env_def sample_sched_def mem_simps aligned4_numeral)
  ultimately show ?thesis by (simp add: sched_ok_def)
qed

theorem sys_sched_yield_rotates_witness:
  "\<exists>s'. sys_sched_yield sample_env (sample_machine\<lparr>ram := sample_sched\<rparr>) = Some (s', 0)
     \<and> task_current sample_env (ram s') = 0x3000"
  using sys_sched_yield_rotates [of sample_env "sample_machine\<lparr>ram := sample_sched\<rparr>" "[0x2000, 0x3000]"]
    sample_sched_ok by (auto simp: sched_ok_def)

theorem yield_round_robin_witness:
  "\<exists>s'. yields sample_env 5 (sample_machine\<lparr>ram := sample_sched\<rparr>) = Some s'
     \<and> task_current sample_env (ram s') = 0x3000"
proof -
  have l: "length [0x2000, 0x3000 :: u32] = 2" by simp
  have "[0x2000, 0x3000 :: u32] ! (5 mod length [0x2000, 0x3000 :: u32]) = 0x3000" unfolding l by simp
  then show ?thesis
    using yield_round_robin [of sample_env "sample_machine\<lparr>ram := sample_sched\<rparr>" "[0x2000, 0x3000]" 5]
      sample_sched_ok by fastforce
qed

theorem tick_slice_correct_witness:
  "\<exists>s'. tick_slice sample_env (sample_machine\<lparr>ram := sample_sched\<rparr>) = Some s'
     \<and> task_current sample_env (ram s') = 0x3000 \<and> ld32 (ram s') 0x2028 = 10"
proof -
  have "ld32 sample_sched 0x2028 = 1" "ld32 sample_sched 0x202C = 10"
    by (simp_all add: sample_sched_def mem_simps aligned4_numeral)
  then show ?thesis
    using tick_slice_correct [of sample_env "sample_machine\<lparr>ram := sample_sched\<rparr>" "[0x2000, 0x3000]", OF _ refl refl]
      sample_sched_ok by (auto simp: sched_ok_def task_fields)
qed

section \<open>Sleeping\<close>

lemma empty_sleep_list:
  assumes "dlist m (sleep_list e) []" "aligned4 (tm e)"
  shows "klist_get_first_node m (sleep_list e) = tm e + 52" "tm e + 52 \<noteq> 0"
    "node_next m (tm e + 52) = 0" "node_next m (tm e + 44) = tm e + 52" "node_prev m (tm e + 52) = tm e + 44"
proof -
  show "klist_get_first_node m (sleep_list e) = tm e + 52"
    using klist_ends_dlist(1) [OF assms(1)] by (simp add: node_after_def sleep_list_def)
  show "tm e + 52 \<noteq> 0" "node_next m (tm e + 52) = 0" "node_next m (tm e + 44) = tm e + 52"
    "node_prev m (tm e + 52) = tm e + 44"
    using assms(1) by (auto simp: dlist_def sep_nodes_def list_nodes_def sleep_list_def add.commute [of "tm e"])
qed

lemma sleep_loop_0 [simp]: "sleep_loop e m 0 = Some m"
  by (subst sleep_loop.simps) simp

lemma task_count: "list_len m (task_list e) = ld32 m (tm e + 40)" "set_len m (task_list e) v = st32 m (tm e + 40) v"
  by (simp_all add: list_len_def set_len_def task_list_def add.commute [of "tm e"])

lemma tm_words:
  "aligned4 (tm e) \<Longrightarrow> 4 dvd unat (numeral k :: u32) \<Longrightarrow> aligned4 (tm e + numeral k)"
  by (simp add: align_simps)

text \<open>
  the loop over the sleeping tasks does not stop at the end of the list: it takes the
  tail sentinel for the node of a task, and so with nobody asleep each tick takes one from
  the number of tasks kept in the list of all tasks.
\<close>

theorem sleep_loop_miscounts:
  assumes "dlist m (sleep_list e) []" "aligned4 (tm e)" and "list_len m (task_list e) \<noteq> 1"
  shows "sleep_loop e m (klist_get_first_node m (sleep_list e))
    = Some (set_len m (task_list e) (list_len m (task_list e) - 1))"
proof -
  note f = empty_sleep_list [OF assms(1,2)]
  have a: "t_sleep_ticks (KLIST_STRUCT_ADDR (tm e + 52)) = tm e + 40"
    using f(2) by (simp add: KLIST_STRUCT_ADDR_def t_sleep_ticks_def add.commute [of "tm e"])
  show ?thesis
    unfolding f(1) task_count using f(2,3) assms(3) [unfolded task_count]
    by (subst sleep_loop.simps) (simp add: a Let_def klist_get_next_node_def ld32_st32)
qed

text \<open>With one task counted, the sentinel is "woken" as the task at \<open>tm e + 4\<close>.\<close>

lemma sleep_loop_wakes:
  assumes "dlist m (sleep_list e) []" "aligned4 (tm e)" and "list_len m (task_list e) = 1"
  shows "sleep_loop e m (klist_get_first_node m (sleep_list e))
    = Some (task_set_ready e (klist_unlink (st32 m (tm e + 40) 0) (sleep_list e) (tm e + 52)) (tm e + 4))"
proof -
  note f = empty_sleep_list [OF assms(1,2)]
  have a: "KLIST_STRUCT_ADDR (tm e + 52) = tm e + 4"
    using f(2) by (simp add: KLIST_STRUCT_ADDR_def add.commute [of "tm e"])
  have a2: "t_sleep_ticks (tm e + 4) = tm e + 40" by (simp add: t_sleep_ticks_def add.commute [of "tm e"])
  let ?m1 = "st32 m (tm e + 40) 0"
  have one: "ld32 m (tm e + 40) = 1" using assms(3) by (simp add: task_count)
  have n: "node_next m' (tm e + 44) = ld32 m' (tm e + 48)" for m'
    by (simp add: node_next_def add.commute [of "tm e"])
  have "node_next ?m1 (tm e + 44) = tm e + 52"
    using f(4) assms(2) by (simp add: n ld32_st32_other tm_words)
  then have w: "task_set_wakeup e ?m1 (tm e + 4) = Some (klist_unlink ?m1 (sleep_list e) (tm e + 52))"
    using f(2) by (simp add: task_set_wakeup_def klist_remove_def l_head_def sleep_list_def t_run_node_def
        klist_remove_loop.simps)
  show ?thesis unfolding f(1)
    using f(2,3) w one
    by (subst sleep_loop.simps)
      (simp add: a a2 Let_def klist_get_next_node_def ld32_st32)
qed

lemma sentinel_state: "node_prev (task_set_ready e m (tm e + 4)) (ready_list e) = state_code READY"
  by (simp add: task_set_ready_def idle_task_def t_state_def ready_list_def node_prev_def ld32_st32)

text \<open>
  when that number is one, as it is right after \<open>task_manager_init\<close>, the same tick
  "wakes" the sentinel: it is put into the ready queue and its "state" is written over the
  queue's head, so that the ready queue is no longer a list.
\<close>

theorem sleep_loop_corrupts:
  assumes "dlist m (sleep_list e) []" "aligned4 (tm e)" and "list_len m (task_list e) = 1"
  shows "\<exists>m'. sleep_loop e m (klist_get_first_node m (sleep_list e)) = Some m'
    \<and> \<not> dlist m' (ready_list e) xs"
  using sleep_loop_wakes [OF assms] sentinel_state by (auto simp: dlist_def)

definition sample_sleep :: "u32 \<Rightarrow> mem" where
  "sample_sleep n = klist_init (st32 (\<lambda>_. 0) 0x1028 n) 0x102C"

lemma sample_sleep:
  "dlist (sample_sleep n) (sleep_list sample_env) []" "list_len (sample_sleep n) (task_list sample_env) = n"
  "aligned4 (tm sample_env)"
proof -
  show "dlist (sample_sleep n) (sleep_list sample_env) []"
    unfolding sleep_list_def sample_sleep_def
    by (simp add: sample_env_def) (rule klist_init_dlist, simp add: sep_nodes_def aligned4_numeral)
  show "list_len (sample_sleep n) (task_list sample_env) = n"
    unfolding task_count(1)
    by (simp add: sample_env_def sample_sleep_def klist_init_def Let_def node_defs l_head_def l_tail_def
        mem_simps aligned4_numeral)
  show "aligned4 (tm sample_env)" by (simp add: sample_env_def aligned4_numeral)
qed

theorem sleep_loop_miscounts_witness:
  "sleep_loop sample_env (sample_sleep 3) (klist_get_first_node (sample_sleep 3) (sleep_list sample_env))
     = Some (set_len (sample_sleep 3) (task_list sample_env) 2)"
  using sleep_loop_miscounts [OF sample_sleep(1,3), of 3] by (simp add: sample_sleep(2))

theorem sleep_loop_corrupts_witness:
  "\<exists>m m'. dlist m (sleep_list sample_env) []
     \<and> sleep_loop sample_env m (klist_get_first_node m (sleep_list sample_env)) = Some m'
     \<and> \<not> dlist m' (ready_list sample_env) []"
  using sleep_loop_corrupts [OF sample_sleep(1,3,2), of "[]"] sample_sleep(1) [of 1] by blast

definition manager_apart :: "task_env \<Rightarrow> u32 list \<Rightarrow> bool" where
  "manager_apart e ts \<longleftrightarrow> (\<forall>k\<in>{36, 48, 52, 56, 60}. tm e + k \<notin> ready_cells e ts
     \<and> (\<forall>t\<in>set ts. tm e + k \<notin> task_words t))"

lemma ticks_constant: "0 < sint n \<Longrightarrow> c_div (n - 1) n = 0"
proof -
  assume n: "0 < sint n"
  have "sint n < 2 ^ 31" using sint_less [of n] by simp
  have e: "n - 1 = n + (- 1)" by simp
  have "sint (n - 1) = sint n - 1"
    unfolding e by (subst sint_plus_small) (use n \<open>sint n < 2 ^ 31\<close> in simp_all)
  with n show ?thesis by (simp add: c_div_def signed_divide_int_def)
qed

lemma sleep_on_manager:
  fixes e m ms
  defines "m1 \<equiv> st32 (st32 m (tm e + 36) ms) (tm e) 2"
  defines "m2 \<equiv> st32 (st32 (st32 m1 (tm e + 52) (tm e + 52)) (tm e + 48) (tm e + 52)) (tm e + 56) (tm e + 48)"
  assumes "aligned4 (tm e)" "ms \<noteq> 0"
  shows "task_set_sleep e m (curr_task e) ms
    = st32 (st32 m2 (tm e + 52) (tm e + 48)) (tm e + 60) (ld32 m2 (tm e + 60) + 1)"
proof -
  have o: "tm e + 48 + 4 = tm e + 52" "tm e + 44 + 8 = tm e + 52" "tm e + 52 + 4 = tm e + 56" "tm e + 44 + 16 = tm e + 60"
    by (simp_all only: add.assoc) simp_all
  have "ld32 (st32 m2 (tm e + 52) (tm e + 48)) (tm e + 60) = ld32 m2 (tm e + 60)"
    using assms(3) by (intro ld32_st32_other) (simp_all add: tm_words)
  moreover have "ld32 (st32 (st32 m1 (tm e + 52) (tm e + 52)) (tm e + 48) (tm e + 52)) (tm e + 52) = tm e + 52"
    using assms(3) by (simp add: ld32_st32_other ld32_st32 tm_words)
  ultimately show ?thesis
    using assms(4)
    by (simp only: task_set_sleep_def klist_append_def Let_def node_defs l_head_def l_tail_def task_fields
        manager_fields o ld32_st32 state_code.simps if_False m1_def m2_def)
qed

text \<open>
  C34: \<open>sys_sleep\<close> hands the address of \<open>curr_task\<close> to the two functions instead of its
  value: the caller is not put to sleep but stays the running task and the first of the ready
  queue, the processor jumps to the task-state segment it is running on, and the list of all
  tasks loses its end.
\<close>

theorem sys_sleep_does_not_sleep:
  assumes "sched_ok e (ram s) (t # ts)" "manager_apart e (t # ts)"
    and "ms \<noteq> 0" "0 < sint (OS_TICKS_MS e)"
  shows "\<exists>s'. sys_sleep e ms s = Some s' \<and> sched_ok e (ram s') (t # ts)
    \<and> ld32 (ram s') (t_state t) = state_code RUNNING
    \<and> trace s' = trace s @ [FarJmp (ld32 (ram s) (t_tss_sel t)) 0]
    \<and> \<not> dlist (ram s') (task_list e) xs"
proof -
  let ?m = "ram s" let ?a = "tm e"
  have q: "queued e ?m (t # ts)" and apart: "tasks_apart e (t # ts)"
    using assms(1) by (simp_all add: sched_ok_def queued_def)
  have al: "aligned4 ?a" and tmc: "?a \<notin> ready_cells e (t # ts)" using apart by (simp_all add: tasks_apart_def)
  have mc: "?a + 36 \<notin> ready_cells e (t # ts)" "?a + 48 \<notin> ready_cells e (t # ts)" "?a + 52 \<notin> ready_cells e (t # ts)"
    "?a + 56 \<notin> ready_cells e (t # ts)" "?a + 60 \<notin> ready_cells e (t # ts)"
    using assms(2) by (simp_all add: manager_apart_def)
  have mw: "w \<noteq> ?a + 36" "w \<noteq> ?a + 48" "w \<noteq> ?a + 52" "w \<noteq> ?a + 56" "w \<noteq> ?a + 60" "w \<noteq> ?a" "aligned4 w"
    if "w \<in> task_words t" for w
    using assms(2) apart that task_words_aligned [OF _ that] by (auto simp: manager_apart_def tasks_apart_def)
  have "t_run_node ?a \<notin> set (map t_run_node (t # ts))"
  proof
    assume "t_run_node ?a \<in> set (map t_run_node (t # ts))"
    then have "?a \<in> set (t # ts)" by (auto simp: t_run_node_def)
    with apart state_word [of ?a] show False by (auto simp: tasks_apart_def)
  qed
  moreover have "t_run_node ?a \<noteq> ready_list e + 8" by (simp add: t_run_node_def ready_list_def)
  ultimately have blk: "task_set_block e ?m (curr_task e) = Some ?m"
    using klist_remove_missing [of ?m "ready_list e" "map t_run_node (t # ts)"] q
    by (simp add: task_set_block_def curr_task_def idle_task_def queued_def)
  define m3 where "m3 = task_set_sleep e ?m (curr_task e) ms"
  note m3 = m3_def [unfolded sleep_on_manager [OF al assms(3)]]
  have q3: "queued e m3 (t # ts)"
    unfolding m3
    by (rule queued_store, rule queued_store, rule queued_store, rule queued_store, rule queued_store,
        rule queued_store, rule queued_store) (use q al mc tmc in \<open>simp_all add: tm_words\<close>)
  have c3: "ld32 m3 ?a = 2" and n3: "ld32 m3 (?a + 36) = ms"
    unfolding m3 using al by (simp_all add: ld32_st32_other ld32_st32 tm_words)
  have w3: "ld32 m3 w = ld32 ?m w" if "w \<in> task_words t" for w
    unfolding m3 using mw [OF that] al by (simp add: ld32_st32_other tm_words not_sym)
  have "t \<noteq> 2" using mw(7) [OF state_word] by (auto simp: aligned4_def)
  have next3: "task_next_run e m3 = t" using queued_next(1) [OF q3] by simp
  let ?m4 = "st32 (st32 m3 ?a t) t (state_code RUNNING)"
  let ?d = "task_dispatch e (snd (irq_enter_protection s)\<lparr>ram := m3\<rparr>)"
  have run: "sys_sleep e ms s = Some (irq_leave_protection (fst (irq_enter_protection s)) ?d)"
    using blk ticks_constant [OF assms(4)] by (simp add: sys_sleep_def split_beta m3_def)
  have r: "ram ?d = ?m4" and tr: "trace ?d = trace s @ [FarJmp (ld32 ?m4 (t_tss_sel t)) 0]"
    using c3 next3 \<open>t \<noteq> 2\<close>
    by (simp_all add: task_dispatch_eqs(1,2) task_current_def curr_task_def t_state_def)
  note tw = mw [OF state_word]
  have "t_tss_sel t \<in> task_words t" "t_tss_sel t \<noteq> t" by (simp_all add: task_words_def task_fields)
  then have sel: "ld32 ?m4 (t_tss_sel t) = ld32 ?m (t_tss_sel t)"
    using w3 mw tw al by (simp add: ld32_st32_other not_sym)
  have "queued e (st32 m3 ?a t) (t # ts)" by (rule queued_store [OF q3 al tmc])
  then have "queued e ?m4 (t # ts)"
    by (rule queued_store) (use tw apart state_word [of t] in \<open>auto simp: tasks_apart_def\<close>)
  moreover have "ld32 ?m4 ?a = t" using tw al by (simp add: ld32_st32_other ld32_st32)
  ultimately have ok: "sched_ok e ?m4 (t # ts)" by (simp add: sched_ok_def task_current_def curr_task_def)
  have "ld32 ?m4 (?a + 36) = ms"
    using tw al n3 by (simp add: ld32_st32_other tm_words)
  moreover have "task_list e + 8 + 4 = ?a + 36" unfolding task_list_def by (simp only: add.assoc) simp
  ultimately have "node_next ?m4 (task_list e + 8) \<noteq> 0" using assms(3) by (simp only: node_next_def not_False_eq_True)
  then have "\<not> dlist ?m4 (task_list e) xs" by (auto simp only: dlist_def)
  with run ok r tr sel show ?thesis by (simp add: t_state_def ld32_st32)
qed

theorem sys_sleep_does_not_sleep_witness:
  "\<exists>s'. sys_sleep sample_env 500 (sample_machine\<lparr>ram := sample_sched\<rparr>) = Some s'
     \<and> task_current sample_env (ram s') = 0x2000 \<and> \<not> dlist (ram s') (task_list sample_env) []"
proof -
  have "ready_cells sample_env [0x2000, 0x3000]
      = {0x1014, 0x1004, 0x1008, 0x2030, 0x2034, 0x3030, 0x3034, 0x100C, 0x1010}"
    by (auto simp: ready_cells_def list_cells_def list_nodes_def sample_env_def manager_fields t_run_node_def)
  then have "manager_apart sample_env [0x2000, 0x3000]"
    by (simp add: manager_apart_def task_words_def task_fields) (simp add: sample_env_def)
  moreover have "0 < sint (OS_TICKS_MS sample_env)" by (simp add: sample_env_def)
  ultimately show ?thesis
    using sys_sleep_does_not_sleep [of sample_env "sample_machine\<lparr>ram := sample_sched\<rparr>" "0x2000" "[0x3000]" 500 "[]"]
      sample_sched_ok by (auto simp: sched_ok_def)
qed

section \<open>The task-state segment of a new task\<close>

lemma tss_offset_small: "unat (tss_offset r) < 101"
  by (cases r) simp_all

lemma tss_offset_inj: "tss_offset r = tss_offset r' \<longleftrightarrow> r = r'"
  by (cases r; cases r') simp_all

lemma tss_offset_aligned: "aligned4 (tss_offset r)"
  by (cases r) (simp_all add: aligned4_numeral aligned4_0)

lemma get_set_reg:
  assumes "aligned4 task"
  shows "get_reg (set_reg m task r v) task r' = (if r' = r then v else get_reg m task r')"
proof -
  have "aligned4 (t_tss task + tss_offset q)" for q
    using assms tss_offset_aligned by (simp add: t_tss_def align_simps)
  moreover have "t_tss task + tss_offset r = t_tss task + tss_offset r' \<longleftrightarrow> r = r'"
    using tss_offset_inj by simp
  ultimately show ?thesis by (auto simp: get_reg_def set_reg_def ld32_st32 ld32_st32_other)
qed

lemma reg_in_tss: "x \<in> word_bytes (t_tss task + tss_offset r) \<Longrightarrow> x \<in> region (t_tss task) 108"
  using word_in_region [of "unat (tss_offset r)" 108 x "t_tss task"] tss_offset_small [of r] by simp

lemma set_reg_byte: "x \<notin> region (t_tss task) 108 \<Longrightarrow> set_reg m task r v x = m x"
  unfolding set_reg_def using reg_in_tss by (blast intro: st32_other_byte)

definition TSS_ATTR :: u16 where "TSS_ATTR = SEG_S_SYSTEM OR SEG_TYPE_TSS OR SEG_DPL0 OR SEG_P_PRESENT"

text \<open>
  when the missing descriptor allocator yields a selector, \<open>tss_init\<close> makes its entry in
  the table describe exactly the task-state segment of the task, as a present system segment,
  and gives the segment the entry point, the stack and the flags asked for, with interrupts
  enabled; the data segment registers, however, hold the selector of the code segment.
\<close>

theorem tss_init_sets_up:
  assumes "gdt_alloc_desc e (kmemset (ram s) (t_tss task) 0 sizeof_tss) = (m, sel)" "0 \<le> sint sel"
    and "aligned4 task"
    and "region (gdt_desc (gdt_tab e) (ucast sel)) 8 \<inter> region (t_tss task) 108 = {}"
  shows "\<exists>s'. tss_init e task flag entry esp s = Some (s', 0)
    \<and> ld32 (ram s') (t_tss_sel task) = sel
    \<and> (\<forall>r. get_reg (ram s') task r =
         (if r = Eip then entry else if r \<in> {Esp, Esp0} then esp
          else if r \<in> {Ss, Ss0} then ucast KERNEL_SELECTOR_DS
          else if r \<in> {Cs, Ds, Es, Fs, Gs} then ucast KERNEL_SELECTOR_CS
          else if r = Eflags then EFLAGS_DEFAULT OR EFLAGS_IF else get_reg m task r))
    \<and> (let d = gdt_entry_at (ram s') (gdt_desc (gdt_tab e) (ucast sel))
       in seg_base d = t_tss task \<and> seg_raw_limit d = sizeof_tss \<and> \<not> seg_granular d
         \<and> seg_attr d = TSS_ATTR)"
proof -
  let ?g = "gdt_segment_set (gdt_tab e) m (ucast sel) sizeof_tss (t_tss task) TSS_ATTR"
  let ?d = "gdt_desc (gdt_tab e) (ucast sel)" let ?t = "region (t_tss task) 108"
  let ?m = "tss_setup e m task sel entry esp"
  have run: "tss_init e task flag entry esp s = Some (s\<lparr>ram := ?m\<rparr>, 0)"
    using assms(1,2) by (simp add: tss_init_def)
  have sel_addr: "t_tss_sel task = t_tss task + of_nat 104"
    by (simp add: task_fields add.commute [of task])
  have al: "aligned4 (t_tss_sel task)" "aligned4 (t_tss task + tss_offset r)" for r
    using assms(3) tss_offset_aligned by (simp_all add: task_fields align_simps)
  have ne: "t_tss_sel task \<noteq> t_tss task + tss_offset r" for r
    by (cases r) (simp_all add: sel_addr)
  have last: "get_reg (st32 m' (t_tss_sel task) sel) task r = get_reg m' task r" for m' r
    unfolding get_reg_def using al ne by (simp add: ld32_st32_other)
  have mem: "?m = st32 (set_reg (set_reg (set_reg (set_reg (set_reg (set_reg (set_reg (set_reg (set_reg
      (set_reg (set_reg ?g task Eip entry) task Esp0 esp) task Esp esp) task Ss0 (ucast KERNEL_SELECTOR_DS))
      task Ss (ucast KERNEL_SELECTOR_DS)) task Gs (ucast KERNEL_SELECTOR_CS)) task Fs (ucast KERNEL_SELECTOR_CS))
      task Ds (ucast KERNEL_SELECTOR_CS)) task Es (ucast KERNEL_SELECTOR_CS)) task Cs (ucast KERNEL_SELECTOR_CS))
      task Eflags (EFLAGS_DEFAULT OR EFLAGS_IF)) (t_tss_sel task) sel"
    by (simp only: tss_setup_def Let_def TSS_ATTR_def)
  have g: "get_reg ?g task r = get_reg m task r" for r
    unfolding get_reg_def
  proof (rule ld32_cong)
    fix x assume "x \<in> word_bytes (t_tss task + tss_offset r)"
    then have "x \<in> ?t" by (rule reg_in_tss)
    with assms(4) have "x \<notin> region ?d 8" by blast
    then show "?g x = m x" by (intro gdt_segment_set_byte) (auto simp: region_def)
  qed
  have regs: "get_reg ?m task r = (if r = Eip then entry else if r \<in> {Esp, Esp0} then esp
      else if r \<in> {Ss, Ss0} then ucast KERNEL_SELECTOR_DS
      else if r \<in> {Cs, Ds, Es, Fs, Gs} then ucast KERNEL_SELECTOR_CS
      else if r = Eflags then EFLAGS_DEFAULT OR EFLAGS_IF else get_reg m task r)" for r
    unfolding mem last by (simp add: get_set_reg [OF assms(3)] g)
  have "?m x = ?g x" if "x \<notin> ?t" for x
  proof -
    have "x \<notin> word_bytes (t_tss_sel task)" using that word_in_region [of 104 108 x "t_tss task"] sel_addr by auto
    with that show ?thesis unfolding mem by (simp add: st32_other_byte set_reg_byte)
  qed
  then have "gdt_entry_at ?m ?d = gdt_entry_at ?g ?d"
    using assms(4) by (intro gdt_entry_at_cong) (auto simp: region_def)
  moreover have "TSS_ATTR AND 0x8F00 = 0" "TSS_ATTR AND 0x0F00 = 0" "\<not> sizeof_tss > 0xFFFFF"
    by (simp_all add: TSS_ATTR_def seg_defs sizeof_tss_def)
  ultimately show ?thesis
    unfolding run using regs
    by (simp add: seg_raw_limit_set seg_attr_set seg_granular_set eff_limit_def eff_attr_def Let_def)
      (simp only: mem ld32_st32)
qed

theorem tss_init_sets_up_witness:
  "\<exists>s'. tss_init sample_env 0x2000 0 0x20000 0x31000 (sample_machine\<lparr>ram := sample_sched\<rparr>) = Some (s', 0)
     \<and> get_reg (ram s') 0x2000 Eip = 0x20000 \<and> get_reg (ram s') 0x2000 Ds = 8
     \<and> seg_base (gdt_entry_at (ram s') 0x8028) = 0x2040"
proof -
  have d: "gdt_desc (gdt_tab sample_env) (ucast (40 :: c_int)) = 0x8028"
    by (simp add: gdt_desc_def sample_env_def)
  have "region (gdt_desc (gdt_tab sample_env) (ucast (40 :: c_int))) 8 \<inter> region (t_tss 0x2000) 108 = {}"
    unfolding d by (rule region_before(2)) (simp_all add: t_tss_def)
  moreover have "gdt_alloc_desc sample_env (kmemset (ram (sample_machine\<lparr>ram := sample_sched\<rparr>)) (t_tss 0x2000) 0 sizeof_tss)
      = (kmemset sample_sched (t_tss 0x2000) 0 sizeof_tss, 40)"
    by (simp add: sample_env_def)
  ultimately obtain s' where s': "tss_init sample_env 0x2000 0 0x20000 0x31000 (sample_machine\<lparr>ram := sample_sched\<rparr>) = Some (s', 0)"
    "\<forall>r. get_reg (ram s') 0x2000 r =
         (if r = Eip then 0x20000 else if r \<in> {Esp, Esp0} then 0x31000
          else if r \<in> {Ss, Ss0} then ucast KERNEL_SELECTOR_DS
          else if r \<in> {Cs, Ds, Es, Fs, Gs} then ucast KERNEL_SELECTOR_CS
          else if r = Eflags then EFLAGS_DEFAULT OR EFLAGS_IF
          else get_reg (kmemset sample_sched (t_tss 0x2000) 0 sizeof_tss) 0x2000 r)"
    "seg_base (gdt_entry_at (ram s') (gdt_desc (gdt_tab sample_env) (ucast (40 :: c_int)))) = t_tss 0x2000"
    using tss_init_sets_up [of sample_env "sample_machine\<lparr>ram := sample_sched\<rparr>" "0x2000"
        "kmemset sample_sched (t_tss 0x2000) 0 sizeof_tss" 40 0 "0x20000" "0x31000"]
    by (auto simp: Let_def aligned4_numeral)
  then show ?thesis by (intro exI [of _ s']) (simp only: d, simp add: selector_defs t_tss_def)
qed

end
