(* ===== verification/Timer.thy ===== *)
theory Timer
  imports Task
begin

text \<open>
  The clock of \<open>source/kernel/Timer/Timer.c\<close>: programming the interval timer, the handler of
  its interrupt, and the acknowledgement of an interrupt.  The reload value is written in the
  source as the bitwise conjunction of a floating-point quotient with 0xFF, which C does not
  allow; the model takes the quotient as the integer it is meant to be.
\<close>

unbundle bit_operations_syntax

definition IO_TIMER1 :: u16 where "IO_TIMER1 = 0x40"
definition IRQ_FREQUENCY :: nat where "IRQ_FREQUENCY = 100"
definition TIMER_FREQ :: nat where "TIMER_FREQ = 1193182"
definition COUNTER_VALUE :: c_int where "COUNTER_VALUE = of_nat (TIMER_FREQ div IRQ_FREQUENCY)"
definition TIMER_MODE :: u16 where "TIMER_MODE = IO_TIMER1 + 3"
definition TIMER_SEL0 :: u8 where "TIMER_SEL0 = 0x00"
definition TIMER_MODE3 :: u8 where "TIMER_MODE3 = 0x06"
definition TIMER_16BIT :: u8 where "TIMER_16BIT = 0x30"
definition IRQ_Timer :: u8 where "IRQ_Timer = 0x20"

lemmas timer_defs = IO_TIMER1_def IRQ_FREQUENCY_def TIMER_FREQ_def COUNTER_VALUE_def TIMER_MODE_def
  TIMER_SEL0_def TIMER_MODE3_def TIMER_16BIT_def IRQ_Timer_def

text \<open>The variable \<open>ticks\<close> is the word at \<open>tk\<close>.\<close>

definition SYSTEM_READ_TIMER :: "u32 \<Rightarrow> mem \<Rightarrow> u32" where
  "SYSTEM_READ_TIMER tk m = ld32 m tk"

definition timer_init :: "log_frame \<Rightarrow> u32 \<Rightarrow> u32 \<Rightarrow> u32 \<Rightarrow> u32 \<Rightarrow> machine \<Rightarrow> machine option" where
  "timer_init fr msg idt tk timer_entry s =
    (let s = outb TIMER_MODE (TIMER_SEL0 OR TIMER_MODE3 OR TIMER_16BIT) s;
         s = outb IO_TIMER1 (ucast (COUNTER_VALUE AND 0xFF)) s;
         s = outb IO_TIMER1 (ucast (signed_drop_bit 8 COUNTER_VALUE AND 0xFF)) s;
         m = st32 (ram s) tk 0;
         m = snd (irq_install idt m (ucast IRQ_Timer) timer_entry)
     in map_option (\<lambda>s. snd (irq_enable s)) (pic_enable fr msg IRQ_Timer (s\<lparr>ram := m\<rparr>)))"

definition pic_send_eoi :: "c_int \<Rightarrow> machine \<Rightarrow> machine" where
  "pic_send_eoi pic_num s =
    (let pic_num = pic_num - ucast PIC_START;
         s = (if sint pic_num \<ge> 8 then outb PIC_S_CTRL (push_bit 5 1) s else s)
     in outb PIC_M_CTRL (push_bit 5 1) s)"

definition irq_handler_timer :: "task_env \<Rightarrow> u32 \<Rightarrow> machine \<Rightarrow> machine option" where
  "irq_handler_timer e tk s =
    map_option (pic_send_eoi (ucast IRQ_Timer))
      (task_time_tick e (s\<lparr>ram := st32 (ram s) tk (ld32 (ram s) tk + 1)\<rparr>))"

lemma timer_init_effect:
  obtains s' v where "timer_init fr msg idt tk timer_entry s = Some s'"
    "ram s' = snd (irq_install idt (st32 (ram s) tk 0) 0x20 timer_entry)" "get_irq_status s' = INTR_ON"
    "trace s' = trace s @ [Outb 0x43 0x36, Outb 0x40 0x9B, Outb 0x40 0x2E, Inb PIC_M_DATA v, Outb PIC_M_DATA (v AND NOT 1)]"
    "cr0 s' = cr0 s" "cr3 s' = cr3 s" "gdtr s' = gdtr s" "idtr s' = idtr s"
proof -
  let ?s = "(outb 0x40 0x2E (outb 0x40 0x9B (outb 0x43 0x36 s)))
    \<lparr>ram := snd (irq_install idt (st32 (ram s) tk 0) 0x20 timer_entry)\<rparr>"
  have "timer_init fr msg idt tk timer_entry s = map_option (\<lambda>s. snd (irq_enable s)) (pic_enable fr msg 0x20 ?s)"
    by (simp add: timer_init_def Let_def timer_defs)
  also have "\<dots> = (case inb PIC_M_DATA ?s of (v, s1) \<Rightarrow> Some (snd (irq_enable (outb PIC_M_DATA (v AND NOT 1) s1))))"
    by (simp add: pic_enable_line Let_def split_beta)
  finally have e: "timer_init fr msg idt tk timer_entry s = (case inb PIC_M_DATA ?s of (v, s1) \<Rightarrow>
      Some (snd (irq_enable (outb PIC_M_DATA (v AND NOT 1) s1))))" .
  let ?v = "fst (inb PIC_M_DATA ?s)"
  let ?s1 = "outb PIC_M_DATA (?v AND NOT 1) (snd (inb PIC_M_DATA ?s))" let ?s' = "snd (irq_enable ?s1)"
  have k: "ram ?s' = ram ?s1" "trace ?s' = trace ?s1" "cr0 ?s' = cr0 ?s1" "cr3 ?s' = cr3 ?s1"
      "gdtr ?s' = gdtr ?s1" "idtr ?s' = idtr ?s1"
    by (simp_all add: irq_enable_def sti_def write_eflags_def Let_def)
  show thesis
  proof (rule that [of ?s' ?v])
    show "timer_init fr msg idt tk timer_entry s = Some ?s'" unfolding e by (simp only: split_beta)
    show "get_irq_status ?s' = INTR_ON" by (simp add: irq_enable_def Let_def)
  qed (simp_all only: k, simp_all add: inb_def outb_def emit_def Let_def)
qed

lemma ticks_kept:
  assumes "region idt 2048 \<inter> word_bytes tk = {}"
  shows "SYSTEM_READ_TIMER tk (snd (irq_install idt (st32 m tk 0) num handler)) = 0"
proof -
  have "ld32 (snd (irq_install idt (st32 m tk 0) num handler)) tk = ld32 (st32 m tk 0) tk"
    using irq_install_frame [of idt "st32 m tk 0" num handler] assms
    by (intro ld32_cong) (auto simp: same_outside_def)
  then show ?thesis by (simp add: SYSTEM_READ_TIMER_def ld32_st32)
qed

text \<open>
  \<open>timer_init\<close> programs counter 0 as a square wave of the reload value 11931, low byte
  first, sets \<open>ticks\<close> to 0, installs the gate of vector 0x20, unmasks line 0 of the master
  controller and nothing else, and returns with interrupts on.
\<close>

theorem timer_init_sets_up:
  assumes "timer_entry \<le> 0xFFFFF" and "region idt 2048 \<inter> word_bytes tk = {}"
  shows "\<exists>s' v. timer_init fr msg idt tk timer_entry s = Some s'
    \<and> get_irq_status s' = INTR_ON \<and> SYSTEM_READ_TIMER tk (ram s') = 0
    \<and> idt_gate idt (ram s') 0x20 = gate_for KERNEL_SELECTOR_CS timer_entry IRQ_ATTR
    \<and> trace s' = trace s @ [Outb 0x43 0x36, Outb 0x40 0x9B, Outb 0x40 0x2E,
        Inb PIC_M_DATA v, Outb PIC_M_DATA (v AND NOT 1)]"
proof -
  obtain s' v where s': "timer_init fr msg idt tk timer_entry s = Some s'" "get_irq_status s' = INTR_ON"
    "ram s' = snd (irq_install idt (st32 (ram s) tk 0) 0x20 timer_entry)"
    "trace s' = trace s @ [Outb 0x43 0x36, Outb 0x40 0x9B, Outb 0x40 0x2E, Inb PIC_M_DATA v, Outb PIC_M_DATA (v AND NOT 1)]"
    by (rule timer_init_effect [of fr msg idt tk timer_entry s])
  moreover have "idt_gate idt (ram s') 0x20 = gate_for KERNEL_SELECTOR_CS timer_entry IRQ_ATTR"
    using assms(1) by (simp add: s'(3) idt_gate_install IDT_SIZE_def)
  ultimately show ?thesis using ticks_kept [OF assms(2)] by auto
qed

theorem timer_init_sets_up_witness:
  "\<exists>s' v. timer_init sample_frame 0x5000 0x8000 0x7000 0x500 sample_machine = Some s' \<and> get_irq_status s' = INTR_ON
    \<and> trace s' = [Outb 0x43 0x36, Outb 0x40 0x9B, Outb 0x40 0x2E, Inb PIC_M_DATA v, Outb PIC_M_DATA (v AND NOT 1)]"
proof -
  have "region 0x8000 2048 \<inter> region 0x7000 4 = {}" by (rule region_before(2)) simp_all
  moreover have "word_bytes 0x7000 \<subseteq> region 0x7000 4" using word_in_region [of 0 4 _ "0x7000"] by auto
  ultimately have "region 0x8000 2048 \<inter> word_bytes 0x7000 = {}" by blast
  then show ?thesis
    using timer_init_sets_up [of "0x500" "0x8000" "0x7000" sample_frame "0x5000" sample_machine]
    by (auto simp: sample_machine_def)
qed

text \<open>
  every hardware interrupt is acknowledged at the controllers it came through: lines 8 to
  15 at the slave and the master, lines 0 to 7 at the master alone.
\<close>

theorem pic_send_eoi_correct:
  assumes "0x20 \<le> n" "n < 0x30"
  shows "pic_send_eoi n s = s\<lparr>trace := trace s
    @ (if 0x28 \<le> n then [Outb PIC_S_CTRL 0x20] else []) @ [Outb PIC_M_CTRL 0x20]\<rparr>"
proof -
  have "unat (n - 0x20) = unat n - 0x20" using assms(1) by (simp add: unat_sub)
  moreover have "unat n < 0x30" "0x20 \<le> unat n" using assms by (simp_all add: word_less_nat_alt word_le_nat_alt)
  ultimately have "sint (n - 0x20) = int (unat n) - 0x20"
    using sint_of_nat [of "unat (n - 0x20)"] by simp
  then have "8 \<le> sint (n - 0x20) \<longleftrightarrow> 0x28 \<le> n" by (auto simp: word_le_def)
  then show ?thesis by (simp add: pic_send_eoi_def PIC_START_def Let_def outb_def emit_def)
qed

theorem pic_send_eoi_correct_witness: "trace (pic_send_eoi 0x2E sample_machine) = [Outb 0xA0 0x20, Outb 0x20 0x20]"
  using pic_send_eoi_correct [of "0x2E" sample_machine] by (simp add: sample_machine_def PIC_M_CTRL_def PIC_S_CTRL_def)

end
