(* ===== verification/Sched_Words.thy ===== *)
theory Sched_Words
  imports Task
begin

text \<open>
  The words of memory the scheduler keeps for its tasks: the manager's pointer to the current
  task, the ready queue, and the fields of each task it reads and writes.  What leaves them as
  they are leaves the scheduler as it is.
\<close>

definition sched_words :: "task_env \<Rightarrow> u32 list \<Rightarrow> u32 set" where
  "sched_words e ts = insert (tm e) (ready_cells e ts \<union> (\<Union>t\<in>set ts. task_words t))"

lemma rotate_cells [simp]: "ready_cells e (rotate k ts) = ready_cells e ts"
  by (rule ready_cells_set) simp

lemma sched_ok_work:
  assumes "sched_ok e m (rotate k ts)" "\<And>w. w \<in> sched_words e ts \<Longrightarrow> ld32 m' w = ld32 m w"
  shows "sched_ok e m' (rotate k ts)"
proof -
  have "ld32 m' c = ld32 m c" if "c \<in> list_cells (ready_list e) (map t_run_node (rotate k ts))" for c
    using assms(2) [of c] that rotate_cells [of e k ts] by (simp add: sched_words_def ready_cells_def)
  then have "queued e m' (rotate k ts)"
    using assms(1) dlist_cong [of m "ready_list e" "map t_run_node (rotate k ts)" m']
    by (simp add: sched_ok_def queued_def)
  moreover have "task_current e m' = task_current e m"
    using assms(2) [of "tm e"] by (simp add: sched_words_def task_current_def curr_task_def)
  ultimately show ?thesis using assms(1) by (simp add: sched_ok_def)
qed

end
