(* ===== verification/Entry.thy ===== *)
theory Entry
  imports Log Irq
begin

text \<open>
  The assembly of \<open>source/kernel/init/start.S\<close>: the start of the kernel, the stubs every
  interrupt and exception comes in through, the system call entry, and the switch between
  two kernel stacks.  The registers the code names are a record around the machine; the C
  functions the code calls are parameters, operations on that record which run with the
  return address on top of the stack.  What the processor does on the way in (\<open>int_enter\<close>)
  and at \<open>iret\<close> is the documented behaviour of a transfer within, or out of and back to,
  a less privileged ring.
\<close>

unbundle bit_operations_syntax

section \<open>Registers and stack\<close>

record cpu =
  core :: machine
  eax :: u32
  ecx :: u32
  edx :: u32
  ebx :: u32
  esp :: u32
  ebp :: u32
  esi :: u32
  edi :: u32
  ds :: u16
  es :: u16
  fs :: u16
  gs :: u16
  ss :: u16
  cs :: u16
  eip :: u32

abbreviation cmem :: "cpu \<Rightarrow> mem" where "cmem s \<equiv> ram (core s)"

definition push :: "u32 \<Rightarrow> cpu \<Rightarrow> cpu" where
  "push v s = s\<lparr>esp := esp s - 4, core := (core s)\<lparr>ram := st32 (cmem s) (esp s - 4) v\<rparr>\<rparr>"

definition pop :: "cpu \<Rightarrow> u32 \<times> cpu" where
  "pop s = (ld32 (cmem s) (esp s), s\<lparr>esp := esp s + 4\<rparr>)"

definition drop_words :: "u32 \<Rightarrow> cpu \<Rightarrow> cpu" where
  "drop_words n s = s\<lparr>esp := esp s + 4 * n\<rparr>"

text \<open>\<open>pusha\<close> stores the stack pointer it started with, \<open>popa\<close> skips that word.\<close>

definition pusha :: "cpu \<Rightarrow> cpu" where
  "pusha s = (let t = esp s;
      s = push (eax s) s; s = push (ecx s) s; s = push (edx s) s; s = push (ebx s) s;
      s = push t s; s = push (ebp s) s; s = push (esi s) s in push (edi s) s)"

definition popa :: "cpu \<Rightarrow> cpu" where
  "popa s =
    (let (v, s) = pop s; s = s\<lparr>edi := v\<rparr>; (v, s) = pop s; s = s\<lparr>esi := v\<rparr>;
         (v, s) = pop s; s = s\<lparr>ebp := v\<rparr>; s = drop_words 1 s;
         (v, s) = pop s; s = s\<lparr>ebx := v\<rparr>; (v, s) = pop s; s = s\<lparr>edx := v\<rparr>;
         (v, s) = pop s; s = s\<lparr>ecx := v\<rparr>; (v, s) = pop s in s\<lparr>eax := v\<rparr>)"

definition push_segments :: "cpu \<Rightarrow> cpu" where
  "push_segments s = (let s = push (ucast (ds s)) s; s = push (ucast (es s)) s;
      s = push (ucast (fs s)) s in push (ucast (gs s)) s)"

definition pop_segments :: "cpu \<Rightarrow> cpu" where
  "pop_segments s =
    (let (v, s) = pop s; s = s\<lparr>gs := ucast v\<rparr>; (v, s) = pop s; s = s\<lparr>fs := ucast v\<rparr>;
         (v, s) = pop s; s = s\<lparr>es := ucast v\<rparr>; (v, s) = pop s in s\<lparr>ds := ucast v\<rparr>)"

text \<open>A call leaves the return address for the callee, which takes it off again.\<close>

definition call :: "(cpu \<Rightarrow> cpu option) \<Rightarrow> cpu \<Rightarrow> cpu option" where
  "call f s = map_option (\<lambda>s. snd (pop s)) (f (push (eip s) s))"

definition rpl :: "u16 \<Rightarrow> u16" where "rpl sel = sel AND 3"

text \<open>
  Entering a handler through an interrupt gate: on a change of privilege the processor takes
  the stack of the task-state segment and saves the old one; then flags, code segment and
  instruction pointer; interrupts go off.
\<close>

definition int_enter :: "u32 \<Rightarrow> u16 \<Rightarrow> u16 \<Rightarrow> u32 \<Rightarrow> cpu \<Rightarrow> cpu" where
  "int_enter esp0 ss0 gate_cs gate_eip s =
    (let fl = eflags (core s);
         s' = (if rpl gate_cs < rpl (cs s)
               then push (esp s) (push (ucast (ss s)) (s\<lparr>esp := esp0, ss := ss0\<rparr>)) else s);
         s' = push (eip s) (push (ucast (cs s)) (push fl s'))
     in s'\<lparr>core := cli (core s'), cs := gate_cs, eip := gate_eip\<rparr>)"

definition pop_frame :: "cpu \<Rightarrow> cpu" where
  "pop_frame s =
    (let (v, s) = pop s; s = s\<lparr>eip := v\<rparr>; (v, s) = pop s; s = s\<lparr>cs := ucast v\<rparr>; (v, s) = pop s
     in s\<lparr>core := write_eflags v (core s)\<rparr>)"

definition iret :: "cpu \<Rightarrow> cpu" where
  "iret s =
    (let cpl = rpl (cs s);
         s = pop_frame s
     in if cpl < rpl (cs s) then (let (v, s) = pop s; (w, s) = pop s in s\<lparr>esp := v, ss := ucast w\<rparr>)
        else s)"

section \<open>The entry points\<close>

text \<open>
  The macro \<open>exception_handler\<close>, up to the call of the C handler and after it: a zero stands
  in for the error code where the processor pushes none.
\<close>

definition stub_save :: "u32 \<Rightarrow> bool \<Rightarrow> cpu \<Rightarrow> cpu" where
  "stub_save irq_num erro_code s =
    (let s = (if \<not> erro_code then push 0 s else s);
         s = push_segments (pusha (push irq_num s))
     in push (esp s) s)"

definition stub_restore :: "cpu \<Rightarrow> cpu" where
  "stub_restore s =
    (let (v, s) = pop s; s = s\<lparr>esp := v\<rparr>
     in iret (drop_words 2 (popa (pop_segments s))))"

definition exception_stub :: "u32 \<Rightarrow> bool \<Rightarrow> (cpu \<Rightarrow> cpu option) \<Rightarrow> cpu \<Rightarrow> cpu option" where
  "exception_stub irq_num erro_code irq_handler s =
    map_option stub_restore (call irq_handler (stub_save irq_num erro_code s))"

text \<open>
  The system call entry: the three arguments go below the saved registers, the routine is
  the entry of \<open>syscall_table\<close> that \<open>eax\<close> selects, and its result replaces the saved \<open>eax\<close>.
  \<open>routine\<close> runs the code at an address.
\<close>

definition syscall_save :: "cpu \<Rightarrow> cpu" where
  "syscall_save s =
    (let s = push_segments (pusha (push 0x80 (push 0 s)));
         s = push (ebx s) (push (ecx s) (push (edx s) s))
     in push (esp s) s)"

definition syscall_restore :: "cpu \<Rightarrow> cpu" where
  "syscall_restore s =
    (let (v, s) = pop s; s = s\<lparr>esp := v\<rparr>;
         s = pop_segments (s\<lparr>esp := esp s + 0xC\<rparr>);
         s = s\<lparr>core := (core s)\<lparr>ram := st32 (cmem s) (esp s + 0x1C) (eax s)\<rparr>\<rparr>
     in iret (drop_words 2 (popa s)))"

definition syscall_handler :: "u32 \<Rightarrow> (u32 \<Rightarrow> cpu \<Rightarrow> cpu option) \<Rightarrow> cpu \<Rightarrow> cpu option" where
  "syscall_handler syscall_table routine s =
    (let s = syscall_save s;
         s = s\<lparr>ebx := syscall_table\<rparr>;
         s = s\<lparr>eax := ld32 (cmem s) (ebx s + 4 * eax s)\<rparr>
     in map_option syscall_restore (call (routine (eax s)) s))"

text \<open>Saves the registers a C function must preserve, changes stacks, and returns over there.\<close>

definition simple_switch :: "cpu \<Rightarrow> cpu" where
  "simple_switch s =
    (let s = s\<lparr>eax := ld32 (cmem s) (esp s + 4)\<rparr>;
         s = s\<lparr>edx := ld32 (cmem s) (esp s + 8)\<rparr>;
         s = push (esi s) s; s = push (edi s) s; s = push (ebx s) s; s = push (ebp s) s;
         s = s\<lparr>core := (core s)\<lparr>ram := st32 (cmem s) (eax s) (esp s)\<rparr>\<rparr>;
         s = s\<lparr>esp := edx s\<rparr>;
         (v, s) = pop s; s = s\<lparr>ebp := v\<rparr>; (v, s) = pop s; s = s\<lparr>ebx := v\<rparr>;
         (v, s) = pop s; s = s\<lparr>edi := v\<rparr>; (v, s) = pop s; s = s\<lparr>esi := v\<rparr>;
         (v, s) = pop s
     in s\<lparr>eip := v\<rparr>)"

definition kernel_start :: "(cpu \<Rightarrow> cpu option) \<Rightarrow> u32 \<Rightarrow> u32 \<Rightarrow> cpu \<Rightarrow> cpu option" where
  "kernel_start kernel_init stack main s =
    (let s = push (ebp s) s;
         s = s\<lparr>ebp := esp s\<rparr>;
         s = s\<lparr>eax := ld32 (cmem s) (ebp s + 8)\<rparr>;
         s = push (eax s) s
     in map_option (\<lambda>s.
          let s = s\<lparr>cs := KERNEL_SELECTOR_CS\<rparr>;
              s = s\<lparr>eax := (eax s AND NOT 0xFFFF) OR ucast KERNEL_SELECTOR_DS\<rparr>;
              ax = ucast (eax s);
              s = s\<lparr>ds := ax, ss := ax, es := ax, fs := ax, gs := ax\<rparr>;
              s = s\<lparr>esp := stack + KERNEL_STACK_SIZE\<rparr>
          in s\<lparr>eip := main\<rparr>)
        (call kernel_init s))"

section \<open>What stands on the stack\<close>

fun words_at :: "mem \<Rightarrow> u32 \<Rightarrow> u32 list \<Rightarrow> bool" where
  "words_at m a [] = True"
| "words_at m a (w # ws) = (ld32 m a = w \<and> words_at m (a + 4) ws)"

definition stack_top :: "cpu \<Rightarrow> u32 list \<Rightarrow> bool" where
  "stack_top s ws \<longleftrightarrow> words_at (cmem s) (esp s) ws"

lemma words_at_cong:
  "(\<And>x. x \<in> region a (4 * length ws) \<Longrightarrow> m' x = m x) \<Longrightarrow> words_at m a ws \<Longrightarrow> words_at m' a ws"
proof (induction ws arbitrary: a)
  case (Cons w ws)
  have r: "region a (4 + 4 * length ws) = region a 4 \<union> region (a + 4) (4 * length ws)"
    using region_add [of a 4 "4 * length ws"] by simp
  have "ld32 m' a = ld32 m a"
    using Cons.prems(1) word_in_region [of 0 4 _ a] r by (intro ld32_cong) auto
  moreover have "words_at m' (a + 4) ws"
    by (rule Cons.IH) (use Cons.prems r in auto)
  ultimately show ?case using Cons.prems(2) by simp
qed simp

lemma words_at_other:
  assumes "aligned4 a" "aligned4 b" "\<forall>i<length ws. a \<noteq> b + of_nat (4 * i)" "words_at m b ws"
  shows "words_at (st32 m a v) b ws"
  using assms
proof (induction ws arbitrary: b)
  case (Cons w ws)
  have "aligned4 (b + 4)" using Cons.prems(2) by (simp add: align_simps)
  moreover have "\<forall>i<length ws. a \<noteq> b + 4 + of_nat (4 * i)"
  proof (intro allI impI)
    fix i assume "i < length ws"
    then have "a \<noteq> b + of_nat (4 * Suc i)" using Cons.prems(3) by (simp del: mult_Suc_right of_nat_mult)
    then show "a \<noteq> b + 4 + of_nat (4 * i)" by (simp add: algebra_simps)
  qed
  moreover have "a \<noteq> b" using Cons.prems(3) by (auto dest: spec [of _ 0])
  ultimately show ?case using Cons.IH [of "b + 4"] Cons.prems(1,2,4) by (simp add: ld32_st32_other)
qed simp

lemma push_fields [simp]:
  "esp (push v s) = esp s - 4" "cmem (push v s) = st32 (cmem s) (esp s - 4) v"
  "eax (push v s) = eax s" "ecx (push v s) = ecx s" "edx (push v s) = edx s" "ebx (push v s) = ebx s"
  "ebp (push v s) = ebp s" "esi (push v s) = esi s" "edi (push v s) = edi s" "ds (push v s) = ds s"
  "es (push v s) = es s" "fs (push v s) = fs s" "gs (push v s) = gs s" "ss (push v s) = ss s"
  "cs (push v s) = cs s" "eip (push v s) = eip s"
  by (simp_all add: push_def)

lemma stack_push:
  assumes "aligned4 (esp s)" "length ws < 1000" "stack_top s ws"
  shows "stack_top (push v s) (v # ws)"
proof -
  have "esp s - 4 \<noteq> esp s + of_nat (4 * i)" if "i < length ws" for i
  proof
    assume "esp s - 4 = esp s + of_nat (4 * i)"
    then have "of_nat (4 * i + 4) = (0 :: u32)" by (simp add: algebra_simps)
    moreover have "unat (of_nat (4 * i + 4) :: u32) = 4 * i + 4"
      using that assms(2) by (intro unat_of_nat_word) simp
    ultimately show False by simp
  qed
  moreover have "aligned4 (esp s + (- 4))" using assms(1) by (intro aligned4_add) (simp_all add: aligned4_def)
  ultimately have "words_at (st32 (cmem s) (esp s - 4) v) (esp s) ws"
    using assms by (intro words_at_other) (simp_all add: stack_top_def)
  then show ?thesis by (simp add: stack_top_def ld32_st32)
qed

lemma aligned4_minus4: "aligned4 a \<Longrightarrow> aligned4 (a - 4)"
  using aligned4_add [of a "- 4"] by (simp add: aligned4_def)

lemma stack_update [simp]:
  "stack_top (s\<lparr>eax := v\<rparr>) ws = stack_top s ws" "stack_top (s\<lparr>ecx := v\<rparr>) ws = stack_top s ws"
  "stack_top (s\<lparr>edx := v\<rparr>) ws = stack_top s ws" "stack_top (s\<lparr>ebx := v\<rparr>) ws = stack_top s ws"
  "stack_top (s\<lparr>ebp := v\<rparr>) ws = stack_top s ws" "stack_top (s\<lparr>esi := v\<rparr>) ws = stack_top s ws"
  "stack_top (s\<lparr>edi := v\<rparr>) ws = stack_top s ws" "stack_top (s\<lparr>ds := u\<rparr>) ws = stack_top s ws"
  "stack_top (s\<lparr>es := u\<rparr>) ws = stack_top s ws" "stack_top (s\<lparr>fs := u\<rparr>) ws = stack_top s ws"
  "stack_top (s\<lparr>gs := u\<rparr>) ws = stack_top s ws" "stack_top (s\<lparr>cs := u\<rparr>) ws = stack_top s ws"
  "stack_top (s\<lparr>eip := v\<rparr>) ws = stack_top s ws"
  by (simp_all add: stack_top_def)

lemma stack_pop: "stack_top s (w # ws) \<Longrightarrow> pop s = (w, s\<lparr>esp := esp s + 4\<rparr>)"
  by (simp add: pop_def stack_top_def)

text \<open>Values pushed one after the other, the last one on top.\<close>

fun pushes :: "u32 list \<Rightarrow> cpu \<Rightarrow> cpu" where
  "pushes [] s = s"
| "pushes (v # vs) s = push v (pushes vs s)"

lemma pushes_fields [simp]:
  "esp (pushes vs s) = esp s - 4 * of_nat (length vs)"
  "eax (pushes vs s) = eax s" "ecx (pushes vs s) = ecx s" "edx (pushes vs s) = edx s" "ebx (pushes vs s) = ebx s"
  "ebp (pushes vs s) = ebp s" "esi (pushes vs s) = esi s" "edi (pushes vs s) = edi s" "ds (pushes vs s) = ds s"
  "es (pushes vs s) = es s" "fs (pushes vs s) = fs s" "gs (pushes vs s) = gs s" "ss (pushes vs s) = ss s"
  "cs (pushes vs s) = cs s" "eip (pushes vs s) = eip s"
  by (induction vs) (simp_all add: algebra_simps)

lemma stack_pushes:
  assumes "aligned4 (esp s)" "length vs + length ws < 1000" "stack_top s ws"
  shows "stack_top (pushes vs s) (vs @ ws) \<and> aligned4 (esp (pushes vs s))"
  using assms(2)
proof (induction vs)
  case Nil
  show ?case using assms by simp
next
  case (Cons v vs)
  then have h: "stack_top (pushes vs s) (vs @ ws)" "aligned4 (esp (pushes vs s))" by simp_all
  have "stack_top (push v (pushes vs s)) (v # vs @ ws)" by (rule stack_push [OF h(2) _ h(1)]) (use Cons.prems in simp)
  moreover have "aligned4 (esp (push v (pushes vs s)))" using aligned4_minus4 [OF h(2)] by simp
  ultimately show ?case by simp
qed

lemma pusha_pushes: "pusha s = pushes [edi s, esi s, ebp s, esp s, ebx s, edx s, ecx s, eax s] s"
  by (simp add: pusha_def Let_def)

lemma push_segments_pushes:
  "push_segments s = pushes [ucast (gs s), ucast (fs s), ucast (es s), ucast (ds s)] s"
  by (simp add: push_segments_def Let_def)

lemma pushes_append: "pushes (us @ vs) s = pushes us (pushes vs s)"
  by (induction us) simp_all

lemma popa_stack:
  "stack_top s (a # b # c # d # e # f # g # h # ws) \<Longrightarrow> popa s = s\<lparr>edi := a, esi := b, ebp := c, ebx := e,
     edx := f, ecx := g, eax := h, esp := esp s + 32\<rparr>"
  by (simp add: popa_def pop_def drop_words_def stack_top_def Let_def add.assoc)

lemma pop_segments_stack:
  "stack_top s (a # b # c # d # ws) \<Longrightarrow> pop_segments s = s\<lparr>gs := ucast a, fs := ucast b, es := ucast c,
     ds := ucast d, esp := esp s + 16\<rparr>"
  by (simp add: pop_segments_def pop_def stack_top_def Let_def add.assoc)

lemma words_at_update:
  assumes "aligned4 a" "i < length ws" "length ws < 1000" "words_at m a ws"
  shows "words_at (st32 m (a + of_nat (4 * i)) v) a (ws[i := v])"
  using assms
proof (induction ws arbitrary: a i)
  case (Cons w ws)
  have a4: "aligned4 (a + 4)" using Cons.prems(1) by (simp add: align_simps)
  have off: "a \<noteq> a + 4 + of_nat (4 * j)" if "j < length ws" for j
  proof
    assume "a = a + 4 + of_nat (4 * j)"
    then have "of_nat (4 * j + 4) = (0 :: u32)" by (simp add: algebra_simps)
    moreover have "unat (of_nat (4 * j + 4) :: u32) = 4 * j + 4"
      using that Cons.prems(3) by (intro unat_of_nat_word) simp
    ultimately show False by simp
  qed
  show ?case
  proof (cases i)
    case 0
    then show ?thesis using Cons.prems off a4 by (simp add: ld32_st32 words_at_other)
  next
    case (Suc j)
    then have e: "a + of_nat (4 * i) = a + 4 + of_nat (4 * j)" by (simp add: algebra_simps)
    have "aligned4 (a + 4 + of_nat (4 * j))"
    proof -
      have "4 * j < 2 ^ 32" using Suc Cons.prems(2,3) by simp
      then have "unat (of_nat (4 * j) :: u32) = 4 * j" by (intro unat_of_nat_word) simp
      then have "aligned4 (of_nat (4 * j))" by (simp only: aligned4_def dvd_triv_left)
      then show ?thesis using a4 by (rule aligned4_add [rotated])
    qed
    then have "ld32 (st32 m (a + 4 + of_nat (4 * j)) v) a = ld32 m a"
      using off [of j] Suc Cons.prems(1,2) by (intro ld32_st32_other) auto
    then show ?thesis unfolding e using Suc Cons.IH [OF a4, of j] Cons.prems by simp
  qed
qed simp

lemma pushes_other:
  "x \<notin> region (esp (pushes vs s)) (4 * length vs) \<Longrightarrow> cmem (pushes vs s) x = cmem s x"
proof (induction vs)
  case (Cons v vs)
  let ?a = "esp (pushes (v # vs) s)"
  have "region ?a (4 + 4 * length vs) = region ?a 4 \<union> region (?a + 4) (4 * length vs)"
    using region_add [of ?a 4 "4 * length vs"] by simp
  moreover have "?a + 4 = esp (pushes vs s)" by simp
  ultimately have "x \<notin> region ?a 4" "x \<notin> region (esp (pushes vs s)) (4 * length vs)"
    using Cons.prems by auto
  moreover have "word_bytes ?a \<subseteq> region ?a 4" using word_in_region [of 0 4 _ ?a] by auto
  ultimately have "x \<notin> word_bytes ?a" "cmem (pushes vs s) x = cmem s x" using Cons.IH by blast+
  then show ?case by (simp add: st32_other_byte)
qed simp

section \<open>Into a handler and back\<close>

text \<open>
  The C functions of the kernel as the assembly calls them: they work on the machine and come
  back with the stack pointer, the stack and code segments and the place to return to as they
  were.  What compiled code leaves in every other register is not known: \<open>scr\<close> puts any values
  there, and the theorems below hold for all of them.
\<close>

definition scratched :: "(cpu \<Rightarrow> cpu) \<Rightarrow> cpu \<Rightarrow> cpu" where
  "scratched scr s = (scr s)\<lparr>core := core s, esp := esp s, ss := ss s, cs := cs s, eip := eip s\<rparr>"

lemma scratched_fields [simp]:
  "core (scratched scr s) = core s" "esp (scratched scr s) = esp s" "ss (scratched scr s) = ss s"
  "cs (scratched scr s) = cs s" "eip (scratched scr s) = eip s"
  by (simp_all add: scratched_def)

definition of_c :: "(cpu \<Rightarrow> cpu) \<Rightarrow> (machine \<Rightarrow> machine option) \<Rightarrow> cpu \<Rightarrow> cpu option" where
  "of_c scr h s = map_option (\<lambda>m. scratched scr (s\<lparr>core := m\<rparr>)) (h (core s))"

text \<open>The state the stub starts in: some exceptions push an error code.\<close>

definition arrive :: "u32 \<Rightarrow> u16 \<Rightarrow> u16 \<Rightarrow> u32 \<Rightarrow> u32 option \<Rightarrow> cpu \<Rightarrow> cpu" where
  "arrive esp0 ss0 gate_cs gate_eip err s =
    (let s = int_enter esp0 ss0 gate_cs gate_eip s in case err of None \<Rightarrow> s | Some c \<Rightarrow> push c s)"

text \<open>
  The words the processor leaves on the stack.  The saved stack pointer and segment are there
  only when the privilege level changes.
\<close>

definition saved_state :: "u16 \<Rightarrow> u32 option \<Rightarrow> cpu \<Rightarrow> u32 list" where
  "saved_state gate_cs err s = (case err of None \<Rightarrow> [] | Some c \<Rightarrow> [c])
     @ [eip s, ucast (cs s), eflags (core s)]
     @ (if rpl gate_cs < rpl (cs s) then [esp s, ucast (ss s)] else [])"

lemma stack_core [simp]: "ram m = cmem s \<Longrightarrow> stack_top (s\<lparr>core := m\<rparr>) ws = stack_top s ws"
  by (simp add: stack_top_def)

lemma stack_nil [simp]: "stack_top s []"
  by (simp add: stack_top_def)

lemma push_enter:
  "push v (s\<lparr>core := cli (core s), cs := a, eip := b\<rparr>) = (push v s)\<lparr>core := cli (core (push v s)), cs := a, eip := b\<rparr>"
  by (simp add: push_def cli_def)

lemma arrive_pushes:
  "arrive esp0 ss0 gate_cs gate_eip err s =
    (let t = (if rpl gate_cs < rpl (cs s) then s\<lparr>esp := esp0, ss := ss0\<rparr> else s);
         t' = pushes (saved_state gate_cs err s) t
     in t'\<lparr>core := cli (core t'), cs := gate_cs, eip := gate_eip\<rparr>)"
  by (cases err; cases "rpl gate_cs < rpl (cs s)")
    (simp_all add: arrive_def int_enter_def saved_state_def Let_def push_enter)

lemma stack_arrive:
  assumes "aligned4 (esp (arrive esp0 ss0 gate_cs gate_eip err s))"
  shows "stack_top (arrive esp0 ss0 gate_cs gate_eip err s) (saved_state gate_cs err s)"
proof -
  let ?t = "if rpl gate_cs < rpl (cs s) then s\<lparr>esp := esp0, ss := ss0\<rparr> else s"
  let ?ws = "saved_state gate_cs err s"
  have "aligned4 (esp ?t + (- 4 * of_nat (length ?ws)))"
    using assms by (simp add: arrive_pushes Let_def)
  moreover have "aligned4 (4 * of_nat (length ?ws))"
    by (simp add: saved_state_def aligned4_def split: option.splits)
  ultimately have "aligned4 (esp ?t)" using aligned4_add by fastforce
  then have "stack_top (pushes ?ws ?t) (?ws @ [])"
    by (intro stack_pushes [THEN conjunct1]) (simp_all add: saved_state_def split: option.splits)
  then show ?thesis by (simp add: arrive_pushes Let_def cli_def stack_top_def)
qed

text \<open>The words of the trap frame the stub builds, the argument of the handler first.\<close>

definition frame_words :: "u32 \<Rightarrow> bool \<Rightarrow> cpu \<Rightarrow> u32 list" where
  "frame_words n erro_code s = [esp s - (if erro_code then 52 else 56),
     ucast (gs s), ucast (fs s), ucast (es s), ucast (ds s), edi s, esi s, ebp s,
     esp s - (if erro_code then 4 else 8), ebx s, edx s, ecx s, eax s, n] @ (if erro_code then [] else [0])"

lemma stub_save_pushes: "stub_save n erro_code s = pushes (frame_words n erro_code s) s"
  by (simp add: stub_save_def frame_words_def push_segments_pushes pusha_pushes Let_def)

lemma pop_frame_stack:
  "stack_top s (a # b # c # ws) \<Longrightarrow> pop_frame s =
     s\<lparr>eip := a, cs := ucast b, core := write_eflags c (core s), esp := esp s + 12\<rparr>"
  by (simp add: pop_frame_def pop_def stack_top_def Let_def add.assoc)

lemma iret_same:
  assumes "stack_top s (a # b # c # ws)" "\<not> rpl (cs s) < rpl (ucast b)"
  shows "iret s = s\<lparr>eip := a, cs := ucast b, core := write_eflags c (core s), esp := esp s + 12\<rparr>"
  using assms(2) by (simp add: iret_def pop_frame_stack [OF assms(1)])

lemma iret_outer:
  assumes "stack_top s (a # b # c # d # e # ws)" "rpl (cs s) < rpl (ucast b)"
  shows "iret s = s\<lparr>eip := a, cs := ucast b, core := write_eflags c (core s), esp := d, ss := ucast e\<rparr>"
proof -
  let ?s = "s\<lparr>eip := a, cs := ucast b, core := write_eflags c (core s), esp := esp s + 12\<rparr>"
  have "stack_top ?s (d # e # ws)" using assms(1) by (simp add: stack_top_def write_eflags_def add.assoc)
  then have "pop ?s = (d, ?s\<lparr>esp := esp s + 16\<rparr>)" "pop (?s\<lparr>esp := esp s + 16\<rparr>) = (e, ?s\<lparr>esp := esp s + 20\<rparr>)"
    by (simp_all add: pop_def stack_top_def add.assoc)
  with assms(2) show ?thesis by (simp add: iret_def pop_frame_stack [OF assms(1)])
qed

lemma ucast_sel [simp]: "(ucast (ucast (x :: u16) :: u32) :: u16) = x"
  by (rule bit_word_eqI) (simp add: bit_simps)

lemma iret_saved:
  assumes "stack_top s (saved_state gate_cs None t)" "cs s = gate_cs"
    and "rpl gate_cs < rpl (cs t) \<or> (esp t = esp s + 12 \<and> ss s = ss t)"
  shows "iret s = s\<lparr>eip := eip t, cs := cs t, core := write_eflags (eflags (core t)) (core s), esp := esp t, ss := ss t\<rparr>"
proof (cases "rpl gate_cs < rpl (cs t)")
  case True
  with assms(1) have "stack_top s [eip t, ucast (cs t), eflags (core t), esp t, ucast (ss t)]" by (simp add: saved_state_def)
  from iret_outer [OF this] True assms(2) show ?thesis by simp
next
  case False
  with assms(1) have "stack_top s [eip t, ucast (cs t), eflags (core t)]" by (simp add: saved_state_def)
  from iret_same [OF this] False assms(2)
  have "iret s = s\<lparr>eip := eip t, cs := cs t, core := write_eflags (eflags (core t)) (core s), esp := esp s + 12\<rparr>" by simp
  with False assms(3) show ?thesis by (simp add: write_eflags_def)
qed

lemma stack_drop: "stack_top s (us @ ws) \<Longrightarrow> stack_top (s\<lparr>esp := esp s + 4 * of_nat (length us)\<rparr>) ws"
proof (induction us arbitrary: s)
  case (Cons u us)
  then have "stack_top (s\<lparr>esp := esp s + 4\<rparr>) (us @ ws)" by (simp add: stack_top_def)
  from Cons.IH [OF this] show ?case by (simp add: algebra_simps)
qed simp

lemma saved_state_err: "saved_state gate_cs (Some c) t = c # saved_state gate_cs None t"
  by (simp add: saved_state_def)

text \<open>Whatever ran in between, the stub restores the registers it finds in the frame.\<close>

lemma stub_restore_frame:
  assumes "stack_top s (frame_words n (err \<noteq> None) t @ saved_state gate_cs err t0)" "cs s = gate_cs"
    and "esp t = esp s + 4 * of_nat (length (frame_words n (err \<noteq> None) t))"
    and "rpl gate_cs < rpl (cs t0) \<or> (esp t0 = esp t + 4 * of_nat (length (saved_state gate_cs err t0)) \<and> ss s = ss t0)"
    and "gs t = gs t0" "fs t = fs t0" "es t = es t0" "ds t = ds t0" "edi t = edi t0" "esi t = esi t0"
      "ebp t = ebp t0" "ebx t = ebx t0" "edx t = edx t0" "ecx t = ecx t0" "eax t = eax t0"
  shows "stub_restore s = t0\<lparr>core := write_eflags (eflags (core t0)) (core s)\<rparr>"
proof -
  let ?fp = "esp s + 4"
  have et: "esp t = esp s + (if err \<noteq> None then 56 else 60)"
    using assms(3) by (simp add: frame_words_def split: if_splits)
  have top: "stack_top s (?fp # ucast (gs t) # ucast (fs t) # ucast (es t) # ucast (ds t) # edi t # esi t # ebp t
      # (esp t - (if err \<noteq> None then 4 else 8)) # ebx t # edx t # ecx t # eax t # n
      # (case err of None \<Rightarrow> 0 | Some c \<Rightarrow> c) # saved_state gate_cs None t0)"
    using assms(1) et by (cases err) (simp_all add: frame_words_def saved_state_err add.commute [of 4 "esp s"])
  have e: "stub_restore s = iret (drop_words 2 (popa (pop_segments (s\<lparr>esp := ?fp\<rparr>))))"
    using stack_pop [OF top] by (simp add: stub_restore_def)
  let ?s1 = "s\<lparr>esp := ?fp\<rparr>"
  have t1: "stack_top ?s1 (ucast (gs t) # ucast (fs t) # ucast (es t) # ucast (ds t) # edi t # esi t # ebp t
      # (esp t - (if err \<noteq> None then 4 else 8)) # ebx t # edx t # ecx t # eax t # n
      # (case err of None \<Rightarrow> 0 | Some c \<Rightarrow> c) # saved_state gate_cs None t0)"
    using top by (simp add: stack_top_def)
  note s2 = pop_segments_stack [OF t1]
  let ?s2 = "pop_segments ?s1"
  have t2: "stack_top ?s2 (edi t # esi t # ebp t # (esp t - (if err \<noteq> None then 4 else 8)) # ebx t # edx t # ecx t
      # eax t # n # (case err of None \<Rightarrow> 0 | Some c \<Rightarrow> c) # saved_state gate_cs None t0)"
    using t1 unfolding s2 by (simp add: stack_top_def add.assoc)
  note s3 = popa_stack [OF t2, unfolded s2]
  let ?s3 = "drop_words 2 (popa ?s2)"
  have f: "?s3 = s\<lparr>gs := gs t, fs := fs t, es := es t, ds := ds t, edi := edi t, esi := esi t, ebp := ebp t,
      ebx := ebx t, edx := edx t, ecx := ecx t, eax := eax t, esp := esp s + 60\<rparr>"
    unfolding drop_words_def s2 s3 by simp
  have t3: "stack_top ?s3 (saved_state gate_cs None t0)"
    using t2 unfolding f unfolding s2 by (simp add: stack_top_def add.assoc)
  have "rpl gate_cs < rpl (cs t0) \<or> esp t0 = esp ?s3 + 12 \<and> ss ?s3 = ss t0"
    unfolding f using et assms(4) by (cases err) (auto simp: saved_state_def)
  moreover have "cs ?s3 = gate_cs" using assms(2) by (simp add: f)
  ultimately have i: "iret ?s3 = ?s3\<lparr>eip := eip t0, cs := cs t0,
      core := write_eflags (eflags (core t0)) (core ?s3), esp := esp t0, ss := ss t0\<rparr>"
    by (intro iret_saved [OF t3])
  show ?thesis unfolding e i unfolding f by (intro cpu.equality) (simp_all add: assms(5-))
qed

text \<open>The words of the system call frame, the argument of the routine first.\<close>

definition syscall_words :: "cpu \<Rightarrow> u32 list" where
  "syscall_words s = [esp s - 68, ebx s, ecx s, edx s, ucast (gs s), ucast (fs s), ucast (es s), ucast (ds s),
     edi s, esi s, ebp s, esp s - 8, ebx s, edx s, ecx s, eax s, 0x80, 0]"

lemma syscall_save_pushes: "syscall_save s = pushes (syscall_words s) s"
  by (simp add: syscall_save_def syscall_words_def push_segments_pushes pusha_pushes Let_def)

lemma length_syscall_words [simp]: "length (syscall_words s) = 18"
  by (simp add: syscall_words_def)

lemma syscall_restore_frame:
  assumes top: "stack_top s (syscall_words t @ saved_state gate_cs None t0)" and "cs s = gate_cs" "aligned4 (esp s)"
    and et: "esp t = esp s + 72"
    and "rpl gate_cs < rpl (cs t0) \<or> (esp t0 = esp t + 4 * of_nat (length (saved_state gate_cs None t0)) \<and> ss s = ss t0)"
    and "gs t = gs t0" "fs t = fs t0" "es t = es t0" "ds t = ds t0" "edi t = edi t0" "esi t = esi t0"
      "ebp t = ebp t0" "ebx t = ebx t0" "edx t = edx t0" "ecx t = ecx t0" "eax t = eax t0"
  shows "syscall_restore s = t0\<lparr>eax := eax s, core := write_eflags (eflags (core t0))
    ((core s)\<lparr>ram := st32 (cmem s) (esp t - 12) (eax s)\<rparr>)\<rparr>"
proof -
  let ?sv = "saved_state gate_cs None t0"
  let ?s1 = "s\<lparr>esp := esp s + 16\<rparr>"
  have t1: "stack_top ?s1 (ucast (gs t) # ucast (fs t) # ucast (es t) # ucast (ds t) # edi t # esi t # ebp t
      # (esp t - 8) # ebx t # edx t # ecx t # eax t # 0x80 # 0 # ?sv)"
    using top by (simp add: stack_top_def syscall_words_def add.assoc)
  note s2 = pop_segments_stack [OF t1]
  let ?s2 = "pop_segments ?s1"
  have t2: "stack_top ?s2 (edi t # esi t # ebp t # (esp t - 8) # ebx t # edx t # ecx t # eax t # 0x80 # 0 # ?sv)"
    using t1 unfolding s2 by (simp add: stack_top_def add.assoc)
  let ?s3 = "?s2\<lparr>core := (core ?s2)\<lparr>ram := st32 (cmem ?s2) (esp ?s2 + 0x1C) (eax ?s2)\<rparr>\<rparr>"
  have "aligned4 (esp ?s2)" using assms(3) unfolding s2 by (simp add: align_simps)
  then have "words_at (st32 (cmem ?s2) (esp ?s2 + of_nat (4 * 7)) (eax ?s2)) (esp ?s2)
      ((edi t # esi t # ebp t # (esp t - 8) # ebx t # edx t # ecx t # eax t # 0x80 # 0 # ?sv)[7 := eax ?s2])"
    using t2 by (intro words_at_update) (simp_all add: stack_top_def saved_state_def)
  then have t3: "stack_top ?s3 (edi t # esi t # ebp t # (esp t - 8) # ebx t # edx t # ecx t # eax ?s2 # 0x80 # 0 # ?sv)"
    by (simp add: stack_top_def numeral_eq_Suc)
  note s4 = popa_stack [OF t3]
  let ?s5 = "drop_words 2 (popa ?s3)"
  have f: "?s5 = s\<lparr>gs := gs t, fs := fs t, es := es t, ds := ds t, edi := edi t, esi := esi t, ebp := ebp t,
      ebx := ebx t, edx := edx t, ecx := ecx t, esp := esp s + 72,
      core := (core s)\<lparr>ram := st32 (cmem s) (esp s + 60) (eax s)\<rparr>\<rparr>"
    unfolding drop_words_def s4 unfolding s2 by (simp add: add.commute [of _ "esp s"])
  have t5: "stack_top ?s5 ?sv"
    using t3 unfolding f unfolding s2 by (simp add: stack_top_def add.assoc)
  have "rpl gate_cs < rpl (cs t0) \<or> esp t0 = esp ?s5 + 12 \<and> ss ?s5 = ss t0"
    unfolding f using et assms(5) by (auto simp: saved_state_def)
  moreover have "cs ?s5 = gate_cs" using assms(2) by (simp add: f)
  ultimately have i: "iret ?s5 = ?s5\<lparr>eip := eip t0, cs := cs t0,
      core := write_eflags (eflags (core t0)) (core ?s5), esp := esp t0, ss := ss t0\<rparr>"
    by (intro iret_saved [OF t5])
  have "pop s = (esp s + 4, s\<lparr>esp := esp s + 4\<rparr>)"
    using stack_pop [of s "esp t - 68"] top et by (simp add: syscall_words_def add.commute [of 4])
  then have e: "syscall_restore s = iret ?s5"
    by (simp add: syscall_restore_def Let_def add.commute [of _ "esp s"])
  show ?thesis unfolding e i unfolding f by (intro cpu.equality) (simp_all add: assms(6-) et add.commute)
qed

section \<open>What a C function owes its caller\<close>

text \<open>
  A C function leaves the stack pointer, the stack and code segments, and the \<open>k\<close> bytes of
  its caller's frame as they were.
\<close>

definition keeps_frame :: "nat \<Rightarrow> cpu \<Rightarrow> cpu \<Rightarrow> bool" where
  "keeps_frame k s s' \<longleftrightarrow> esp s' = esp s \<and> ss s' = ss s \<and> cs s' = cs s
     \<and> (\<forall>x\<in>region (esp s) k. cmem s' x = cmem s x)"

lemma keeps_frame_stack:
  "keeps_frame k s s' \<Longrightarrow> stack_top s ws \<Longrightarrow> 4 * length ws \<le> k \<Longrightarrow> stack_top s' ws"
proof -
  assume k: "keeps_frame k s s'" and w: "stack_top s ws" "4 * length ws \<le> k"
  then have "cmem s' x = cmem s x" if "x \<in> region (esp s) (4 * length ws)" for x
    using that region_mono [OF w(2)] unfolding keeps_frame_def by blast
  from words_at_cong [OF this] w(1) k show "stack_top s' ws"
    unfolding keeps_frame_def stack_top_def by simp
qed

lemma length_saved_state:
  "length (saved_state gate_cs err s)
     = 3 + (case err of None \<Rightarrow> 0 | Some c \<Rightarrow> 1) + (if rpl gate_cs < rpl (cs s) then 2 else 0)"
  by (simp add: saved_state_def split: option.splits)

lemma arrive_fields [simp]:
  "eax (arrive a b c d err s) = eax s" "ecx (arrive a b c d err s) = ecx s" "edx (arrive a b c d err s) = edx s"
  "ebx (arrive a b c d err s) = ebx s" "ebp (arrive a b c d err s) = ebp s" "esi (arrive a b c d err s) = esi s"
  "edi (arrive a b c d err s) = edi s" "ds (arrive a b c d err s) = ds s" "es (arrive a b c d err s) = es s"
  "fs (arrive a b c d err s) = fs s" "gs (arrive a b c d err s) = gs s" "cs (arrive a b c d err s) = c"
  by (simp_all add: arrive_pushes Let_def)

lemma arrive_stack:
  "rpl c < rpl (cs s) \<or> esp s = esp (arrive a b c d err s) + 4 * of_nat (length (saved_state c err s))
     \<and> ss (arrive a b c d err s) = ss s"
  by (simp add: arrive_pushes Let_def)

text \<open>
  Outside the words saved on the kernel stack, memory is as it was in the calling code, and
  entering changes nothing else of the machine but the interrupt flag.
\<close>

lemma core_pushes: "\<exists>m. core (pushes vs u) = (core u)\<lparr>ram := m\<rparr>"
proof (induction vs)
  case Nil
  show ?case by (intro exI [of _ "cmem u"]) simp
qed (auto simp: push_def)

lemma saved_other:
  fixes a b c d t
  defines "t1 \<equiv> arrive a b c d None t"
  assumes "x \<notin> region (esp (pushes ws t1)) (4 * length ws + 20)"
  shows "cmem (pushes ws t1) x = cmem t x"
proof -
  let ?t2 = "pushes ws t1" and ?sv = "saved_state c None t"
  let ?t = "if rpl c < rpl (cs t) then t\<lparr>esp := a, ss := b\<rparr> else t"
  let ?k = "4 * length ws"
  have r: "region (esp ?t2) (?k + 20) = region (esp ?t2) ?k \<union> region (esp ?t2 + of_nat ?k) 20"
    by (rule region_add)
  have e: "esp ?t2 + of_nat ?k = esp (pushes ?sv ?t)" by (simp add: t1_def arrive_pushes Let_def)
  have "4 * length ?sv \<le> 20" by (simp add: length_saved_state)
  then have "region (esp (pushes ?sv ?t)) (4 * length ?sv) \<subseteq> region (esp ?t2 + of_nat ?k) 20"
    unfolding e by (rule region_mono)
  then have x: "x \<notin> region (esp ?t2) ?k" "x \<notin> region (esp (pushes ?sv ?t)) (4 * length ?sv)"
    using assms(2) unfolding r by blast+
  have "cmem ?t2 x = cmem t1 x" by (rule pushes_other [OF x(1)])
  also have "\<dots> = cmem (pushes ?sv ?t) x" by (simp add: t1_def arrive_pushes Let_def cli_def)
  also have "\<dots> = cmem ?t x" by (rule pushes_other [OF x(2)])
  also have "\<dots> = cmem t x" by simp
  finally show ?thesis .
qed

lemma syscall_save_other:
  "x \<notin> region (esp (syscall_save (arrive a b c d None t))) 92
    \<Longrightarrow> cmem (syscall_save (arrive a b c d None t)) x = cmem t x"
  unfolding syscall_save_pushes using saved_other [of x "syscall_words (arrive a b c d None t)" a b c d t] by simp

lemma stub_save_other:
  "x \<notin> region (esp (stub_save n False (arrive a b c d None t))) 80
    \<Longrightarrow> cmem (stub_save n False (arrive a b c d None t)) x = cmem t x"
  unfolding stub_save_pushes
  using saved_other [of x "frame_words n False (arrive a b c d None t)" a b c d t] by (simp add: frame_words_def)

text \<open>The same for the state a C handler starts in, its return address included.\<close>

lemma handler_start:
  fixes a b c d n t
  defines "u \<equiv> stub_save n False (arrive a b c d None t)"
  shows "x \<notin> region (esp u - 4) 84 \<Longrightarrow> cmem (push (eip u) u) x = cmem t x"
    and "\<exists>m. core (push (eip u) u) = (cli (core t))\<lparr>ram := m\<rparr>"
proof -
  have r: "region (esp u - 4) 84 = region (esp u - 4) 4 \<union> region (esp u) 80"
    using region_add [of "esp u - 4" 4 80] by simp
  have wb: "word_bytes (esp u - 4) \<subseteq> region (esp u - 4) 4"
    using word_in_region [of 0 4 _ "esp u - 4"] by auto
  assume x: "x \<notin> region (esp u - 4) 84"
  then have "x \<notin> word_bytes (esp u - 4)" using r wb by blast
  then have "cmem (push (eip u) u) x = cmem u x" by (simp add: st32_other_byte)
  also have "\<dots> = cmem t x" unfolding u_def by (rule stub_save_other) (use x r u_def in blast)
  finally show "cmem (push (eip u) u) x = cmem t x" .
next
  let ?t = "if rpl c < rpl (cs t) then t\<lparr>esp := a, ss := b\<rparr> else t"
  obtain m where m: "core (pushes (saved_state c None t) ?t) = (core t)\<lparr>ram := m\<rparr>"
    using core_pushes [of "saved_state c None t" ?t] by (auto split: if_splits)
  obtain m' where "core u = (core (arrive a b c d None t))\<lparr>ram := m'\<rparr>"
    using core_pushes unfolding u_def stub_save_pushes by blast
  then have "core u = (cli (core t))\<lparr>ram := m'\<rparr>"
    using m by (simp add: arrive_pushes Let_def cli_def write_eflags_def)
  then show "\<exists>m. core (push (eip u) u) = (cli (core t))\<lparr>ram := m\<rparr>" by (auto simp: push_def)
qed

locale c_function =
  fixes f :: "cpu \<Rightarrow> cpu option" and ok :: "cpu \<Rightarrow> bool" and k :: nat
  assumes keeps: "ok s \<Longrightarrow> call f s = Some s' \<Longrightarrow> keeps_frame k s s'"
begin

text \<open>
  The stub undoes the interrupt: the registers and flags are those of the interrupted code,
  the rest is what the function made of it.
\<close>

lemma stub_transparent:
  fixes a b gate_cs d err t n
  defines "t1 \<equiv> arrive a b gate_cs d err t"
  defines "t2 \<equiv> stub_save n (err \<noteq> None) t1"
  assumes "80 \<le> k" "aligned4 (esp t1)" "ok t2" "call f t2 = Some t3"
  shows "exception_stub n (err \<noteq> None) f t1 = Some (t\<lparr>core := write_eflags (eflags (core t)) (core t3)\<rparr>)"
proof -
  let ?fw = "frame_words n (err \<noteq> None) t1" and ?sv = "saved_state gate_cs err t"
  have kf: "keeps_frame k t2 t3" using keeps assms(5,6) by blast
  have "stack_top t1 ?sv" using stack_arrive assms(4) unfolding t1_def by blast
  then have "stack_top t2 (?fw @ ?sv)"
    unfolding t2_def stub_save_pushes
    by (intro stack_pushes [THEN conjunct1] assms(4)) (simp_all add: frame_words_def length_saved_state split: option.splits)
  moreover have "4 * length (?fw @ ?sv) \<le> k"
    using assms(3) by (simp add: frame_words_def length_saved_state split: option.splits)
  ultimately have top: "stack_top t3 (?fw @ ?sv)" using keeps_frame_stack [OF kf] by blast
  have "stub_restore t3 = t\<lparr>core := write_eflags (eflags (core t)) (core t3)\<rparr>"
  proof (rule stub_restore_frame [OF top])
    show "cs t3 = gate_cs" "esp t1 = esp t3 + 4 * of_nat (length ?fw)"
      using kf by (simp_all add: keeps_frame_def t2_def stub_save_pushes t1_def)
    show "rpl gate_cs < rpl (cs t) \<or> esp t = esp t1 + 4 * of_nat (length ?sv) \<and> ss t3 = ss t"
      using arrive_stack [of gate_cs t a b d err] kf by (auto simp: keeps_frame_def t2_def stub_save_pushes t1_def)
  qed (simp_all add: t1_def)
  then show ?thesis using assms(6) unfolding exception_stub_def t2_def by simp
qed

text \<open>
  The system call entry: the routine is the one in the entry of the table that \<open>eax\<close> selects,
  its result is the caller's \<open>eax\<close>, every other register is as it was.
\<close>

lemma syscall_serves:
  fixes a b gate_cs d t table routine
  defines "t1 \<equiv> arrive a b gate_cs d None t"
  defines "t2 \<equiv> syscall_save t1"
  defines "t2' \<equiv> t2\<lparr>ebx := table, eax := ld32 (cmem t) (table + 4 * eax t)\<rparr>"
  assumes "92 \<le> k" "aligned4 (esp t1)" "word_bytes (table + 4 * eax t) \<inter> region (esp t2) 92 = {}"
    and "routine (ld32 (cmem t) (table + 4 * eax t)) = f" "ok t2'" "call f t2' = Some t3"
  shows "syscall_handler table routine t1 = Some (t\<lparr>eax := eax t3, core := write_eflags (eflags (core t))
    ((core t3)\<lparr>ram := st32 (cmem t3) (esp t1 - 12) (eax t3)\<rparr>)\<rparr>)"
proof -
  let ?sv = "saved_state gate_cs None t"
  have kf: "keeps_frame k t2' t3" using keeps assms(8,9) by blast
  have "stack_top t1 ?sv" using stack_arrive assms(5) unfolding t1_def by blast
  then have top2: "stack_top t2 (syscall_words t1 @ ?sv)" and al2: "aligned4 (esp t2)"
    unfolding t2_def syscall_save_pushes
    using stack_pushes [of t1 "syscall_words t1" ?sv] assms(5) by (simp_all add: length_saved_state)
  have all: "cmem t2 x = cmem t x" if "x \<notin> region (esp t2) 92" for x
    using syscall_save_other that unfolding t2_def t1_def by blast
  have "ld32 (cmem t2) (table + 4 * eax t) = ld32 (cmem t) (table + 4 * eax t)"
    using assms(6) by (intro ld32_cong all) blast
  then have h: "syscall_handler table routine t1 = map_option syscall_restore (call f t2')"
    using assms(7) by (simp add: syscall_handler_def t2'_def t2_def Let_def syscall_save_pushes t1_def)
  have "stack_top t2' (syscall_words t1 @ ?sv)" using top2 by (simp add: t2'_def)
  then have top: "stack_top t3 (syscall_words t1 @ ?sv)"
    by (rule keeps_frame_stack [OF kf]) (use assms(4) in \<open>simp add: length_saved_state\<close>)
  have t3: "esp t3 = esp t2" "ss t3 = ss t1" "cs t3 = gate_cs"
    using kf by (simp_all add: keeps_frame_def t2'_def t2_def syscall_save_pushes t1_def)
  have "syscall_restore t3 = t\<lparr>eax := eax t3, core := write_eflags (eflags (core t))
    ((core t3)\<lparr>ram := st32 (cmem t3) (esp t1 - 12) (eax t3)\<rparr>)\<rparr>"
  proof (rule syscall_restore_frame [OF top t3(3)])
    show "aligned4 (esp t3)" using al2 t3(1) by simp
    show "esp t1 = esp t3 + 72" by (simp add: t3(1) t2_def syscall_save_pushes)
    show "rpl gate_cs < rpl (cs t) \<or> esp t = esp t1 + 4 * of_nat (length ?sv) \<and> ss t3 = ss t"
      using arrive_stack [of gate_cs t a b d None] t3(2) by (auto simp: t1_def)
  qed (simp_all add: t1_def)
  then show ?thesis by (simp add: h assms(9))
qed

end

text \<open>The functions of the kernel keep the frame when they write elsewhere in memory.\<close>

definition writes_elsewhere :: "nat \<Rightarrow> (machine \<Rightarrow> machine option) \<Rightarrow> cpu \<Rightarrow> bool" where
  "writes_elsewhere k h s \<longleftrightarrow> (\<forall>m. h (core (push (eip s) s)) = Some m \<longrightarrow>
     (\<forall>x\<in>region (esp s) k. ram m x = cmem s x))"

interpretation kernel: c_function "of_c scr h" "writes_elsewhere k h" k for scr h k
proof
  fix s s' assume h: "writes_elsewhere k h s" "call (of_c scr h) s = Some s'"
  from h(2) obtain m where "h (core (push (eip s) s)) = Some m"
      "core s' = m" "esp s' = esp s" "ss s' = ss s" "cs s' = cs s"
    by (auto simp: call_def of_c_def pop_def push_def)
  with h(1) show "keeps_frame k s s'" by (simp add: keeps_frame_def writes_elsewhere_def)
qed

text \<open>The largest such interface: any code at all that happens to keep the frame.\<close>

interpretation any_code: c_function f "\<lambda>s. \<forall>s'. call f s = Some s' \<longrightarrow> keeps_frame k s s'" k for f k
  by unfold_locales blast

text \<open>The trap frame of \<open>trapframe.h\<close>, at the address the handler is given.\<close>

record trap_frame_t =
  tf_gs :: u32
  tf_fs :: u32
  tf_es :: u32
  tf_ds :: u32
  tf_edi :: u32
  tf_esi :: u32
  tf_ebp :: u32
  tf_esp :: u32
  tf_ebx :: u32
  tf_edx :: u32
  tf_ecx :: u32
  tf_eax :: u32
  tf_num :: u32
  tf_erro_code :: u32
  tf_eip :: u32
  tf_cs :: u32
  tf_eflags :: u32

definition trap_frame_at :: "mem \<Rightarrow> u32 \<Rightarrow> trap_frame_t" where
  "trap_frame_at m a = \<lparr>tf_gs = ld32 m a, tf_fs = ld32 m (a + 4), tf_es = ld32 m (a + 8), tf_ds = ld32 m (a + 12),
     tf_edi = ld32 m (a + 16), tf_esi = ld32 m (a + 20), tf_ebp = ld32 m (a + 24), tf_esp = ld32 m (a + 28),
     tf_ebx = ld32 m (a + 32), tf_edx = ld32 m (a + 36), tf_ecx = ld32 m (a + 40), tf_eax = ld32 m (a + 44),
     tf_num = ld32 m (a + 48), tf_erro_code = ld32 m (a + 52), tf_eip = ld32 m (a + 56), tf_cs = ld32 m (a + 60),
     tf_eflags = ld32 m (a + 64)\<rparr>"

text \<open>
  C5: an interrupt is transparent.  The processor enters the gate, with or without a change of
  privilege and with or without an error code, the stub saves the registers, calls the C
  handler and returns: the general and segment registers, the flags, the instruction pointer and
  the stack are those of the interrupted code, and the rest of the machine is what the handler
  left.  The handler is any code that comes back with the stack pointer, the stack and code
  segments and the 80 bytes above its return address as they were; the other registers, general
  and segment, it may leave with any value.  The kernel stack is aligned.
\<close>

theorem interrupt_transparent:
  fixes esp0 ss0 gate_cs gate_eip err s n
  defines "t \<equiv> arrive esp0 ss0 gate_cs gate_eip err s"
  defines "u \<equiv> stub_save n (err \<noteq> None) t"
  assumes "aligned4 (esp t)" and "call f u = Some s'" "keeps_frame 80 u s'"
  shows "exception_stub n (err \<noteq> None) f t = Some (s\<lparr>core := write_eflags (eflags (core s)) (core s')\<rparr>)"
  unfolding t_def
  by (rule any_code.stub_transparent [OF order_refl]) (use assms in \<open>simp_all add: t_def u_def\<close>)

text \<open>
  C29: the handler is given the address of a trap frame, and the fields of \<open>trap_frame_t\<close> hold
  there what the interrupted code had in the registers, the number of the interrupt, the error
  code, and the place and flags to return to.  The stack pointer in it is the one on the
  kernel's stack, not the one of the interrupted code.
\<close>

theorem trap_frame_correct:
  fixes esp0 ss0 gate_cs gate_eip err s n
  defines "t \<equiv> stub_save n (err \<noteq> None) (arrive esp0 ss0 gate_cs gate_eip err s)"
  assumes "aligned4 (esp (arrive esp0 ss0 gate_cs gate_eip err s))"
  shows "trap_frame_at (cmem t) (ld32 (cmem t) (esp t)) =
    \<lparr>tf_gs = ucast (gs s), tf_fs = ucast (fs s), tf_es = ucast (es s), tf_ds = ucast (ds s),
     tf_edi = edi s, tf_esi = esi s, tf_ebp = ebp s,
     tf_esp = esp (arrive esp0 ss0 gate_cs gate_eip err s) - (case err of None \<Rightarrow> 8 | Some c \<Rightarrow> 4), tf_ebx = ebx s, tf_edx = edx s,
     tf_ecx = ecx s, tf_eax = eax s, tf_num = n, tf_erro_code = (case err of None \<Rightarrow> 0 | Some c \<Rightarrow> c),
     tf_eip = eip s, tf_cs = ucast (cs s), tf_eflags = eflags (core s)\<rparr>"
proof -
  let ?t1 = "arrive esp0 ss0 gate_cs gate_eip err s"
  have "stack_top ?t1 (saved_state gate_cs err s)" using stack_arrive assms(2) by blast
  then have "stack_top t (frame_words n (err \<noteq> None) ?t1 @ saved_state gate_cs err s)"
    unfolding t_def stub_save_pushes
    by (intro stack_pushes [THEN conjunct1] assms(2)) (simp_all add: frame_words_def length_saved_state split: option.splits)
  moreover have "esp t = esp ?t1 - 4 * of_nat (length (frame_words n (err \<noteq> None) ?t1))"
    unfolding t_def stub_save_pushes by simp
  ultimately show ?thesis
    by (cases err) (simp_all add: stack_top_def frame_words_def saved_state_def trap_frame_at_def add.assoc
        add.commute [of _ "esp (arrive esp0 ss0 gate_cs gate_eip v s)" for v])
qed

text \<open>The sample: a user program, the kernel stack at 0x9000.\<close>

definition sample_cpu :: cpu where
  "sample_cpu = \<lparr>core = sample_machine, eax = 1, ecx = 2, edx = 3, ebx = 4, esp = 0x8000, ebp = 5, esi = 6,
     edi = 7, ds = 0x2B, es = 0x2B, fs = 0x2B, gs = 0x2B, ss = 0x2B, cs = 0x23, eip = 0x100000\<rparr>"

lemma sample_cpu_arrives:
  "esp (arrive 0x9000 0x10 8 0x500 None sample_cpu) = 0x8FEC"
  by (simp add: arrive_pushes Let_def sample_cpu_def saved_state_def rpl_def)

text \<open>A handler that leaves its own values in every register it may change.\<close>

definition sample_scratch :: "cpu \<Rightarrow> cpu" where
  "sample_scratch s = s\<lparr>eax := 0xA, ecx := 0xB, edx := 0xC, ebx := 0xD, ebp := 0xE, esi := 0xF, edi := 0x11,
     ds := 0x10, es := 0x10, fs := 0x10, gs := 0x10\<rparr>"

theorem interrupt_transparent_witness:
  "\<exists>s' c. call (of_c sample_scratch irq_handler_divider)
        (stub_save 0 False (arrive 0x9000 0x10 8 0x500 None sample_cpu)) = Some s'
    \<and> eax s' = 0xA \<and> ebx s' = 0xD \<and> ds s' = 0x10 \<and> gs s' = 0x10
    \<and> exception_stub 0 False (of_c sample_scratch irq_handler_divider) (arrive 0x9000 0x10 8 0x500 None sample_cpu)
      = Some (sample_cpu\<lparr>core := c\<rparr>)"
proof -
  let ?t = "stub_save 0 False (arrive 0x9000 0x10 8 0x500 None sample_cpu)" and ?f = "of_c sample_scratch irq_handler_divider"
  let ?r = "snd (pop (scratched sample_scratch (push (eip ?t) ?t)))"
  have c: "call ?f ?t = Some ?r"
    by (simp add: call_def of_c_def irq_handler_divider_def)
  moreover have "writes_elsewhere 80 irq_handler_divider ?t"
  proof -
    have "word_bytes (esp ?t - 4) \<inter> region (esp ?t) 80 = {}"
      using region_add_disjoint [of 4 80 "esp ?t - 4"] word_in_region [of 0 4 _ "esp ?t - 4"] by auto
    then have "x \<notin> word_bytes (esp ?t - 4)" if "x \<in> region (esp ?t) 80" for x using that by blast
    then show ?thesis
      by (simp add: writes_elsewhere_def irq_handler_divider_def st32_other_byte)
  qed
  ultimately have "keeps_frame 80 ?t ?r" using kernel.keeps by blast
  then have "exception_stub 0 False ?f (arrive 0x9000 0x10 8 0x500 None sample_cpu)
    = Some (sample_cpu\<lparr>core := write_eflags (eflags (core sample_cpu)) (core ?r)\<rparr>)"
    using interrupt_transparent [of "0x9000" "0x10" 8 "0x500" None sample_cpu ?f 0 ?r] c
    by (simp add: sample_cpu_arrives aligned4_def)
  moreover have "eax ?r = 0xA \<and> ebx ?r = 0xD \<and> ds ?r = 0x10 \<and> gs ?r = 0x10"
    by (simp add: pop_def scratched_def sample_scratch_def)
  ultimately show ?thesis using c by blast
qed

theorem trap_frame_correct_witness:
  "\<exists>m a. tf_eip (trap_frame_at m a) = 0x100000 \<and> tf_edi (trap_frame_at m a) = 7 \<and> tf_num (trap_frame_at m a) = 0x20"
proof -
  let ?t = "stub_save 0x20 False (arrive 0x9000 0x10 8 0x500 None sample_cpu)"
  have "trap_frame_at (cmem ?t) (ld32 (cmem ?t) (esp ?t)) =
    \<lparr>tf_gs = 0x2B, tf_fs = 0x2B, tf_es = 0x2B, tf_ds = 0x2B, tf_edi = 7, tf_esi = 6, tf_ebp = 5, tf_esp = 0x8FE4,
     tf_ebx = 4, tf_edx = 3, tf_ecx = 2, tf_eax = 1, tf_num = 0x20, tf_erro_code = 0,
     tf_eip = 0x100000, tf_cs = 0x23, tf_eflags = eflags sample_machine\<rparr>"
    using trap_frame_correct [of "0x9000" "0x10" 8 "0x500" None sample_cpu "0x20"]
    by (simp add: sample_cpu_arrives aligned4_def) (simp add: sample_cpu_def)
  then show ?thesis by (metis trap_frame_t.select_convs(5,13,15))
qed

section \<open>System calls\<close>

text \<open>
  The frame a system call routine is given: the three arguments, then the trap frame.  A
  routine takes its address as the first argument and returns its result in \<open>eax\<close>.
\<close>

record syscall_frame_t =
  arg1 :: u32
  arg2 :: u32
  arg3 :: u32
  sys_regs :: trap_frame_t

definition syscall_frame_at :: "mem \<Rightarrow> u32 \<Rightarrow> syscall_frame_t" where
  "syscall_frame_at m a = \<lparr>arg1 = ld32 m a, arg2 = ld32 m (a + 4), arg3 = ld32 m (a + 8),
     sys_regs = trap_frame_at m (a + 12)\<rparr>"

definition of_c1 :: "(cpu \<Rightarrow> cpu) \<Rightarrow> (u32 \<Rightarrow> machine \<Rightarrow> (machine \<times> u32) option) \<Rightarrow> cpu \<Rightarrow> cpu option" where
  "of_c1 scr h s = map_option (\<lambda>(m, r). (scratched scr (s\<lparr>core := m\<rparr>))\<lparr>eax := r\<rparr>)
     (h (ld32 (cmem s) (esp s + 4)) (core s))"

definition writes_elsewhere1 :: "nat \<Rightarrow> (u32 \<Rightarrow> machine \<Rightarrow> (machine \<times> u32) option) \<Rightarrow> cpu \<Rightarrow> bool" where
  "writes_elsewhere1 k h s \<longleftrightarrow> (\<forall>m r. h (ld32 (cmem (push (eip s) s)) (esp s)) (core (push (eip s) s)) = Some (m, r)
     \<longrightarrow> (\<forall>x\<in>region (esp s) k. ram m x = cmem s x))"

interpretation syscalls: c_function "of_c1 scr h" "writes_elsewhere1 k h" k for scr h k
proof
  fix s s' assume h: "writes_elsewhere1 k h s" "call (of_c1 scr h) s = Some s'"
  from h(2) obtain m r where "h (ld32 (cmem (push (eip s) s)) (esp s)) (core (push (eip s) s)) = Some (m, r)"
    "core s' = m" "esp s' = esp s" "ss s' = ss s" "cs s' = cs s"
    by (auto simp: call_def of_c1_def pop_def push_def)
  with h(1) show "keeps_frame k s s'" by (simp add: keeps_frame_def writes_elsewhere1_def)
qed

lemma syscall_handler_effect:
  fixes esp0 ss0 gate_cs gate_eip s table
  defines "t \<equiv> arrive esp0 ss0 gate_cs gate_eip None s"
  defines "u \<equiv> (syscall_save t)\<lparr>ebx := table, eax := ld32 (cmem s) (table + 4 * eax s)\<rparr>"
  assumes "aligned4 (esp t)" "word_bytes (table + 4 * eax s) \<inter> region (esp u) 92 = {}"
    and "routine (ld32 (cmem s) (table + 4 * eax s)) = of_c1 scr h"
    and "writes_elsewhere1 92 h u" "call (of_c1 scr h) u = Some s'"
  shows "syscall_handler table routine t = Some (s\<lparr>eax := eax s', core := write_eflags (eflags (core s))
    ((core s')\<lparr>ram := st32 (cmem s') (esp t - 12) (eax s')\<rparr>)\<rparr>)"
  unfolding t_def
  by (rule syscalls.syscall_serves [OF order_refl])
    (use assms in \<open>simp_all add: t_def u_def\<close>)

text \<open>
  C11: a system call runs the routine in the entry of the table that \<open>eax\<close> selects; the caller
  goes on with the routine's result in \<open>eax\<close> and every other register, the flags and the stack
  as they were.
\<close>

theorem syscall_handler_serves:
  fixes esp0 ss0 gate_cs gate_eip s table
  defines "t \<equiv> arrive esp0 ss0 gate_cs gate_eip None s"
  defines "u \<equiv> (syscall_save t)\<lparr>ebx := table, eax := ld32 (cmem s) (table + 4 * eax s)\<rparr>"
  assumes "aligned4 (esp t)" "word_bytes (table + 4 * eax s) \<inter> region (esp u) 92 = {}"
    and "routine (ld32 (cmem s) (table + 4 * eax s)) = of_c1 scr h"
    and "writes_elsewhere1 92 h u" "call (of_c1 scr h) u = Some s'"
  shows "syscall_handler table routine t = Some (s\<lparr>eax := eax s', core := write_eflags (eflags (core s))
    ((core s')\<lparr>ram := st32 (cmem s') (esp t - 12) (eax s')\<rparr>)\<rparr>)"
  using assms(3-) unfolding t_def u_def by (rule syscall_handler_effect)

text \<open>
  the routine finds at the address it is given the three arguments the caller passed in
  \<open>ebx\<close>, \<open>ecx\<close> and \<open>edx\<close>, and behind them the trap frame of the caller.
\<close>

theorem syscall_frame_correct:
  fixes esp0 ss0 gate_cs gate_eip s
  defines "t \<equiv> syscall_save (arrive esp0 ss0 gate_cs gate_eip None s)"
  assumes "aligned4 (esp (arrive esp0 ss0 gate_cs gate_eip None s))"
  shows "syscall_frame_at (cmem t) (ld32 (cmem t) (esp t)) =
    \<lparr>arg1 = ebx s, arg2 = ecx s, arg3 = edx s, sys_regs =
    \<lparr>tf_gs = ucast (gs s), tf_fs = ucast (fs s), tf_es = ucast (es s), tf_ds = ucast (ds s),
     tf_edi = edi s, tf_esi = esi s, tf_ebp = ebp s,
     tf_esp = esp (arrive esp0 ss0 gate_cs gate_eip None s) - 8, tf_ebx = ebx s, tf_edx = edx s,
     tf_ecx = ecx s, tf_eax = eax s, tf_num = 0x80, tf_erro_code = 0,
     tf_eip = eip s, tf_cs = ucast (cs s), tf_eflags = eflags (core s)\<rparr>\<rparr>"
proof -
  let ?t1 = "arrive esp0 ss0 gate_cs gate_eip None s"
  have "stack_top ?t1 (saved_state gate_cs None s)" using stack_arrive assms(2) by blast
  then have "stack_top t (syscall_words ?t1 @ saved_state gate_cs None s)"
    unfolding t_def syscall_save_pushes
    by (intro stack_pushes [THEN conjunct1] assms(2)) (simp_all add: length_saved_state)
  moreover have "esp t = esp ?t1 - 72" unfolding t_def syscall_save_pushes by simp
  ultimately show ?thesis
    by (simp add: stack_top_def syscall_words_def saved_state_def syscall_frame_at_def trap_frame_at_def
        add.assoc add.commute [of _ "esp ?t1"])
qed

theorem syscall_handler_serves_witness:
  "\<exists>m. syscall_handler 0x5000 (\<lambda>_. of_c1 sample_scratch (\<lambda>_ m. Some (m, 42))) (arrive 0x9000 0x10 8 0x500 None sample_cpu)
    = Some (sample_cpu\<lparr>eax := 42, core := m\<rparr>)"
proof -
  let ?t = "arrive 0x9000 0x10 8 0x500 None sample_cpu" and ?h = "\<lambda>_ m. Some (m, 42 :: u32)"
  let ?u = "(syscall_save ?t)\<lparr>ebx := 0x5000, eax := ld32 (cmem sample_cpu) (0x5000 + 4 * eax sample_cpu)\<rparr>"
  have sp: "esp ?u = 0x8FA4" by (simp add: syscall_save_pushes sample_cpu_arrives)
  have e: "eax sample_cpu = 1" by (simp add: sample_cpu_def)
  have "word_bytes (0x5004) \<inter> region 0x8FA4 92 = {}"
    using region_before(1) [of "0x5004 :: u32" 4 "0x8FA4" 92] word_in_region [of 0 4 _ "0x5004"] by auto
  moreover have "writes_elsewhere1 92 ?h ?u"
  proof -
    have "word_bytes (esp ?u - 4) \<inter> region (esp ?u) 92 = {}"
      using region_add_disjoint [of 4 92 "esp ?u - 4"] word_in_region [of 0 4 _ "esp ?u - 4"] by auto
    then have "x \<notin> word_bytes (esp ?u - 4)" if "x \<in> region (esp ?u) 92" for x using that by blast
    then show ?thesis by (simp add: writes_elsewhere1_def st32_other_byte)
  qed
  moreover define r where "r = snd (pop ((scratched sample_scratch (push (eip ?u) ?u))\<lparr>eax := 42\<rparr>))"
  then have c: "call (of_c1 sample_scratch ?h) ?u = Some r" by (simp add: call_def of_c1_def)
  ultimately have "syscall_handler 0x5000 (\<lambda>_. of_c1 sample_scratch ?h) ?t = Some (sample_cpu\<lparr>eax := eax r,
      core := write_eflags (eflags (core sample_cpu)) ((core r)\<lparr>ram := st32 (cmem r) (esp ?t - 12) (eax r)\<rparr>)\<rparr>)"
    using syscall_handler_serves [of "0x9000" "0x10" 8 "0x500" sample_cpu "0x5000" "\<lambda>_. of_c1 sample_scratch ?h" sample_scratch ?h r] sp
    by (simp add: sample_cpu_arrives aligned4_def e)
  moreover have "eax r = 42" by (simp add: r_def pop_def)
  ultimately show ?thesis by auto
qed

theorem syscall_frame_correct_witness:
  "\<exists>m a. arg1 (syscall_frame_at m a) = 4 \<and> arg2 (syscall_frame_at m a) = 2 \<and> arg3 (syscall_frame_at m a) = 3"
proof -
  let ?t = "syscall_save (arrive 0x9000 0x10 8 0x500 None sample_cpu)"
  have "arg1 (syscall_frame_at (cmem ?t) (ld32 (cmem ?t) (esp ?t))) = 4
    \<and> arg2 (syscall_frame_at (cmem ?t) (ld32 (cmem ?t) (esp ?t))) = 2
    \<and> arg3 (syscall_frame_at (cmem ?t) (ld32 (cmem ?t) (esp ?t))) = 3"
    using syscall_frame_correct [of "0x9000" "0x10" 8 "0x500" sample_cpu]
    by (simp add: sample_cpu_arrives aligned4_def) (simp add: sample_cpu_def)
  then show ?thesis by blast
qed

section \<open>Switching stacks\<close>

text \<open>What \<open>simple_switch\<close> leaves on the stack it leaves, and takes from the one it enters.\<close>

lemma simple_switch_eq:
  assumes "aligned4 (esp s)" "stack_top s [ret, from_addr, to_sp]"
    and m: "m = st32 (cmem (pushes [ebp s, ebx s, edi s, esi s] s)) from_addr (esp s - 16)"
    and w: "words_at m to_sp [a, b, c, d, r]"
  shows "simple_switch s = s\<lparr>core := (core s)\<lparr>ram := m\<rparr>, eax := from_addr, edx := to_sp, esp := to_sp + 20,
    ebp := a, ebx := b, edi := c, esi := d, eip := r\<rparr>"
proof -
  have "ld32 (cmem s) (esp s + 4) = from_addr" "ld32 (cmem s) (esp s + 8) = to_sp"
    using assms(2) by (simp_all add: stack_top_def add.assoc)
  then show ?thesis
    using w by (simp add: simple_switch_def Let_def push_def pop_def m add.assoc)
qed

definition switch_mem :: "cpu \<Rightarrow> u32 \<Rightarrow> mem" where
  "switch_mem s from_addr = st32 (cmem (pushes [ebp s, ebx s, edi s, esi s] s)) from_addr (esp s - 16)"

lemma simple_switch_mem:
  assumes "aligned4 (esp s)" "stack_top s [ret, from_addr, to_sp]"
  shows "cmem (simple_switch s) = switch_mem s from_addr"
proof -
  have "words_at m a [ld32 m a, ld32 m (a + 4), ld32 m (a + 8), ld32 m (a + 12), ld32 m (a + 16)]" for m a
    by (simp add: add.assoc)
  from simple_switch_eq [OF assms refl this] show ?thesis by (simp add: switch_mem_def)
qed

lemma switch_mem_saved:
  assumes "aligned4 (esp s)" "stack_top s [ret, from_addr, to_sp]"
    and "word_bytes from_addr \<inter> region (esp s - 16) 20 = {}"
  shows "words_at (switch_mem s from_addr) (esp s - 16) [ebp s, ebx s, edi s, esi s, ret]"
    and "ld32 (switch_mem s from_addr) from_addr = esp s - 16"
proof -
  let ?p = "pushes [ebp s, ebx s, edi s, esi s] s"
  have "stack_top ?p ([ebp s, ebx s, edi s, esi s] @ [ret])"
    by (rule stack_pushes [THEN conjunct1]) (use assms(1,2) in \<open>simp_all add: stack_top_def\<close>)
  then have w: "words_at (cmem ?p) (esp s - 16) [ebp s, ebx s, edi s, esi s, ret]" by (simp add: stack_top_def)
  have "switch_mem s from_addr x = cmem ?p x" if "x \<in> region (esp s - 16) 20" for x
    using that assms(3) unfolding switch_mem_def by (intro st32_other_byte) blast
  then show "words_at (switch_mem s from_addr) (esp s - 16) [ebp s, ebx s, edi s, esi s, ret]"
    by (intro words_at_cong [OF _ w]) simp
  show "ld32 (switch_mem s from_addr) from_addr = esp s - 16" by (simp add: switch_mem_def ld32_st32)
qed

text \<open>
  C25: a thread that was switched away from comes back as it left.  If a later call of
  \<open>simple_switch\<close>, on another stack, is given the stack pointer the first call stored, and the
  20 bytes the first call left on its stack are intact, then the first call returns: to its
  return address, with its stack pointer and the registers a C function must preserve.
\<close>

theorem simple_switch_roundtrip:
  assumes "aligned4 (esp s)" "stack_top s [ret, from_addr, to_sp]" "word_bytes from_addr \<inter> region (esp s - 16) 20 = {}"
    and "\<forall>x\<in>word_bytes from_addr \<union> region (esp s - 16) 20. cmem u x = cmem (simple_switch s) x"
    and "aligned4 (esp u)" "stack_top u [ret', from', ld32 (cmem u) from_addr]"
    and "word_bytes from' \<inter> region (esp s - 16) 20 = {}" "region (esp u - 16) 16 \<inter> region (esp s - 16) 20 = {}"
  shows "\<exists>m. simple_switch u = u\<lparr>core := (core u)\<lparr>ram := m\<rparr>, eax := from', edx := esp s - 16, esp := esp s + 4,
    ebp := ebp s, ebx := ebx s, edi := edi s, esi := esi s, eip := ret\<rparr>"
proof -
  note m1 = simple_switch_mem [OF assms(1,2)] and saved = switch_mem_saved [OF assms(1-3)]
  have "ld32 (cmem u) from_addr = ld32 (cmem (simple_switch s)) from_addr"
    using assms(4) by (intro ld32_cong) blast
  then have sp: "ld32 (cmem u) from_addr = esp s - 16" by (simp add: m1 saved(2))
  let ?m = "switch_mem u from'"
  have "?m x = cmem u x" if x: "x \<in> region (esp s - 16) 20" for x
  proof -
    have "x \<notin> region (esp (pushes [ebp u, ebx u, edi u, esi u] u)) (4 * length [ebp u, ebx u, edi u, esi u])"
      using x assms(8) by auto
    from pushes_other [OF this] show ?thesis
      using x assms(7) unfolding switch_mem_def by (subst st32_other_byte) auto
  qed
  then have "?m x = switch_mem s from_addr x" if "x \<in> region (esp s - 16) 20" for x
    using that assms(4) m1 by auto
  then have "words_at ?m (esp s - 16) [ebp s, ebx s, edi s, esi s, ret]"
    by (intro words_at_cong [OF _ saved(1)]) simp
  from simple_switch_eq [OF assms(5,6) switch_mem_def, unfolded sp, OF this] show ?thesis
    by (auto simp: add.commute [of _ "esp s"])
qed

text \<open>
  the kernel's entry hands \<open>kernel_init\<close> the pointer the loader passed, and then runs
  \<open>main\<close> with the kernel's segments on a fresh stack.
\<close>

theorem kernel_start_state:
  assumes "aligned4 (esp s)" "stack_top s [ret, mem_info]"
  shows "\<exists>t. stack_top t [mem_info] \<and> esp t = esp s - 8
    \<and> kernel_start kernel_init stack main s = map_option (\<lambda>s. s\<lparr>cs := KERNEL_SELECTOR_CS,
        eax := (eax s AND NOT 0xFFFF) OR ucast KERNEL_SELECTOR_DS, ds := KERNEL_SELECTOR_DS,
        ss := KERNEL_SELECTOR_DS, es := KERNEL_SELECTOR_DS, fs := KERNEL_SELECTOR_DS,
        gs := KERNEL_SELECTOR_DS, esp := stack + KERNEL_STACK_SIZE, eip := main\<rparr>) (call kernel_init t)"
proof -
  let ?t = "(push (ebp s) s)\<lparr>ebp := esp s - 4\<rparr>"
  have st: "stack_top (push (ebp s) s) [ebp s, ret, mem_info]"
    by (rule stack_push) (use assms in simp_all)
  then have a: "ld32 (cmem ?t) (ebp ?t + 8) = mem_info"
    by (simp add: stack_top_def add.assoc add.commute [of _ "esp s"])
  let ?u = "push mem_info (?t\<lparr>eax := mem_info\<rparr>)"
  have "stack_top ?u [mem_info]"
    using stack_push [of "?t\<lparr>eax := mem_info\<rparr>" "[]" mem_info] aligned4_minus4 [OF assms(1)] by simp
  moreover have "ucast ((x AND NOT 0xFFFF) OR ucast KERNEL_SELECTOR_DS :: u32) = KERNEL_SELECTOR_DS" for x :: u32
    by (rule bit_word_eqI) (auto simp: bit_simps bit_masks)
  ultimately show ?thesis
    by (intro exI [of _ ?u]) (use a in \<open>simp add: kernel_start_def Let_def\<close>)
qed

text \<open>The sample: a call on the stack at 0x7000, then one on the stack at 0x5100 that goes back.\<close>

definition sample_switch :: cpu where
  "sample_switch = sample_cpu\<lparr>esp := 0x7000,
     core := sample_machine\<lparr>ram := st32 (st32 (st32 (\<lambda>_. 0) 0x7000 0x111) 0x7004 0x6000) 0x7008 0x5000\<rparr>\<rparr>"

definition sample_back :: cpu where
  "sample_back = sample_cpu\<lparr>esp := 0x5100, core := sample_machine\<lparr>ram :=
     st32 (st32 (st32 (cmem (simple_switch sample_switch)) 0x5100 0x222) 0x5104 0x6100) 0x5108 0x6FF0\<rparr>\<rparr>"

theorem simple_switch_roundtrip_witness:
  "\<exists>m. simple_switch sample_back = sample_back\<lparr>core := (core sample_back)\<lparr>ram := m\<rparr>, eax := 0x6100,
    edx := 0x6FF0, esp := 0x7004, ebp := 5, ebx := 4, edi := 7, esi := 6, eip := 0x111\<rparr>"
proof -
  note d = sample_switch_def sample_cpu_def sample_back_def
  have s: "aligned4 (esp sample_switch)" "stack_top sample_switch [0x111, 0x6000, 0x5000]"
    by (simp_all add: d aligned4_def stack_top_def ld32_st32 ld32_st32_other)
  have e: "esp sample_switch = 0x7000" "ebp sample_switch = 5" "ebx sample_switch = 4" "edi sample_switch = 7"
    "esi sample_switch = 6" "esp sample_back = 0x5100" by (simp_all add: d)
  have r: "region 0x6FF0 20 \<inter> word_bytes 0x6000 = {}" "region 0x6FF0 20 \<inter> word_bytes 0x6100 = {}"
    "region 0x50F0 16 \<inter> region 0x6FF0 20 = {}" "region 0x5100 12 \<inter> region 0x6FF0 20 = {}"
    "region 0x5100 12 \<inter> word_bytes 0x6000 = {}"
    using region_before [of "0x6000 :: u32" 4 "0x6FF0" 20] region_before [of "0x6100 :: u32" 4 "0x6FF0" 20]
      region_before(2) [of "0x50F0 :: u32" 16 "0x6FF0" 20] region_before [of "0x5100 :: u32" 12 "0x6FF0" 20]
      region_before [of "0x5100 :: u32" 12 "0x6000" 4]
      word_in_region [of 0 4 _ "0x6000"] word_in_region [of 0 4 _ "0x6100"] region_before [of "0x50F0 :: u32" 16 "0x6FF0" 20]
    by auto
  have w: "word_bytes 0x5100 \<subseteq> region 0x5100 12" "word_bytes 0x5104 \<subseteq> region 0x5100 12" "word_bytes 0x5108 \<subseteq> region 0x5100 12"
    using word_in_region [of 0 12 _ "0x5100"] word_in_region [of 4 12 _ "0x5100"] word_in_region [of 8 12 _ "0x5100"] by auto
  have same: "cmem sample_back x = cmem (simple_switch sample_switch) x" if "x \<in> word_bytes 0x6000 \<union> region 0x6FF0 20" for x
  proof -
    have "x \<notin> region 0x5100 12" using that r(4,5) by blast
    then have "x \<notin> word_bytes 0x5100" "x \<notin> word_bytes 0x5104" "x \<notin> word_bytes 0x5108" using w by blast+
    then show ?thesis by (simp add: sample_back_def st32_other_byte)
  qed
  have "ld32 (cmem (simple_switch sample_switch)) 0x6000 = 0x6FF0"
    using switch_mem_saved(2) [OF s] r(1) by (simp add: simple_switch_mem [OF s] e Int_commute)
  moreover have "ld32 (cmem sample_back) 0x6000 = ld32 (cmem (simple_switch sample_switch)) 0x6000"
    by (intro ld32_cong same) simp
  ultimately have u: "stack_top sample_back [0x222, 0x6100, ld32 (cmem sample_back) 0x6000]"
    by (simp add: sample_back_def stack_top_def ld32_st32 ld32_st32_other aligned4_def)
  then show ?thesis
    using simple_switch_roundtrip [OF s, of sample_back "0x222" "0x6100"] r same
    by (simp add: e aligned4_def Int_commute)
qed

theorem kernel_start_state_witness:
  "\<exists>t. stack_top t [0x6000] \<and> esp t = 0x6FF8"
  using kernel_start_state [of sample_switch "0x111" "0x6000" Some 0 0]
  by (auto simp: sample_switch_def sample_cpu_def aligned4_def stack_top_def ld32_st32 ld32_st32_other)

end
