(* ===== verification/Clock.thy ===== *)
theory Clock
  imports Timer Sched_Words Entry
begin

text \<open>
  The clock at work: what a whole tick of \<open>core/task.c\<close> does to the manager of the tasks, how
  many ticks the manager survives, and the clock interrupt from the gate through the stub and
  \<open>irq_handler_timer\<close> back to the interrupted code.
\<close>

section \<open>A whole tick\<close>

text \<open>
  The tasks \<open>ts\<close> are in the ready queue, the first one runs, and nobody sleeps.  The word at
  \<open>tm e + 40\<close> is the number of tasks in the list of all tasks.  The scheduler's words for the
  ready tasks lie apart from it, from the list of sleeping tasks, and from address 0.
\<close>

definition sleep_words :: "task_env \<Rightarrow> u32 set" where
  "sleep_words e = {0, tm e + 40} \<union> list_cells (sleep_list e) []"

definition clock_ok :: "task_env \<Rightarrow> mem \<Rightarrow> u32 list \<Rightarrow> bool" where
  "clock_ok e m ts \<longleftrightarrow> sched_ok e m ts \<and> dlist m (sleep_list e) [] \<and> sleep_words e \<inter> sched_words e ts = {}"

definition all_tasks :: "task_env \<Rightarrow> mem \<Rightarrow> u32" where
  "all_tasks e m = list_len m (task_list e)"

lemma all_tasks_word: "all_tasks e m = ld32 m (tm e + 40)"
  by (simp add: all_tasks_def task_count)

lemma sleep_words_eq: "sleep_words e = {0, tm e + 40, tm e + 44, tm e + 48, tm e + 52, tm e + 56, tm e + 60}"
  by (auto simp: sleep_words_def list_cells_def list_nodes_def sleep_list_def add.assoc)

lemma sched_words_cells: "ready_cells e ts \<subseteq> sched_words e ts" "tm e \<in> sched_words e ts"
  "t \<in> set ts \<Longrightarrow> task_words t \<subseteq> sched_words e ts"
  by (auto simp: sched_words_def)

lemma sched_words_set: "set xs = set ys \<Longrightarrow> sched_words e xs = sched_words e ys"
  using ready_cells_set [of xs ys e] by (simp add: sched_words_def)

lemma sched_words_aligned:
  assumes "sched_ok e m ts" "w \<in> sched_words e ts"
  shows "aligned4 w"
  using assms queued_aligned [of e m ts w] task_words_aligned [of _ w]
  by (auto simp: sched_words_def sched_ok_def queued_def tasks_apart_def)

lemma sleep_words_aligned: "aligned4 (tm e) \<Longrightarrow> w \<in> sleep_words e \<Longrightarrow> aligned4 w"
  by (auto simp: sleep_words_eq tm_words aligned4_0)

lemma queue_frame_sub: "queue_frame e ts \<subseteq> sched_words e ts"
  using state_word by (auto simp: queue_frame_def sched_words_def)

text \<open>A change that keeps the words of the scheduler and of the sleeping tasks keeps \<open>clock_ok\<close>.\<close>

lemma clock_ok_cong:
  assumes "clock_ok e m ts" "\<And>w. w \<in> sched_words e ts \<union> sleep_words e \<Longrightarrow> ld32 m' w = ld32 m w"
  shows "clock_ok e m' ts"
proof -
  have "sched_ok e m' (rotate 0 ts)"
    by (rule sched_ok_work [of e m 0 ts]) (use assms in \<open>simp_all add: clock_ok_def\<close>)
  moreover have "dlist m' (sleep_list e) []"
    by (rule dlist_cong [of m]) (use assms in \<open>simp_all add: clock_ok_def sleep_words_def\<close>)
  ultimately show ?thesis using assms(1) by (simp add: clock_ok_def)
qed

lemma clock_ok_rotate:
  assumes "clock_ok e m ts" "sched_ok e m' us" "set us = set ts" "dlist m' (sleep_list e) []"
  shows "clock_ok e m' us"
  using assms sched_words_set [OF assms(3), of e] by (simp add: clock_ok_def)

text \<open>Another dispatch right after the slice changes nothing.\<close>

lemma dispatch_again:
  assumes "sched_ok e m ts"
  shows "ram (task_dispatch e (s\<lparr>ram := m\<rparr>)) = m" "trace (task_dispatch e (s\<lparr>ram := m\<rparr>)) = trace s"
    "get_irq_status (task_dispatch e (s\<lparr>ram := m\<rparr>)) = get_irq_status s"
proof -
  obtain t us where ts: "ts = t # us" using assms by (cases ts) (simp_all add: sched_ok_def)
  then have q: "queued e m (t # us)" and c: "task_current e m = t" using assms by (simp_all add: sched_ok_def)
  show "ram (task_dispatch e (s\<lparr>ram := m\<rparr>)) = m" "trace (task_dispatch e (s\<lparr>ram := m\<rparr>)) = trace s"
    "get_irq_status (task_dispatch e (s\<lparr>ram := m\<rparr>)) = get_irq_status s"
    using dispatch_first(3-5) [OF q c] by simp_all
qed

lemma slice_clock:
  assumes ok: "clock_ok e (ram s) ts" and "t = hd ts" "n = ld32 (ram s) (t_slice_ticks t)"
  shows "\<exists>s'. tick_slice e s = Some s' \<and> get_irq_status s' = get_irq_status s
    \<and> clock_ok e (ram s') (if n = 1 then rotate1 ts else ts)
    \<and> ld32 (ram s') (t_slice_ticks t) = (if n = 1 then ld32 (ram s) (t_time_ticks t) else n - 1)
    \<and> all_tasks e (ram s') = all_tasks e (ram s)
    \<and> trace s' = trace s @ (if n = 1 \<and> length ts \<noteq> 1 then [FarJmp (ld32 (ram s) (t_tss_sel (ts ! 1))) 0] else [])
    \<and> unchanged_outside (insert (t_slice_ticks t) (queue_frame e ts)) (ram s) (ram s')"
proof -
  let ?F = "insert (t_slice_ticks t) (queue_frame e ts)"
  have sched: "sched_ok e (ram s) ts" and d: "dlist (ram s) (sleep_list e) []"
    and apart: "sleep_words e \<inter> sched_words e ts = {}" using ok by (simp_all add: clock_ok_def)
  obtain s' where s': "tick_slice e s = Some s'" "get_irq_status s' = get_irq_status s"
    "if n = 1 then sched_ok e (ram s') (rotate1 ts) \<and> ld32 (ram s') (t_slice_ticks t) = ld32 (ram s) (t_time_ticks t)
       \<and> trace s' = trace s @ (if length ts = 1 then [] else [FarJmp (ld32 (ram s) (t_tss_sel (ts ! 1))) 0])
     else ram s' = st32 (ram s) (t_slice_ticks t) (n - 1) \<and> sched_ok e (ram s') ts \<and> trace s' = trace s"
    "unchanged_outside ?F (ram s) (ram s')"
    using tick_slice_step [OF sched assms(2,3)] by blast
  have "t \<in> set ts" using sched assms(2) by (simp add: sched_ok_def)
  then have F: "?F \<subseteq> sched_words e ts"
    using queue_frame_sub sched_words_cells(3) by (fastforce simp: task_words_def)
  then have al: "\<forall>c\<in>?F. aligned4 c" using sched_words_aligned [OF sched] by blast
  have dj: "?F \<inter> sleep_words e = {}" using F apart by blast
  have tm: "aligned4 (tm e)" using sched by (simp add: sched_ok_def queued_def tasks_apart_def)
  have "dlist (ram s') (sleep_list e) []"
    by (rule dlist_frame [OF d s'(4) al]) (use dj in \<open>auto simp: sleep_words_def\<close>)
  then have "clock_ok e (ram s') (if n = 1 then rotate1 ts else ts)"
    using s'(3) by (intro clock_ok_rotate [OF ok]) (auto split: if_splits)
  moreover have "all_tasks e (ram s') = all_tasks e (ram s)"
    unfolding all_tasks_word
    by (rule unchanged_ld32 [OF s'(4) al]) (use dj tm in \<open>auto simp: sleep_words_eq tm_words\<close>)
  ultimately show ?thesis using s' by (intro exI [of _ s']) (auto simp: ld32_st32)
qed

text \<open>
  A tick as long as more than one task is counted: the slice goes down or the queue is rotated,
  and one is lost from the count.
\<close>

lemma time_tick:
  assumes ok: "clock_ok e (ram s) ts" and t: "t = hd ts" "n = ld32 (ram s) (t_slice_ticks t)"
    and k: "all_tasks e (ram s) \<noteq> 1"
  shows "\<exists>s'. task_time_tick e s = Some s' \<and> get_irq_status s' = get_irq_status s
    \<and> clock_ok e (ram s') (if n = 1 then rotate1 ts else ts)
    \<and> ld32 (ram s') (t_slice_ticks t) = (if n = 1 then ld32 (ram s) (t_time_ticks t) else n - 1)
    \<and> all_tasks e (ram s') = all_tasks e (ram s) - 1
    \<and> trace s' = trace s @ (if n = 1 \<and> length ts \<noteq> 1 then [FarJmp (ld32 (ram s) (t_tss_sel (ts ! 1))) 0] else [])
    \<and> unchanged_outside ({t_slice_ticks t, tm e + 40} \<union> queue_frame e ts) (ram s) (ram s')"
proof -
  let ?us = "if n = 1 then rotate1 ts else ts" and ?c = "tm e + 40"
  obtain s1 where s1: "tick_slice e s = Some s1" "get_irq_status s1 = get_irq_status s" "clock_ok e (ram s1) ?us"
    "ld32 (ram s1) (t_slice_ticks t) = (if n = 1 then ld32 (ram s) (t_time_ticks t) else n - 1)"
    "all_tasks e (ram s1) = all_tasks e (ram s)"
    "trace s1 = trace s @ (if n = 1 \<and> length ts \<noteq> 1 then [FarJmp (ld32 (ram s) (t_tss_sel (ts ! 1))) 0] else [])"
    "unchanged_outside (insert (t_slice_ticks t) (queue_frame e ts)) (ram s) (ram s1)"
    using slice_clock [OF ok t] by blast
  have sched: "sched_ok e (ram s1) ?us" and d: "dlist (ram s1) (sleep_list e) []"
    and apart: "sleep_words e \<inter> sched_words e ?us = {}" using s1(3) by (simp_all add: clock_ok_def)
  have tm: "aligned4 (tm e)" "aligned4 ?c" using sched by (simp_all add: sched_ok_def queued_def tasks_apart_def tm_words)
  let ?m = "st32 (ram s1) ?c (all_tasks e (ram s1) - 1)"
  have loop: "sleep_loop e (ram s1) (klist_get_first_node (ram s1) (sleep_list e)) = Some ?m"
    using sleep_loop_miscounts [OF d tm(1)] k s1(5) by (simp add: all_tasks_def task_count(2))
  have same: "ld32 ?m w = ld32 (ram s1) w" if "aligned4 w" "w \<noteq> ?c" for w
    using that tm(2) by (intro ld32_st32_other) auto
  have cells: "list_cells (sleep_list e) [] = {tm e + 44, tm e + 48, tm e + 52, tm e + 56, tm e + 60}"
    by (auto simp: list_cells_def list_nodes_def sleep_list_def add.assoc)
  have c: "?c \<in> sleep_words e" by (simp add: sleep_words_eq)
  have "sched_ok e ?m (rotate 0 ?us)"
    by (rule sched_ok_work [of e "ram s1" 0 ?us])
      (use sched same sched_words_aligned [OF sched] c apart in \<open>auto simp: disjoint_iff\<close>)
  moreover have "dlist ?m (sleep_list e) []"
    by (rule dlist_cong [OF d]) (use same tm in \<open>auto simp: cells tm_words\<close>)
  ultimately have ok2: "clock_ok e ?m ?us" using s1(3) by (simp add: clock_ok_def)
  have "t \<in> set ts" using ok t(1) by (simp add: clock_ok_def sched_ok_def)
  then have "t_slice_ticks t \<in> sched_words e ?us"
    using sched_words_cells(3) [of t ?us e] by (auto simp: task_words_def)
  then have sl: "ld32 ?m (t_slice_ticks t) = ld32 (ram s1) (t_slice_ticks t)"
    using sched_words_aligned [OF sched] c apart by (intro same) auto
  have u: "unchanged_outside ({t_slice_ticks t, ?c} \<union> queue_frame e ts) (ram s) ?m"
    by (intro unchanged_st32 unchanged_mono [OF s1(7)]) auto
  note d2 = dispatch_again [of e ?m ?us s1]
  have "task_time_tick e s = Some (task_dispatch e (s1\<lparr>ram := ?m\<rparr>))"
    by (simp add: task_time_tick_def s1(1) loop)
  then show ?thesis
    using d2 ok2 s1 sl u by (simp add: clock_ok_def all_tasks_word ld32_st32)
qed

text \<open>
  With one task counted, the tick appends the tail sentinel of the sleeping tasks to the ready
  queue, as the node of a task whose state word is the head of that queue.
\<close>

lemma sentinel_queued:
  fixes e m ts
  defines "m2 \<equiv> klist_unlink (st32 m (tm e + 40) 0) (sleep_list e) (tm e + 52)"
  defines "m3 \<equiv> klist_append m2 (ready_list e) (tm e + 52)"
  assumes q: "queued e m ts" and d: "dlist m (sleep_list e) []" and apart: "sleep_words e \<inter> sched_words e ts = {}"
  shows "dlist m3 (ready_list e) (map t_run_node ts @ [tm e + 52])"
    and "unchanged_outside (sleep_words e \<union> ready_cells e ts) m m3"
proof -
  let ?l = "ready_list e" and ?n = "tm e + 52" and ?m1 = "st32 m (tm e + 40) 0"
  have tm: "aligned4 (tm e)" using q by (simp add: queued_def tasks_apart_def)
  note f = empty_sleep_list [OF d tm]
  have n: "node_next ?m1 ?n = 0" "node_prev ?m1 ?n = tm e + 44"
    using f(3,5) tm by (simp_all add: node_next_def node_prev_def ld32_st32_other tm_words add.assoc)
  have n2: "ld32 (st32 ?m1 (tm e + 48) 0) (tm e + 56) = 0"
    using f(3) tm by (simp add: node_next_def ld32_st32_other tm_words add.assoc)
  have u: "unchanged_outside (sleep_words e) m m2"
    unfolding m2_def klist_unlink_def n Let_def sleep_words_eq
    by (simp add: node_defs set_len_def sleep_list_def add.assoc n2)
      (auto intro!: frame_intros)
  have al: "\<forall>c\<in>sleep_words e. aligned4 c" using sleep_words_aligned [OF tm] by blast
  have disj: "sleep_words e \<inter> list_cells ?l (map t_run_node ts) = {}"
    using apart sched_words_cells(1) [of e ts] by (auto simp: ready_cells_def)
  have d2: "dlist m2 ?l (map t_run_node ts)"
    by (rule dlist_frame [OF _ u al disj]) (use q in \<open>simp add: queued_def\<close>)
  have out: "?n \<notin> list_cells ?l (map t_run_node ts)" "tm e + 56 \<notin> list_cells ?l (map t_run_node ts)"
    "tm e + 48 \<notin> list_cells ?l (map t_run_node ts)"
    using disj by (auto simp: sleep_words_eq)
  have "?n \<noteq> b \<and> ?n + 4 \<noteq> b \<and> b + 4 \<noteq> ?n" if "b \<in> set (list_nodes ?l (map t_run_node ts))" for b
    using out list_cells_member(2,3) [OF that] by (auto simp: add.assoc algebra_simps)
  moreover have "aligned4 ?n" using tm by (simp add: tm_words)
  ultimately have fr: "fresh_node ?l (map t_run_node ts) ?n"
    using d2 f(2) by (auto simp: fresh_node_def dlist_def sep_nodes_def ready_list_def add.assoc)
  show "dlist m3 ?l (map t_run_node ts @ [?n])" unfolding m3_def by (rule klist_append_dlist [OF d2 fr])
  have cells: "list_cells ?l (map t_run_node ts @ [?n]) = {?n, ?n + 4} \<union> list_cells ?l (map t_run_node ts)"
    using list_cells_insert [of ?l "map t_run_node ts" ?n "[]"] by simp
  show "unchanged_outside (sleep_words e \<union> ready_cells e ts) m m3" unfolding m3_def
    by (rule unchanged_trans [OF unchanged_mono [OF u] unchanged_mono [OF klist_append_frame [OF d2 fr]]])
      (auto simp: cells sleep_words_eq ready_cells_def add.assoc)
qed

lemma time_tick_corrupts:
  assumes ok: "clock_ok e (ram s) ts" and k: "all_tasks e (ram s) = 1"
  shows "\<exists>s'. task_time_tick e s = Some s' \<and> node_prev (ram s') (ready_list e) = state_code READY
    \<and> klist_len (ram s') (ready_list e) = of_nat (Suc (length ts))
    \<and> klist_get_last_node (ram s') (ready_list e) = tm e + 52"
proof -
  obtain s1 us where s1: "tick_slice e s = Some s1" "clock_ok e (ram s1) us" "all_tasks e (ram s1) = 1" "length us = length ts"
    using slice_clock [OF ok refl refl] k by auto
  have q: "queued e (ram s1) us" "us \<noteq> []" and d: "dlist (ram s1) (sleep_list e) []" and tm: "aligned4 (tm e)"
    using s1(2) by (simp_all add: clock_ok_def sched_ok_def queued_def tasks_apart_def)
  let ?l = "ready_list e" and ?n = "tm e + 52"
  define m3 where "m3 = klist_append (klist_unlink (st32 (ram s1) (tm e + 40) 0) (sleep_list e) ?n) ?l ?n"
  let ?m = "st32 m3 (tm e + 4) (state_code READY)"
  have apart: "sleep_words e \<inter> sched_words e us = {}" and cur: "task_current e (ram s1) = hd us"
    using s1(2) by (simp_all add: clock_ok_def sched_ok_def)
  note sq = sentinel_queued [OF q(1) d apart, folded m3_def]
  have "ld32 m3 (tm e) = ld32 (ram s1) (tm e)"
  proof (rule unchanged_ld32 [OF sq(2) _ tm])
    show "\<forall>c\<in>sleep_words e \<union> ready_cells e us. aligned4 c"
      using sleep_words_aligned [OF tm] queued_aligned [OF q(1)] by blast
    show "tm e \<notin> sleep_words e \<union> ready_cells e us"
      using apart sched_words_cells(2) [of e us] q(1) by (auto simp: queued_def tasks_apart_def)
  qed
  then have sq2: "task_current e m3 = hd us" using cur by (simp add: task_current_def curr_task_def)
  have m: "task_set_ready e (klist_unlink (st32 (ram s1) (tm e + 40) 0) (sleep_list e) ?n) (tm e + 4) = ?m"
    by (simp add: task_set_ready_def idle_task_def t_state_def t_run_node_def m3_def add.assoc)
  have loop: "sleep_loop e (ram s1) (klist_get_first_node (ram s1) (sleep_list e)) = Some ?m"
    using sleep_loop_wakes [OF d tm] s1(3) m by (simp add: all_tasks_def)
  have w: "ld32 ?m x = ld32 m3 x" if "x \<in> {tm e, tm e + 8, tm e + 12, tm e + 20}" for x
    using that tm by (intro ld32_st32_other) (auto simp: tm_words)
  obtain t vs where us: "us = t # vs" using q(2) by (cases us) auto
  have len: "klist_len ?m ?l = of_nat (Suc (length us))"
    using sq(1) w by (simp add: dlist_def klist_len_def list_len_def ready_list_def add.assoc)
  have "length us < 2 ^ 31" using q(1) by (simp add: queued_def tasks_apart_def)
  then have "unat (of_nat (Suc (length us)) :: u32) = Suc (length us)" by (intro unat_of_nat_word) simp
  then have "klist_len ?m ?l \<noteq> 0" unfolding len by (metis nat.distinct(1) unsigned_0)
  moreover have "klist_get_first_node ?m ?l = t_run_node t"
    using klist_ends_dlist(1) [OF sq(1)] w us
    by (simp add: klist_get_first_node_def l_head_def node_next_def ready_list_def node_after_def add.assoc)
  moreover have "t_run_node t \<noteq> 0"
    using q(1) us by (auto simp: queued_def dlist_def sep_nodes_def list_nodes_def)
  ultimately have "task_next_run e ?m = t" by (simp add: task_next_run_def Let_def)
  moreover have "task_current e ?m = t" using sq2 w us by (simp add: task_current_def curr_task_def)
  ultimately have "ram (task_dispatch e (s1\<lparr>ram := ?m\<rparr>)) = ?m" by (simp add: task_dispatch_eqs(1))
  moreover have "task_time_tick e s = Some (task_dispatch e (s1\<lparr>ram := ?m\<rparr>))"
    by (simp add: task_time_tick_def s1(1) loop)
  moreover have "klist_get_last_node ?m ?l = ?n"
    using klist_ends_dlist(2) [OF sq(1)] w
    by (simp add: klist_get_last_node_def l_tail_def node_prev_def ready_list_def node_before_def add.assoc)
  moreover have "node_prev ?m ?l = state_code READY" by (simp add: node_prev_def ready_list_def ld32_st32)
  ultimately show ?thesis using len s1(4) by (intro exI [of _ "task_dispatch e (s1\<lparr>ram := ?m\<rparr>)"]) simp
qed

section \<open>How long the manager lives\<close>

text \<open>
  A run of the machine: ticks, yields, and work of the tasks that keeps off the words of the
  scheduler, in any order; \<open>k\<close> counts the ticks.
\<close>

inductive clock_run :: "task_env \<Rightarrow> u32 list \<Rightarrow> machine \<Rightarrow> nat \<Rightarrow> machine \<Rightarrow> bool" for e ts s where
  start: "clock_run e ts s 0 s"
| tick: "clock_run e ts s k s' \<Longrightarrow> task_time_tick e s' = Some s'' \<Longrightarrow> clock_run e ts s (Suc k) s''"
| yield: "clock_run e ts s k s' \<Longrightarrow> sys_sched_yield e s' = Some (s'', r) \<Longrightarrow> clock_run e ts s k s''"
| work: "clock_run e ts s k s' \<Longrightarrow> (\<And>w. w \<in> sched_words e ts \<union> sleep_words e \<Longrightarrow> ld32 (ram s'') w = ld32 (ram s') w)
    \<Longrightarrow> clock_run e ts s k s''"

lemma all_tasks_kept:
  "ld32 m' (tm e + 40) = ld32 m (tm e + 40) \<Longrightarrow> all_tasks e m' = all_tasks e m"
  by (simp add: all_tasks_word)

lemma sched_words_rotate [simp]: "sched_words e (rotate j ts) = sched_words e ts"
  by (rule sched_words_set) simp

lemma yield_clock:
  assumes ok: "clock_ok e (ram s) ts" and y: "sys_sched_yield e s = Some (s', r)"
  shows "clock_ok e (ram s') (rotate1 ts) \<and> all_tasks e (ram s') = all_tasks e (ram s)"
proof -
  have sched: "sched_ok e (ram s) ts" and d: "dlist (ram s) (sleep_list e) []"
    and apart: "sleep_words e \<inter> sched_words e ts = {}" using ok by (simp_all add: clock_ok_def)
  have s': "sched_ok e (ram s') (rotate1 ts)" "unchanged_outside (queue_frame e ts) (ram s) (ram s')"
    using yield_rotate1 [OF sched] y by auto
  have F: "queue_frame e ts \<inter> sleep_words e = {}" using queue_frame_sub apart by blast
  have q: "queued e (ram s) ts" using sched by (simp add: sched_ok_def)
  then have al: "\<forall>c\<in>queue_frame e ts. aligned4 c" using queue_frame_aligned by blast
  have tm: "aligned4 (tm e)" using q by (simp add: queued_def tasks_apart_def)
  have same: "ld32 (ram s') w = ld32 (ram s) w" if "w \<in> sleep_words e" for w
    by (rule unchanged_ld32 [OF s'(2) al]) (use F that sleep_words_aligned [OF tm] in auto)
  have "dlist (ram s') (sleep_list e) []" by (rule dlist_cong [OF d]) (use same in \<open>simp add: sleep_words_def\<close>)
  from clock_ok_rotate [OF ok s'(1) _ this] have "clock_ok e (ram s') (rotate1 ts)" by simp
  moreover have "all_tasks e (ram s') = all_tasks e (ram s)"
    by (rule all_tasks_kept) (rule same, simp add: sleep_words_eq)
  ultimately show ?thesis by blast
qed

lemma count_left: "Suc k < N \<Longrightarrow> N < 2 ^ 32 \<Longrightarrow> (of_nat (N - k) :: u32) \<noteq> 1"
  using unat_of_nat_word [of "N - k", where 'a = 32] by fastforce

lemma clock_run_state:
  assumes "clock_run e ts s k s'" and "clock_ok e (ram s) ts" "all_tasks e (ram s) = of_nat N" "N < 2 ^ 32" "k < N"
  shows "\<exists>j. clock_ok e (ram s') (rotate j ts) \<and> all_tasks e (ram s') = of_nat (N - k)"
  using assms
proof (induction rule: clock_run.induct)
  case start
  then show ?case by (intro exI [of _ 0]) simp
next
  case (tick k s' s'')
  then obtain j where j: "clock_ok e (ram s') (rotate j ts)" "all_tasks e (ram s') = of_nat (N - k)" by auto
  have "all_tasks e (ram s') \<noteq> 1" using count_left [OF tick.prems(4,3)] j(2) by simp
  from time_tick [OF j(1) refl refl this] tick.hyps(2)
  have u: "clock_ok e (ram s'') (rotate j ts) \<or> clock_ok e (ram s'') (rotate (Suc j) ts)"
    "all_tasks e (ram s'') = of_nat (N - k) - 1" using j(2) by (auto split: if_splits)
  have "N - k = Suc (N - Suc k)" using tick.prems(4) by simp
  then have "of_nat (N - k) - 1 = (of_nat (N - Suc k) :: u32)" by (metis add_diff_cancel_left' of_nat_Suc)
  moreover from u(1) have "\<exists>i. clock_ok e (ram s'') (rotate i ts)" by blast
  ultimately show ?case using u(2) by auto
next
  case (yield k s' s'' r)
  then obtain j where j: "clock_ok e (ram s') (rotate j ts)" "all_tasks e (ram s') = of_nat (N - k)" by auto
  from yield_clock [OF j(1) yield.hyps(2)] j(2) have "clock_ok e (ram s'') (rotate (Suc j) ts)"
    "all_tasks e (ram s'') = of_nat (N - k)" by simp_all
  then show ?case by blast
next
  case (work k s' s'')
  then obtain j where j: "clock_ok e (ram s') (rotate j ts)" "all_tasks e (ram s') = of_nat (N - k)" by auto
  have "clock_ok e (ram s'') (rotate j ts)" by (rule clock_ok_cong [OF j(1)]) (use work.hyps(2) in simp)
  moreover have "all_tasks e (ram s'') = all_tasks e (ram s')"
    by (rule all_tasks_kept) (rule work.hyps(2), simp add: sleep_words_eq)
  ultimately show ?case using j(2) by auto
qed

text \<open>
  C35: a tick of the clock takes the tail sentinel of the empty list of sleeping tasks for a
  task and counts it down: its counter is the number \<open>N\<close> of all tasks.  So the scheduler, which
  works for the first \<open>N - 1\<close> ticks whatever the tasks do between them, loses one from that
  number with each, and the \<open>N\<close>th tick puts the sentinel into the ready queue and overwrites
  the head of the queue with a task state: the queue is no list any more.
\<close>

theorem clock_countdown:
  assumes "clock_ok e (ram s) ts" and "all_tasks e (ram s) = of_nat N" "N < 2 ^ 32"
    and "clock_run e ts s k s'" "k < N"
  shows "\<exists>j u. clock_ok e (ram s') (rotate j ts) \<and> all_tasks e (ram s') = of_nat (N - k)
    \<and> task_time_tick e s' = Some u
    \<and> (if k < N - 1 then \<exists>j. clock_ok e (ram u) (rotate j ts)
       else klist_get_last_node (ram u) (ready_list e) = tm e + 52 \<and> (\<forall>xs. \<not> dlist (ram u) (ready_list e) xs))"
proof -
  obtain j where j: "clock_ok e (ram s') (rotate j ts)" "all_tasks e (ram s') = of_nat (N - k)"
    using clock_run_state [OF assms(4,1,2,3,5)] by blast
  show ?thesis
  proof (cases "k < N - 1")
    case True
    have "all_tasks e (ram s') \<noteq> 1" using count_left [of k N] True assms(3) j(2) by simp
    from time_tick [OF j(1) refl refl this] obtain u where "task_time_tick e s' = Some u"
      "clock_ok e (ram u) (rotate j ts) \<or> clock_ok e (ram u) (rotate (Suc j) ts)" by (auto split: if_splits)
    then have "task_time_tick e s' = Some u \<and> (\<exists>i. clock_ok e (ram u) (rotate i ts))" by blast
    with j True show ?thesis by (intro exI [of _ j] exI [of _ u]) simp
  next
    case False
    with assms(5) have "N - k = 1" by simp
    then have "all_tasks e (ram s') = 1" using j(2) by simp
    from time_tick_corrupts [OF j(1) this] obtain u where "task_time_tick e s' = Some u"
      "node_prev (ram u) (ready_list e) = state_code READY" "klist_get_last_node (ram u) (ready_list e) = tm e + 52"
      by blast
    with j False show ?thesis by (auto simp: dlist_def intro!: exI [of _ j])
  qed
qed

text \<open>The sample: two tasks ready, three counted.\<close>

definition sample_clock :: mem where
  "sample_clock = klist_init (st32 sample_sched 0x1028 3) 0x102C"

lemma sample_words: "sched_words sample_env [0x2000, 0x3000]
    = {0x1000, 0x1014, 0x1004, 0x1008, 0x2030, 0x2034, 0x3030, 0x3034, 0x100C, 0x1010,
       0x2000, 0x2024, 0x2028, 0x202C, 0x20A8, 0x3000, 0x3024, 0x3028, 0x302C, 0x30A8}"
  by (auto simp: sched_words_def ready_cells_def list_cells_def list_nodes_def task_words_def task_fields
      sample_env_def manager_fields)

lemma sample_clock_ok: "clock_ok sample_env sample_clock [0x2000, 0x3000]" "all_tasks sample_env sample_clock = 3"
proof -
  have sl: "sleep_list sample_env = 0x102C" "tm sample_env = 0x1000" by (simp_all add: sample_env_def sleep_list_def)
  have sw: "sleep_words sample_env = {0, 0x1028, 0x102C, 0x1030, 0x1034, 0x1038, 0x103C}"
    by (simp add: sleep_words_eq sl)
  have u: "unchanged_outside (sleep_words sample_env) sample_sched sample_clock"
    unfolding sample_clock_def
    by (rule unchanged_trans [OF _ unchanged_mono [OF klist_init_frame]])
      (auto simp: sw list_cells_def list_nodes_def intro!: frame_intros)
  have al: "\<forall>c\<in>sleep_words sample_env. aligned4 c" by (simp add: sw aligned4_numeral aligned4_0)
  have dj: "sleep_words sample_env \<inter> sched_words sample_env [0x2000, 0x3000] = {}" by (simp add: sw sample_words)
  have same: "ld32 sample_clock w = ld32 sample_sched w" if "w \<in> sched_words sample_env [0x2000, 0x3000]" for w
    using unchanged_ld32 [OF u al sched_words_aligned [OF sample_sched_ok that]] dj that by blast
  have "sched_ok sample_env sample_clock (rotate 0 [0x2000, 0x3000])"
    by (rule sched_ok_work [of _ sample_sched 0]) (use sample_sched_ok same in simp_all)
  moreover have "dlist sample_clock (sleep_list sample_env) []"
    unfolding sample_clock_def sl by (rule klist_init_dlist) (simp add: sep_nodes_def aligned4_numeral)
  ultimately show "clock_ok sample_env sample_clock [0x2000, 0x3000]" using dj by (simp add: clock_ok_def)
  show "all_tasks sample_env sample_clock = 3"
    by (simp add: all_tasks_word sl sample_clock_def klist_init_def Let_def node_defs l_head_def l_tail_def set_len_def
        mem_simps aligned4_numeral)
qed

theorem clock_countdown_witness:
  "\<exists>u. clock_run sample_env [0x2000, 0x3000] (sample_machine\<lparr>ram := sample_clock\<rparr>) 1 u
     \<and> all_tasks sample_env (ram u) = 2"
proof -
  let ?s = "sample_machine\<lparr>ram := sample_clock\<rparr>" and ?ts = "[0x2000, 0x3000] :: u32 list"
  have s: "clock_ok sample_env (ram ?s) ?ts" "all_tasks sample_env (ram ?s) = of_nat 3"
    using sample_clock_ok by simp_all
  obtain u where u: "task_time_tick sample_env ?s = Some u"
    using clock_countdown [OF s _ clock_run.start] by auto
  then have r: "clock_run sample_env ?ts ?s 1 u" using clock_run.tick [OF clock_run.start] by simp
  from clock_countdown [OF s _ this] have "all_tasks sample_env (ram u) = 2" by auto
  with r show ?thesis by blast
qed

section \<open>The clock interrupt\<close>

text \<open>
  The words a clock interrupt reads or writes, and those it writes when the first of \<open>ts\<close> is
  running.
\<close>

definition clock_words :: "task_env \<Rightarrow> u32 \<Rightarrow> u32 list \<Rightarrow> u32 set" where
  "clock_words e tk ts = insert tk (sched_words e ts \<union> sleep_words e)"

definition clock_writes :: "task_env \<Rightarrow> u32 \<Rightarrow> u32 list \<Rightarrow> u32 set" where
  "clock_writes e tk ts = {tk, t_slice_ticks (hd ts), tm e + 40} \<union> queue_frame e ts"

lemma clock_writes_sub: "ts \<noteq> [] \<Longrightarrow> clock_writes e tk ts \<subseteq> clock_words e tk ts"
  using queue_frame_sub [of e ts] sched_words_cells(3) [of "hd ts" ts e]
  by (auto simp: clock_writes_def clock_words_def sleep_words_eq task_words_def)

text \<open>The handler itself: the tick of the scheduler, the count of ticks, the acknowledgement.\<close>

lemma irq_handler_timer_tick:
  assumes ok: "clock_ok e (ram s) ts" and t: "t = hd ts" "n = ld32 (ram s) (t_slice_ticks t)"
    and k: "all_tasks e (ram s) \<noteq> 1" and tk: "aligned4 tk" "tk \<notin> sched_words e ts \<union> sleep_words e"
  shows "\<exists>s'. irq_handler_timer e tk s = Some s'
    \<and> SYSTEM_READ_TIMER tk (ram s') = SYSTEM_READ_TIMER tk (ram s) + 1
    \<and> clock_ok e (ram s') (if n = 1 then rotate1 ts else ts)
    \<and> ld32 (ram s') (t_slice_ticks t) = (if n = 1 then ld32 (ram s) (t_time_ticks t) else n - 1)
    \<and> all_tasks e (ram s') = all_tasks e (ram s) - 1
    \<and> trace s' = trace s @ (if n = 1 \<and> length ts \<noteq> 1 then [FarJmp (ld32 (ram s) (t_tss_sel (ts ! 1))) 0] else [])
        @ [Outb PIC_M_CTRL 0x20]
    \<and> unchanged_outside (clock_writes e tk ts) (ram s) (ram s')"
proof -
  let ?m = "st32 (ram s) tk (ld32 (ram s) tk + 1)" let ?s = "s\<lparr>ram := ?m\<rparr>"
  have sched: "sched_ok e (ram s) ts" and ne: "ts \<noteq> []" and tm: "aligned4 (tm e)"
    using ok by (simp_all add: clock_ok_def sched_ok_def queued_def tasks_apart_def)
  have al: "aligned4 w" if "w \<in> sched_words e ts \<union> sleep_words e" for w
    using that sched_words_aligned [OF sched] sleep_words_aligned [OF tm] by blast
  have same: "ld32 ?m w = ld32 (ram s) w" if "w \<in> sched_words e ts \<union> sleep_words e" for w
    using tk that al [OF that] by (intro ld32_st32_other) auto
  have words: "t_slice_ticks t \<in> sched_words e ts" "t_time_ticks t \<in> sched_words e ts" "tm e + 40 \<in> sleep_words e"
    using sched_words_cells(3) [of t ts e] ne t(1) by (auto simp: task_words_def sleep_words_eq)
  have sel: "t_tss_sel (ts ! 1) \<in> sched_words e ts" if "length ts \<noteq> 1"
  proof -
    have "ts ! 1 \<in> set ts" using that ne by (cases ts) auto
    then show ?thesis using sched_words_cells(3) [of "ts ! 1" ts e] by (auto simp: task_words_def)
  qed
  have ok': "clock_ok e (ram ?s) ts" using clock_ok_cong [OF ok same] by simp
  have at: "all_tasks e (ram ?s) = all_tasks e (ram s)" using same words(3) by (simp add: all_tasks_word)
  obtain s1 where s1: "task_time_tick e ?s = Some s1"
    "clock_ok e (ram s1) (if n = 1 then rotate1 ts else ts)"
    "ld32 (ram s1) (t_slice_ticks t) = (if n = 1 then ld32 ?m (t_time_ticks t) else n - 1)"
    "all_tasks e (ram s1) = all_tasks e (ram ?s) - 1"
    "trace s1 = trace s @ (if n = 1 \<and> length ts \<noteq> 1 then [FarJmp (ld32 ?m (t_tss_sel (ts ! 1))) 0] else [])"
    "unchanged_outside ({t_slice_ticks t, tm e + 40} \<union> queue_frame e ts) ?m (ram s1)"
    using time_tick [OF ok' t(1), of n] k same [of "t_slice_ticks t"] words(1) at t(2) by auto
  have F: "{t_slice_ticks t, tm e + 40} \<union> queue_frame e ts \<subseteq> sched_words e ts \<union> sleep_words e"
    using words queue_frame_sub by blast
  have "ld32 (ram s1) tk = ld32 ?m tk"
    by (rule unchanged_ld32 [OF s1(6)]) (use F al tk in blast)+
  moreover have "unchanged_outside (clock_writes e tk ts) (ram s) ?m"
    by (intro frame_intros) (simp add: clock_writes_def)
  then have "unchanged_outside (clock_writes e tk ts) (ram s) (ram s1)"
    by (rule unchanged_trans) (rule unchanged_mono [OF s1(6)], auto simp: clock_writes_def t(1))
  moreover have "pic_send_eoi (ucast IRQ_Timer) s1 = s1\<lparr>trace := trace s1 @ [Outb PIC_M_CTRL 0x20]\<rparr>"
    using pic_send_eoi_correct [of "ucast IRQ_Timer" s1] by (simp add: IRQ_Timer_def)
  ultimately show ?thesis
    using s1 at same words(2) sel by (simp add: irq_handler_timer_def SYSTEM_READ_TIMER_def ld32_st32)
qed

text \<open>
  C3: the clock interrupt as a whole, from the gate back to the interrupted code, when nobody
  is asleep and the number of all tasks is not one.  The code goes on with all its registers,
  its flags and its stack, whatever compiled code does to the registers (\<open>scr\<close>).  One tick more
  is counted and the interrupt is acknowledged; the running task has one tick less of its slice,
  or, when that was the last one, a new slice, the queue is rotated and the processor is sent to
  the next task first; the number of all tasks goes down by one.  Besides the kernel's stack,
  only the words of the scheduler, the slice, the count and the ticks are written.  The words of
  the scheduler and the tick counter lie apart from each other and from the kernel's stack.  The
  tick that finds one task counted is not covered: it breaks the queue, as the section before shows.
\<close>

theorem clock_interrupt:
  fixes esp0 ss0 gate_eip s
  defines "t0 \<equiv> arrive esp0 ss0 KERNEL_SELECTOR_CS gate_eip None s"
  defines "K \<equiv> region (esp (stub_save 0x20 False t0) - 4) 84"
  assumes stack: "aligned4 (esp t0)" "(\<Union>w\<in>clock_words e tk ts. word_bytes w) \<inter> K = {}"
    and ok: "clock_ok e (cmem s) ts" "t = hd ts" "n = ld32 (cmem s) (t_slice_ticks t)"
    and k: "all_tasks e (cmem s) \<noteq> 1" and tk: "aligned4 tk" "tk \<notin> sched_words e ts \<union> sleep_words e"
  shows "\<exists>c. exception_stub 0x20 False (of_c scr (irq_handler_timer e tk)) t0 = Some (s\<lparr>core := c\<rparr>)
    \<and> eflags c = eflags (core s)
    \<and> SYSTEM_READ_TIMER tk (ram c) = SYSTEM_READ_TIMER tk (cmem s) + 1
    \<and> clock_ok e (ram c) (if n = 1 then rotate1 ts else ts)
    \<and> ld32 (ram c) (t_slice_ticks t) = (if n = 1 then ld32 (cmem s) (t_time_ticks t) else n - 1)
    \<and> all_tasks e (ram c) = all_tasks e (cmem s) - 1
    \<and> trace c = trace (core s) @ (if n = 1 \<and> length ts \<noteq> 1 then [FarJmp (ld32 (cmem s) (t_tss_sel (ts ! 1))) 0] else [])
        @ [Outb PIC_M_CTRL 0x20]
    \<and> same_outside (K \<union> (\<Union>w\<in>clock_writes e tk ts. word_bytes w)) (cmem s) (ram c)"
proof -
  let ?u = "stub_save 0x20 False t0" let ?v = "push (eip ?u) ?u" let ?h = "irq_handler_timer e tk"
  let ?W = "\<Union>w\<in>clock_writes e tk ts. word_bytes w"
  have start: "cmem ?v x = cmem s x" if "x \<notin> K" for x
    using handler_start(1) that unfolding K_def t0_def by blast
  obtain m where m: "core ?v = (cli (core s))\<lparr>ram := m\<rparr>" using handler_start(2) unfolding t0_def by blast
  have tr: "trace (core ?v) = trace (core s)" by (simp add: m cli_def write_eflags_def)
  have words: "ld32 (cmem ?v) w = ld32 (cmem s) w" if "w \<in> clock_words e tk ts" for w
    by (rule ld32_cong, rule start) (use stack(2) that in blast)
  have ne: "ts \<noteq> []" using ok(1) by (simp add: clock_ok_def sched_ok_def)
  have in_words: "t_slice_ticks t \<in> clock_words e tk ts" "t_time_ticks t \<in> clock_words e tk ts"
    "tm e + 40 \<in> clock_words e tk ts" "tk \<in> clock_words e tk ts"
    "length ts \<noteq> 1 \<Longrightarrow> t_tss_sel (ts ! 1) \<in> clock_words e tk ts"
    using sched_words_cells(3) [of t ts e] sched_words_cells(3) [of "ts ! 1" ts e] ne ok(2)
    by (auto simp: clock_words_def sleep_words_eq task_words_def) (cases ts; auto)
  have "clock_ok e (cmem ?v) ts" by (rule clock_ok_cong [OF ok(1) words]) (simp add: clock_words_def)
  moreover have "n = ld32 (cmem ?v) (t_slice_ticks t)" using ok(3) words in_words(1) by simp
  moreover have at: "all_tasks e (cmem ?v) = all_tasks e (cmem s)" using words in_words(3) by (simp add: all_tasks_word)
  ultimately obtain s' where h: "?h (core ?v) = Some s'"
    "SYSTEM_READ_TIMER tk (ram s') = SYSTEM_READ_TIMER tk (cmem ?v) + 1"
    "clock_ok e (ram s') (if n = 1 then rotate1 ts else ts)"
    "ld32 (ram s') (t_slice_ticks t) = (if n = 1 then ld32 (cmem ?v) (t_time_ticks t) else n - 1)"
    "all_tasks e (ram s') = all_tasks e (cmem ?v) - 1"
    "trace s' = trace (core ?v) @ (if n = 1 \<and> length ts \<noteq> 1 then [FarJmp (ld32 (cmem ?v) (t_tss_sel (ts ! 1))) 0] else [])
        @ [Outb PIC_M_CTRL 0x20]"
    "unchanged_outside (clock_writes e tk ts) (cmem ?v) (ram s')"
    using irq_handler_timer_tick [of e "core ?v" ts t n tk] ok(2) k tk by auto
  have frame: "ram s' x = cmem ?v x" if "x \<notin> ?W" for x using h(7) that by (simp add: unchanged_outside_def)
  have WK: "?W \<inter> K = {}" using stack(2) clock_writes_sub [OF ne, of e tk] by blast
  have r: "K = region (esp ?u - 4) 4 \<union> region (esp ?u) 80" using region_add [of "esp ?u - 4" 4 80] by (simp add: K_def)
  have "cmem ?v x = cmem ?u x" if "x \<in> region (esp ?u) 80" for x
  proof -
    have "word_bytes (esp ?u - 4) \<inter> region (esp ?u) 80 = {}"
      using region_add_disjoint [of 4 80 "esp ?u - 4"] by (intro word_region_disjoint) simp
    with that have "x \<notin> word_bytes (esp ?u - 4)" by blast
    then show ?thesis by (simp add: st32_other_byte)
  qed
  moreover have "x \<notin> ?W" if "x \<in> region (esp ?u) 80" for x using that WK r by blast
  ultimately have "ram s' x = cmem ?u x" if "x \<in> region (esp ?u) 80" for x using that frame by simp
  then have "writes_elsewhere 80 ?h ?u" using h(1) by (simp add: writes_elsewhere_def)
  moreover have c: "call (of_c scr ?h) ?u = Some (snd (pop (scratched scr (?v\<lparr>core := s'\<rparr>))))"
    using h(1) by (simp add: call_def of_c_def)
  ultimately have "exception_stub 0x20 False (of_c scr ?h) t0
      = Some (s\<lparr>core := write_eflags (eflags (core s)) (core (snd (pop (scratched scr (?v\<lparr>core := s'\<rparr>)))))\<rparr>)"
    using kernel.stub_transparent [of 80 esp0 ss0 KERNEL_SELECTOR_CS gate_eip None s ?h "0x20" scr "snd (pop (scratched scr (?v\<lparr>core := s'\<rparr>)))"] stack(1)
    by (simp add: t0_def)
  then have "exception_stub 0x20 False (of_c scr ?h) t0 = Some (s\<lparr>core := write_eflags (eflags (core s)) s'\<rparr>)"
    by (simp add: pop_def)
  moreover have "same_outside (K \<union> ?W) (cmem s) (ram s')" using frame start by (simp add: same_outside_def)
  ultimately show ?thesis
    using h(2-6) at tr words in_words
    by (intro exI [of _ "write_eflags (eflags (core s)) s'"])
      (simp add: write_eflags_def SYSTEM_READ_TIMER_def)
qed

theorem clock_interrupt_witness:
  "\<exists>c. exception_stub 0x20 False (of_c sample_scratch (irq_handler_timer sample_env 0x7000))
      (arrive 0x9000 0x10 KERNEL_SELECTOR_CS 0x500 None (sample_cpu\<lparr>core := sample_machine\<lparr>ram := sample_clock\<rparr>\<rparr>))
      = Some (sample_cpu\<lparr>core := c\<rparr>)
    \<and> task_current sample_env (ram c) = 0x3000 \<and> all_tasks sample_env (ram c) = 2
    \<and> trace c = [FarJmp (ld32 sample_clock 0x30A8) 0, Outb 0x20 0x20]"
proof -
  let ?s = "sample_cpu\<lparr>core := sample_machine\<lparr>ram := sample_clock\<rparr>\<rparr>"
  let ?t = "arrive 0x9000 0x10 KERNEL_SELECTOR_CS 0x500 None ?s" and ?ts = "[0x2000, 0x3000] :: u32 list"
  have sp: "esp ?t = 0x8FEC"
    by (simp add: arrive_pushes Let_def sample_cpu_def saved_state_def rpl_def selector_defs)
  have sw: "sleep_words sample_env = {0, 0x1028, 0x102C, 0x1030, 0x1034, 0x1038, 0x103C}"
    by (simp add: sleep_words_eq) (simp add: sample_env_def)
  have "word_bytes w \<inter> region 0x8FAC 84 = {}" if "w \<in> clock_words sample_env 0x7000 ?ts" for w
  proof (rule word_region_disjoint, rule region_before(1))
    have "w \<in> {0x7000, 0, 0x1028, 0x102C, 0x1030, 0x1034, 0x1038, 0x103C} \<union> sched_words sample_env ?ts"
      using that by (auto simp: clock_words_def sw)
    then show "unat w + 4 \<le> unat (0x8FAC :: u32)" unfolding sample_words by auto
  qed simp
  then have "(\<Union>w\<in>clock_words sample_env 0x7000 ?ts. word_bytes w) \<inter> region 0x8FAC 84 = {}" by blast
  moreover have "0x7000 \<notin> sched_words sample_env ?ts \<union> sleep_words sample_env" by (simp add: sw sample_words)
  moreover have "ld32 sample_clock 0x2028 = 1"
    by (simp add: sample_clock_def sample_sched_def klist_init_def Let_def node_defs l_head_def l_tail_def set_len_def
        mem_simps aligned4_numeral)
  ultimately show ?thesis
    using clock_interrupt [of "0x9000" "0x10" "0x500" ?s sample_env "0x7000" ?ts "0x2000" 1 sample_scratch] sample_clock_ok sp
    by (auto simp: stub_save_pushes frame_words_def aligned4_numeral t_slice_ticks_def t_tss_sel_def clock_ok_def
        sched_ok_def sample_machine_def PIC_M_CTRL_def)
qed

end
