(* ===== verification/Sched_Run.thy ===== *)
theory Sched_Run
  imports Clock
begin

text \<open>
  The scheduler in use: tasks yield, the timer ticks, and tasks do their own work, in any order.
  A tick is the whole of \<open>task_time_tick\<close>, with its search of the list of sleeping tasks.  Work
  may change any memory but the words of the scheduler and of the list of sleeping tasks; of
  those it may change the number of all tasks, since it may create one.  The tick that finds
  that number to be one is left out: it destroys the queue (the last section of \<open>Clock\<close>).
\<close>

inductive sched_step :: "task_env \<Rightarrow> u32 list \<Rightarrow> machine \<Rightarrow> machine \<Rightarrow> bool" for e ts where
  yield: "sys_sched_yield e s = Some (s', r) \<Longrightarrow> sched_step e ts s s'"
| tick: "all_tasks e (ram s) \<noteq> 1 \<Longrightarrow> task_time_tick e s = Some s' \<Longrightarrow> sched_step e ts s s'"
| work: "(\<And>w. w \<in> sched_words e ts \<union> (sleep_words e - {tm e + 40}) \<Longrightarrow> ld32 (ram s') w = ld32 (ram s) w)
    \<Longrightarrow> get_irq_status s' = get_irq_status s \<Longrightarrow> sched_step e ts s s'"

definition sched_inv :: "task_env \<Rightarrow> u32 list \<Rightarrow> irq_status \<Rightarrow> machine \<Rightarrow> bool" where
  "sched_inv e ts st s \<longleftrightarrow> (\<exists>k. clock_ok e (ram s) (rotate k ts)) \<and> get_irq_status s = st"

text \<open>Every kind of step keeps the queue a rotation of what it was.\<close>

lemma clock_ok_work:
  assumes "clock_ok e m ts" "\<And>w. w \<in> sched_words e ts \<union> (sleep_words e - {tm e + 40}) \<Longrightarrow> ld32 m' w = ld32 m w"
  shows "clock_ok e m' ts"
proof -
  have sched: "sched_ok e m ts" and d: "dlist m (sleep_list e) []" using assms(1) by (simp_all add: clock_ok_def)
  have "sched_ok e m' (rotate 0 ts)"
    by (rule sched_ok_work [of e m 0 ts]) (use sched assms(2) in simp_all)
  moreover have "list_cells (sleep_list e) [] \<subseteq> sleep_words e - {tm e + 40}"
    by (auto simp: sleep_words_def list_cells_def list_nodes_def sleep_list_def add.assoc)
  then have "dlist m' (sleep_list e) []" by (intro dlist_cong [OF d] assms(2)) blast
  ultimately show ?thesis using assms(1) by (simp add: clock_ok_def)
qed

lemma sched_inv_step:
  assumes "sched_step e ts s s'" "sched_inv e ts st s"
  shows "sched_inv e ts st s'"
proof -
  obtain k where k: "clock_ok e (ram s) (rotate k ts)" "get_irq_status s = st"
    using assms(2) by (auto simp: sched_inv_def)
  then have sched: "sched_ok e (ram s) (rotate k ts)" by (simp add: clock_ok_def)
  from assms(1) show ?thesis
  proof cases
    case (yield r)
    have "get_irq_status s' = st" using yield_rotate1 [OF sched] yield k(2) by auto
    moreover have "clock_ok e (ram s') (rotate (Suc k) ts)" using yield_clock [OF k(1) yield] by simp
    ultimately show ?thesis unfolding sched_inv_def by blast
  next
    case tick
    with time_tick [OF k(1) refl refl] k(2)
    have "clock_ok e (ram s') (rotate k ts) \<or> clock_ok e (ram s') (rotate (Suc k) ts)" "get_irq_status s' = st"
      by (auto split: if_splits)
    then show ?thesis unfolding sched_inv_def by blast
  next
    case work
    have "clock_ok e (ram s') (rotate k ts)"
      by (rule clock_ok_work [OF k(1)]) (use work(1) in simp)
    then show ?thesis using work(2) k(2) unfolding sched_inv_def by auto
  qed
qed

lemma sched_inv_run:
  assumes "rtranclp (sched_step e ts) s s'" "sched_inv e ts st s"
  shows "sched_inv e ts st s'"
  using assms by (induction rule: rtranclp_induct) (auto intro: sched_inv_step)

text \<open>
  C7: tasks yield, the clock ticks, and the tasks do anything that keeps off the words of the
  scheduler and of the list of sleeping tasks and leaves the interrupt flag alone, in any order,
  while nobody is asleep and no tick finds the number of all tasks to be one.  Then the ready queue is at all times a rotation of what it was, so no task is lost,
  doubled or overtaken; the running task is its first; the list of sleeping tasks stays empty;
  the interrupt flag is as it was; and both a yield and a whole tick return from every state
  that is reached.
\<close>

theorem scheduler_invariant:
  assumes "clock_ok e (ram s) ts" and "rtranclp (sched_step e ts) s s'"
  shows "\<exists>k. clock_ok e (ram s') (rotate k ts) \<and> task_current e (ram s') = ts ! (k mod length ts)
    \<and> get_irq_status s' = get_irq_status s
    \<and> (\<exists>u. sys_sched_yield e s' = Some (u, 0)) \<and> (\<exists>u. task_time_tick e s' = Some u)"
proof -
  have "sched_inv e ts (get_irq_status s) s"
    using assms(1) by (auto simp: sched_inv_def intro!: exI [of _ 0])
  from sched_inv_run [OF assms(2) this] obtain k where k: "clock_ok e (ram s') (rotate k ts)"
    "get_irq_status s' = get_irq_status s" by (auto simp: sched_inv_def)
  then have sched: "sched_ok e (ram s') (rotate k ts)" by (simp add: clock_ok_def)
  have "ts \<noteq> []" using assms(1) by (simp add: clock_ok_def sched_ok_def)
  then have "task_current e (ram s') = ts ! (k mod length ts)"
    using sched by (simp add: sched_ok_def hd_rotate_conv_nth)
  moreover have "\<exists>u. sys_sched_yield e s' = Some (u, 0)" using yield_rotate1 [OF sched] by blast
  moreover have "\<exists>u. task_time_tick e s' = Some u"
    using time_tick [OF k(1) refl refl] time_tick_corrupts [OF k(1)] by blast
  ultimately show ?thesis using k by blast
qed

text \<open>In the sample the first tick ends the slice of the first task and a yield hands on.\<close>

theorem scheduler_invariant_witness:
  "\<exists>s1 s2. task_time_tick sample_env (sample_machine\<lparr>ram := sample_clock\<rparr>) = Some s1
     \<and> sys_sched_yield sample_env s1 = Some (s2, 0)
     \<and> rtranclp (sched_step sample_env [0x2000, 0x3000]) (sample_machine\<lparr>ram := sample_clock\<rparr>) s2
     \<and> task_current sample_env (ram s2) \<in> {0x2000, 0x3000} \<and> (\<exists>u. task_time_tick sample_env s2 = Some u)"
proof -
  let ?s = "sample_machine\<lparr>ram := sample_clock\<rparr>" and ?ts = "[0x2000, 0x3000] :: u32 list"
  have ok: "clock_ok sample_env (ram ?s) ?ts" "all_tasks sample_env (ram ?s) \<noteq> 1" using sample_clock_ok by simp_all
  obtain s1 where t: "task_time_tick sample_env ?s = Some s1"
    using scheduler_invariant [OF ok(1) rtranclp.rtrancl_refl] by blast
  with ok(2) have r1: "rtranclp (sched_step sample_env ?ts) ?s s1" by (blast intro: sched_step.tick)
  obtain s2 where y: "sys_sched_yield sample_env s1 = Some (s2, 0)" using scheduler_invariant [OF ok(1) r1] by blast
  then have r2: "rtranclp (sched_step sample_env ?ts) ?s s2"
    using r1 by (blast intro: sched_step.yield rtranclp.rtrancl_into_rtrancl)
  from scheduler_invariant [OF ok(1) r2] obtain k u where
    "task_current sample_env (ram s2) = ?ts ! (k mod length ?ts)" "task_time_tick sample_env s2 = Some u" by blast
  moreover have "?ts ! (k mod length ?ts) \<in> set ?ts" by (rule nth_mem) simp
  ultimately show ?thesis using t y r2 by auto
qed

end
