(* ===== verification/Loader.thy ===== *)
theory Loader
  imports Gdt Memory Log
begin

text \<open>
  The second-stage loader: \<open>source/loader/loader16.c\<close> (memory detection through the
  firmware, the switch to protected mode) and \<open>source/loader/loader32.c\<close> (reading the
  kernel from the disk, placing the segments of its ELF image).  The firmware is a
  parameter: what call \<open>i\<close> with a continuation value answers.  The disk is the device of
  the machine behind ports 0x1F0 to 0x1F7.
\<close>

unbundle bit_operations_syntax

section \<open>Detecting memory\<close>

record ARDS_entry_t =
  BaseL :: u32
  BaseH :: u32
  LengthL :: u32
  LengthH :: u32
  Type :: u32

text \<open>The answer of interrupt 0x15: signature, length of the entry, next continuation, entry.\<close>

type_synonym bios = "nat \<Rightarrow> u32 \<Rightarrow> u32 \<times> u32 \<times> u32 \<times> ARDS_entry_t"

definition SMAP :: u32 where "SMAP = 0x534D4150"

definition add_info :: "mem \<Rightarrow> u32 \<Rightarrow> ARDS_entry_t \<Rightarrow> mem" where
  "add_info m mi entry =
    (let m = st32 m (mi + 8 * info_count m mi) (BaseL entry);
         m = st32 m (mi + 8 * info_count m mi + 4) (LengthL entry)
     in st32 m (mi + 160) (info_count m mi + 1))"

text \<open>
  The loop; its result is \<open>None\<close> when it runs out of its twenty rounds, for the function
  then ends without a return statement.
\<close>

fun detect_loop :: "bios \<Rightarrow> u32 \<Rightarrow> mem \<Rightarrow> u32 \<Rightarrow> nat list \<Rightarrow> mem \<times> bool option" where
  "detect_loop bios mi m countID [] = (m, None)"
| "detect_loop bios mi m countID (i # is) =
    (case bios i countID of (signature, blength, countID, entry) \<Rightarrow>
      if signature \<noteq> SMAP then (m, Some False)
      else
        let m = (if Type entry = 1 then add_info m mi entry else m)
        in if blength = 20 then detect_loop bios mi m countID is
           else if countID = 0 then (m, Some True)
           else detect_loop bios mi m countID is)"

text \<open>The continuation value is not initialised: \<open>start\<close> is what it happens to be.\<close>

definition detect_method1 :: "bios \<Rightarrow> u32 \<Rightarrow> u32 \<Rightarrow> mem \<Rightarrow> mem \<times> bool option" where
  "detect_method1 bios mi start m = detect_loop bios mi m start [0..<MAX_MEM_LENGTH]"

definition detect_method2 :: bool where "detect_method2 = False"
definition detect_method3 :: bool where "detect_method3 = False"

text \<open>The other two methods do nothing, so the undefined result of the first does not matter.\<close>

definition detect_memory :: "bios \<Rightarrow> u32 \<Rightarrow> u32 \<Rightarrow> mem \<Rightarrow> mem" where
  "detect_memory bios mi start m =
    (case detect_method1 bios mi start m of (m, Some True) \<Rightarrow> m
     | (m, _) \<Rightarrow> if detect_method2 then m else let unused = detect_method3 in m)"

section \<open>Protected mode\<close>

definition enter_portected :: "u32 \<Rightarrow> u32 \<Rightarrow> machine \<Rightarrow> machine" where
  "enter_portected gdt protected_mode_entry s =
    (let s = cli s;
         (a20, s) = inb 0x92 s;
         s = outb 0x92 (0x2 OR a20) s;
         s = gdt16_init gdt s;
         s = wcr0 (rcr0 s OR push_bit 0 1) s
     in far_jmp 8 protected_mode_entry s)"

definition loader16c_entry :: "bios \<Rightarrow> u32 \<Rightarrow> u32 \<Rightarrow> u32 \<Rightarrow> u32 \<Rightarrow> machine \<Rightarrow> machine" where
  "loader16c_entry bios mi start gdt protected_mode_entry s =
    enter_portected gdt protected_mode_entry (s\<lparr>ram := detect_memory bios mi start (ram s)\<rparr>)"

section \<open>Reading the disk\<close>

text \<open>Waiting until the drive is not busy and has data; \<open>None\<close> when it never has.\<close>

partial_function (option) disk_wait :: "machine \<Rightarrow> machine option" where
  "disk_wait s =
    (case inb 0x1F7 s of (status, s) \<Rightarrow> if status AND 0x88 \<noteq> 0x8 then disk_wait s else Some s)"

fun read_words :: "nat \<Rightarrow> u32 \<Rightarrow> machine \<Rightarrow> machine" where
  "read_words 0 data_buf s = s"
| "read_words (Suc n) data_buf s =
    (case inw 0x1F0 s of (w, s) \<Rightarrow> read_words n (data_buf + 2) (s\<lparr>ram := st16 (ram s) data_buf w\<rparr>))"

fun read_sectors :: "nat \<Rightarrow> u32 \<Rightarrow> machine \<Rightarrow> machine option" where
  "read_sectors 0 data_buf s = Some s"
| "read_sectors (Suc n) data_buf s =
    Option.bind (disk_wait s) (\<lambda>s.
      read_sectors n (data_buf + of_nat SECTOR_SIZE) (read_words (SECTOR_SIZE div 2) data_buf s))"

definition disk_command :: "u32 \<Rightarrow> u16 \<Rightarrow> machine \<Rightarrow> machine" where
  "disk_command sector sector_count s =
    (let s = outb 0x1F6 0xE0 s;
         s = outb 0x1F2 (ucast (drop_bit 8 sector_count)) s;
         s = outb 0x1F3 (ucast (drop_bit 24 sector)) s;
         s = outb 0x1F4 0 s;
         s = outb 0x1F5 0 s;
         s = outb 0x1F2 (ucast sector_count) s;
         s = outb 0x1F3 (ucast sector) s;
         s = outb 0x1F4 (ucast (drop_bit 8 sector)) s;
         s = outb 0x1F5 (ucast (drop_bit 16 sector)) s
     in outb 0x1F7 0x24 s)"

definition load2mem :: "u32 \<Rightarrow> u16 \<Rightarrow> u32 \<Rightarrow> machine \<Rightarrow> machine option" where
  "load2mem sector sector_count buf s =
    read_sectors (unat sector_count) buf (disk_command sector sector_count s)"

section \<open>Placing the ELF image\<close>

text \<open>The fields of the file header and of a program header.\<close>

definition e_entry :: "mem \<Rightarrow> u32 \<Rightarrow> u32" where "e_entry m hdr = ld32 m (hdr + 24)"
definition e_phoff :: "mem \<Rightarrow> u32 \<Rightarrow> u32" where "e_phoff m hdr = ld32 m (hdr + 28)"
definition e_phnum :: "mem \<Rightarrow> u32 \<Rightarrow> u16" where "e_phnum m hdr = ld16 m (hdr + 44)"
definition p_type :: "mem \<Rightarrow> u32 \<Rightarrow> u32" where "p_type m phdr = ld32 m phdr"
definition p_offset :: "mem \<Rightarrow> u32 \<Rightarrow> u32" where "p_offset m phdr = ld32 m (phdr + 4)"
definition p_paddr :: "mem \<Rightarrow> u32 \<Rightarrow> u32" where "p_paddr m phdr = ld32 m (phdr + 12)"
definition p_filesz :: "mem \<Rightarrow> u32 \<Rightarrow> u32" where "p_filesz m phdr = ld32 m (phdr + 16)"
definition p_memsz :: "mem \<Rightarrow> u32 \<Rightarrow> u32" where "p_memsz m phdr = ld32 m (phdr + 20)"

lemmas elf_fields = e_entry_def e_phoff_def e_phnum_def p_type_def p_offset_def p_paddr_def
  p_filesz_def p_memsz_def

definition PT_LOAD :: u32 where "PT_LOAD = 1"
definition KERNEL_ENTRY :: u32 where "KERNEL_ENTRY = 1024 * 1024"

definition magic_ok :: "mem \<Rightarrow> u32 \<Rightarrow> bool" where
  "magic_ok m elf_hdr \<longleftrightarrow> \<not> (m elf_hdr \<noteq> 0x7F \<or> m (elf_hdr + 1) \<noteq> 0x45 \<or> m (elf_hdr + 2) \<noteq> 0x4C
     \<or> m (elf_hdr + 3) \<noteq> 0x46)"

text \<open>
  The two inner loops read the sizes again in every round, from memory they may be
  overwriting; they end because the counter of a round is below a 32-bit value.
\<close>

lemma counter_decreases: "(j :: u32) < k \<Longrightarrow> 2 ^ 32 - unat (j + 1) < 2 ^ 32 - unat j"
proof -
  assume "j < k"
  then have "unat j < unat k" by (simp add: word_less_nat_alt)
  moreover have "unat k < 2 ^ 32" using unsigned_less [where 'a = nat, of k] by simp
  ultimately have "unat (j + 1) = unat j + 1" "unat j < 2 ^ 32" by (simp_all add: unat_word_ariths)
  then show ?thesis by simp
qed

function copy_segment :: "mem \<Rightarrow> u32 \<Rightarrow> u32 \<Rightarrow> u32 \<Rightarrow> u32 \<Rightarrow> mem" where
  "copy_segment m phdr dest src j =
    (if j < p_filesz m phdr then copy_segment (m(dest := m src)) phdr (dest + 1) (src + 1) (j + 1)
     else m)"
  by auto
termination
  by (relation "measure (\<lambda>(m, phdr, dest, src, j). 2 ^ 32 - unat j)") (use counter_decreases in auto)

function clear_segment :: "mem \<Rightarrow> u32 \<Rightarrow> u32 \<Rightarrow> u32 \<Rightarrow> mem" where
  "clear_segment m phdr dest j =
    (if j < p_memsz m phdr - p_filesz m phdr then clear_segment (m(dest := 0)) phdr (dest + 1) (j + 1)
     else m)"
  by auto
termination
  by (relation "measure (\<lambda>(m, phdr, dest, j). 2 ^ 32 - unat j)") (use counter_decreases in auto)

declare copy_segment.simps [simp del] clear_segment.simps [simp del]

definition load_segment :: "mem \<Rightarrow> u32 \<Rightarrow> u32 \<Rightarrow> mem" where
  "load_segment m file_buffer phdr =
    (if p_type m phdr \<noteq> PT_LOAD then m
     else
       let m = copy_segment m phdr (p_paddr m phdr) (file_buffer + p_offset m phdr) 0
       in clear_segment m phdr (p_paddr m phdr + p_filesz m phdr) 0)"

text \<open>The outer loop compares with the count in the header, at most 65535, in every round.\<close>

function load_segments :: "mem \<Rightarrow> u32 \<Rightarrow> nat \<Rightarrow> mem" where
  "load_segments m file_buffer i =
    (if i < unat (e_phnum m file_buffer) then
       load_segments (load_segment m file_buffer (file_buffer + e_phoff m file_buffer + of_nat (32 * i)))
         file_buffer (Suc i)
     else m)"
  by auto
termination
proof (relation "measure (\<lambda>(m, f, i). 2 ^ 16 - i)")
  fix m f i assume "i < unat (e_phnum m f)"
  moreover have "unat (e_phnum m f) < 2 ^ 16" using unsigned_less [where 'a = nat, of "e_phnum m f"] by simp
  ultimately show "((load_segment m f (f + e_phoff m f + of_nat (32 * i)), f, Suc i), m, f, i)
      \<in> measure (\<lambda>(m, f, i). 2 ^ 16 - i)"
    by simp
qed simp

declare load_segments.simps [simp del]

definition read_elf :: "mem \<Rightarrow> u32 \<Rightarrow> mem \<times> u32" where
  "read_elf m file_buffer =
    (if \<not> magic_ok m file_buffer then (m, 0)
     else let m = load_segments m file_buffer 0 in (m, e_entry m file_buffer))"

definition enable_page_mode :: "u32 \<Rightarrow> machine \<Rightarrow> machine" where
  "enable_page_mode page_dir s = (let s = wcr3 page_dir s in wcr0 (rcr0 s OR CR0_PG) s)"

text \<open>The result is the state and the address the kernel is called at.\<close>

definition loader32c_entry :: "machine \<Rightarrow> (machine \<times> u32) option" where
  "loader32c_entry s =
    map_option (\<lambda>s. case read_elf (ram s) KERNEL_ENTRY of (m, kernel_entry) \<Rightarrow> (s\<lparr>ram := m\<rparr>, kernel_entry))
      (load2mem 100 500 KERNEL_ENTRY s)"

section \<open>The memory map as a list\<close>

definition infos :: "mem \<Rightarrow> u32 \<Rightarrow> (u32 \<times> u32) list" where
  "infos m mi = map (\<lambda>j. (ld32 m (mi + of_nat (8 * j)), info_offset m mi j)) [0..<nat (sint (info_count m mi))]"

definition usable :: "ARDS_entry_t list \<Rightarrow> (u32 \<times> u32) list" where
  "usable es = map (\<lambda>e. (BaseL e, LengthL e)) (filter (\<lambda>e. Type e = 1) es)"

definition add_usable :: "u32 \<Rightarrow> ARDS_entry_t \<Rightarrow> mem \<Rightarrow> mem" where
  "add_usable mi e m = (if Type e = 1 then add_info m mi e else m)"

text \<open>The words of the map at \<open>mi\<close>.\<close>

lemma map_words:
  assumes "aligned4 mi"
  shows "aligned4 (mi + 8 * of_nat j)" "aligned4 (mi + 8 * of_nat j + 4)" "aligned4 (mi + 160)"
proof -
  have "aligned4 (8 * of_nat j :: u32)" by (simp add: aligned4_def unat_word_ariths dvd_mod_iff)
  then show "aligned4 (mi + 8 * of_nat j)" "aligned4 (mi + 8 * of_nat j + 4)" "aligned4 (mi + 160)"
    using assms by (simp_all add: align_simps)
qed

lemma map_offset_inj:
  assumes "mi + of_nat a = mi + (of_nat b :: u32)" "a < 200" "b < 200"
  shows "a = b"
  using offset_inj [OF assms(1)] assms(2,3) by simp

lemma map_words_differ:
  assumes "j < 20" "k < 20"
  shows "mi + 8 * of_nat j = mi + (8 * of_nat k :: u32) \<longleftrightarrow> j = k"
    "mi + 8 * of_nat j + 4 = mi + (8 * of_nat k :: u32) + 4 \<longleftrightarrow> j = k"
    "mi + 8 * of_nat j \<noteq> mi + (8 * of_nat k :: u32) + 4" "mi + (8 * of_nat k :: u32) + 4 \<noteq> mi + 8 * of_nat j"
    "mi + 8 * of_nat j \<noteq> mi + 160" "mi + (8 * of_nat j :: u32) + 4 \<noteq> mi + 160"
    "mi + 160 \<noteq> mi + 8 * of_nat j" "mi + 160 \<noteq> mi + (8 * of_nat j :: u32) + 4"
proof -
  have e: "mi + 8 * of_nat i = mi + (of_nat (8 * i) :: u32)" "mi + 8 * of_nat i + 4 = mi + (of_nat (8 * i + 4) :: u32)"
    "mi + 160 = mi + (of_nat 160 :: u32)" for i
    by (simp_all add: add.assoc)
  have off: "mi + of_nat a = mi + (of_nat b :: u32) \<longleftrightarrow> a = b" if "a < 200" "b < 200" for a b
    using map_offset_inj [OF _ that] by blast
  have small: "8 * j < 200" "8 * k < 200" "8 * j + 4 < 200" "8 * k + 4 < 200" "(160 :: nat) < 200"
    using assms by simp_all
  show "mi + 8 * of_nat j = mi + (8 * of_nat k :: u32) \<longleftrightarrow> j = k"
    "mi + 8 * of_nat j + 4 = mi + (8 * of_nat k :: u32) + 4 \<longleftrightarrow> j = k"
    "mi + 8 * of_nat j \<noteq> mi + (8 * of_nat k :: u32) + 4" "mi + (8 * of_nat k :: u32) + 4 \<noteq> mi + 8 * of_nat j"
    "mi + 8 * of_nat j \<noteq> mi + 160" "mi + (8 * of_nat j :: u32) + 4 \<noteq> mi + 160"
    "mi + 160 \<noteq> mi + 8 * of_nat j" "mi + 160 \<noteq> mi + (8 * of_nat j :: u32) + 4"
    unfolding e(2,3) unfolding e(1) off [OF small(1,2)] off [OF small(3,4)] off [OF small(1,4)] off [OF small(4,1)]
      off [OF small(1,5)] off [OF small(3,5)] off [OF small(5,1)] off [OF small(5,3)]
    using assms by (simp_all, presburger+)
qed

lemma add_info_spec:
  assumes "aligned4 mi" "info_count m mi = of_nat k" "k < 20"
  shows "info_count (add_info m mi e) mi = of_nat (Suc k)"
    and "j < 20 \<Longrightarrow> ld32 (add_info m mi e) (mi + of_nat (8 * j)) = (if j = k then BaseL e else ld32 m (mi + of_nat (8 * j)))"
    and "j < 20 \<Longrightarrow> info_offset (add_info m mi e) mi j = (if j = k then LengthL e else info_offset m mi j)"
    and "same_outside (region mi 164) m (add_info m mi e)"
proof -
  note al = map_words [OF assms(1)] note d = map_words_differ [OF assms(3)] map_words_differ [OF _ assms(3)]
  let ?m1 = "st32 m (mi + 8 * of_nat k) (BaseL e)" let ?m2 = "st32 ?m1 (mi + 8 * of_nat k + 4) (LengthL e)"
  have c: "info_count ?m1 mi = of_nat k" "info_count ?m2 mi = of_nat k"
    using assms(2,3) al d by (simp_all add: info_count_def ld32_st32_other)
  have eq: "add_info m mi e = st32 ?m2 (mi + 160) (of_nat (Suc k))"
    using c assms(2) by (simp add: add_info_def Let_def add.commute)
  show "info_count (add_info m mi e) mi = of_nat (Suc k)" by (simp add: eq info_count_def ld32_st32)
  show "j < 20 \<Longrightarrow> ld32 (add_info m mi e) (mi + of_nat (8 * j)) = (if j = k then BaseL e else ld32 m (mi + of_nat (8 * j)))"
    using al d map_words_differ [OF _ assms(3), of j] by (simp add: eq ld32_st32_other ld32_st32)
  show "j < 20 \<Longrightarrow> info_offset (add_info m mi e) mi j = (if j = k then LengthL e else info_offset m mi j)"
    using al d map_words_differ [OF _ assms(3), of j] by (simp add: eq info_offset_def ld32_st32_other ld32_st32)
  have w: "word_bytes (mi + 8 * of_nat k) \<subseteq> region mi 164" "word_bytes (mi + 8 * of_nat k + 4) \<subseteq> region mi 164"
    "word_bytes (mi + 160) \<subseteq> region mi 164"
    using word_in_region [of "8 * k" 164 _ mi] word_in_region [of "8 * k + 4" 164 _ mi]
      word_in_region [of 160 164 _ mi] assms(3) by (auto simp: add.assoc)
  show "same_outside (region mi 164) m (add_info m mi e)"
    unfolding same_outside_def
  proof (intro allI impI)
    fix x assume "x \<notin> region mi 164"
    with w have "x \<notin> word_bytes (mi + 8 * of_nat k)" "x \<notin> word_bytes (mi + 8 * of_nat k + 4)"
      "x \<notin> word_bytes (mi + 160)" by blast+
    then show "add_info m mi e x = m x" unfolding eq by (simp only: st32_other_byte not_False_eq_True)
  qed
qed

lemma count_small: "k \<le> 20 \<Longrightarrow> nat (sint (of_nat k :: c_int)) = k"
  by (simp add: sint_of_nat)

lemma add_usable_infos:
  assumes "aligned4 mi" "info_count m mi = of_nat k" "k < 20"
  shows "infos (add_usable mi e m) mi = infos m mi @ usable [e]"
    and "\<exists>k'\<le>Suc k. info_count (add_usable mi e m) mi = of_nat k'"
    and "same_outside (region mi 164) m (add_usable mi e m)"
proof -
  note spec = add_info_spec [OF assms]
  have "infos (add_info m mi e) mi = infos m mi @ [(BaseL e, LengthL e)]"
    using assms(3) spec(1) count_small [of k] count_small [of "Suc k"]
    by (simp add: infos_def assms(2) spec(2,3) del: of_nat_mult of_nat_Suc)
  then show "infos (add_usable mi e m) mi = infos m mi @ usable [e]"
    by (simp add: add_usable_def usable_def)
  show "\<exists>k'\<le>Suc k. info_count (add_usable mi e m) mi = of_nat k'"
  proof (cases "Type e = 1")
    case True
    then show ?thesis using spec(1) [of e] by (intro exI [of _ "Suc k"]) (simp add: add_usable_def)
  next
    case False
    then show ?thesis using assms(2) by (intro exI [of _ k]) (simp add: add_usable_def)
  qed
  show "same_outside (region mi 164) m (add_usable mi e m)" using spec(4) by (simp add: add_usable_def)
qed

lemma add_all:
  assumes "aligned4 mi" "info_count m mi = of_nat k" "k + length es \<le> 20"
  shows "infos (fold (add_usable mi) es m) mi = infos m mi @ usable es
    \<and> same_outside (region mi 164) m (fold (add_usable mi) es m)
    \<and> (\<exists>k'\<le>20. info_count (fold (add_usable mi) es m) mi = of_nat k')"
  using assms(2,3)
proof (induction es arbitrary: m k)
  case (Cons e es)
  then have k: "k < 20" by simp
  note one = add_usable_infos [OF assms(1) Cons.prems(1) k, of e]
  obtain k' where k': "k' \<le> Suc k" "info_count (add_usable mi e m) mi = of_nat k'" using one(2) by blast
  have "k' + length es \<le> 20" using k' Cons.prems(2) by simp
  from Cons.IH [OF k'(2) this] one(1,3) show ?case
    by (auto simp: usable_def intro: same_outside_trans)
qed (auto simp: usable_def)

section \<open>What the detection records\<close>

text \<open>
  The documented behaviour of the firmware: with continuation \<open>c\<close> it returns entry \<open>c\<close> of
  its table, \<open>l\<close> bytes of it, and the next continuation, 0 after the last entry.
\<close>

definition firmware_lists :: "bios \<Rightarrow> ARDS_entry_t list \<Rightarrow> u32 \<Rightarrow> bool" where
  "firmware_lists bios tbl l \<longleftrightarrow> (\<forall>i. \<forall>c<length tbl.
     bios i (of_nat c) = (SMAP, l, if Suc c = length tbl then 0 else of_nat (Suc c), tbl ! c))"

lemma detect_short:
  assumes "firmware_lists bios tbl l" "l \<noteq> 20" "length tbl < 2 ^ 32" "c < length tbl" "length tbl - c \<le> length is"
  shows "detect_loop bios mi m (of_nat c) is = (fold (add_usable mi) (drop c tbl) m, Some True)"
  using assms(4,5)
proof (induction "is" arbitrary: c m)
  case (Cons i "is")
  have b: "bios i (of_nat c) = (SMAP, l, if Suc c = length tbl then 0 else of_nat (Suc c), tbl ! c)"
    using assms(1) Cons.prems(1) by (simp add: firmware_lists_def)
  have d: "drop c tbl = tbl ! c # drop (Suc c) tbl" using Cons.prems(1) by (rule Cons_nth_drop_Suc [symmetric])
  show ?case
  proof (cases "Suc c = length tbl")
    case True
    then show ?thesis using assms(2) by (simp add: b d add_usable_def)
  next
    case False
    then have lt: "Suc c < length tbl" using Cons.prems(1) by simp
    have "(of_nat (Suc c) :: u32) \<noteq> 0"
    proof
      assume "(of_nat (Suc c) :: u32) = 0"
      then have "unat (of_nat (Suc c) :: u32) = 0" by (simp only: unsigned_0)
      then show False using assms(3) lt by (subst (asm) unat_of_nat_word) simp_all
    qed
    with lt show ?thesis
      using False assms(2) Cons.IH [of "Suc c" "add_usable mi (tbl ! c) m"] Cons.prems(2)
      by (simp add: b d add_usable_def del: of_nat_Suc)
  qed
qed simp

lemma detect_long:
  assumes "firmware_lists bios tbl 20" "tbl \<noteq> []"
  shows "detect_loop bios mi m (of_nat (i mod length tbl)) [i..<n]
    = (fold (add_usable mi) (map (\<lambda>j. tbl ! (j mod length tbl)) [i..<n]) m, None)"
proof (induction "n - i" arbitrary: i m)
  case (Suc k)
  let ?c = "i mod length tbl"
  have c: "?c < length tbl" using assms(2) by simp
  then have b: "bios i (of_nat ?c) = (SMAP, 20, if Suc ?c = length tbl then 0 else of_nat (Suc ?c), tbl ! ?c)"
    using assms(1) by (simp add: firmware_lists_def)
  have "(if Suc ?c = length tbl then 0 else of_nat (Suc ?c) :: u32) = of_nat (Suc i mod length tbl)"
    by (simp add: mod_Suc)
  moreover have "[i..<n] = i # [Suc i..<n]" using Suc(2) by (simp add: upt_conv_Cons)
  ultimately show ?case
    using Suc(1) [of "Suc i" "add_usable mi (tbl ! ?c) m"] Suc(2)
    by (simp add: b add_usable_def del: of_nat_Suc)
qed simp

lemma total_infos: "total_mem_size m mi = sum_list (map snd (infos m mi))"
proof -
  have "fold (\<lambda>i s. s + f i) xs (a :: u32) = a + sum_list (map f xs)" for f :: "nat \<Rightarrow> u32" and xs a
    by (induction xs arbitrary: a) (simp_all add: add.assoc)
  then show ?thesis by (simp add: total_mem_size_def infos_def comp_def)
qed

lemma no_infos: "info_count m mi = 0 \<Longrightarrow> infos m mi = []"
  by (simp add: infos_def)

text \<open>
  when the firmware reports entries of more than 20 bytes, at most 20 of them,
  \<open>detect_method1\<close> records exactly the usable ones, in order, and writes nothing but the map.
\<close>

theorem detect_method1_records:
  assumes "firmware_lists bios tbl l" "l \<noteq> 20" "tbl \<noteq> []" "length tbl \<le> 20"
    and "aligned4 mi" "info_count m mi = 0"
  shows "\<exists>m'. detect_method1 bios mi 0 m = (m', Some True) \<and> infos m' mi = usable tbl
    \<and> same_outside (region mi 164) m m'"
proof -
  have "detect_method1 bios mi 0 m = (fold (add_usable mi) tbl m, Some True)"
    using detect_short [OF assms(1,2), of 0 "[0..<MAX_MEM_LENGTH]" mi m] assms(3,4)
    by (simp add: detect_method1_def MAX_MEM_LENGTH_def)
  moreover have "infos (fold (add_usable mi) tbl m) mi = usable tbl
      \<and> same_outside (region mi 164) m (fold (add_usable mi) tbl m)"
    using add_all [OF assms(5), of m 0 tbl] assms(4,6) no_infos [OF assms(6)] by simp
  ultimately show ?thesis by blast
qed

definition sample_entry :: ARDS_entry_t where
  "sample_entry = \<lparr>BaseL = 0x100000, BaseH = 0, LengthL = 0x700000, LengthH = 0, Type = 1\<rparr>"

definition sample_bios :: "u32 \<Rightarrow> bios" where
  "sample_bios l i c = (SMAP, l, 0, sample_entry)"

lemma sample_bios_lists: "firmware_lists (sample_bios l) [sample_entry] l"
  by (simp add: firmware_lists_def sample_bios_def)

lemma sample_no_info: "info_count (\<lambda>_. 0) 0x5000 = 0"
  by (simp add: info_count_def ld32_def)

theorem detect_method1_records_witness:
  "\<exists>m'. detect_method1 (sample_bios 24) 0x5000 0 (\<lambda>_. 0) = (m', Some True) \<and> infos m' 0x5000 = [(0x100000, 0x700000)]"
  using detect_method1_records [OF sample_bios_lists [of 24] _ _ _ _ sample_no_info]
  by (auto simp: aligned4_numeral usable_def sample_entry_def)

text \<open>
  when it reports the usual 20 bytes, the test for the last entry is skipped: the
  continuation 0 starts the firmware's list anew, the loop goes through all its twenty rounds
  and the function ends without a result; entries are recorded again and again, and
  \<open>total_mem_size\<close>, from which the page allocator is set up, is their sum.
\<close>

theorem detect_method1_repeats:
  assumes "firmware_lists bios tbl 20" "tbl \<noteq> []" "aligned4 mi" "info_count m mi = 0"
  defines "es \<equiv> map (\<lambda>j. tbl ! (j mod length tbl)) [0..<20]"
  shows "\<exists>m'. detect_method1 bios mi 0 m = (m', None) \<and> infos m' mi = usable es
    \<and> total_mem_size m' mi = sum_list (map LengthL (filter (\<lambda>e. Type e = 1) es))"
proof -
  have "detect_method1 bios mi 0 m = (fold (add_usable mi) es m, None)"
    using detect_long [OF assms(1,2), of mi m 0 20]
    by (simp add: detect_method1_def MAX_MEM_LENGTH_def es_def del: upt_Suc)
  moreover have "infos (fold (add_usable mi) es m) mi = usable es"
    using add_all [OF assms(3), of m 0 es] assms(4) no_infos [OF assms(4)] by (simp add: es_def del: upt_Suc)
  ultimately show ?thesis by (simp add: total_infos usable_def comp_def)
qed

theorem detect_method1_repeats_witness:
  "\<exists>m'. detect_method1 (sample_bios 20) 0x5000 0 (\<lambda>_. 0) = (m', None)
     \<and> total_mem_size m' 0x5000 = 20 * LengthL sample_entry"
proof -
  have es: "map (\<lambda>j. [sample_entry] ! (j mod length [sample_entry])) [0..<20] = replicate 20 sample_entry"
    by (simp add: list_eq_iff_nth_eq del: upt_Suc)
  have "Type sample_entry = 1" by (simp add: sample_entry_def)
  then have "sum_list (map LengthL (filter (\<lambda>e. Type e = 1) (replicate 20 sample_entry))) = 20 * LengthL sample_entry"
    by (simp add: sum_list_replicate)
  then show ?thesis
    using detect_method1_repeats [OF sample_bios_lists _ _ sample_no_info]
    by (simp only: es) (auto simp: aligned4_numeral)
qed

lemma detect_loop_bounds:
  assumes "aligned4 mi"
  shows "info_count m mi = of_nat k \<Longrightarrow> k + length is \<le> 20
    \<Longrightarrow> same_outside (region mi 164) m (fst (detect_loop bios mi m c is))"
proof (induction "is" arbitrary: m k c)
  case (Cons i "is")
  obtain sg bl c' e where b: "bios i c = (sg, bl, c', e)" by (metis prod_cases4)
  let ?m = "add_usable mi e m"
  have k: "k < 20" using Cons.prems(2) by simp
  obtain k' where k': "k' \<le> Suc k" "info_count ?m mi = of_nat k'"
    using add_usable_infos(2) [OF assms Cons.prems(1) k] by blast
  have one: "same_outside (region mi 164) m ?m" by (rule add_usable_infos(3) [OF assms Cons.prems(1) k])
  have "same_outside (region mi 164) ?m (fst (detect_loop bios mi ?m c' is))"
    using Cons.IH [OF k'(2)] k'(1) Cons.prems(2) by simp
  then have "same_outside (region mi 164) m (fst (detect_loop bios mi ?m c' is))"
    using one by (auto intro: same_outside_trans)
  with one show ?case by (simp add: b add_usable_def [symmetric] Let_def cong: if_cong)
qed simp

lemma detect_memory_bounds:
  assumes "aligned4 mi" "info_count m mi = 0"
  shows "same_outside (region mi 164) m (detect_memory bios mi start m)"
proof -
  have "detect_memory bios mi start m = fst (detect_method1 bios mi start m)"
    by (auto simp: detect_memory_def detect_method2_def Let_def split: prod.splits option.splits bool.splits)
  then show ?thesis
    using detect_loop_bounds [OF assms(1), of m 0] assms(2)
    by (simp add: detect_method1_def MAX_MEM_LENGTH_def)
qed

text \<open>
  C27: whatever the firmware answers, the detection stays within the 164 bytes of the map.
\<close>

theorem detect_memory_in_bounds:
  assumes "aligned4 mi" "info_count m mi = 0"
  shows "same_outside (region mi 164) m (detect_memory bios mi start m)"
  using assms by (rule detect_memory_bounds)

theorem detect_memory_in_bounds_witness:
  "same_outside (region 0x5000 164) (\<lambda>_. 0) (detect_memory (sample_bios 20) 0x5000 0 (\<lambda>_. 0))"
  using detect_memory_in_bounds [OF _ sample_no_info] by (simp add: aligned4_numeral)

section \<open>What arrives from the disk\<close>

fun data_words :: "io_event list \<Rightarrow> u16 list" where
  "data_words [] = []"
| "data_words (Inw port w # es) = (if port = 0x1F0 then w # data_words es else data_words es)"
| "data_words (_ # es) = data_words es"

definition words_bytes :: "u16 list \<Rightarrow> u8 list" where
  "words_bytes ws = concat (map (\<lambda>w. [ucast w, ucast (drop_bit 8 w)]) ws)"

lemma data_words_append [simp]: "data_words (es @ fs) = data_words es @ data_words fs"
  by (induction es rule: data_words.induct) auto

lemma put_bytes_append: "put_bytes m a (xs @ ys) = put_bytes (put_bytes m a xs) (a + of_nat (length xs)) ys"
  by (induction xs arbitrary: m a) (simp_all add: add.assoc)

lemma length_words_bytes [simp]: "length (words_bytes ws) = 2 * length ws"
  by (induction ws) (simp_all add: words_bytes_def)

lemma words_bytes_append [simp]: "words_bytes (ws @ vs) = words_bytes ws @ words_bytes vs"
  by (simp add: words_bytes_def)

lemma read_words_spec:
  "\<exists>ws. length ws = n \<and> data_words (trace (read_words n a s)) = data_words (trace s) @ ws
     \<and> ram (read_words n a s) = put_bytes (ram s) a (words_bytes ws)
     \<and> device (read_words n a s) = device s"
proof (induction n arbitrary: a s)
  case (Suc n)
  let ?w = "device s (reads s) 0x1F0"
  let ?s = "(snd (inw 0x1F0 s))\<lparr>ram := st16 (ram s) a ?w\<rparr>"
  obtain ws where ws: "length ws = n" "data_words (trace (read_words n (a + 2) ?s)) = data_words (trace ?s) @ ws"
    "ram (read_words n (a + 2) ?s) = put_bytes (ram ?s) (a + 2) (words_bytes ws)"
    "device (read_words n (a + 2) ?s) = device ?s"
    using Suc.IH by blast
  have r: "read_words (Suc n) a s = read_words n (a + 2) ?s" by (simp add: inw_def Let_def emit_def)
  show ?case
    unfolding r using ws
    by (intro exI [of _ "?w # ws"]) (simp add: inw_def Let_def emit_def words_bytes_def st16_def add.commute [of a])
qed (simp add: words_bytes_def)

definition disk_answers :: "machine \<Rightarrow> bool" where
  "disk_answers s \<longleftrightarrow> (\<forall>k. \<exists>j\<ge>k. (ucast (device s j 0x1F7) :: u8) AND 0x88 = 0x8)"

lemma disk_wait_spec:
  assumes "disk_answers s"
  shows "\<exists>s'. disk_wait s = Some s' \<and> ram s' = ram s \<and> device s' = device s
    \<and> data_words (trace s') = data_words (trace s)"
proof -
  obtain j where "j \<ge> reads s" "(ucast (device s j 0x1F7) :: u8) AND 0x88 = 0x8"
    using assms by (auto simp: disk_answers_def)
  then show ?thesis
  proof (induction "j - reads s" arbitrary: s)
    case 0
    then have "reads s = j" by simp
    with 0 show ?case by (subst disk_wait.simps) (simp add: inb_def Let_def emit_def)
  next
    case (Suc n)
    let ?s = "snd (inb 0x1F7 s)"
    have "n = j - reads ?s" "reads ?s \<le> j" "device ?s = device s"
      using Suc(2,3) by (simp_all add: inb_def Let_def emit_def)
    from Suc(1) [OF this(1,2)] Suc(4) this(3) obtain s' where s': "disk_wait ?s = Some s'" "ram s' = ram ?s"
      "device s' = device ?s" "data_words (trace s') = data_words (trace ?s)" by auto
    then have s'': "ram s' = ram s" "device s' = device s" "data_words (trace s') = data_words (trace s)"
      by (simp_all add: inb_def Let_def emit_def)
    show ?case
    proof (cases "(ucast (device s (reads s) 0x1F7) :: u8) AND 0x88 = 0x8")
      case True
      then show ?thesis by (subst disk_wait.simps) (simp add: inb_def Let_def emit_def)
    next
      case False
      then have "disk_wait s = disk_wait ?s" by (subst disk_wait.simps) (simp add: inb_def Let_def)
      with s'(1) s'' show ?thesis by simp
    qed
  qed
qed

lemma read_sectors_spec:
  "disk_answers s \<Longrightarrow> \<exists>s' ws. read_sectors n a s = Some s' \<and> length ws = 256 * n
     \<and> data_words (trace s') = data_words (trace s) @ ws \<and> ram s' = put_bytes (ram s) a (words_bytes ws)"
proof (induction n arbitrary: a s)
  case (Suc n)
  obtain s1 where s1: "disk_wait s = Some s1" "ram s1 = ram s" "device s1 = device s"
    "data_words (trace s1) = data_words (trace s)" using disk_wait_spec [OF Suc.prems] by blast
  let ?s2 = "read_words 256 a s1"
  obtain ws where ws: "length ws = 256" "data_words (trace ?s2) = data_words (trace s1) @ ws"
    "ram ?s2 = put_bytes (ram s1) a (words_bytes ws)" "device ?s2 = device s1"
    using read_words_spec by blast
  have "disk_answers ?s2" using Suc.prems ws(4) s1(3) by (simp add: disk_answers_def)
  from Suc.IH [OF this, of "a + 512"] obtain s' vs where "read_sectors n (a + 512) ?s2 = Some s'"
    "length vs = 256 * n" "data_words (trace s') = data_words (trace ?s2) @ vs"
    "ram s' = put_bytes (ram ?s2) (a + 512) (words_bytes vs)" by blast
  with s1 ws show ?case
    by (intro exI [of _ s'] exI [of _ "ws @ vs"]) (simp add: SECTOR_SIZE_def put_bytes_append)
qed (simp add: words_bytes_def)

text \<open>Reading the disk changes memory and the port traffic, no register.\<close>

definition registers :: "machine \<Rightarrow> u32 list \<times> (u32 \<times> u16) list" where
  "registers s = ([eflags s, cr0 s, cr3 s, cr4 s, tr s], [gdtr s, idtr s])"

lemma io_registers [simp]:
  "registers (snd (inb p s)) = registers s" "registers (snd (inw p s)) = registers s" "registers (outb p d s) = registers s"
  "registers (s\<lparr>ram := m\<rparr>) = registers s"
  by (simp_all add: registers_def inb_def inw_def outb_def Let_def emit_def)

lemma disk_wait_registers: "disk_wait s = Some s' \<Longrightarrow> registers s' = registers s"
proof (induction rule: disk_wait.raw_induct [rotated, consumes 1])
  case (1 f s s')
  have "registers (snd (inb 0x1F7 s)) = registers s" by simp
  then show ?case using 1 by (auto simp: split_beta simp del: io_registers split: if_splits)
qed

lemma read_words_registers [simp]: "registers (read_words n a s) = registers s"
  by (induction n arbitrary: a s) (simp_all add: split_beta)

lemma read_sectors_registers: "read_sectors n a s = Some s' \<Longrightarrow> registers s' = registers s"
proof (induction n arbitrary: a s)
  case (Suc n)
  then obtain s1 where s1: "disk_wait s = Some s1" "read_sectors n (a + of_nat SECTOR_SIZE) (read_words (SECTOR_SIZE div 2) a s1) = Some s'"
    by (auto simp: bind_eq_Some_conv)
  then show ?case using disk_wait_registers [OF s1(1)] Suc.IH [OF s1(2)] by simp
qed simp

lemma load2mem_registers: "load2mem sector count buf s = Some s' \<Longrightarrow> registers s' = registers s"
  unfolding load2mem_def by (drule read_sectors_registers) (simp add: disk_command_def Let_def)

lemma load2mem_spec:
  assumes "disk_answers s"
  shows "\<exists>s' ws. load2mem sector sector_count buf s = Some s' \<and> length ws = 256 * unat sector_count
    \<and> data_words (trace s') = data_words (trace s) @ ws
    \<and> bytes_at (ram s') buf (words_bytes ws)
    \<and> same_outside (region buf (512 * unat sector_count)) (ram s) (ram s')"
proof -
  let ?c = "disk_command sector sector_count s"
  have c: "ram ?c = ram s" "device ?c = device s" "data_words (trace ?c) = data_words (trace s)"
    by (simp_all add: disk_command_def Let_def outb_def emit_def)
  have "disk_answers ?c" using assms c(2) by (simp add: disk_answers_def)
  from read_sectors_spec [OF this, of "unat sector_count" buf] obtain s' ws where r:
    "read_sectors (unat sector_count) buf ?c = Some s'" "length ws = 256 * unat sector_count"
    "data_words (trace s') = data_words (trace ?c) @ ws" "ram s' = put_bytes (ram ?c) buf (words_bytes ws)"
    by blast
  have "unat sector_count < 2 ^ 16" using unsigned_less [where 'a = nat, of sector_count] by simp
  then have "bytes_at (ram s') buf (words_bytes ws)" unfolding r(4) using r(2) by (intro bytes_at_put) simp
  moreover have "same_outside (region buf (512 * unat sector_count)) (ram s) (ram s')"
    unfolding same_outside_def r(4) using r(2) c(1) by (auto intro: put_bytes_other)
  ultimately show ?thesis using r(1-3) c(3) by (auto simp: load2mem_def)
qed

text \<open>
  on a disk that keeps becoming ready \<open>load2mem\<close> returns; the buffer then holds, byte
  for byte and in order, the words the disk delivered, 512 bytes for each sector asked for, and
  no other memory has changed.
\<close>

theorem load2mem_reads:
  assumes "disk_answers s"
  shows "\<exists>s' ws. load2mem sector sector_count buf s = Some s' \<and> length ws = 256 * unat sector_count
    \<and> data_words (trace s') = data_words (trace s) @ ws
    \<and> bytes_at (ram s') buf (words_bytes ws)
    \<and> same_outside (region buf (512 * unat sector_count)) (ram s) (ram s')"
  using assms by (rule load2mem_spec)

theorem load2mem_reads_witness:
  "\<exists>s' ws. load2mem 100 2 0x100000 (sample_machine\<lparr>device := \<lambda>j port. if port = 0x1F7 then 8 else of_nat j\<rparr>) = Some s'
     \<and> length ws = 512 \<and> bytes_at (ram s') 0x100000 (words_bytes ws)"
  using load2mem_reads [of "sample_machine\<lparr>device := \<lambda>j port. if port = 0x1F7 then 8 else of_nat j\<rparr>" 100 2 "0x100000"]
  by (auto simp: disk_answers_def)

section \<open>Where the ELF image ends up\<close>

lemma copy_segment_eq:
  "p_filesz m phdr = F \<Longrightarrow> word_bytes (phdr + 16) \<inter> region dest (unat F - unat j) = {}
     \<Longrightarrow> copy_segment m phdr dest src j = kmemcpy_loop m dest src (unat F - unat j)"
proof (induction "unat F - unat j" arbitrary: m dest src j)
  case 0
  then have "\<not> j < F" by (simp add: word_less_nat_alt)
  with 0 show ?case by (subst copy_segment.simps) simp
next
  case (Suc n)
  have j: "j < F" using Suc(2) by (simp add: word_less_nat_alt)
  have "unat j + 1 < 2 ^ 32" using Suc(2) unsigned_less [where 'a = nat, of F] by simp
  then have j1: "unat (j + 1) = unat j + 1" by (simp add: unat_word_ariths)
  have n: "n = unat F - unat (j + 1)" using Suc(2) j1 by simp
  have r: "region dest (Suc n) = insert dest (region (dest + 1) n)" by (rule region_Suc)
  have d: "dest \<notin> word_bytes (phdr + 16)" "word_bytes (phdr + 16) \<inter> region (dest + 1) n = {}"
    using Suc(4) Suc(2) r by auto
  have "p_filesz (m(dest := m src)) phdr = F" using Suc(3) d(1) by (simp add: p_filesz_def ld32_upd_other)
  from Suc(1) [OF n this, of "dest + 1" "src + 1"] d(2) n show ?case
    using j Suc(3) Suc(2) [symmetric] by (subst copy_segment.simps) simp
qed

lemma clear_segment_eq:
  "p_memsz m phdr - p_filesz m phdr = D
     \<Longrightarrow> (word_bytes (phdr + 16) \<union> word_bytes (phdr + 20)) \<inter> region dest (unat D - unat j) = {}
     \<Longrightarrow> clear_segment m phdr dest j = kmemset_loop m dest 0 (unat D - unat j)"
proof (induction "unat D - unat j" arbitrary: m dest j)
  case 0
  then have "\<not> j < D" by (simp add: word_less_nat_alt)
  with 0 show ?case by (subst clear_segment.simps) simp
next
  case (Suc n)
  have j: "j < D" using Suc(2) by (simp add: word_less_nat_alt)
  have "unat j + 1 < 2 ^ 32" using Suc(2) unsigned_less [where 'a = nat, of D] by simp
  then have j1: "unat (j + 1) = unat j + 1" by (simp add: unat_word_ariths)
  have n: "n = unat D - unat (j + 1)" using Suc(2) j1 by simp
  have r: "region dest (Suc n) = insert dest (region (dest + 1) n)" by (rule region_Suc)
  have d: "dest \<notin> word_bytes (phdr + 16)" "dest \<notin> word_bytes (phdr + 20)"
    "(word_bytes (phdr + 16) \<union> word_bytes (phdr + 20)) \<inter> region (dest + 1) n = {}"
    using Suc(4) Suc(2) r by auto
  have "p_memsz (m(dest := 0)) phdr - p_filesz (m(dest := 0)) phdr = D"
    using Suc(3) d(1,2) by (simp add: p_filesz_def p_memsz_def ld32_upd_other)
  from Suc(1) [OF n this, of "dest + 1"] d(3) n show ?case
    using j Suc(3) Suc(2) [symmetric] by (subst clear_segment.simps) simp
qed

text \<open>One loadable segment: its file bytes, then zeros; nothing else changes.\<close>

lemma load_segment_spec:
  assumes "p_type m phdr = PT_LOAD" "unat (p_filesz m phdr) \<le> unat (p_memsz m phdr)"
    and "region phdr 32 \<inter> region (p_paddr m phdr) (unat (p_memsz m phdr)) = {}"
    and "region (f + p_offset m phdr) (unat (p_filesz m phdr)) \<inter> region (p_paddr m phdr) (unat (p_memsz m phdr)) = {}"
  defines "m' \<equiv> load_segment m f phdr"
  shows "i < unat (p_filesz m phdr) \<Longrightarrow> m' (p_paddr m phdr + of_nat i) = m (f + p_offset m phdr + of_nat i)"
    and "unat (p_filesz m phdr) \<le> i \<Longrightarrow> i < unat (p_memsz m phdr) \<Longrightarrow> m' (p_paddr m phdr + of_nat i) = 0"
    and "same_outside (region (p_paddr m phdr) (unat (p_memsz m phdr))) m m'"
proof -
  let ?P = "p_paddr m phdr" and ?F = "p_filesz m phdr" and ?M = "p_memsz m phdr"
  let ?src = "f + p_offset m phdr"
  have lt: "unat ?F < 2 ^ 32" "unat ?M < 2 ^ 32"
    using unsigned_less [where 'a = nat, of ?F] unsigned_less [where 'a = nat, of ?M] by simp_all
  have parts: "region ?P (unat ?M) = region ?P (unat ?F) \<union> region (?P + ?F) (unat ?M - unat ?F)"
    using region_add [of ?P "unat ?F" "unat ?M - unat ?F"] assms(2) by simp
  have sep: "region ?P (unat ?F) \<inter> region (?P + ?F) (unat ?M - unat ?F) = {}"
    using region_add_disjoint [of "unat ?F" "unat ?M - unat ?F" ?P] assms(2) lt by simp
  have fields: "word_bytes (phdr + 12) \<subseteq> region phdr 32" "word_bytes (phdr + 16) \<subseteq> region phdr 32"
    "word_bytes (phdr + 20) \<subseteq> region phdr 32"
    using word_in_region [of 12 32 _ phdr] word_in_region [of 16 32 _ phdr] word_in_region [of 20 32 _ phdr] by auto
  let ?m1 = "kmemcpy_loop m ?P ?src (unat ?F)"
  have c: "copy_segment m phdr ?P ?src 0 = ?m1"
    using copy_segment_eq [of m phdr ?F ?P 0 ?src] fields assms(3) parts by auto
  have hdr: "?m1 x = m x" if "x \<in> region phdr 32" for x
    using that assms(3) parts by (intro kmemcpy_loop_other) blast
  have same: "p_paddr ?m1 phdr = ?P" "p_filesz ?m1 phdr = ?F" "p_memsz ?m1 phdr = ?M"
    using hdr fields unfolding elf_fields by (auto intro!: ld32_cong)
  have D: "unat (?M - ?F) = unat ?M - unat ?F" using assms(2) by (simp add: unat_sub word_le_nat_alt)
  let ?m2 = "kmemset_loop ?m1 (?P + ?F) 0 (unat ?M - unat ?F)"
  have z: "clear_segment ?m1 phdr (?P + ?F) 0 = ?m2"
    using clear_segment_eq [of ?m1 phdr "?M - ?F" "?P + ?F" 0] fields assms(3) parts same D by auto
  have m': "m' = ?m2" using assms(1) by (simp add: m'_def load_segment_def Let_def c same z)
  have in1: "?P + of_nat i \<in> region ?P (unat ?F)" if "i < unat ?F" for i using that by (auto simp: region_def)
  show "m' (?P + of_nat i) = m (?src + of_nat i)" if i: "i < unat ?F"
  proof -
    have "?P + of_nat i \<notin> region (?P + ?F) (unat ?M - unat ?F)" using in1 [OF i] sep by blast
    moreover have "region ?P (unat ?F) \<inter> region ?src (unat ?F) = {}" using assms(4) parts by blast
    ultimately show ?thesis
      unfolding m' using i lt by (simp add: kmemset_loop_eq kmemcpy_loop_copy)
  qed
  show "m' (?P + of_nat i) = 0" if i: "unat ?F \<le> i" "i < unat ?M"
  proof -
    have "?P + ?F + of_nat (i - unat ?F) \<in> region (?P + ?F) (unat ?M - unat ?F)"
      using i unfolding region_def by (intro imageI) simp
    moreover have "?P + of_nat i = ?P + ?F + of_nat (i - unat ?F)" using i(1) by simp
    ultimately have "?P + of_nat i \<in> region (?P + ?F) (unat ?M - unat ?F)" by (simp only:)
    then show ?thesis by (simp add: m' kmemset_loop_eq)
  qed
  show "same_outside (region ?P (unat ?M)) m m'"
    unfolding same_outside_def parts m' by (simp add: kmemset_loop_eq kmemcpy_loop_other)
qed

definition elf_phdr :: "mem \<Rightarrow> u32 \<Rightarrow> nat \<Rightarrow> u32" where
  "elf_phdr m f i = f + e_phoff m f + of_nat (32 * i)"

text \<open>The memory the segment of program header \<open>i\<close> is to occupy, and the bytes it comes from.\<close>

definition seg_dest :: "mem \<Rightarrow> u32 \<Rightarrow> nat \<Rightarrow> u32 set" where
  "seg_dest m f i = (if p_type m (elf_phdr m f i) = PT_LOAD
     then region (p_paddr m (elf_phdr m f i)) (unat (p_memsz m (elf_phdr m f i))) else {})"

definition seg_src :: "mem \<Rightarrow> u32 \<Rightarrow> nat \<Rightarrow> u32 set" where
  "seg_src m f i = region (f + p_offset m (elf_phdr m f i)) (unat (p_filesz m (elf_phdr m f i)))"

text \<open>
  A well-formed image at \<open>f\<close>: the headers and the bytes of the loadable segments lie outside
  every place a segment goes to, no two segments overlap, and none is longer in the file than
  in memory.
\<close>

definition elf_image :: "mem \<Rightarrow> u32 \<Rightarrow> nat \<Rightarrow> bool" where
  "elf_image m f n \<longleftrightarrow> unat (e_phnum m f) = n
     \<and> (\<forall>i<n. region f 52 \<inter> seg_dest m f i = {}
          \<and> (p_type m (elf_phdr m f i) = PT_LOAD \<longrightarrow>
              unat (p_filesz m (elf_phdr m f i)) \<le> unat (p_memsz m (elf_phdr m f i)))
          \<and> (\<forall>k<n. region (elf_phdr m f k) 32 \<inter> seg_dest m f i = {}
               \<and> (p_type m (elf_phdr m f k) = PT_LOAD \<longrightarrow> seg_src m f k \<inter> seg_dest m f i = {})
               \<and> (k \<noteq> i \<longrightarrow> seg_dest m f k \<inter> seg_dest m f i = {})))"

text \<open>What memory holds for segment \<open>i\<close> once it is placed.\<close>

definition seg_placed :: "mem \<Rightarrow> mem \<Rightarrow> u32 \<Rightarrow> nat \<Rightarrow> bool" where
  "seg_placed m m' f i \<longleftrightarrow> (let p = elf_phdr m f i in p_type m p = PT_LOAD \<longrightarrow>
     (\<forall>j<unat (p_memsz m p). m' (p_paddr m p + of_nat j)
        = (if j < unat (p_filesz m p) then m (f + p_offset m p + of_nat j) else 0)))"

lemma ehdr_cong:
  assumes "\<And>x. x \<in> region f 52 \<Longrightarrow> m' x = m x"
  shows "e_entry m' f = e_entry m f" "e_phoff m' f = e_phoff m f" "e_phnum m' f = e_phnum m f"
proof -
  show "e_entry m' f = e_entry m f"
    unfolding e_entry_def by (rule ld32_cong) (use word_in_region [of 24 52 _ f] assms in auto)
  show "e_phoff m' f = e_phoff m f"
    unfolding e_phoff_def by (rule ld32_cong) (use word_in_region [of 28 52 _ f] assms in auto)
  have "f + 44 \<in> region f 52" "f + 44 + 1 \<in> region f 52"
    using word_in_region [of 44 52 _ f] by (simp_all add: word_bytes_def)
  then show "e_phnum m' f = e_phnum m f" using assms by (simp add: e_phnum_def ld16_def)
qed

lemma phdr_cong:
  assumes "\<And>x. x \<in> region p 32 \<Longrightarrow> m' x = m x"
  shows "p_type m' p = p_type m p" "p_offset m' p = p_offset m p" "p_paddr m' p = p_paddr m p"
    "p_filesz m' p = p_filesz m p" "p_memsz m' p = p_memsz m p"
proof -
  have w: "word_bytes (p + of_nat k) \<subseteq> region p 32" if "k + 4 \<le> 32" for k
    using word_in_region [OF that] by blast
  show "p_type m' p = p_type m p" "p_offset m' p = p_offset m p" "p_paddr m' p = p_paddr m p"
    "p_filesz m' p = p_filesz m p" "p_memsz m' p = p_memsz m p"
    unfolding elf_fields
    by (rule ld32_cong; use w [of 0] w [of 4] w [of 12] w [of 16] w [of 20] assms in auto)+
qed

lemma load_segments_step:
  assumes img: "elf_image m f n" and i: "i < n"
    and same: "same_outside (\<Union>k<i. seg_dest m f k) m mi" and placed: "\<forall>k<i. seg_placed m mi f k"
  shows "same_outside (\<Union>k<Suc i. seg_dest m f k) m (load_segment mi f (elf_phdr m f i))
    \<and> (\<forall>k<Suc i. seg_placed m (load_segment mi f (elf_phdr m f i)) f k)"
proof -
  let ?p = "elf_phdr m f i" let ?m = "load_segment mi f ?p"
  have im: "unat (p_filesz m ?p) \<le> unat (p_memsz m ?p)" if "p_type m ?p = PT_LOAD"
    using img i that by (simp add: elf_image_def)
  have dj: "region ?p 32 \<inter> seg_dest m f k = {}" "p_type m ?p = PT_LOAD \<Longrightarrow> seg_src m f i \<inter> seg_dest m f k = {}"
    "k \<noteq> i \<Longrightarrow> seg_dest m f i \<inter> seg_dest m f k = {}" if "k < n" for k
    using img i that by (auto simp: elf_image_def)
  have keep: "mi x = m x" if "\<And>k. k < i \<Longrightarrow> x \<notin> seg_dest m f k" for x
    using same that by (auto simp: same_outside_def)
  have "mi x = m x" if "x \<in> region ?p 32" for x using dj(1) that i by (intro keep) (meson disjoint_iff less_trans)
  then have h: "p_type mi ?p = p_type m ?p" "p_offset mi ?p = p_offset m ?p" "p_paddr mi ?p = p_paddr m ?p"
    "p_filesz mi ?p = p_filesz m ?p" "p_memsz mi ?p = p_memsz m ?p"
    using phdr_cong [of ?p mi m] by blast+
  show ?thesis
  proof (cases "p_type m ?p = PT_LOAD")
    case False
    then have "?m = mi" "seg_placed m mi f i" by (simp_all add: load_segment_def h seg_placed_def Let_def)
    then show ?thesis using same placed by (auto simp: same_outside_def less_Suc_eq)
  next
    case True
    have D: "seg_dest m f i = region (p_paddr m ?p) (unat (p_memsz m ?p))" using True by (simp add: seg_dest_def)
    note spec = load_segment_spec [of mi ?p f, unfolded h, OF True im [OF True]]
    have out: "same_outside (seg_dest m f i) mi ?m" using spec(3) dj(1) [OF i] dj(2) [OF i True] D by (simp add: seg_src_def)
    have src: "mi (f + p_offset m ?p + of_nat j) = m (f + p_offset m ?p + of_nat j)" if "j < unat (p_filesz m ?p)" for j
    proof (rule keep)
      fix k assume "k < i"
      then have "seg_src m f i \<inter> seg_dest m f k = {}" using dj(2) [OF _ True] i by simp
      moreover have "f + p_offset m ?p + of_nat j \<in> seg_src m f i" using that by (auto simp: seg_src_def region_def)
      ultimately show "f + p_offset m ?p + of_nat j \<notin> seg_dest m f k" by blast
    qed
    have "seg_placed m ?m f i"
      unfolding seg_placed_def Let_def
      using spec(1,2) src dj(1) [OF i] dj(2) [OF i True] D by (simp add: seg_src_def)
    moreover have "seg_placed m ?m f k" if k: "k < i" for k
    proof -
      have "?m x = mi x" if "x \<in> seg_dest m f k" for x
        using out dj(3) [of k] k i that by (auto simp: same_outside_def)
      moreover have "p_paddr m (elf_phdr m f k) + of_nat j \<in> seg_dest m f k"
        if "p_type m (elf_phdr m f k) = PT_LOAD" "j < unat (p_memsz m (elf_phdr m f k))" for j
        using that by (auto simp: seg_dest_def region_def)
      ultimately show ?thesis using placed k by (simp add: seg_placed_def Let_def)
    qed
    ultimately have "\<forall>k<Suc i. seg_placed m ?m f k" by (auto simp: less_Suc_eq)
    moreover have "same_outside (\<Union>k<Suc i. seg_dest m f k) m ?m"
      using same out by (auto simp: same_outside_def less_Suc_eq)
    ultimately show ?thesis by blast
  qed
qed

lemma elf_image_keeps_header:
  assumes "elf_image m f n" and "same_outside (\<Union>k<i. seg_dest m f k) m mi" and "i \<le> n" and "x \<in> region f 52"
  shows "mi x = m x"
proof -
  have "x \<notin> seg_dest m f k" if "k < i" for k
  proof -
    have "region f 52 \<inter> seg_dest m f k = {}" using assms(1,3) that by (simp add: elf_image_def)
    then show ?thesis using assms(4) by blast
  qed
  then show ?thesis using assms(2) by (simp add: same_outside_def)
qed

lemma load_segments_spec:
  assumes img: "elf_image m f n"
  shows "i \<le> n \<Longrightarrow> same_outside (\<Union>k<i. seg_dest m f k) m mi \<Longrightarrow> \<forall>k<i. seg_placed m mi f k
    \<Longrightarrow> same_outside (\<Union>k<n. seg_dest m f k) m (load_segments mi f i)
      \<and> (\<forall>k<n. seg_placed m (load_segments mi f i) f k)"
proof (induction "n - i" arbitrary: i mi)
  case (0 i mi)
  then have i: "i = n" by simp
  have "mi x = m x" if "x \<in> region f 52" for x
    using elf_image_keeps_header [OF img 0(3) 0(2) that] .
  then have "e_phnum mi f = e_phnum m f" by (rule ehdr_cong(3))
  then have "load_segments mi f i = mi" using img i by (subst load_segments.simps) (simp add: elf_image_def)
  with 0 i show ?case by simp
next
  case (Suc d)
  then have i: "i < n" by simp
  have "mi x = m x" if "x \<in> region f 52" for x
    using elf_image_keeps_header [OF img Suc(4) Suc(3) that] .
  then have h: "e_phoff mi f = e_phoff m f" "e_phnum mi f = e_phnum m f" 
    using ehdr_cong [of f mi m] by blast+
  have "load_segments mi f i = load_segments (load_segment mi f (elf_phdr m f i)) f (Suc i)"
    using img i by (subst load_segments.simps) (simp add: elf_image_def h elf_phdr_def)
  moreover note load_segments_step [OF img i Suc(4,5)]
  ultimately show ?case using Suc(1) [of "Suc i"] Suc(2) i by simp
qed

lemma read_elf_spec:
  assumes "magic_ok m f" and "elf_image m f n"
  shows "\<exists>m'. read_elf m f = (m', e_entry m f) \<and> (\<forall>i<n. seg_placed m m' f i)
    \<and> same_outside (\<Union>i<n. seg_dest m f i) m m'"
proof -
  let ?m = "load_segments m f 0"
  have s: "same_outside (\<Union>i<n. seg_dest m f i) m ?m \<and> (\<forall>i<n. seg_placed m ?m f i)"
    by (rule load_segments_spec [OF assms(2)]) simp_all
  then have "?m x = m x" if "x \<in> region f 52" for x
    using elf_image_keeps_header [OF assms(2) _ order_refl that] by blast
  then have "e_entry ?m f = e_entry m f" by (rule ehdr_cong(1))
  with s assms(1) show ?thesis by (simp add: read_elf_def Let_def)
qed

text \<open>
  C10: for a well-formed image \<open>read_elf\<close> returns the entry point of its header and leaves in
  memory, for every loadable segment, its bytes of the file followed by zeros up to its size in
  memory; no other byte changes, so the image itself is intact.
\<close>

theorem read_elf_places:
  assumes "magic_ok m f" and "elf_image m f n"
  shows "\<exists>m'. read_elf m f = (m', e_entry m f) \<and> (\<forall>i<n. seg_placed m m' f i)
    \<and> same_outside (\<Union>i<n. seg_dest m f i) m m'"
  using assms by (rule read_elf_spec)

text \<open>A small image: one segment of four bytes that takes eight, at 0x2000.\<close>

definition sample_elf :: mem where
  "sample_elf = (\<lambda>_. 0)(0x1000 := 0x7F, 0x1001 := 0x45, 0x1002 := 0x4C, 0x1003 := 0x46, 0x1019 := 0x20,
     0x101C := 52, 0x102C := 1, 0x1034 := 1, 0x1038 := 84, 0x1041 := 0x20, 0x1044 := 4, 0x1048 := 8,
     0x1054 := 9, 0x1055 := 8, 0x1056 := 7, 0x1057 := 6)"

lemma sample_elf_fields:
  "elf_phdr sample_elf 0x1000 0 = 0x1034" "e_phnum sample_elf 0x1000 = 1" "magic_ok sample_elf 0x1000"
  "p_type sample_elf 0x1034 = PT_LOAD" "p_offset sample_elf 0x1034 = 84" "p_paddr sample_elf 0x1034 = 0x2000"
  "p_filesz sample_elf 0x1034 = 4" "p_memsz sample_elf 0x1034 = 8" "e_entry sample_elf 0x1000 = 0x2000"
  by (simp_all add: elf_phdr_def elf_fields magic_ok_def sample_elf_def ld32_def ld16_def PT_LOAD_def)

lemma sample_elf_image: "elf_image sample_elf 0x1000 1"
proof -
  have "region 0x1000 52 \<inter> region 0x2000 8 = {}" "region 0x1034 32 \<inter> region 0x2000 8 = {}"
    "region 0x1054 4 \<inter> region 0x2000 8 = {}"
    by (simp_all add: region_before(1))
  then show ?thesis by (simp add: elf_image_def seg_dest_def seg_src_def sample_elf_fields)
qed

theorem read_elf_places_witness:
  "\<exists>m'. read_elf sample_elf 0x1000 = (m', 0x2000) \<and> m' 0x2001 = 8 \<and> m' 0x2005 = 0"
proof -
  obtain m' where m': "read_elf sample_elf 0x1000 = (m', 0x2000)" "seg_placed sample_elf m' 0x1000 0"
    using read_elf_places [OF sample_elf_fields(3) sample_elf_image] by (auto simp: sample_elf_fields)
  then have p: "\<forall>j<8. m' (0x2000 + of_nat j) = (if j < 4 then sample_elf (0x1054 + of_nat j) else 0)"
    by (simp add: seg_placed_def sample_elf_fields)
  have "m' 0x2001 = 8" "m' 0x2005 = 0"
    using p [rule_format, of 1] p [rule_format, of 5] by (simp_all add: sample_elf_def)
  with m'(1) show ?thesis by blast
qed

text \<open>
  without the magic number nothing is loaded and the result is 0, the address the second
  stage then calls the kernel at.
\<close>

theorem read_elf_bad_magic:
  assumes "disk_answers s"
  shows "\<exists>s1. load2mem 100 500 KERNEL_ENTRY s = Some s1
    \<and> (\<not> magic_ok (ram s1) KERNEL_ENTRY \<longrightarrow> loader32c_entry s = Some (s1, 0))"
proof -
  let ?c = "disk_command 100 500 s"
  have "disk_answers ?c"
    using assms by (simp add: disk_answers_def disk_command_def Let_def outb_def emit_def)
  then obtain s1 where "load2mem 100 500 KERNEL_ENTRY s = Some s1"
    using read_sectors_spec [of ?c "unat (500::u16)" KERNEL_ENTRY] by (auto simp: load2mem_def)
  then show ?thesis by (auto simp: loader32c_entry_def read_elf_def)
qed

theorem read_elf_bad_magic_witness:
  "\<exists>s1. load2mem 100 500 KERNEL_ENTRY (sample_machine\<lparr>device := \<lambda>j port. 8\<rparr>) = Some s1"
  using read_elf_bad_magic [of "sample_machine\<lparr>device := \<lambda>j port. 8\<rparr>"] by (auto simp: disk_answers_def)

end
