(* ===== verification/Task_Old.thy ===== *)
theory Task_Old
  imports Entry PageTable Task
begin

text \<open>
  The first scheduler of the kernel, \<open>source/kernel/task_old/task_old.c\<close>: kernel threads that
  switch stacks and processes that switch contexts, each with a first-in first-out ready
  queue.  The directory is no longer called from \<open>main\<close> but is still in the tree.
  Control blocks, managers and contexts live in memory at the offsets of their structures;
  functions that change stacks or contexts work on the registers too.
\<close>

unbundle bit_operations_syntax

section \<open>Data\<close>

text \<open>
  The global variables: \<open>thread_manager\<close>, \<open>proc_manager\<close>, \<open>tss\<close>, \<open>gdt_table\<close>, \<open>kernel_table\<close>,
  the allocator, the counter of \<open>alloc_pid\<close>, the address of \<open>kthread\<close> and of the string
  literal in \<open>task_init\<close>, and the \<open>task_manager\<close> of the task-state scheduler.
\<close>

record old_env =
  thread_manager :: u32
  proc_manager :: u32
  tss_var :: u32
  old_gdt :: u32
  kernel_table :: u32
  pages :: addr_alloc_t
  global_pid :: u32
  kthread_code :: u32
  main_proc_name :: u32
  task_manage :: u32

definition TASK_TICKS_DEFAULT :: c_int where "TASK_TICKS_DEFAULT = 5"
definition TASK_DEFAULF_PRIO :: c_int where "TASK_DEFAULF_PRIO = 31"
definition TASK_STACK_MAGIC :: u32 where "TASK_STACK_MAGIC = 0x19870916"
definition KERNEL_PROC :: u8 where "KERNEL_PROC = 0"
definition USER_PROC :: u8 where "USER_PROC = 1"
definition THREAD_FIFO :: nat where "THREAD_FIFO = 0"
definition SCHEDULE_SECTIONS :: nat where "SCHEDULE_SECTIONS = THREAD_FIFO"
definition ELFAGS_MBS :: u32 where "ELFAGS_MBS = push_bit 1 1"
definition SAVED_CONTEXT :: u32 where "SAVED_CONTEXT = 0"
definition UNSAVED_CONTEXT :: u32 where "UNSAVED_CONTEXT = 1"

text \<open>\<open>thread_stack\<close>, 32 bytes, and the registers of \<open>context_t\<close>, 72 bytes.\<close>

definition ts_ebp :: "u32 \<Rightarrow> u32" where "ts_ebp a = a"
definition ts_ebx :: "u32 \<Rightarrow> u32" where "ts_ebx a = a + 4"
definition ts_edi :: "u32 \<Rightarrow> u32" where "ts_edi a = a + 8"
definition ts_esi :: "u32 \<Rightarrow> u32" where "ts_esi a = a + 12"
definition ts_eip :: "u32 \<Rightarrow> u32" where "ts_eip a = a + 16"
definition ts_function :: "u32 \<Rightarrow> u32" where "ts_function a = a + 24"
definition ts_args :: "u32 \<Rightarrow> u32" where "ts_args a = a + 28"

definition sizeof_thread_stack :: u32 where "sizeof_thread_stack = 32"
definition sizeof_intr_stack :: u32 where "sizeof_intr_stack = 72"

datatype ctx_reg = C_vec_no | C_edi | C_esi | C_ebp | C_esp_dummy | C_ebx | C_edx | C_ecx | C_eax
  | C_gs | C_fs | C_es | C_ds | C_eip | C_cs | C_eflags | C_esp | C_ss

fun ctx_offset :: "ctx_reg \<Rightarrow> u32" where
  "ctx_offset C_vec_no = 0" | "ctx_offset C_edi = 4" | "ctx_offset C_esi = 8" | "ctx_offset C_ebp = 12"
| "ctx_offset C_esp_dummy = 16" | "ctx_offset C_ebx = 20" | "ctx_offset C_edx = 24" | "ctx_offset C_ecx = 28"
| "ctx_offset C_eax = 32" | "ctx_offset C_gs = 36" | "ctx_offset C_fs = 40" | "ctx_offset C_es = 44"
| "ctx_offset C_ds = 48" | "ctx_offset C_eip = 52" | "ctx_offset C_cs = 56" | "ctx_offset C_eflags = 60"
| "ctx_offset C_esp = 64" | "ctx_offset C_ss = 68"

text \<open>\<open>thread_pcb_t\<close>, 56 bytes.\<close>

definition th_kstack :: "u32 \<Rightarrow> u32" where "th_kstack p = p"
definition th_name :: "u32 \<Rightarrow> u32" where "th_name p = p + 4"
definition th_priority :: "u32 \<Rightarrow> u32" where "th_priority p = p + 24"
definition th_status :: "u32 \<Rightarrow> u32" where "th_status p = p + 28"
definition th_stack_magic :: "u32 \<Rightarrow> u32" where "th_stack_magic p = p + 32"
definition th_ticks :: "u32 \<Rightarrow> u32" where "th_ticks p = p + 36"
definition th_state_node :: "u32 \<Rightarrow> u32" where "th_state_node p = p + 40"
definition th_general_node :: "u32 \<Rightarrow> u32" where "th_general_node p = p + 48"

text \<open>\<open>proc_pcb_t\<close>, 92 bytes.\<close>

definition pr_pid :: "u32 \<Rightarrow> u32" where "pr_pid p = p"
definition pr_kstack :: "u32 \<Rightarrow> u32" where "pr_kstack p = p + 4"
definition pr_name :: "u32 \<Rightarrow> u32" where "pr_name p = p + 8"
definition pr_filename :: "u32 \<Rightarrow> u32" where "pr_filename p = p + 28"
definition pr_priority :: "u32 \<Rightarrow> u32" where "pr_priority p = p + 32"
definition pr_status :: "u32 \<Rightarrow> u32" where "pr_status p = p + 36"
definition pr_stack_magic :: "u32 \<Rightarrow> u32" where "pr_stack_magic p = p + 40"
definition pr_ticks :: "u32 \<Rightarrow> u32" where "pr_ticks p = p + 44"
definition pr_parent :: "u32 \<Rightarrow> u32" where "pr_parent p = p + 48"
definition pr_ifkernel :: "u32 \<Rightarrow> u32" where "pr_ifkernel p = p + 52"
definition pr_ifsaved :: "u32 \<Rightarrow> u32" where "pr_ifsaved p = p + 56"
definition pr_state_node :: "u32 \<Rightarrow> u32" where "pr_state_node p = p + 60"
definition pr_general_node :: "u32 \<Rightarrow> u32" where "pr_general_node p = p + 68"
definition pr_thread_table :: "u32 \<Rightarrow> u32" where "pr_thread_table p = p + 76"
definition pr_context :: "u32 \<Rightarrow> u32" where "pr_context p = p + 80"
definition pr_pgdir :: "u32 \<Rightarrow> u32" where "pr_pgdir p = p + 84"
definition sizeof_proc_pcb :: u32 where "sizeof_proc_pcb = 92"

text \<open>\<open>thread_manager_t\<close> and \<open>proc_manager_t\<close>.\<close>

definition th_cur :: "old_env \<Rightarrow> u32" where "th_cur e = thread_manager e"
definition th_general_list :: "old_env \<Rightarrow> u32" where "th_general_list e = thread_manager e + 4"
definition th_ready_list :: "old_env \<Rightarrow> u32" where "th_ready_list e = thread_manager e + 24"
definition th_sleep_list :: "old_env \<Rightarrow> u32" where "th_sleep_list e = thread_manager e + 44"
definition th_main_thread :: "old_env \<Rightarrow> u32" where "th_main_thread e = thread_manager e + 64"
definition pr_cur :: "old_env \<Rightarrow> u32" where "pr_cur e = proc_manager e"
definition pr_general_list :: "old_env \<Rightarrow> u32" where "pr_general_list e = proc_manager e + 4"
definition pr_ready_list :: "old_env \<Rightarrow> u32" where "pr_ready_list e = proc_manager e + 24"
definition pr_sleep_list :: "old_env \<Rightarrow> u32" where "pr_sleep_list e = proc_manager e + 44"
definition pr_irq_state :: "old_env \<Rightarrow> u32" where "pr_irq_state e = proc_manager e + 64"

lemmas th_fields = th_kstack_def th_name_def th_priority_def th_status_def th_stack_magic_def th_ticks_def
  th_state_node_def th_general_node_def
lemmas pr_fields = pr_pid_def pr_kstack_def pr_name_def pr_filename_def pr_priority_def pr_status_def
  pr_stack_magic_def pr_ticks_def pr_parent_def pr_ifkernel_def pr_ifsaved_def pr_state_node_def
  pr_general_node_def pr_thread_table_def pr_context_def pr_pgdir_def
lemmas ts_fields = ts_ebp_def ts_ebx_def ts_edi_def ts_esi_def ts_eip_def ts_function_def ts_args_def
lemmas old_lists = th_cur_def th_general_list_def th_ready_list_def th_sleep_list_def th_main_thread_def
  pr_cur_def pr_general_list_def pr_ready_list_def pr_sleep_list_def pr_irq_state_def

text \<open>An \<open>irq_status\<close> stored in memory.\<close>

definition irq_status_of :: "u32 \<Rightarrow> irq_status" where
  "irq_status_of w = (if w = 0 then INTR_ON else INTR_OFF)"

definition set_ram :: "mem \<Rightarrow> cpu \<Rightarrow> cpu" where
  "set_ram m s = s\<lparr>core := (core s)\<lparr>ram := m\<rparr>\<rparr>"

section \<open>Queues\<close>

definition thread_set_general :: "old_env \<Rightarrow> mem \<Rightarrow> u32 \<Rightarrow> mem" where
  "thread_set_general e m pcb = klist_append m (th_general_list e) (th_general_node pcb)"

definition proc_set_general :: "old_env \<Rightarrow> mem \<Rightarrow> u32 \<Rightarrow> mem" where
  "proc_set_general e m pcb = klist_append m (pr_general_list e) (pr_general_node pcb)"

definition thread_push_ready :: "old_env \<Rightarrow> mem \<Rightarrow> u32 \<Rightarrow> mem option" where
  "thread_push_ready e m pcb = map_option (\<lambda>(_, m).
     let m = st32 m (th_status pcb) (task_status_code TASK_READY)
     in klist_push m (th_ready_list e) (th_state_node pcb))
    (klist_remove m (th_ready_list e) (th_state_node pcb))"

definition thread_set_ready :: "old_env \<Rightarrow> mem \<Rightarrow> u32 \<Rightarrow> mem option" where
  "thread_set_ready e m pcb = map_option (\<lambda>(_, m).
     let m = st32 m (th_status pcb) (task_status_code TASK_READY)
     in klist_append m (th_ready_list e) (th_state_node pcb))
    (klist_remove m (th_ready_list e) (th_state_node pcb))"

definition proc_set_ready :: "old_env \<Rightarrow> mem \<Rightarrow> u32 \<Rightarrow> mem option" where
  "proc_set_ready e m pcb = map_option (\<lambda>(_, m).
     let m = st32 m (pr_status pcb) (task_status_code TASK_READY)
     in klist_append m (pr_ready_list e) (pr_state_node pcb))
    (klist_remove m (pr_ready_list e) (pr_state_node pcb))"

definition thread_set_sleep :: "old_env \<Rightarrow> mem \<Rightarrow> u32 \<Rightarrow> mem" where
  "thread_set_sleep e m pcb =
    (let m = st32 m (th_status pcb) (task_status_code TASK_SLEEP)
     in klist_append m (th_sleep_list e) (th_state_node pcb))"

definition cur_thread :: "old_env \<Rightarrow> mem \<Rightarrow> u32" where "cur_thread e m = ld32 m (th_cur e)"
definition cur_proc :: "old_env \<Rightarrow> mem \<Rightarrow> u32" where "cur_proc e m = ld32 m (pr_cur e)"
definition thread_get_manager :: "old_env \<Rightarrow> u32" where "thread_get_manager e = thread_manager e"

text \<open>The macro \<open>KLIST_STRUCT_ADDR\<close>, at the offset of a member.\<close>

definition struct_addr :: "u32 \<Rightarrow> u32 \<Rightarrow> u32" where
  "struct_addr node off = (if node \<noteq> 0 then node - off else 0)"

definition thread_FIFO :: "old_env \<Rightarrow> mem \<Rightarrow> u32" where
  "thread_FIFO e m =
    (let next_node = klist_get_first_node m (th_ready_list e) in struct_addr next_node (th_state_node 0))"

definition proc_FIFO :: "old_env \<Rightarrow> mem \<Rightarrow> u32" where
  "proc_FIFO e m =
    (let next_node = klist_get_first_node m (pr_ready_list e) in struct_addr next_node (pr_state_node 0))"

definition thread_schedule :: "old_env \<Rightarrow> mem \<Rightarrow> u32" where
  "thread_schedule e m = (if SCHEDULE_SECTIONS = THREAD_FIFO then thread_FIFO e m else 0)"

definition proc_schedule :: "old_env \<Rightarrow> mem \<Rightarrow> u32" where
  "proc_schedule e m = (if SCHEDULE_SECTIONS = THREAD_FIFO then proc_FIFO e m else 0)"

section \<open>Threads\<close>

text \<open>A C call: the arguments from the last to the first, then the return address.\<close>

definition switch_thread_from_to :: "u32 \<Rightarrow> u32 \<Rightarrow> cpu \<Rightarrow> cpu" where
  "switch_thread_from_to from_task to_task s =
    simple_switch (push (eip s) (push (th_kstack from_task) (push (ld32 (cmem s) (th_kstack to_task)) s)))"

definition thread_dispatch :: "old_env \<Rightarrow> cpu \<Rightarrow> cpu" where
  "thread_dispatch e s =
    (let m = cmem s; cur = cur_thread e m; next = thread_schedule e m
     in if next \<noteq> cur \<and> ld32 m (th_status next) = task_status_code TASK_READY then
          let m = st32 m (th_cur e) next;
              m = st32 m (th_status next) (task_status_code TASK_RUNNING)
          in switch_thread_from_to cur next (set_ram m s)
        else if klist_len m (th_ready_list e) = 1 then s
        else s)"

definition thread_set_block :: "old_env \<Rightarrow> u32 \<Rightarrow> cpu \<Rightarrow> cpu" where
  "thread_set_block e pcb s =
    thread_dispatch e (set_ram (st32 (cmem s) (th_status pcb) (task_status_code TASK_BLOCKED)) s)"

definition thread_time_ticks :: "old_env \<Rightarrow> cpu \<Rightarrow> cpu option" where
  "thread_time_ticks e s =
    (let cur = cur_thread e (cmem s);
         m = st32 (cmem s) (th_ticks cur) (ld32 (cmem s) (th_ticks cur) - 1)
     in if sint (ld32 m (th_ticks cur)) \<le> 0 then
          map_option (\<lambda>m. thread_dispatch e (set_ram (st32 m (th_ticks cur) TASK_TICKS_DEFAULT) s))
            (thread_set_ready e m cur)
        else Some (set_ram m s))"

text \<open>The function runs the one it is given; \<open>run\<close> stands for the code at an address.\<close>

definition kthread :: "(u32 \<Rightarrow> u32 \<Rightarrow> 's \<Rightarrow> 's) \<Rightarrow> u32 \<Rightarrow> u32 \<Rightarrow> 's \<Rightarrow> 's" where
  "kthread run function args s = run function args s"

text \<open>\<open>sizeof(pthread)\<close> is the size of a pointer: four bytes are cleared.\<close>

definition kthread_init :: "mem \<Rightarrow> u32 \<Rightarrow> u32 \<Rightarrow> c_int \<Rightarrow> mem option" where
  "kthread_init m pthread name prio =
    map_option (\<lambda>m.
      let m = st32 m (th_status pthread) (task_status_code TASK_CREATED);
          m = st32 m (th_priority pthread) prio;
          m = st32 m (th_kstack pthread) (pthread + MEM_PAGE_SIZE)
      in st32 m (th_stack_magic pthread) TASK_STACK_MAGIC)
     (kstrcpy (kmemset m pthread 0 4) (th_name pthread) name)"

text \<open>The stack pointer points to words: taking off a size in bytes takes off four times as many.\<close>

definition kthread_create :: "old_env \<Rightarrow> mem \<Rightarrow> u32 \<Rightarrow> u32 \<Rightarrow> u32 \<Rightarrow> mem" where
  "kthread_create e m pthread func args =
    (let m = st32 m (th_kstack pthread) (ld32 m (th_kstack pthread) - 4 * sizeof_intr_stack);
         m = st32 m (th_kstack pthread) (ld32 m (th_kstack pthread) - 4 * sizeof_thread_stack);
         kthread_stack = ld32 m (th_kstack pthread);
         m = st32 m (ts_eip kthread_stack) (kthread_code e);
         m = st32 m (ts_function kthread_stack) func;
         m = st32 m (ts_args kthread_stack) args;
         m = st32 m (ts_edi kthread_stack) 0;
         m = st32 m (ts_esi kthread_stack) 0;
         m = st32 m (ts_ebx kthread_stack) 0
     in st32 m (ts_ebp kthread_stack) 0)"

definition thread_start :: "old_env \<Rightarrow> u32 \<Rightarrow> c_int \<Rightarrow> u32 \<Rightarrow> u32 \<Rightarrow> machine \<Rightarrow> (machine \<times> u32) option" where
  "thread_start e name prio func args s =
    (case irq_enter_protection s of (status, s) \<Rightarrow>
     case kalloc_pages (pages e) (ram s) 1 of (m, thread) \<Rightarrow>
      Option.bind (kthread_init m thread name prio) (\<lambda>m.
        let m = kthread_create e m thread func 0;
            m = st32 m (th_ticks thread) TASK_TICKS_DEFAULT;
            m = thread_set_general e m thread
        in map_option (\<lambda>m. (irq_leave_protection status (s\<lparr>ram := m\<rparr>), thread))
             (thread_set_ready e m thread)))"

definition main_thread_init :: "old_env \<Rightarrow> u32 \<Rightarrow> c_int \<Rightarrow> u32 \<Rightarrow> u32 \<Rightarrow> mem \<Rightarrow> mem option" where
  "main_thread_init e name prio func args m =
    (let t = th_main_thread e; m = st32 m (th_cur e) t
     in Option.bind (kthread_init m t name prio) (\<lambda>m.
          let m = kthread_create e m t func 0; m = thread_set_general e m t
          in map_option (\<lambda>m. st32 (st32 m (th_ticks t) TASK_TICKS_DEFAULT) (th_status t)
                 (task_status_code TASK_RUNNING))
               (thread_set_ready e m t)))"

section \<open>Processes\<close>

definition alloc_pid :: "old_env \<Rightarrow> mem \<Rightarrow> mem \<times> c_int" where
  "alloc_pid e m =
    (let m = st32 m (global_pid e) (ld32 m (global_pid e) + 1) in (m, ld32 m (global_pid e)))"

text \<open>A store through \<open>pcb->context\<close>, which is read again for every assignment.\<close>

definition set_ctx :: "u32 \<Rightarrow> ctx_reg \<Rightarrow> u32 \<Rightarrow> mem \<Rightarrow> mem" where
  "set_ctx pcb r v m = st32 m (ld32 m (pr_context pcb) + ctx_offset r) v"

definition get_ctx :: "mem \<Rightarrow> u32 \<Rightarrow> ctx_reg \<Rightarrow> u32" where
  "get_ctx m pcb r = ld32 m (ld32 m (pr_context pcb) + ctx_offset r)"

text \<open>The registers both branches of \<open>proc_start\<close> clear.\<close>

definition clear_ctx :: "u32 \<Rightarrow> mem \<Rightarrow> mem" where
  "clear_ctx pcb m =
    (let m = fold (\<lambda>r. set_ctx pcb r 0) [C_ecx, C_edx, C_ebx, C_eax] m
     in fold (\<lambda>r. set_ctx pcb r 0) [C_esp_dummy, C_ebp, C_esi, C_edi] m)"

definition proc_start :: "old_env \<Rightarrow> mem \<Rightarrow> u32 \<Rightarrow> u8 \<Rightarrow> mem" where
  "proc_start e m pcb ifkernel =
    (let function = ld32 m (pr_filename pcb);
         m = st32 m (pr_kstack pcb)
               (if ifkernel = KERNEL_PROC then KERNEL_STACK_SIZE else pcb + MEM_PAGE_SIZE - 1);
         m = st32 m (pr_context pcb) (pcb + sizeof_proc_pcb);
         m = st32 m (pr_priority pcb) TASK_DEFAULF_PRIO;
         m = st32 m (pr_stack_magic pcb) TASK_STACK_MAGIC;
         m = st32 m (pr_status pcb) (task_status_code TASK_READY);
         m = st32 m (pr_thread_table pcb) 0;
         m = st32 m (pr_ticks pcb) TASK_TICKS_DEFAULT;
         m = set_ctx pcb C_eip function m;
         m = set_ctx pcb C_eflags (EFLAGS_IF OR ELFAGS_MBS) m
     in if ifkernel = KERNEL_PROC then
          (case kalloc_pages (pages e) m 1 of (m, stk) \<Rightarrow>
            let m = set_ctx pcb C_esp (stk + MEM_PAGE_SIZE) m;
                m = clear_ctx pcb m;
                m = fold (\<lambda>r. set_ctx pcb r (ucast KERNEL_SELECTOR_DS)) [C_ds, C_es, C_fs, C_gs] m;
                m = set_ctx pcb C_ss (ucast KERNEL_SELECTOR_DS) m
            in set_ctx pcb C_cs (ucast KERNEL_SELECTOR_CS) m)
        else
          (case ualloc_pages (pages e) m 1 of (m, stk) \<Rightarrow>
            let m = set_ctx pcb C_esp (stk + MEM_PAGE_SIZE) m;
                m = clear_ctx pcb m;
                m = set_ctx pcb C_gs 0 m;
                m = fold (\<lambda>r. set_ctx pcb r (ucast USER_SELECTOR_DS)) [C_ds, C_es, C_fs] m;
                m = set_ctx pcb C_ss (ucast USER_SELECTOR_DS) m
            in set_ctx pcb C_cs (ucast USER_SELECTOR_CS) m))"

definition proc_init :: "old_env \<Rightarrow> mem \<Rightarrow> u32 \<Rightarrow> u32 \<Rightarrow> (mem \<times> u32) option" where
  "proc_init e m filename proc_name =
    (case kalloc_pages (pages e) m 1 of (m, pcb) \<Rightarrow>
      Option.bind (kstrcpy (st32 m (pr_filename pcb) filename) (pr_name pcb) proc_name) (\<lambda>m.
        case create_page_table (pages e) m (kernel_table e) of (m, dir) \<Rightarrow>
        let m = st32 m (pr_pgdir pcb) dir;
            m = st32 m (pr_ticks pcb) TASK_TICKS_DEFAULT
        in case alloc_pid e m of (m, pid) \<Rightarrow>
          let m = st32 m (pr_pid pcb) pid;
              m = st32 m (pr_parent pcb) 0;
              m = m(pr_ifkernel pcb := USER_PROC);
              m = st32 m (pr_ifsaved pcb) UNSAVED_CONTEXT;
              m = proc_set_general e m pcb
          in map_option (\<lambda>m. (proc_start e m pcb USER_PROC, pcb)) (proc_set_ready e m pcb)))"

text \<open>The task-state segment of the old kernel: one, for the stack of the kernel.\<close>

definition set_tss :: "old_env \<Rightarrow> tss_reg \<Rightarrow> u32 \<Rightarrow> mem \<Rightarrow> mem" where
  "set_tss e r v m = st32 m (tss_var e + tss_offset r) v"

definition tss_desc_set :: "old_env \<Rightarrow> c_int \<Rightarrow> machine \<Rightarrow> machine" where
  "tss_desc_set e tss_sel s =
    (let m = kmemset (ram s) (tss_var e) 0 sizeof_tss;
         m = gdt_segment_set (old_gdt e) m (ucast tss_sel) sizeof_tss (tss_var e)
               (SEG_S_SYSTEM OR SEG_TYPE_TSS OR SEG_DPL0 OR SEG_P_PRESENT);
         data_sel = ucast KERNEL_SELECTOR_DS;
         code_sel = ucast KERNEL_SELECTOR_CS;
         m = fold (\<lambda>r. set_tss e r KERNEL_STACK_SIZE) [Esp0, Esp] m;
         m = fold (\<lambda>r. set_tss e r data_sel) [Gs, Fs, Ds, Es] m;
         m = fold (\<lambda>r. set_tss e r data_sel) [Ss, Ss0] m;
         m = set_tss e Cs code_sel m;
         m = set_tss e Eflags (ELFAGS_MBS OR EFLAGS_IF) m;
         s = lgdt (old_gdt e) (of_nat (8 * GDT_SIZE)) (s\<lparr>ram := m\<rparr>)
     in ltr tss_sel s)"

definition tss_init_old :: "old_env \<Rightarrow> machine \<Rightarrow> machine" where
  "tss_init_old e s = tss_desc_set e (ucast KERNEL_SELECTOR_TSS) s"

definition task_init_old :: "old_env \<Rightarrow> u32 \<Rightarrow> machine \<Rightarrow> machine option" where
  "task_init_old e main s =
    (let m = klist_init (ram s) (pr_ready_list e);
         m = klist_init m (pr_sleep_list e);
         m = klist_init m (pr_general_list e)
     in case kalloc_pages (pages e) m 1 of (m, pcb) \<Rightarrow>
      let m = st32 m (pr_cur e) pcb;
          m = st32 m (pr_filename pcb) main
      in Option.bind (kstrcpy m (pr_name pcb) (main_proc_name e)) (\<lambda>m.
        let m = st32 m (pr_pgdir pcb) (kernel_table e);
            m = st32 m (pr_ticks pcb) TASK_TICKS_DEFAULT
        in case alloc_pid e m of (m, pid) \<Rightarrow>
          let m = st32 m (pr_pid pcb) pid;
              m = st32 m (pr_parent pcb) 0;
              m = m(pr_ifkernel pcb := KERNEL_PROC);
              m = st32 m (pr_ifsaved pcb) UNSAVED_CONTEXT;
              m = proc_set_general e m pcb
          in map_option (\<lambda>m. tss_init_old e (s\<lparr>ram := proc_start e m pcb KERNEL_PROC\<rparr>))
               (proc_set_ready e m pcb)))"

definition update_tss_esp0 :: "old_env \<Rightarrow> u32 \<Rightarrow> mem \<Rightarrow> mem" where
  "update_tss_esp0 e proc m = set_tss e Esp0 (ld32 m (pr_kstack proc)) m"

definition switch_pgdir :: "u32 \<Rightarrow> machine \<Rightarrow> machine" where
  "switch_pgdir dir s = wcr3 dir s"

text \<open>
  The operands of the inline assembly are read before it; the general registers are inputs
  of it, the rest goes over the stack.
\<close>

definition pop_operands :: "cpu \<Rightarrow> cpu" where
  "pop_operands s =
    (let (w, s) = pop s; s = s\<lparr>ds := ucast w\<rparr>; (w, s) = pop s; s = s\<lparr>es := ucast w\<rparr>;
         (w, s) = pop s; s = s\<lparr>fs := ucast w\<rparr>; (w, s) = pop s; s = s\<lparr>gs := ucast w\<rparr>;
         (w, s) = pop s
     in s\<lparr>ebp := w\<rparr>)"

definition proc_switch :: "u32 \<Rightarrow> cpu \<Rightarrow> cpu" where
  "proc_switch pcb s =
    (let v = get_ctx (cmem s) pcb;
         s = s\<lparr>eax := v C_eax, ebx := v C_ebx, edx := v C_edx, ecx := v C_ecx, edi := v C_edi, esi := v C_esi\<rparr>;
         s = push (v C_eip) (push (v C_cs) (push (v C_eflags) (push (v C_esp) (push (v C_ss) s))));
         s = push (v C_ds) (push (v C_es) (push (v C_fs) (push (v C_gs) (push (v C_ebp) s))))
     in iret (pop_operands s))"

definition proc_dispatch :: "old_env \<Rightarrow> cpu \<Rightarrow> cpu" where
  "proc_dispatch e s =
    (let m = cmem s; cur = cur_proc e m; next = proc_schedule e m
     in if next \<noteq> cur \<and> ld32 m (pr_status next) = task_status_code TASK_READY then
          let m = st32 m (pr_cur e) next;
              m = st32 m (pr_status next) (task_status_code TASK_RUNNING);
              m = st32 m (pr_ifsaved cur) UNSAVED_CONTEXT;
              c = switch_pgdir (ld32 m (pr_pgdir next)) ((core s)\<lparr>ram := m\<rparr>);
              c = c\<lparr>ram := update_tss_esp0 e next (ram c)\<rparr>;
              c = irq_leave_protection (irq_status_of (ld32 (ram c) (pr_irq_state e))) c
          in proc_switch next (s\<lparr>core := c\<rparr>)
        else if klist_len m (pr_ready_list e) = 1 then
          s\<lparr>core := irq_leave_protection (irq_status_of (ld32 m (pr_irq_state e))) (core s)\<rparr>
        else s)"

definition proc_time_ticks :: "old_env \<Rightarrow> cpu \<Rightarrow> cpu option" where
  "proc_time_ticks e s =
    (let cur = cur_proc e (cmem s);
         m = st32 (cmem s) (pr_ticks cur) (ld32 (cmem s) (pr_ticks cur) - 1)
     in if sint (ld32 m (pr_ticks cur)) \<le> 0 then
          map_option (\<lambda>m. proc_dispatch e (set_ram (st32 m (pr_ticks cur) TASK_TICKS_DEFAULT) s))
            (proc_set_ready e m cur)
        else Some (set_ram m s))"

definition proc_ifkernel :: "old_env \<Rightarrow> mem \<Rightarrow> bool" where
  "proc_ifkernel e m \<longleftrightarrow> m (pr_ifkernel (cur_proc e m)) = KERNEL_PROC"

section \<open>A ready queue\<close>

text \<open>
  What the three schedulers of the old kernel have in common: a list, the word that points to
  the running block, and in every block a node, a state word and a tick counter.  The words
  of the blocks in the queue, and the pointer, lie apart from each other and from the list.
\<close>

definition queue_words :: "u32 \<Rightarrow> u32 \<Rightarrow> (u32 \<Rightarrow> u32) \<Rightarrow> (u32 \<Rightarrow> u32) \<Rightarrow> (u32 \<Rightarrow> u32) \<Rightarrow> u32 list \<Rightarrow> bool" where
  "queue_words lst cur_word node status ticks ts \<longleftrightarrow>
     (let C = list_cells lst (map node ts) in aligned4 cur_word \<and> cur_word \<notin> C \<and>
      (\<forall>t\<in>set ts. aligned4 (status t) \<and> aligned4 (ticks t) \<and> status t \<notin> C \<and> ticks t \<notin> C
        \<and> status t \<noteq> cur_word \<and> ticks t \<noteq> cur_word
        \<and> (\<forall>u\<in>set ts. status t \<noteq> ticks u \<and> (u \<noteq> t \<longrightarrow> status t \<noteq> status u))))"

text \<open>The block that runs is the first of the queue, the others are ready.\<close>

definition rotation_ok :: "u32 \<Rightarrow> u32 \<Rightarrow> (u32 \<Rightarrow> u32) \<Rightarrow> (u32 \<Rightarrow> u32) \<Rightarrow> (u32 \<Rightarrow> u32) \<Rightarrow> mem \<Rightarrow> u32 list \<Rightarrow> bool" where
  "rotation_ok lst cur_word node status ticks m ts \<longleftrightarrow>
     dlist m lst (map node ts) \<and> queue_words lst cur_word node status ticks ts \<and> ts \<noteq> []
     \<and> ld32 m cur_word = hd ts \<and> (\<forall>t\<in>set (tl ts). ld32 m (status t) = task_status_code TASK_READY)"

lemma queue_words_set:
  "set xs = set ys \<Longrightarrow> queue_words l c n s k xs = queue_words l c n s k ys"
  by (simp add: queue_words_def list_cells_def list_nodes_def Let_def)

text \<open>
  The interface: the operation that makes a block ready, and the choice of the next one.  The
  client is the rotation of the queue at the end of a time slice.
\<close>

locale ready_queue =
  fixes lst :: u32 and cur_word :: u32 and off :: u32 and node :: "u32 \<Rightarrow> u32" and status :: "u32 \<Rightarrow> u32"
    and ticks :: "u32 \<Rightarrow> u32" and set_ready :: "mem \<Rightarrow> u32 \<Rightarrow> mem option" and first :: "mem \<Rightarrow> u32"
  assumes set_ready: "set_ready m p = map_option (\<lambda>(_, m).
      klist_append (st32 m (status p) (task_status_code TASK_READY)) lst (node p)) (klist_remove m lst (node p))"
    and first: "first m = struct_addr (klist_get_first_node m lst) off"
    and node: "node p = p + off"
begin

lemma first_of_queue:
  assumes "dlist m lst (map node (t # ts))"
  shows "first m = t"
proof -
  have "node t \<in> set (list_nodes lst (map node (t # ts)))" by (simp add: list_nodes_def)
  then have "node t \<noteq> 0" using assms by (auto simp: dlist_def sep_nodes_def)
  moreover have "klist_get_first_node m lst = node t" using klist_ends_dlist(1) [OF assms] by (simp add: node_after_def)
  ultimately show ?thesis by (simp add: first struct_addr_def node)
qed

lemma distinct_queue: "dlist m lst (map node ts) \<Longrightarrow> distinct ts"
  by (auto simp: dlist_def list_nodes_def distinct_map)

text \<open>Wherever it stands in the queue, a block made ready goes to the end.\<close>

lemma set_ready_moves:
  assumes d: "dlist m lst (map node (as @ t # bs))" and w: "queue_words lst cur_word node status ticks (as @ t # bs)"
  shows "\<exists>m'. set_ready m t = Some m' \<and> dlist m' lst (map node (as @ bs @ [t]))
    \<and> queue_words lst cur_word node status ticks (as @ bs @ [t])
    \<and> ld32 m' (status t) = task_status_code TASK_READY
    \<and> (\<forall>x. aligned4 x \<and> x \<notin> list_cells lst (map node (as @ t # bs)) \<and> x \<noteq> status t \<longrightarrow> ld32 m' x = ld32 m x)"
proof -
  let ?ts = "as @ t # bs" and ?us = "as @ bs @ [t]" and ?n = "node t"
  let ?C = "list_cells lst (map node ?ts)"
  let ?m1 = "klist_unlink m lst ?n" let ?m2 = "st32 ?m1 (status t) (task_status_code TASK_READY)"
  let ?m3 = "klist_append ?m2 lst ?n"
  have d': "dlist m lst (map node as @ ?n # map node bs)" using d by simp
  have st: "aligned4 (status t)" "status t \<notin> ?C" using w by (simp_all add: queue_words_def Let_def)
  have d1: "dlist ?m1 lst (map node as @ map node bs)" by (rule klist_unlink_dlist [OF d'])
  have sub: "list_cells lst (map node as @ map node bs) \<subseteq> ?C"
    by (auto simp: list_cells_def list_nodes_def)
  have d2: "dlist ?m2 lst (map node as @ map node bs)" by (rule dlist_store [OF d1]) (use st sub in auto)
  have f: "fresh_node lst (map node as @ map node bs) ?n" by (rule removed_node_fresh [OF d'])
  have d3: "dlist ?m3 lst (map node ?us)" using klist_append_dlist [OF d2 f] by simp
  have C: "list_cells lst (map node as @ map node bs @ [?n]) = ?C" by (auto simp: list_cells_def list_nodes_def)
  have al: "\<forall>c\<in>?C. aligned4 c" by (rule list_cells_aligned [OF d])
  have u1: "unchanged_outside ?C m ?m1" using klist_unlink_frame [OF d'] by simp
  have u3: "unchanged_outside ?C ?m2 ?m3" using klist_append_frame [OF d2 f] C by simp
  have keep: "ld32 ?m3 x = ld32 ?m2 x" if "aligned4 x" "x \<notin> ?C" for x
    by (rule unchanged_ld32 [OF u3 al that])
  have "set_ready m t = Some ?m3" by (simp add: set_ready klist_remove_found [OF d'])
  moreover have "ld32 ?m3 (status t) = task_status_code TASK_READY" using keep [OF st] by (simp add: ld32_st32)
  moreover have "ld32 ?m3 x = ld32 m x" if "aligned4 x" "x \<notin> ?C" "x \<noteq> status t" for x
  proof -
    have "ld32 ?m3 x = ld32 ?m1 x" using keep [OF that(1,2)] ld32_st32_other [OF st(1) that(1) that(3) [symmetric]] by simp
    also have "\<dots> = ld32 m x" by (rule unchanged_ld32 [OF u1 al that(1,2)])
    finally show ?thesis .
  qed
  moreover have "queue_words lst cur_word node status ticks ?us"
    using w queue_words_set [of ?us ?ts] by simp
  ultimately show ?thesis using d3 by blast
qed

text \<open>
  The end of a time slice: the running block goes to the end of the queue, its counter is
  reset, and if there is another block the first of them runs.
\<close>

lemma rotate:
  assumes r: "rotation_ok lst cur_word node status ticks m (t # ts)"
  shows "\<exists>m1. set_ready (st32 m (ticks t) v) t = Some m1
    \<and> (let m2 = st32 m1 (ticks t) d; u = first m2; m3 = st32 (st32 m2 cur_word u) (status u) (task_status_code TASK_RUNNING)
       in u = hd (ts @ [t]) \<and> ld32 m2 cur_word = t \<and> ld32 m2 (status u) = task_status_code TASK_READY
        \<and> (u = t \<longleftrightarrow> ts = []) \<and> ld32 m2 (ticks t) = d
        \<and> (ts = [] \<longrightarrow> rotation_ok lst cur_word node status ticks m2 [t])
        \<and> (ts \<noteq> [] \<longrightarrow> rotation_ok lst cur_word node status ticks m3 (ts @ [t]) \<and> ld32 m3 (ticks t) = d)
        \<and> (\<forall>x. aligned4 x \<and> x \<notin> list_cells lst (map node (t # ts)) \<and> x \<notin> set (map status (t # ts))
            \<and> x \<noteq> cur_word \<and> x \<noteq> ticks t \<longrightarrow> ld32 m2 x = ld32 m x \<and> ld32 m3 x = ld32 m x))"
proof -
  let ?ts = "t # ts" and ?us = "ts @ [t]"
  let ?C = "list_cells lst (map node ?ts)"
  have d: "dlist m lst (map node ?ts)" and w: "queue_words lst cur_word node status ticks ?ts"
    and cur: "ld32 m cur_word = t" and rdy: "\<forall>x\<in>set ts. ld32 m (status x) = task_status_code TASK_READY"
    using r by (simp_all add: rotation_ok_def)
  have cw: "aligned4 cur_word" "cur_word \<notin> ?C" using w by (simp_all add: queue_words_def Let_def)
  have tk: "aligned4 (ticks x)" "ticks x \<notin> ?C" "ticks x \<noteq> cur_word" "aligned4 (status x)" "status x \<notin> ?C"
    "status x \<noteq> cur_word" if "x \<in> set ?ts" for x
    using w that unfolding queue_words_def Let_def by blast+
  have ne: "status x \<noteq> ticks y" "y \<noteq> x \<Longrightarrow> status x \<noteq> status y" if "x \<in> set ?ts" "y \<in> set ?ts" for x y
    using w that unfolding queue_words_def Let_def by blast+
  have t: "t \<in> set ?ts" by simp
  let ?m0 = "st32 m (ticks t) v"
  have "dlist ?m0 lst (map node ([] @ t # ts))" using dlist_store [OF d tk(1,2) [OF t]] by simp
  from set_ready_moves [OF this] w obtain m1 where m1: "set_ready ?m0 t = Some m1"
    "dlist m1 lst (map node ?us)" "queue_words lst cur_word node status ticks ?us"
    "ld32 m1 (status t) = task_status_code TASK_READY"
    "\<And>x. aligned4 x \<Longrightarrow> x \<notin> ?C \<Longrightarrow> x \<noteq> status t \<Longrightarrow> ld32 m1 x = ld32 ?m0 x"
    by auto
  have C: "list_cells lst (map node ?us) = ?C" by (auto simp: list_cells_def list_nodes_def)
  let ?m2 = "st32 m1 (ticks t) d"
  have d2: "dlist ?m2 lst (map node ?us)" using dlist_store [OF m1(2)] tk [OF t] C by simp
  have keep: "ld32 ?m2 x = ld32 m x" if "aligned4 x" "x \<notin> ?C" "x \<noteq> status t" "x \<noteq> ticks t" for x
    using m1(5) [OF that(1-3)] that ld32_st32_other [OF tk(1) [OF t] that(1)] by (metis)
  have st2: "ld32 ?m2 (status x) = task_status_code TASK_READY" if x: "x \<in> set ?ts" for x
  proof (cases "x = t")
    case True
    then show ?thesis using m1(4) ld32_st32_other [OF tk(1,4) [OF t] ne(1) [OF t t, symmetric]] by simp
  next
    case False
    with x have "x \<in> set ts" by simp
    with rdy keep [OF tk(4,5) [OF x] _ ne(1) [OF x t]] ne(2) [OF x t] False show ?thesis by auto
  qed
  have u: "first ?m2 = hd ?us" using first_of_queue [of ?m2 "hd ?us" "tl ?us"] d2 by simp
  have c2: "ld32 ?m2 cur_word = t" using keep [OF cw tk(6) [OF t, symmetric] tk(3) [OF t, symmetric]] cur by simp
  have "hd ?us = t \<longleftrightarrow> ts = []" using distinct_queue [OF d] by (cases ts) auto
  moreover have "rotation_ok lst cur_word node status ticks ?m2 [t]" if "ts = []"
    using that d2 m1(3) c2 by (simp add: rotation_ok_def)
  moreover
  let ?u = "hd ?us" let ?m3 = "st32 (st32 ?m2 cur_word ?u) (status ?u) (task_status_code TASK_RUNNING)"
  have uin: "?u \<in> set ?ts" by (cases ts) auto
  have keep3: "ld32 ?m3 x = ld32 ?m2 x" if "aligned4 x" "x \<noteq> cur_word" "x \<noteq> status ?u" for x
    using ld32_st32_other [OF tk(4) [OF uin] that(1) that(3) [symmetric]]
      ld32_st32_other [OF cw(1) that(1) that(2) [symmetric]] by simp
  have "rotation_ok lst cur_word node status ticks ?m3 ?us \<and> ld32 ?m3 (ticks t) = d" if "ts \<noteq> []"
  proof -
    have "dlist ?m3 lst (map node ?us)"
      using cw tk(4,5) [OF uin] C by (intro dlist_store d2) simp_all
    moreover have "ld32 ?m3 cur_word = ?u" using cw tk(4,6) [OF uin] by (simp add: ld32_st32_other ld32_st32)
    moreover have "ld32 ?m3 (status x) = task_status_code TASK_READY" if x: "x \<in> set (tl ?us)" for x
    proof -
      have "distinct ?us" using distinct_queue [OF d] by simp
      then have "x \<noteq> ?u" "x \<in> set ?ts" using x \<open>ts \<noteq> []\<close> by (cases ts; auto)+
      then show ?thesis using keep3 [OF tk(4,6)] ne(2) [OF _ uin, of x] st2 by auto
    qed
    moreover have "ld32 ?m3 (ticks t) = d"
      using keep3 [OF tk(1,3) [OF t] ne(1) [OF uin t, symmetric]] by (simp add: ld32_st32)
    ultimately show ?thesis using m1(3) by (simp add: rotation_ok_def)
  qed
  moreover have "ld32 ?m2 x = ld32 m x \<and> ld32 ?m3 x = ld32 m x"
    if "aligned4 x" "x \<notin> ?C" "x \<notin> set (map status ?ts)" "x \<noteq> cur_word" "x \<noteq> ticks t" for x
  proof -
    have "x \<noteq> status t" "x \<noteq> status ?u" using that(3) uin by auto
    then show ?thesis using keep [OF that(1,2)] keep3 [OF that(1,4)] that(5) by simp
  qed
  ultimately show ?thesis using m1(1) u c2 st2 [OF uin] by (intro exI [of _ m1]) (simp add: Let_def ld32_st32)
qed

end

interpretation threads: ready_queue "th_ready_list e" "th_cur e" "th_state_node 0" th_state_node th_status th_ticks
    "thread_set_ready e" "thread_FIFO e" for e
  by unfold_locales (simp_all add: thread_set_ready_def thread_FIFO_def Let_def th_fields)

interpretation procs: ready_queue "pr_ready_list e" "pr_cur e" "pr_state_node 0" pr_state_node pr_status pr_ticks
    "proc_set_ready e" "proc_FIFO e" for e
  by unfold_locales (simp_all add: proc_set_ready_def proc_FIFO_def Let_def pr_fields)

section \<open>Time slices of threads\<close>

definition thread_queue :: "old_env \<Rightarrow> mem \<Rightarrow> u32 list \<Rightarrow> bool" where
  "thread_queue e m ts \<longleftrightarrow> rotation_ok (th_ready_list e) (th_cur e) th_state_node th_status th_ticks m ts"

definition proc_queue :: "old_env \<Rightarrow> mem \<Rightarrow> u32 list \<Rightarrow> bool" where
  "proc_queue e m ps \<longleftrightarrow> rotation_ok (pr_ready_list e) (pr_cur e) pr_state_node pr_status pr_ticks m ps"

lemma set_ram_simps [simp]: "cmem (set_ram m s) = m" "esp (set_ram m s) = esp s" "eip (set_ram m s) = eip s"
  "set_ram m (set_ram m' s) = set_ram m s"
  by (simp_all add: set_ram_def)

lemma thread_schedule_eq: "thread_schedule e m = thread_FIFO e m"
  by (simp add: thread_schedule_def SCHEDULE_SECTIONS_def)

lemma proc_schedule_eq: "proc_schedule e m = proc_FIFO e m"
  by (simp add: proc_schedule_def SCHEDULE_SECTIONS_def)

lemma rotation_tick:
  assumes r: "rotation_ok l c n st tk m (t # ts)"
  shows "rotation_ok l c n st tk (st32 m (tk t) v) (t # ts)"
proof -
  have w: "queue_words l c n st tk (t # ts)" and d: "dlist m l (map n (t # ts))" using r by (simp_all add: rotation_ok_def)
  have tk: "aligned4 (tk t)" "tk t \<notin> list_cells l (map n (t # ts))" "tk t \<noteq> c" "aligned4 c"
    using w by (simp_all add: queue_words_def Let_def)
  have st: "aligned4 (st x)" "tk t \<noteq> st x" if "x \<in> set (t # ts)" for x
    using w that unfolding queue_words_def Let_def by (blast, metis list.set_intros(1))
  have "dlist (st32 m (tk t) v) l (map n (t # ts))" using d tk(1,2) by (rule dlist_store)
  moreover have "ld32 (st32 m (tk t) v) (st x) = ld32 m (st x)" if "x \<in> set ts" for x
    using st that tk(1) by (intro ld32_st32_other) auto
  moreover have "ld32 (st32 m (tk t) v) c = ld32 m c" by (rule ld32_st32_other [OF tk(1,4,3)])
  ultimately show ?thesis using r by (simp add: rotation_ok_def)
qed

text \<open>
  C15: the threads of the old kernel run in turn.  The queue holds the running thread first and
  the ready ones behind it.  A tick takes one from the counter of the running thread; when none
  is left, the thread goes to the end of the queue with a new time slice and the processor
  switches to the stack of the next thread, which is marked running; a thread that is alone
  goes on.
\<close>

theorem thread_time_ticks_rotates:
  fixes e s t ts
  defines "left \<equiv> ld32 (cmem s) (th_ticks t) - 1"
  assumes "thread_queue e (cmem s) (t # ts)"
  shows "\<exists>m. thread_time_ticks e s = Some (if sint left \<le> 0 \<and> ts \<noteq> [] then switch_thread_from_to t (hd ts) (set_ram m s)
        else set_ram m s)
    \<and> thread_queue e m (if sint left \<le> 0 then ts @ [t] else t # ts)
    \<and> ld32 m (th_ticks t) = (if sint left \<le> 0 then TASK_TICKS_DEFAULT else left)"
proof (cases "sint left \<le> 0")
  case False
  have "cur_thread e (cmem s) = t" using assms(2) by (simp add: thread_queue_def rotation_ok_def cur_thread_def)
  moreover have "thread_queue e (st32 (cmem s) (th_ticks t) left) (t # ts)"
    using rotation_tick assms(2) by (simp add: thread_queue_def)
  ultimately show ?thesis using False
    by (intro exI [of _ "st32 (cmem s) (th_ticks t) left"]) (simp add: thread_time_ticks_def ld32_st32 left_def)
next
  case True
  have r: "rotation_ok (th_ready_list e) (th_cur e) th_state_node th_status th_ticks (cmem s) (t # ts)"
    using assms(2) by (simp add: thread_queue_def)
  have cur: "cur_thread e (cmem s) = t" using r by (simp add: rotation_ok_def cur_thread_def)
  obtain m1 where m1: "thread_set_ready e (st32 (cmem s) (th_ticks t) left) t = Some m1"
    and rot: "let m2 = st32 m1 (th_ticks t) TASK_TICKS_DEFAULT; u = thread_FIFO e m2;
        m3 = st32 (st32 m2 (th_cur e) u) (th_status u) (task_status_code TASK_RUNNING)
      in u = hd (ts @ [t]) \<and> ld32 m2 (th_cur e) = t \<and> ld32 m2 (th_status u) = task_status_code TASK_READY
        \<and> (u = t \<longleftrightarrow> ts = []) \<and> ld32 m2 (th_ticks t) = TASK_TICKS_DEFAULT
        \<and> (ts = [] \<longrightarrow> thread_queue e m2 [t])
        \<and> (ts \<noteq> [] \<longrightarrow> thread_queue e m3 (ts @ [t]) \<and> ld32 m3 (th_ticks t) = TASK_TICKS_DEFAULT)"
    using threads.rotate [OF r, of left TASK_TICKS_DEFAULT] unfolding thread_queue_def Let_def by blast
  let ?m2 = "st32 m1 (th_ticks t) TASK_TICKS_DEFAULT" let ?u = "thread_FIFO e ?m2"
  let ?m3 = "st32 (st32 ?m2 (th_cur e) ?u) (th_status ?u) (task_status_code TASK_RUNNING)"
  have eq: "thread_time_ticks e s = Some (thread_dispatch e (set_ram ?m2 s))"
    using True cur m1 by (simp add: thread_time_ticks_def Let_def left_def [symmetric] ld32_st32)
  have "thread_dispatch e (set_ram ?m2 s) = (if ts \<noteq> [] then switch_thread_from_to t (hd ts) (set_ram ?m3 s) else set_ram ?m2 s)"
    using rot by (auto simp: thread_dispatch_def Let_def thread_schedule_eq cur_thread_def)
  then show ?thesis using True rot unfolding eq Let_def
    by (intro exI [of _ "if ts \<noteq> [] then ?m3 else ?m2"]) auto
qed

text \<open>The samples: two blocks, at 0x2000 and 0x3000, the first running in its last tick.\<close>

definition sample_rotation :: "u32 \<Rightarrow> u32 \<Rightarrow> (u32 \<Rightarrow> u32) \<Rightarrow> (u32 \<Rightarrow> u32) \<Rightarrow> (u32 \<Rightarrow> u32) \<Rightarrow> mem" where
  "sample_rotation l c n st tk =
    st32 (st32 (st32 (klist_append (klist_append (klist_init (\<lambda>_. 0) l) l (n 0x2000)) l (n 0x3000))
      c 0x2000) (st 0x3000) 2) (tk 0x2000) 1"

lemma sample_rotation_ok:
  assumes "sep_nodes l (set (list_nodes l []))" "fresh_node l [] (n 0x2000)" "fresh_node l [n 0x2000] (n 0x3000)"
    and w: "queue_words l c n st tk [0x2000, 0x3000]"
  shows "rotation_ok l c n st tk (sample_rotation l c n st tk) [0x2000, 0x3000]"
proof -
  let ?m = "klist_append (klist_append (klist_init (\<lambda>_. 0) l) l (n 0x2000)) l (n 0x3000)"
  let ?C = "list_cells l [n 0x2000, n 0x3000]"
  have "dlist (klist_init (\<lambda>_. 0) l) l []" using assms(1) by (intro klist_init_dlist) (simp add: list_nodes_def)
  from klist_append_dlist [OF this assms(2)] assms(3) have d: "dlist ?m l [n 0x2000, n 0x3000]"
    using klist_append_dlist by fastforce
  have al: "aligned4 c" "c \<notin> ?C" "aligned4 (st 0x3000)" "st 0x3000 \<notin> ?C" "aligned4 (tk 0x2000)" "tk 0x2000 \<notin> ?C"
    and ne: "st 0x3000 \<noteq> c" "tk 0x2000 \<noteq> c" "tk 0x2000 \<noteq> st 0x3000"
    using w by (auto simp: queue_words_def Let_def)
  have "dlist (sample_rotation l c n st tk) l [n 0x2000, n 0x3000]"
    unfolding sample_rotation_def using al d by (intro dlist_store) simp_all
  moreover have "ld32 (sample_rotation l c n st tk) c = 0x2000" "ld32 (sample_rotation l c n st tk) (st 0x3000) = 2"
    using al ne by (simp_all add: sample_rotation_def ld32_st32_other ld32_st32)
  ultimately show ?thesis using w by (simp add: rotation_ok_def)
qed

lemma sample_rotation_tick [simp]: "ld32 (sample_rotation l c n st tk) (tk 0x2000) = 1"
  by (simp add: sample_rotation_def ld32_st32)

lemmas sample_numeric = sep_nodes_def fresh_node_def list_nodes_def list_cells_def queue_words_def aligned4_numeral Let_def

definition sample_old :: old_env where
  "sample_old = \<lparr>thread_manager = 0x1000, proc_manager = 0x1000, tss_var = 0x1200, old_gdt = 0x8000,
     kernel_table = 0x9000, pages = sample_am, global_pid = 0x1300, kthread_code = 0x7000, main_proc_name = 0x1400,
     task_manage = 0x1000\<rparr>"

definition sample_threads :: mem where
  "sample_threads = sample_rotation 0x1018 0x1000 th_state_node th_status th_ticks"

lemma sample_threads_ok: "thread_queue sample_old sample_threads [0x2000, 0x3000]"
  unfolding thread_queue_def sample_threads_def th_ready_list_def th_cur_def sample_old_def old_env.simps
  by (simp, rule sample_rotation_ok) (simp_all add: sample_numeric th_fields)

theorem thread_time_ticks_rotates_witness:
  "\<exists>m. thread_time_ticks sample_old (set_ram sample_threads sample_cpu)
      = Some (switch_thread_from_to 0x2000 0x3000 (set_ram m sample_cpu))
    \<and> thread_queue sample_old m [0x3000, 0x2000] \<and> ld32 m 0x2024 = 5"
proof -
  have t: "ld32 (cmem (set_ram sample_threads sample_cpu)) (th_ticks 0x2000) = 1" by (simp add: sample_threads_def)
  show ?thesis
    using thread_time_ticks_rotates [of sample_old "set_ram sample_threads sample_cpu" "0x2000" "[0x3000]", unfolded t]
      sample_threads_ok by (simp add: th_ticks_def TASK_TICKS_DEFAULT_def)
qed

section \<open>The first run of a thread\<close>

text \<open>What \<open>kthread_create\<close> prepares: the frame \<open>simple_switch\<close> takes off, and the call of \<open>kthread\<close>.\<close>

lemma kthread_create_frame:
  fixes e m p func args
  defines "sp \<equiv> ld32 m p - 416" and "m' \<equiv> kthread_create e m p func args"
  assumes "aligned4 p" "aligned4 sp" "word_bytes p \<inter> region sp 32 = {}"
  shows "ld32 m' p = sp" "words_at m' sp [0, 0, 0, 0, kthread_code e]" "ld32 m' (sp + 24) = func" "ld32 m' (sp + 28) = args"
proof -
  have in_r: "word_bytes (sp + of_nat j) \<subseteq> region sp 32" if "j + 4 \<le> 32" for j
    using word_in_region [OF that] by blast
  have w: "sp + of_nat j \<noteq> p" if "j + 4 \<le> 32" for j
    using in_r [OF that] assms(5) by (auto simp: word_bytes_def)
  note ne = w [of 0] w [of 4] w [of 8] w [of 12] w [of 16] w [of 24] w [of 28]
  have al: "aligned4 (sp + 4)" "aligned4 (sp + 8)" "aligned4 (sp + 12)" "aligned4 (sp + 16)"
    "aligned4 (sp + 24)" "aligned4 (sp + 28)"
    using assms(4) by (simp_all add: align_simps)
  have m': "m' = st32 (st32 (st32 (st32 (st32 (st32 (st32 (st32 (st32 m p (ld32 m p - 288)) p sp)
      (sp + 16) (kthread_code e)) (sp + 24) func) (sp + 28) args) (sp + 8) 0) (sp + 12) 0) (sp + 4) 0) sp 0"
    by (simp add: m'_def sp_def kthread_create_def Let_def th_fields ts_fields sizeof_intr_stack_def
        sizeof_thread_stack_def ld32_st32 algebra_simps)
  show "ld32 m' p = sp" "words_at m' sp [0, 0, 0, 0, kthread_code e]" "ld32 m' (sp + 24) = func" "ld32 m' (sp + 28) = args"
    unfolding m' using ne al assms(3,4) by (simp_all add: ld32_st32 ld32_st32_other add.assoc)
qed

text \<open>
  C40: the first time the processor switches to a new thread it enters \<open>kthread\<close> as if called
  with the thread's function and argument: the instruction pointer is the address of \<open>kthread\<close>
  and the two parameters stand above the place of a return address.
\<close>

theorem new_thread_enters_kthread:
  fixes e m p func args s cur
  defines "sp \<equiv> ld32 m p - 416" and "s' \<equiv> switch_thread_from_to cur p s"
  assumes "aligned4 p" "aligned4 sp" "word_bytes p \<inter> region sp 32 = {}"
    and "\<forall>x\<in>word_bytes p \<union> region sp 32. cmem s x = kthread_create e m p func args x"
    and "aligned4 (esp s)" "region (esp s - 28) 28 \<inter> region sp 32 = {}" "word_bytes cur \<inter> region sp 32 = {}"
  shows "eip s' = kthread_code e \<and> ld32 (cmem s') (esp s' + 4) = func \<and> ld32 (cmem s') (esp s' + 8) = args
    \<and> ebp s' = 0 \<and> ebx s' = 0 \<and> esi s' = 0 \<and> edi s' = 0"
proof -
  note f = kthread_create_frame [OF assms(3) assms(4,5) [unfolded sp_def], of e func args, folded sp_def]
  let ?vs = "[eip s, cur, sp]" let ?s1 = "pushes ?vs s" let ?m = "switch_mem ?s1 cur"
  have p: "ld32 (cmem s) p = sp"
    using f(1) ld32_cong [of p "cmem s" "kthread_create e m p func args"] assms(6) by simp
  have s': "s' = simple_switch ?s1" by (simp add: s'_def switch_thread_from_to_def p th_kstack_def)
  have t: "aligned4 (esp ?s1)" "stack_top ?s1 [eip s, cur, sp]"
    using stack_pushes [OF assms(7), of ?vs "[]"] by simp_all
  have all: "?m x = kthread_create e m p func args x" if x: "x \<in> region sp 32" for x
  proof -
    let ?ws = "[ebp ?s1, ebx ?s1, edi ?s1, esi ?s1]"
    have r: "region (esp s - 28) 28 = region (esp s - 28) 16 \<union> region (esp s - 12) 12"
      using region_add [of "esp s - 28" 16 12] by (simp add: algebra_simps)
    have "x \<notin> region (esp (pushes ?ws ?s1)) (4 * length ?ws)" "x \<notin> region (esp ?s1) (4 * length ?vs)"
      using x assms(8) r by auto
    then have "cmem (pushes ?ws ?s1) x = cmem s x" using pushes_other by metis
    moreover have "x \<notin> word_bytes cur" using x assms(9) by blast
    ultimately show ?thesis using x assms(6) unfolding switch_mem_def by (subst st32_other_byte) simp_all
  qed
  have sub: "word_bytes (sp + of_nat j) \<subseteq> region sp 32" if "j + 4 \<le> 32" for j
    using word_in_region [OF that] by blast
  have "words_at ?m sp [0, 0, 0, 0, kthread_code e]"
  proof (rule words_at_cong [OF _ f(2)])
    fix x assume "x \<in> region sp (4 * length [0, 0, 0, 0, kthread_code e])"
    then have "x \<in> region sp 20" by simp
    moreover have "region sp 20 \<subseteq> region sp 32" by (rule region_mono) simp
    ultimately show "?m x = kthread_create e m p func args x" using all by blast
  qed
  note eq = simple_switch_eq [OF t switch_mem_def this, folded s']
  have "ld32 ?m (sp + 24) = func"
    using f(3) sub [of 24] all ld32_cong [of "sp + 24" ?m "kthread_create e m p func args"] by auto
  moreover have "ld32 ?m (sp + 28) = args"
    using f(4) sub [of 28] all ld32_cong [of "sp + 28" ?m "kthread_create e m p func args"] by auto
  ultimately show ?thesis unfolding eq by (simp_all add: add.assoc)
qed

theorem new_thread_enters_kthread_witness:
  "\<exists>s'. eip s' = 0x7000 \<and> ld32 (cmem s') (esp s' + 4) = 0x4444 \<and> ld32 (cmem s') (esp s' + 8) = 0x55"
proof -
  let ?mi = "st32 (\<lambda>_. 0) 0x3000 0x4000" let ?m = "kthread_create sample_old ?mi 0x3000 0x4444 0x55"
  let ?s = "(set_ram ?m sample_cpu)\<lparr>esp := 0x6000\<rparr>"
  have sp: "ld32 ?mi 0x3000 - 416 = 0x3E60" by (simp add: ld32_st32)
  have r: "word_bytes 0x3000 \<inter> region 0x3E60 32 = {}" "word_bytes 0x2000 \<inter> region 0x3E60 32 = {}"
    "region 0x5FE4 28 \<inter> region 0x3E60 32 = {}"
    by (intro word_region_disjoint region_before(1), simp, simp,
        intro word_region_disjoint region_before(1), simp, simp, intro region_before(2), simp, simp)
  have "eip (switch_thread_from_to 0x2000 0x3000 ?s) = kthread_code sample_old
    \<and> ld32 (cmem (switch_thread_from_to 0x2000 0x3000 ?s)) (esp (switch_thread_from_to 0x2000 0x3000 ?s) + 4) = 0x4444
    \<and> ld32 (cmem (switch_thread_from_to 0x2000 0x3000 ?s)) (esp (switch_thread_from_to 0x2000 0x3000 ?s) + 8) = 0x55"
    using new_thread_enters_kthread [of "0x3000" ?mi ?s sample_old "0x4444" "0x55" "0x2000", unfolded sp] r
    by (simp add: aligned4_numeral)
  then show ?thesis by (simp add: sample_old_def) blast
qed

section \<open>Switching processes\<close>

lemma pop_operands_stack:
  "stack_top s (a # b # c # d # f # ws) \<Longrightarrow> pop_operands s = s\<lparr>ds := ucast a, es := ucast b, fs := ucast c,
     gs := ucast d, ebp := f, esp := esp s + 20\<rparr>"
  by (simp add: pop_operands_def pop_def stack_top_def Let_def add.assoc)

text \<open>
  what a process switch loads.  Every general register, the segment registers, the flags
  and the instruction pointer come from the context of the process.  Its stack pointer and
  stack segment are loaded only if the code segment is less privileged than the current one:
  a process of the kernel goes on with the stack of the process before it.
\<close>

theorem proc_switch_loads:
  fixes s p
  defines "v \<equiv> get_ctx (cmem s) p"
  assumes "aligned4 (esp s)"
  shows "\<exists>m. same_outside (region (esp s - 40) 40) (cmem s) m
    \<and> proc_switch p s = s\<lparr>core := write_eflags (v C_eflags) ((core s)\<lparr>ram := m\<rparr>),
    eax := v C_eax, ecx := v C_ecx, edx := v C_edx, ebx := v C_ebx, ebp := v C_ebp, esi := v C_esi, edi := v C_edi,
    ds := ucast (v C_ds), es := ucast (v C_es), fs := ucast (v C_fs), gs := ucast (v C_gs),
    cs := ucast (v C_cs), eip := v C_eip,
    esp := (if rpl (cs s) < rpl (ucast (v C_cs)) then v C_esp else esp s - 8),
    ss := (if rpl (cs s) < rpl (ucast (v C_cs)) then ucast (v C_ss) else ss s)\<rparr>"
proof -
  let ?s0 = "s\<lparr>eax := v C_eax, ebx := v C_ebx, edx := v C_edx, ecx := v C_ecx, edi := v C_edi, esi := v C_esi\<rparr>"
  let ?vs = "[v C_ds, v C_es, v C_fs, v C_gs, v C_ebp]"
  let ?ws = "[v C_eip, v C_cs, v C_eflags, v C_esp, v C_ss]"
  let ?s1 = "pushes (?vs @ ?ws) ?s0"
  let ?s2 = "?s1\<lparr>ds := ucast (v C_ds), es := ucast (v C_es), fs := ucast (v C_fs), gs := ucast (v C_gs),
    ebp := v C_ebp, esp := esp s - 20\<rparr>"
  have t: "stack_top ?s1 (?vs @ ?ws)"
    using stack_pushes [of ?s0 "?vs @ ?ws" "[]"] assms(2) by simp
  have "pop_operands ?s1 = ?s2"
    using pop_operands_stack [of ?s1 "v C_ds" "v C_es" "v C_fs" "v C_gs" "v C_ebp" ?ws] t by simp
  then have "proc_switch p s = iret ?s2"
    unfolding proc_switch_def v_def [symmetric] by (simp add: Let_def)
  moreover have t2: "stack_top ?s2 ?ws" using t by (simp add: stack_top_def add.assoc)
  have "iret ?s2 = (if rpl (cs s) < rpl (ucast (v C_cs))
      then ?s2\<lparr>eip := v C_eip, cs := ucast (v C_cs), core := write_eflags (v C_eflags) (core ?s2), esp := v C_esp, ss := ucast (v C_ss)\<rparr>
      else ?s2\<lparr>eip := v C_eip, cs := ucast (v C_cs), core := write_eflags (v C_eflags) (core ?s2), esp := esp s - 8\<rparr>)"
    using iret_outer [OF t2] iret_same [OF t2] by simp
  ultimately have "proc_switch p s = (if rpl (cs s) < rpl (ucast (v C_cs))
      then ?s2\<lparr>eip := v C_eip, cs := ucast (v C_cs), core := write_eflags (v C_eflags) (core ?s2), esp := v C_esp, ss := ucast (v C_ss)\<rparr>
      else ?s2\<lparr>eip := v C_eip, cs := ucast (v C_cs), core := write_eflags (v C_eflags) (core ?s2), esp := esp s - 8\<rparr>)"
    by simp
  moreover obtain m where m: "core ?s1 = (core s)\<lparr>ram := m\<rparr>" using core_pushes [of "?vs @ ?ws" ?s0] by auto
  ultimately have "proc_switch p s = s\<lparr>core := write_eflags (v C_eflags) ((core s)\<lparr>ram := m\<rparr>),
    eax := v C_eax, ecx := v C_ecx, edx := v C_edx, ebx := v C_ebx, ebp := v C_ebp, esi := v C_esi, edi := v C_edi,
    ds := ucast (v C_ds), es := ucast (v C_es), fs := ucast (v C_fs), gs := ucast (v C_gs),
    cs := ucast (v C_cs), eip := v C_eip,
    esp := (if rpl (cs s) < rpl (ucast (v C_cs)) then v C_esp else esp s - 8),
    ss := (if rpl (cs s) < rpl (ucast (v C_cs)) then ucast (v C_ss) else ss s)\<rparr>"
    by (intro cpu.equality) (simp_all del: pushes.simps)
  moreover have "same_outside (region (esp s - 40) 40) (cmem s) m"
    unfolding same_outside_def
  proof (intro allI impI)
    fix x assume "x \<notin> region (esp s - 40) 40"
    then have "cmem ?s1 x = cmem ?s0 x" by (intro pushes_other) simp
    then show "m x = cmem s x" by (simp only: m) simp
  qed
  ultimately show ?thesis by blast
qed

theorem proc_switch_loads_witness:
  "\<exists>m. proc_switch 0x3000 (set_ram (\<lambda>_. 0) (sample_cpu\<lparr>cs := 8\<rparr>)) = (set_ram (\<lambda>_. 0) sample_cpu)\<lparr>
    core := write_eflags 0 ((core sample_cpu)\<lparr>ram := m\<rparr>), eax := 0, ecx := 0, edx := 0, ebx := 0, ebp := 0,
    esi := 0, edi := 0, ds := 0, es := 0, fs := 0, gs := 0, cs := 0, eip := 0, esp := 0x7FF8\<rparr>"
  using proc_switch_loads [of "set_ram (\<lambda>_. 0) (sample_cpu\<lparr>cs := 8\<rparr>)" "0x3000"]
  by (auto simp add: sample_cpu_def set_ram_def get_ctx_def ld32_def aligned4_numeral rpl_def)

text \<open>The words a process switch reads and writes besides the queue.\<close>

definition procs_apart :: "old_env \<Rightarrow> u32 list \<Rightarrow> bool" where
  "procs_apart e ps \<longleftrightarrow> tss_var e + 4 \<noteq> pr_irq_state e
     \<and> (\<forall>x\<in>{tss_var e + 4, pr_irq_state e} \<union> (\<Union>p\<in>set ps. {pr_ifsaved p, pr_pgdir p, pr_kstack p}).
          aligned4 x \<and> x \<notin> list_cells (pr_ready_list e) (map pr_state_node ps) \<and> x \<noteq> pr_cur e
          \<and> x \<notin> set (map pr_status ps) \<and> x \<notin> set (map pr_ticks ps))
     \<and> (\<forall>p\<in>set ps. \<forall>q\<in>set ps. pr_ifsaved p \<notin> {tss_var e + 4, pr_irq_state e, pr_pgdir q, pr_kstack q})"

lemma rotation_store:
  assumes r: "rotation_ok l c n st tk m ts" and a: "aligned4 a" "a \<notin> list_cells l (map n ts)" "a \<noteq> c" "a \<notin> set (map st ts)"
  shows "rotation_ok l c n st tk (st32 m a v) ts"
proof -
  have w: "queue_words l c n st tk ts" and ne: "ts \<noteq> []" using r by (simp_all add: rotation_ok_def)
  have "dlist (st32 m a v) l (map n ts)" using r a(1,2) by (intro dlist_store) (simp_all add: rotation_ok_def)
  moreover have "ld32 (st32 m a v) c = ld32 m c"
    using w a by (intro ld32_st32_other) (simp_all add: queue_words_def Let_def)
  moreover have "ld32 (st32 m a v) (st x) = ld32 m (st x)" if "x \<in> set (tl ts)" for x
  proof -
    have "x \<in> set ts" using that ne by (simp add: list.set_sel(2))
    then show ?thesis using w a by (intro ld32_st32_other) (auto simp: queue_words_def Let_def)
  qed
  ultimately show ?thesis using r by (simp add: rotation_ok_def)
qed

text \<open>The words a tick writes when it ends the slice of the first process.\<close>

definition proc_tick_words :: "old_env \<Rightarrow> u32 list \<Rightarrow> u32 set" where
  "proc_tick_words e ps = list_cells (pr_ready_list e) (map pr_state_node ps) \<union> set (map pr_status ps)
     \<union> {pr_cur e, pr_ticks (hd ps), pr_ifsaved (hd ps), tss_var e + 4}"

text \<open>Up to the switch: the queue is rotated, the registers of the memory management are loaded.\<close>

lemma proc_time_ticks_dispatches:
  assumes q: "proc_queue e (cmem s) (p # ps)" and "ps \<noteq> []" and a: "procs_apart e (p # ps)"
    and "sint (ld32 (cmem s) (pr_ticks p) - 1) \<le> 0"
  shows "\<exists>m. proc_time_ticks e s = Some (proc_switch (hd ps) (s\<lparr>core :=
        irq_leave_protection (irq_status_of (ld32 (cmem s) (pr_irq_state e)))
          ((core s)\<lparr>cr3 := ld32 (cmem s) (pr_pgdir (hd ps)), ram := m\<rparr>)\<rparr>))
    \<and> proc_queue e m (ps @ [p]) \<and> ld32 m (tss_var e + 4) = ld32 (cmem s) (pr_kstack (hd ps))
    \<and> ld32 m (pr_ticks p) = TASK_TICKS_DEFAULT
    \<and> (\<forall>x. aligned4 x \<longrightarrow> x \<notin> proc_tick_words e (p # ps) \<longrightarrow> ld32 m x = ld32 (cmem s) x)"
proof -
  let ?ps = "p # ps" and ?q = "hd ps" and ?left = "ld32 (cmem s) (pr_ticks p) - 1"
  let ?C = "list_cells (pr_ready_list e) (map pr_state_node ?ps)"
  have r: "rotation_ok (pr_ready_list e) (pr_cur e) pr_state_node pr_status pr_ticks (cmem s) ?ps"
    using q by (simp add: proc_queue_def)
  have cur: "cur_proc e (cmem s) = p" using r by (simp add: rotation_ok_def cur_proc_def)
  have qin: "?q \<in> set ?ps" using assms(2) by simp
  obtain m1 where m1: "proc_set_ready e (st32 (cmem s) (pr_ticks p) ?left) p = Some m1"
    and rot: "let m2 = st32 m1 (pr_ticks p) TASK_TICKS_DEFAULT; u = proc_FIFO e m2;
        m3 = st32 (st32 m2 (pr_cur e) u) (pr_status u) (task_status_code TASK_RUNNING)
      in u = hd (ps @ [p]) \<and> ld32 m2 (pr_cur e) = p \<and> ld32 m2 (pr_status u) = task_status_code TASK_READY
        \<and> (u = p \<longleftrightarrow> ps = []) \<and> (ps \<noteq> [] \<longrightarrow> proc_queue e m3 (ps @ [p]) \<and> ld32 m3 (pr_ticks p) = TASK_TICKS_DEFAULT)
        \<and> (\<forall>x. aligned4 x \<and> x \<notin> ?C \<and> x \<notin> set (map pr_status ?ps) \<and> x \<noteq> pr_cur e \<and> x \<noteq> pr_ticks p
            \<longrightarrow> ld32 m3 x = ld32 (cmem s) x)"
    using procs.rotate [OF r, of ?left TASK_TICKS_DEFAULT] unfolding proc_queue_def Let_def by blast
  let ?m2 = "st32 m1 (pr_ticks p) TASK_TICKS_DEFAULT"
  let ?m3 = "st32 (st32 ?m2 (pr_cur e) ?q) (pr_status ?q) (task_status_code TASK_RUNNING)"
  have u: "proc_FIFO e ?m2 = ?q" using rot assms(2) by (simp add: Let_def)
  note rot' = rot [unfolded Let_def u]
  have ne: "?q \<noteq> p" using rot' assms(2) by simp
  have c2: "ld32 ?m2 (pr_cur e) = p" "ld32 ?m2 (pr_status ?q) = task_status_code TASK_READY"
    and q3: "proc_queue e ?m3 (ps @ [p])" "ld32 ?m3 (pr_ticks p) = TASK_TICKS_DEFAULT"
    and keep: "\<And>x. aligned4 x \<Longrightarrow> x \<notin> ?C \<Longrightarrow> x \<notin> set (map pr_status ?ps) \<Longrightarrow> x \<noteq> pr_cur e \<Longrightarrow> x \<noteq> pr_ticks p
      \<Longrightarrow> ld32 ?m3 x = ld32 (cmem s) x"
    using rot' assms(2) by simp_all
  have ex: "aligned4 x" "x \<notin> ?C" "x \<noteq> pr_cur e" "x \<notin> set (map pr_status ?ps)" "x \<notin> set (map pr_ticks ?ps)"
    if "x \<in> {tss_var e + 4, pr_irq_state e, pr_ifsaved p, pr_pgdir ?q, pr_kstack ?q}" for x
  proof -
    have "x \<in> {tss_var e + 4, pr_irq_state e} \<union> (\<Union>p\<in>set ?ps. {pr_ifsaved p, pr_pgdir p, pr_kstack p})"
      using that qin by auto
    then show "aligned4 x" "x \<notin> ?C" "x \<noteq> pr_cur e" "x \<notin> set (map pr_status ?ps)" "x \<notin> set (map pr_ticks ?ps)"
      using a unfolding procs_apart_def by blast+
  qed
  have fs: "\<forall>x\<in>set ?ps. \<forall>y\<in>set ?ps. pr_ifsaved x \<notin> {tss_var e + 4, pr_irq_state e, pr_pgdir y, pr_kstack y}"
    using a unfolding procs_apart_def by blast
  have fi: "pr_ifsaved p \<noteq> x" if "x \<in> {tss_var e + 4, pr_irq_state e, pr_pgdir ?q, pr_kstack ?q}" for x
    using bspec [OF bspec [OF fs, of p] qin] that by auto
  have ti: "tss_var e + 4 \<noteq> pr_irq_state e" using a by (simp add: procs_apart_def)
  let ?m4 = "st32 ?m3 (pr_ifsaved p) UNSAVED_CONTEXT"
  let ?m5 = "st32 ?m4 (tss_var e + 4) (ld32 (cmem s) (pr_kstack ?q))"
  have x4: "ld32 ?m4 x = ld32 (cmem s) x" if "x \<in> {pr_irq_state e, pr_pgdir ?q, pr_kstack ?q}" for x
  proof -
    have "ld32 ?m4 x = ld32 ?m3 x" using that fi ex(1) by (intro ld32_st32_other) auto
    also have "\<dots> = ld32 (cmem s) x" using that ex [of x] by (intro keep) auto
    finally show ?thesis .
  qed
  have x5: "ld32 ?m5 (pr_irq_state e) = ld32 (cmem s) (pr_irq_state e)"
    using ld32_st32_other [OF _ _ ti] ex(1) x4 by simp
  have tk: "ld32 ?m5 (pr_ticks p) = ld32 ?m3 (pr_ticks p)"
  proof -
    have "aligned4 (pr_ticks p)" using r by (simp add: rotation_ok_def queue_words_def Let_def)
    moreover have "pr_ticks p \<noteq> tss_var e + 4" "pr_ticks p \<noteq> pr_ifsaved p" using ex(5) by auto
    ultimately show ?thesis using ex(1) by (simp add: ld32_st32_other)
  qed
  have C: "list_cells (pr_ready_list e) (map pr_state_node (ps @ [p])) = ?C" by (auto simp: list_cells_def list_nodes_def)
  have S: "set (map pr_status (ps @ [p])) = set (map pr_status ?ps)" by auto
  have q4: "rotation_ok (pr_ready_list e) (pr_cur e) pr_state_node pr_status pr_ticks ?m4 (ps @ [p])"
    by (rule rotation_store [OF q3(1) [unfolded proc_queue_def]]; (unfold C S)?; rule ex; simp)
  have q5: "proc_queue e ?m5 (ps @ [p])"
    unfolding proc_queue_def by (rule rotation_store [OF q4]; (unfold C S)?; rule ex; simp)
  have eq: "proc_time_ticks e s = Some (proc_dispatch e (set_ram ?m2 s))"
    using assms(4) cur m1 by (simp add: proc_time_ticks_def Let_def ld32_st32)
  have "proc_dispatch e (set_ram ?m2 s) = proc_switch ?q (s\<lparr>core := irq_leave_protection
      (irq_status_of (ld32 (cmem s) (pr_irq_state e))) ((core s)\<lparr>cr3 := ld32 (cmem s) (pr_pgdir ?q), ram := ?m5\<rparr>)\<rparr>)"
    using ne c2 x5 x4
    by (simp add: proc_dispatch_def Let_def proc_schedule_eq u cur_proc_def set_ram_def switch_pgdir_def wcr3_def
        update_tss_esp0_def set_tss_def)
  moreover have "ld32 ?m5 x = ld32 (cmem s) x" if x: "aligned4 x" "x \<notin> proc_tick_words e ?ps" for x
  proof -
    have "x \<noteq> tss_var e + 4" "x \<noteq> pr_ifsaved p" "ld32 ?m3 x = ld32 (cmem s) x"
      using x keep [of x] by (simp_all add: proc_tick_words_def)
    then show ?thesis using x(1) ex(1) by (simp add: ld32_st32_other)
  qed
  ultimately show ?thesis using eq q5 tk q3(2) by (intro exI [of _ ?m5]) (simp add: ld32_st32)
qed

text \<open>The context of a process lies apart from the words a tick writes.\<close>

definition context_apart :: "old_env \<Rightarrow> mem \<Rightarrow> u32 \<Rightarrow> u32 list \<Rightarrow> bool" where
  "context_apart e m p ps \<longleftrightarrow> (\<forall>x\<in>insert (pr_context p) (range (\<lambda>r. ld32 m (pr_context p) + ctx_offset r)).
     aligned4 x \<and> x \<notin> proc_tick_words e ps)"

lemma context_kept:
  assumes "context_apart e m p ps" "\<And>x. aligned4 x \<Longrightarrow> x \<notin> proc_tick_words e ps \<Longrightarrow> ld32 m' x = ld32 m x"
  shows "get_ctx m' p = get_ctx m p"
proof (rule ext)
  fix r
  have "ld32 m' (pr_context p) = ld32 m (pr_context p)"
    using assms(1) by (intro assms(2)) (simp_all add: context_apart_def)
  moreover have "ld32 m' (ld32 m (pr_context p) + ctx_offset r) = ld32 m (ld32 m (pr_context p) + ctx_offset r)"
    using assms(1) by (intro assms(2)) (simp_all add: context_apart_def)
  ultimately show "get_ctx m' p r = get_ctx m p r" by (simp add: get_ctx_def)
qed

text \<open>
  C16: the processes of the old kernel run in turn.  When the time slice of the running process
  is used up and another process is ready, the queue is rotated, the next process is the
  current one, the page directory register holds its directory and the task-state segment its
  kernel stack.  The processor goes on with its context: every general register, the four data
  segments, the flags, the code segment and the instruction pointer.  The stack is the one of
  the context only when its code is less privileged than the kernel; a process of the kernel
  goes on with the stack of the process before it, eight bytes further down.  The context of
  the next process lies apart from the words the tick writes.
\<close>

theorem proc_time_ticks_switches:
  fixes e s p ps
  defines "v \<equiv> get_ctx (cmem s) (hd ps)"
  assumes "proc_queue e (cmem s) (p # ps)" and "ps \<noteq> []" and "procs_apart e (p # ps)"
    and "sint (ld32 (cmem s) (pr_ticks p) - 1) \<le> 0"
    and "context_apart e (cmem s) (hd ps) (p # ps)" and "aligned4 (esp s)"
  shows "\<exists>m m'. proc_time_ticks e s = Some (s\<lparr>
      core := write_eflags (v C_eflags) ((core s)\<lparr>cr3 := ld32 (cmem s) (pr_pgdir (hd ps)), ram := m'\<rparr>),
      eax := v C_eax, ecx := v C_ecx, edx := v C_edx, ebx := v C_ebx, ebp := v C_ebp, esi := v C_esi, edi := v C_edi,
      ds := ucast (v C_ds), es := ucast (v C_es), fs := ucast (v C_fs), gs := ucast (v C_gs),
      cs := ucast (v C_cs), eip := v C_eip,
      esp := (if rpl (cs s) < rpl (ucast (v C_cs)) then v C_esp else esp s - 8),
      ss := (if rpl (cs s) < rpl (ucast (v C_cs)) then ucast (v C_ss) else ss s)\<rparr>)
    \<and> same_outside (region (esp s - 40) 40) m m'
    \<and> proc_queue e m (ps @ [p]) \<and> ld32 m (tss_var e + 4) = ld32 (cmem s) (pr_kstack (hd ps))
    \<and> ld32 m (pr_ticks p) = TASK_TICKS_DEFAULT"
proof -
  let ?st = "irq_status_of (ld32 (cmem s) (pr_irq_state e))" and ?dir = "ld32 (cmem s) (pr_pgdir (hd ps))"
  obtain m where m: "proc_time_ticks e s = Some (proc_switch (hd ps) (s\<lparr>core :=
      irq_leave_protection ?st ((core s)\<lparr>cr3 := ?dir, ram := m\<rparr>)\<rparr>))"
    "proc_queue e m (ps @ [p])" "ld32 m (tss_var e + 4) = ld32 (cmem s) (pr_kstack (hd ps))"
    "ld32 m (pr_ticks p) = TASK_TICKS_DEFAULT"
    "\<And>x. aligned4 x \<Longrightarrow> x \<notin> proc_tick_words e (p # ps) \<Longrightarrow> ld32 m x = ld32 (cmem s) x"
    using proc_time_ticks_dispatches [OF assms(2-5)] by blast
  let ?s1 = "s\<lparr>core := irq_leave_protection ?st ((core s)\<lparr>cr3 := ?dir, ram := m\<rparr>)\<rparr>"
  have r: "cmem ?s1 = m" "write_eflags f (irq_leave_protection ?st c) = write_eflags f c"
    "(irq_leave_protection ?st c)\<lparr>ram := k\<rparr> = irq_leave_protection ?st (c\<lparr>ram := k\<rparr>)" for f c k
    by (cases ?st; simp add: irq_leave_protection_def irq_set_status_def irq_enable_def irq_disable_def cli_def sti_def
        write_eflags_def Let_def)+
  have v: "get_ctx (cmem ?s1) (hd ps) = v" unfolding r(1) v_def by (rule context_kept [OF assms(6) m(5)])
  from proc_switch_loads [of ?s1 "hd ps", unfolded v] assms(7) obtain m' where m':
    "same_outside (region (esp s - 40) 40) m m'"
    "proc_switch (hd ps) ?s1 = ?s1\<lparr>core := write_eflags (v C_eflags) ((core ?s1)\<lparr>ram := m'\<rparr>),
      eax := v C_eax, ecx := v C_ecx, edx := v C_edx, ebx := v C_ebx, ebp := v C_ebp, esi := v C_esi, edi := v C_edi,
      ds := ucast (v C_ds), es := ucast (v C_es), fs := ucast (v C_fs), gs := ucast (v C_gs),
      cs := ucast (v C_cs), eip := v C_eip,
      esp := (if rpl (cs s) < rpl (ucast (v C_cs)) then v C_esp else esp s - 8),
      ss := (if rpl (cs s) < rpl (ucast (v C_cs)) then ucast (v C_ss) else ss s)\<rparr>"
    using r(1) by auto
  show ?thesis
    by (intro exI [of _ m] exI [of _ m'] conjI m(2-4) m'(1), unfold m(1) m'(2)) (simp add: r(2,3))
qed

text \<open>The sample: the context of the second process is at 0x6000.\<close>

definition sample_procs :: mem where
  "sample_procs = st32 (st32 (sample_rotation 0x1018 0x1000 pr_state_node pr_status pr_ticks)
     (pr_context 0x3000) 0x6000) 0x6034 0x1234"

lemma sample_procs_ok: "proc_queue sample_old sample_procs [0x2000, 0x3000]"
proof -
  have "rotation_ok (pr_ready_list sample_old) (pr_cur sample_old) pr_state_node pr_status pr_ticks
      (sample_rotation 0x1018 0x1000 pr_state_node pr_status pr_ticks) [0x2000, 0x3000]"
    unfolding pr_ready_list_def pr_cur_def sample_old_def old_env.simps
    by (simp, rule sample_rotation_ok) (simp_all add: sample_numeric pr_fields)
  then show ?thesis
    unfolding proc_queue_def sample_procs_def
    by (intro rotation_store) (simp_all add: sample_numeric pr_fields old_lists sample_old_def)
qed

lemma sample_procs_words:
  "ld32 sample_procs (pr_ticks 0x2000) = 1" "ld32 sample_procs (pr_context 0x3000) = 0x6000" "ld32 sample_procs 0x6034 = 0x1234"
  using sample_rotation_tick [of "0x1018" "0x1000" pr_state_node pr_status pr_ticks]
  by (simp_all add: sample_procs_def ld32_st32 ld32_st32_other pr_fields aligned4_numeral)

theorem proc_time_ticks_switches_witness:
  "\<exists>s'. proc_time_ticks sample_old (set_ram sample_procs sample_cpu) = Some s'
    \<and> eip s' = 0x1234 \<and> esp s' = 0x7FF8 \<and> ss s' = 0x2B \<and> cr3 (core s') = ld32 sample_procs (pr_pgdir 0x3000)"
proof -
  let ?s = "set_ram sample_procs sample_cpu" and ?v = "get_ctx sample_procs 0x3000"
  have a: "procs_apart sample_old [0x2000, 0x3000]"
    by (simp add: procs_apart_def sample_old_def pr_fields old_lists list_cells_def list_nodes_def aligned4_numeral)
  have "aligned4 (0x6000 + ctx_offset r) \<and> 0x6000 + ctx_offset r \<notin> proc_tick_words sample_old [0x2000, 0x3000]" for r
    by (cases r) (simp_all add: proc_tick_words_def sample_old_def pr_fields old_lists list_cells_def list_nodes_def aligned4_numeral)
  then have c: "context_apart sample_old sample_procs 0x3000 [0x2000, 0x3000]"
    by (auto simp: context_apart_def sample_procs_words)
      (simp_all add: proc_tick_words_def sample_old_def pr_fields old_lists list_cells_def list_nodes_def aligned4_numeral)
  have f: "cmem ?s = sample_procs" "esp ?s = 0x8000" "ss ?s = 0x2B" "rpl (cs ?s) = 3" "?v C_eip = 0x1234"
    by (simp_all add: set_ram_def sample_cpu_def rpl_def get_ctx_def sample_procs_words)
  have k: "\<not> 3 < rpl x" for x
  proof -
    have "rpl x \<le> 3" unfolding rpl_def by (rule word_and_le1)
    then show ?thesis by simp
  qed
  show ?thesis
    using proc_time_ticks_switches [of sample_old ?s "0x2000" "[0x3000]", unfolded f] a c sample_procs_ok
    by (auto simp: sample_procs_words aligned4_numeral k f write_eflags_def)
qed

end
