(* ===== verification/Tss_Old.thy ===== *)
theory Tss_Old
  imports Task_Old
begin

text \<open>
  The second scheduler of the kernel, \<open>source/kernel/tss_old/tss_old.c\<close>: tasks that switch
  through task-state segments, with a first-in first-out ready queue.  \<open>sys_fork\<close> still
  creates its tasks here.
\<close>

unbundle bit_operations_syntax

section \<open>Data\<close>

text \<open>\<open>task_t\<close> of \<open>tss_old.h\<close>, 148 bytes, and \<open>task_manage_t\<close>.\<close>

definition tk_status :: "u32 \<Rightarrow> u32" where "tk_status p = p"
definition tk_tss :: "u32 \<Rightarrow> u32" where "tk_tss p = p + 4"
definition tk_tss_sel :: "u32 \<Rightarrow> u32" where "tk_tss_sel p = p + 108"
definition tk_ifkernel :: "u32 \<Rightarrow> u32" where "tk_ifkernel p = p + 112"
definition tk_parent :: "u32 \<Rightarrow> u32" where "tk_parent p = p + 116"
definition tk_state_node :: "u32 \<Rightarrow> u32" where "tk_state_node p = p + 120"
definition tk_general_node :: "u32 \<Rightarrow> u32" where "tk_general_node p = p + 128"
definition tk_pid :: "u32 \<Rightarrow> u32" where "tk_pid p = p + 136"
definition tk_ticks :: "u32 \<Rightarrow> u32" where "tk_ticks p = p + 140"
definition tk_default_ticks :: "u32 \<Rightarrow> u32" where "tk_default_ticks p = p + 144"

definition tk_cur :: "old_env \<Rightarrow> u32" where "tk_cur e = task_manage e"
definition tk_general_list :: "old_env \<Rightarrow> u32" where "tk_general_list e = task_manage e + 4"
definition tk_ready_list :: "old_env \<Rightarrow> u32" where "tk_ready_list e = task_manage e + 24"
definition tk_sleep_list :: "old_env \<Rightarrow> u32" where "tk_sleep_list e = task_manage e + 44"

lemmas tk_fields = tk_status_def tk_tss_def tk_tss_sel_def tk_ifkernel_def tk_parent_def tk_state_node_def
  tk_general_node_def tk_pid_def tk_ticks_def tk_default_ticks_def
lemmas tk_lists = tk_cur_def tk_general_list_def tk_ready_list_def tk_sleep_list_def

definition put_tss :: "u32 \<Rightarrow> tss_reg \<Rightarrow> u32 \<Rightarrow> mem \<Rightarrow> mem" where
  "put_tss task r v m = st32 m (tk_tss task + tss_offset r) v"

section \<open>Queues and switching\<close>

definition task_set_general :: "old_env \<Rightarrow> mem \<Rightarrow> u32 \<Rightarrow> mem" where
  "task_set_general e m task = klist_append m (tk_general_list e) (tk_general_node task)"

definition task_set_ready_old :: "old_env \<Rightarrow> mem \<Rightarrow> u32 \<Rightarrow> mem option" where
  "task_set_ready_old e m task = map_option (\<lambda>(_, m).
     let m = st32 m (tk_status task) (task_status_code TASK_READY)
     in klist_append m (tk_ready_list e) (tk_state_node task))
    (klist_remove m (tk_ready_list e) (tk_state_node task))"

definition cur_task :: "old_env \<Rightarrow> mem \<Rightarrow> u32" where "cur_task e m = ld32 m (tk_cur e)"

definition task_FIFO :: "old_env \<Rightarrow> mem \<Rightarrow> u32" where
  "task_FIFO e m =
    (let next_node = klist_get_first_node m (tk_ready_list e) in struct_addr next_node (tk_state_node 0))"

definition task_schedule :: "old_env \<Rightarrow> mem \<Rightarrow> u32" where
  "task_schedule e m = (if SCHEDULE_SECTIONS = THREAD_FIFO then task_FIFO e m else 0)"

definition switch_to_tss_old :: "c_int \<Rightarrow> machine \<Rightarrow> machine" where
  "switch_to_tss_old tss_sel s = far_jmp tss_sel 0 s"

definition task_switch_from_to_old :: "u32 \<Rightarrow> u32 \<Rightarrow> machine \<Rightarrow> machine" where
  "task_switch_from_to_old from_task to_task s = switch_to_tss_old (ld32 (ram s) (tk_tss_sel to_task)) s"

definition task_dispatch_old :: "old_env \<Rightarrow> machine \<Rightarrow> machine" where
  "task_dispatch_old e s =
    (let m = ram s; cur = cur_task e m; next = task_schedule e m
     in if next \<noteq> cur \<and> ld32 m (tk_status next) = task_status_code TASK_READY then
          let m = st32 m (tk_cur e) next;
              m = st32 m (tk_status next) (task_status_code TASK_RUNNING)
          in task_switch_from_to_old cur next (s\<lparr>ram := m\<rparr>)
        else if klist_len m (tk_ready_list e) = 1 then s
        else s)"

definition task_set_block_old :: "old_env \<Rightarrow> u32 \<Rightarrow> machine \<Rightarrow> machine" where
  "task_set_block_old e task s =
    task_dispatch_old e (s\<lparr>ram := st32 (ram s) (tk_status task) (task_status_code TASK_BLOCKED)\<rparr>)"

definition task_time_ticks :: "old_env \<Rightarrow> machine \<Rightarrow> machine option" where
  "task_time_ticks e s =
    (case irq_enter_protection s of (state, s) \<Rightarrow>
      let cur = cur_task e (ram s);
          m = st32 (ram s) (tk_ticks cur) (ld32 (ram s) (tk_ticks cur) - 1)
      in map_option (irq_leave_protection state)
          (if sint (ld32 m (tk_ticks cur)) \<le> 0 then
             map_option (\<lambda>m. task_dispatch_old e (s\<lparr>ram := st32 m (tk_ticks cur) (ld32 m (tk_default_ticks cur))\<rparr>))
               (task_set_ready_old e m cur)
           else Some (s\<lparr>ram := m\<rparr>)))"

section \<open>Creating tasks\<close>

definition init_tss :: "old_env \<Rightarrow> mem \<Rightarrow> u32 \<Rightarrow> u32 \<Rightarrow> c_int \<Rightarrow> mem \<times> c_int" where
  "init_tss e m task eip0 ifkernel =
    (let tss_sel = gdt_alloc_seg (old_gdt e) m;
         m = gdt_segment_set (old_gdt e) m (ucast tss_sel) sizeof_tss (tk_tss task)
               (SEG_S_SYSTEM OR SEG_TYPE_TSS OR SEG_DPL0 OR SEG_P_PRESENT);
         m = kmemset m (tk_tss task) 0 sizeof_tss
     in case kalloc_pages (pages e) m 1 of (m, kernel_stack) \<Rightarrow>
      let m = put_tss task Eip eip0 m;
          m = put_tss task Esp0 kernel_stack m;
          m = put_tss task Ss0 (ucast KERNEL_SELECTOR_DS) m;
          m = (if ifkernel = ucast KERNEL_PROC then
                 (case kalloc_pages (pages e) m 1 of (m, stk) \<Rightarrow>
                   let m = put_tss task Esp stk m;
                       m = fold (\<lambda>r. put_tss task r (ucast KERNEL_SELECTOR_DS)) [Gs, Fs, Ds, Es, Ss] m;
                       m = put_tss task Cs (ucast KERNEL_SELECTOR_CS) m
                   in put_tss task Cr3 (kernel_table e) m)
               else
                 (case ualloc_pages (pages e) m 1 of (m, stk) \<Rightarrow>
                   let m = put_tss task Esp stk m;
                       m = fold (\<lambda>r. put_tss task r (ucast USER_SELECTOR_DS)) [Gs, Fs, Ds, Es, Ss] m;
                       m = put_tss task Cs (ucast USER_SELECTOR_CS) m
                   in case create_page_table (pages e) m (kernel_table e) of (m, dir) \<Rightarrow> put_tss task Cr3 dir m));
          m = put_tss task Eflags (ELFAGS_MBS OR EFLAGS_IF) m;
          m = st32 m (tk_tss_sel task) tss_sel
      in (m, 0))"

definition tss_task_init :: "old_env \<Rightarrow> machine \<Rightarrow> machine option" where
  "tss_task_init e s =
    (let m = klist_init (ram s) (tk_ready_list e);
         m = klist_init m (tk_sleep_list e);
         m = klist_init m (tk_general_list e)
     in case irq_enter_protection (s\<lparr>ram := m\<rparr>) of (status, s) \<Rightarrow>
        case kalloc_pages (pages e) (ram s) 1 of (m, task) \<Rightarrow>
      let m = st32 m (tk_default_ticks task) TASK_TICKS_DEFAULT;
          m = st32 m (tk_ticks task) TASK_TICKS_DEFAULT
      in case alloc_pid e m of (m, pid) \<Rightarrow>
        let m = st32 m (tk_pid task) pid;
            m = st32 m (tk_cur e) task;
            m = st32 m (tk_ifkernel task) (ucast KERNEL_PROC);
            m = st32 m (tk_parent task) 0;
            m = task_set_general e m task
        in map_option (\<lambda>m.
             let m = st32 m (tk_status task) (task_status_code TASK_RUNNING);
                 m = fst (init_tss e m task 0 (ld32 m (tk_ifkernel task)));
                 s = ltr (ld32 m (tk_tss_sel task)) (s\<lparr>ram := m\<rparr>)
             in irq_leave_protection status s)
            (task_set_ready_old e m task))"

definition init_task :: "old_env \<Rightarrow> u32 \<Rightarrow> machine \<Rightarrow> (machine \<times> u32) option" where
  "init_task e eip0 s =
    (case irq_enter_protection s of (status, s) \<Rightarrow>
     case kalloc_pages (pages e) (ram s) 1 of (m, task) \<Rightarrow>
      let m = st32 m (tk_default_ticks task) TASK_TICKS_DEFAULT;
          m = st32 m (tk_ticks task) TASK_TICKS_DEFAULT
      in case alloc_pid e m of (m, pid) \<Rightarrow>
        let m = st32 m (tk_pid task) pid;
            m = st32 m (tk_ifkernel task) (ucast USER_PROC);
            m = st32 m (tk_parent task) 0;
            m = task_set_general e m task
        in map_option (\<lambda>m.
             let m = fst (init_tss e m task eip0 (ld32 m (tk_ifkernel task)))
             in (irq_leave_protection status (s\<lparr>ram := m\<rparr>), task))
            (task_set_ready_old e m task))"

text \<open>The first process, in \<open>task_old.c\<close>.\<close>

definition first_proc_init :: "old_env \<Rightarrow> u32 \<Rightarrow> machine \<Rightarrow> machine option" where
  "first_proc_init e first_task_entry s = map_option fst (init_task e first_task_entry s)"

section \<open>Time slices of tasks\<close>

interpretation old_tasks: ready_queue "tk_ready_list e" "tk_cur e" "tk_state_node 0" tk_state_node tk_status tk_ticks
    "task_set_ready_old e" "task_FIFO e" for e
  by unfold_locales (simp_all add: task_set_ready_old_def task_FIFO_def Let_def tk_fields)

definition task_queue :: "old_env \<Rightarrow> mem \<Rightarrow> u32 list \<Rightarrow> bool" where
  "task_queue e m ts \<longleftrightarrow> rotation_ok (tk_ready_list e) (tk_cur e) tk_state_node tk_status tk_ticks m ts"

lemma task_schedule_eq: "task_schedule e m = task_FIFO e m"
  by (simp add: task_schedule_def SCHEDULE_SECTIONS_def)

definition task_words_apart :: "old_env \<Rightarrow> u32 list \<Rightarrow> bool" where
  "task_words_apart e ts \<longleftrightarrow> (\<forall>x\<in>(\<Union>t\<in>set ts. {tk_default_ticks t, tk_tss_sel t}).
     aligned4 x \<and> x \<notin> list_cells (tk_ready_list e) (map tk_state_node ts) \<and> x \<noteq> tk_cur e
     \<and> x \<notin> set (map tk_status ts) \<and> x \<notin> set (map tk_ticks ts))"

text \<open>
  the tasks of the second scheduler run in turn: a tick takes one from the counter of the
  running task; when none is left the task goes to the end of the queue, its counter is set to
  its own default, and if another task waits the processor jumps to the task-state segment of
  the first one.  Nothing else is jumped to, and the interrupt flag is as before.
\<close>

theorem task_time_ticks_rotates:
  fixes e s t ts
  defines "left \<equiv> ld32 (ram s) (tk_ticks t) - 1"
  assumes "task_queue e (ram s) (t # ts)" and "task_words_apart e (t # ts)"
  shows "\<exists>s'. task_time_ticks e s = Some s'
    \<and> task_queue e (ram s') (if sint left \<le> 0 then ts @ [t] else t # ts)
    \<and> ld32 (ram s') (tk_ticks t) = (if sint left \<le> 0 then ld32 (ram s) (tk_default_ticks t) else left)
    \<and> trace s' = trace s @ (if sint left \<le> 0 \<and> ts \<noteq> [] then [FarJmp (ld32 (ram s) (tk_tss_sel (hd ts))) 0] else [])
    \<and> get_irq_status s' = get_irq_status s"
proof -
  obtain st s0 where p: "irq_enter_protection s = (st, s0)" by fastforce
  have s0: "ram s0 = ram s" "trace s0 = trace s" using irq_keeps(1,2) [of s] p by simp_all
  have irq: "get_irq_status (irq_leave_protection st x) = get_irq_status s" for x
    using irq_restore [of s x] p by simp
  have r: "rotation_ok (tk_ready_list e) (tk_cur e) tk_state_node tk_status tk_ticks (ram s) (t # ts)"
    using assms(2) by (simp add: task_queue_def)
  have cur: "cur_task e (ram s) = t" using r by (simp add: rotation_ok_def cur_task_def)
  show ?thesis
  proof (cases "sint left \<le> 0")
    case False
    let ?m = "st32 (ram s) (tk_ticks t) left"
    have "task_queue e ?m (t # ts)" using rotation_tick assms(2) by (simp add: task_queue_def)
    moreover have "task_time_ticks e s = Some (irq_leave_protection st (s0\<lparr>ram := ?m\<rparr>))"
      using False cur by (simp add: task_time_ticks_def p s0 Let_def ld32_st32 left_def)
    ultimately show ?thesis using False irq s0 by (simp add: ld32_st32)
  next
    case True
    let ?d = "ld32 (ram s) (tk_default_ticks t)" and ?C = "list_cells (tk_ready_list e) (map tk_state_node (t # ts))"
    obtain m1 where m1: "task_set_ready_old e (st32 (ram s) (tk_ticks t) left) t = Some m1"
      and rot: "let m2 = st32 m1 (tk_ticks t) ?d; u = task_FIFO e m2;
          m3 = st32 (st32 m2 (tk_cur e) u) (tk_status u) (task_status_code TASK_RUNNING)
        in u = hd (ts @ [t]) \<and> ld32 m2 (tk_cur e) = t \<and> ld32 m2 (tk_status u) = task_status_code TASK_READY
          \<and> (u = t \<longleftrightarrow> ts = []) \<and> ld32 m2 (tk_ticks t) = ?d \<and> (ts = [] \<longrightarrow> task_queue e m2 [t])
          \<and> (ts \<noteq> [] \<longrightarrow> task_queue e m3 (ts @ [t]) \<and> ld32 m3 (tk_ticks t) = ?d)
          \<and> (\<forall>x. aligned4 x \<and> x \<notin> ?C \<and> x \<notin> set (map tk_status (t # ts)) \<and> x \<noteq> tk_cur e \<and> x \<noteq> tk_ticks t
              \<longrightarrow> ld32 m2 x = ld32 (ram s) x \<and> ld32 m3 x = ld32 (ram s) x)"
      using old_tasks.rotate [OF r, of left ?d] unfolding task_queue_def Let_def by blast
    let ?m2 = "st32 m1 (tk_ticks t) ?d" let ?u = "hd (ts @ [t])"
    let ?m3 = "st32 (st32 ?m2 (tk_cur e) ?u) (tk_status ?u) (task_status_code TASK_RUNNING)"
    have u: "task_FIFO e ?m2 = ?u" using rot by (simp only: Let_def)
    note rot' = rot [unfolded Let_def u]
    have ap: "aligned4 x \<and> x \<notin> ?C \<and> x \<noteq> tk_cur e \<and> x \<notin> set (map tk_status (t # ts)) \<and> x \<notin> set (map tk_ticks (t # ts))"
      if "x \<in> (\<Union>t\<in>set (t # ts). {tk_default_ticks t, tk_tss_sel t})" for x
      using assms(3) that unfolding task_words_apart_def by blast
    have dt: "aligned4 (tk_default_ticks t) \<and> tk_default_ticks t \<noteq> tk_ticks t" "aligned4 (tk_ticks t)"
      using ap [of "tk_default_ticks t"] r by (auto simp: rotation_ok_def queue_words_def Let_def)
    have "ld32 ?m2 (tk_default_ticks t) = ?d" using rot' ap [of "tk_default_ticks t"] by auto
    moreover have "ld32 ?m2 (tk_default_ticks t) = ld32 m1 (tk_default_ticks t)"
      using ld32_st32_other [OF dt(2) dt(1) [THEN conjunct1]] dt(1) by (simp add: eq_commute)
    ultimately have d1: "ld32 m1 (tk_default_ticks t) = ?d" by simp
    have eq: "task_time_ticks e s = Some (irq_leave_protection st (task_dispatch_old e (s0\<lparr>ram := ?m2\<rparr>)))"
      using True cur m1 d1 by (simp add: task_time_ticks_def p s0 Let_def ld32_st32 left_def)
    show ?thesis
    proof (cases "ts = []")
      case ts: True
      then have "task_dispatch_old e (s0\<lparr>ram := ?m2\<rparr>) = s0\<lparr>ram := ?m2\<rparr>"
        using rot' by (simp add: task_dispatch_old_def Let_def task_schedule_eq u cur_task_def)
      with eq ts True rot' irq s0 show ?thesis by simp
    next
      case ts: False
      then have hd_in: "?u = hd ts" "hd ts \<in> set (t # ts)" by simp_all
      have "task_dispatch_old e (s0\<lparr>ram := ?m2\<rparr>) = task_switch_from_to_old t ?u (s0\<lparr>ram := ?m3\<rparr>)"
        using rot' ts by (simp add: task_dispatch_old_def Let_def task_schedule_eq u cur_task_def)
      moreover have "ld32 ?m3 (tk_tss_sel ?u) = ld32 (ram s) (tk_tss_sel (hd ts))"
        using rot' ap [of "tk_tss_sel (hd ts)"] hd_in by auto
      ultimately show ?thesis
        using eq ts True rot' irq s0 by (simp add: task_switch_from_to_old_def switch_to_tss_old_def far_jmp_def)
    qed
  qed
qed

definition sample_tasks :: mem where
  "sample_tasks = sample_rotation 0x1018 0x1000 tk_state_node tk_status tk_ticks"

lemma sample_tasks_ok: "task_queue sample_old sample_tasks [0x2000, 0x3000]"
  unfolding task_queue_def sample_tasks_def tk_ready_list_def tk_cur_def sample_old_def old_env.simps
  by (simp, rule sample_rotation_ok) (simp_all add: sample_numeric tk_fields)

theorem task_time_ticks_rotates_witness:
  "\<exists>s'. task_time_ticks sample_old (sample_machine\<lparr>ram := sample_tasks\<rparr>) = Some s'
    \<and> task_queue sample_old (ram s') [0x3000, 0x2000]
    \<and> trace s' = trace sample_machine @ [FarJmp (ld32 sample_tasks 0x306C) 0]"
proof -
  have a: "task_words_apart sample_old [0x2000, 0x3000]"
    by (simp add: task_words_apart_def sample_old_def tk_fields tk_lists list_cells_def list_nodes_def aligned4_numeral)
  have t: "ld32 (ram (sample_machine\<lparr>ram := sample_tasks\<rparr>)) (tk_ticks 0x2000) = 1" by (simp add: sample_tasks_def)
  show ?thesis
    using task_time_ticks_rotates [of sample_old "sample_machine\<lparr>ram := sample_tasks\<rparr>" "0x2000" "[0x3000]", unfolded t]
      a sample_tasks_ok by (auto simp: tk_tss_sel_def)
qed

end
