(* ===== verification/Syscall.thy ===== *)
theory Syscall
  imports Tss_Old
begin

text \<open>
  The system calls of \<open>source/kernel/syscall/syscall.c\<close> and the macros of \<open>syscall.h\<close> that
  make them.  A routine is given the address of the frame the entry in \<open>start.S\<close> builds; its
  fields are read where the C code reads them.
\<close>

unbundle bit_operations_syntax

section \<open>The routines\<close>

definition NSYSCALL :: nat where "NSYSCALL = 20"
definition SYS_GETPID :: u32 where "SYS_GETPID = 0"
definition SYS_WRITE :: u32 where "SYS_WRITE = 1"
definition SYS_READ :: u32 where "SYS_READ = 2"
definition SYS_FORK :: u32 where "SYS_FORK = 3"
definition SYS_MALLOC :: u32 where "SYS_MALLOC = 4"
definition SYS_PUTCHAR :: u32 where "SYS_PUTCHAR = 5"

lemmas sys_numbers = SYS_GETPID_def SYS_WRITE_def SYS_READ_def SYS_FORK_def SYS_MALLOC_def SYS_PUTCHAR_def

definition sys_getpid :: "old_env \<Rightarrow> machine \<Rightarrow> machine \<times> c_int" where
  "sys_getpid e s = (let cur = cur_proc e (ram s) in (s, ld32 (ram s) (pr_pid cur)))"

definition sys_write :: "machine \<Rightarrow> machine" where "sys_write s = hlt s"
definition sys_read :: "machine \<Rightarrow> machine" where "sys_read s = hlt s"
definition sys_malloc :: "machine \<Rightarrow> machine" where "sys_malloc s = hlt s"
definition sys_putchar :: "machine \<Rightarrow> machine" where "sys_putchar s = hlt s"

definition irq_status_code :: "irq_status \<Rightarrow> u32" where
  "irq_status_code st = (if st = INTR_ON then 0 else 1)"

text \<open>The offsets of the fields of \<open>syscall_frame_t\<close> the routine copies, and where they go.\<close>

definition fork_copies :: "(tss_reg \<times> u32) list" where
  "fork_copies = [(Gs, 12), (Fs, 16), (Es, 20), (Ds, 24), (Edi, 28), (Esi, 32), (Ebp, 36), (Esp, 40),
     (Ebx, 44), (Edx, 48), (Ecx, 52), (Eip, 68), (Cs, 72), (Eflags, 76)]"

definition sys_fork :: "old_env \<Rightarrow> u32 \<Rightarrow> machine \<Rightarrow> (machine \<times> c_int) option" where
  "sys_fork e sys_frame s =
    (let cur = cur_task e (ram s) in
     Option.bind (init_task e (ld32 (ram s) (sys_frame + 68)) s) (\<lambda>(s, new_task).
       case irq_enter_protection s of (status, s) \<Rightarrow>
        let m = st32 (ram s) (pr_irq_state e) (irq_status_code status);
            m = fold (\<lambda>(r, off) m. put_tss new_task r (ld32 m (sys_frame + off)) m) fork_copies m;
            m = st32 m (tk_parent new_task) cur;
            m = st32 m (tk_ifkernel new_task) (ld32 m (tk_ifkernel cur));
            m = put_tss new_task Eax 0 m;
            s = irq_leave_protection (irq_status_of (ld32 m (pr_irq_state e))) (s\<lparr>ram := m\<rparr>)
        in Some (s, ld32 (ram s) (tk_pid new_task))))"

text \<open>The table, filled with the addresses of the routines.\<close>

datatype sys_routine = Sys_getpid | Sys_write | Sys_read | Sys_fork | Sys_malloc | Sys_putchar

definition syscall_init :: "u32 \<Rightarrow> (sys_routine \<Rightarrow> u32) \<Rightarrow> mem \<Rightarrow> mem" where
  "syscall_init syscall_table addr m =
    (let m = st32 m (syscall_table + 4 * SYS_GETPID) (addr Sys_getpid);
         m = st32 m (syscall_table + 4 * SYS_WRITE) (addr Sys_write);
         m = st32 m (syscall_table + 4 * SYS_READ) (addr Sys_read);
         m = st32 m (syscall_table + 4 * SYS_FORK) (addr Sys_fork);
         m = st32 m (syscall_table + 4 * SYS_MALLOC) (addr Sys_malloc)
     in st32 m (syscall_table + 4 * SYS_PUTCHAR) (addr Sys_putchar))"

section \<open>Making a call\<close>

text \<open>
  The software interrupt 0x80 as user code sees it: through the gate on the stack of the
  task-state segment, and back with the result in \<open>eax\<close>.
\<close>

definition int80 :: "u32 \<Rightarrow> u16 \<Rightarrow> u32 \<Rightarrow> u32 \<Rightarrow> (u32 \<Rightarrow> cpu \<Rightarrow> cpu option) \<Rightarrow> cpu \<Rightarrow> cpu option" where
  "int80 esp0 ss0 gate_eip table routine s =
    syscall_handler table routine (arrive esp0 ss0 KERNEL_SELECTOR_CS gate_eip None s)"

definition syscall0 :: "(cpu \<Rightarrow> cpu option) \<Rightarrow> u32 \<Rightarrow> cpu \<Rightarrow> (cpu \<times> c_int) option" where
  "syscall0 trap n s = map_option (\<lambda>s. (s, eax s)) (trap (s\<lparr>eax := n\<rparr>))"

definition syscall1 :: "(cpu \<Rightarrow> cpu option) \<Rightarrow> u32 \<Rightarrow> u32 \<Rightarrow> cpu \<Rightarrow> (cpu \<times> c_int) option" where
  "syscall1 trap n a1 s = map_option (\<lambda>s. (s, eax s)) (trap (s\<lparr>eax := n, ebx := a1\<rparr>))"

definition syscall2 :: "(cpu \<Rightarrow> cpu option) \<Rightarrow> u32 \<Rightarrow> u32 \<Rightarrow> u32 \<Rightarrow> cpu \<Rightarrow> (cpu \<times> c_int) option" where
  "syscall2 trap n a1 a2 s = map_option (\<lambda>s. (s, eax s)) (trap (s\<lparr>eax := n, ebx := a1, ecx := a2\<rparr>))"

definition syscall3 :: "(cpu \<Rightarrow> cpu option) \<Rightarrow> u32 \<Rightarrow> u32 \<Rightarrow> u32 \<Rightarrow> u32 \<Rightarrow> cpu \<Rightarrow> (cpu \<times> c_int) option" where
  "syscall3 trap n a1 a2 a3 s =
    map_option (\<lambda>s. (s, eax s)) (trap (s\<lparr>eax := n, ebx := a1, ecx := a2, edx := a3\<rparr>))"

text \<open>The wrappers of \<open>task_old.c\<close>.\<close>

definition fork :: "(cpu \<Rightarrow> cpu option) \<Rightarrow> cpu \<Rightarrow> (cpu \<times> c_int) option" where
  "fork trap s = syscall0 trap SYS_FORK s"

definition get_pid :: "(cpu \<Rightarrow> cpu option) \<Rightarrow> cpu \<Rightarrow> (cpu \<times> c_int) option" where
  "get_pid trap s = syscall0 trap SYS_GETPID s"

section \<open>The table\<close>

fun sys_number :: "sys_routine \<Rightarrow> u32" where
  "sys_number Sys_getpid = SYS_GETPID" | "sys_number Sys_write = SYS_WRITE" | "sys_number Sys_read = SYS_READ"
| "sys_number Sys_fork = SYS_FORK" | "sys_number Sys_malloc = SYS_MALLOC" | "sys_number Sys_putchar = SYS_PUTCHAR"

text \<open>
  after \<open>syscall_init\<close> the six numbers of the header select their routines, and nothing
  but the first six entries of the table has changed: the other fourteen stay as they were.
\<close>

theorem syscall_init_table:
  assumes "aligned4 t"
  shows "ld32 (syscall_init t addr m) (t + 4 * sys_number r) = addr r
    \<and> unchanged_outside {t, t + 4, t + 8, t + 12, t + 16, t + 20} m (syscall_init t addr m)"
proof
  have al: "aligned4 (t + 4)" "aligned4 (t + 8)" "aligned4 (t + 12)" "aligned4 (t + 16)" "aligned4 (t + 20)"
    using assms by (simp_all add: align_simps)
  show "ld32 (syscall_init t addr m) (t + 4 * sys_number r) = addr r"
    using assms al by (cases r) (simp_all add: syscall_init_def sys_numbers Let_def ld32_st32 ld32_st32_other)
  show "unchanged_outside {t, t + 4, t + 8, t + 12, t + 16, t + 20} m (syscall_init t addr m)"
    by (auto simp: syscall_init_def sys_numbers Let_def intro!: frame_intros)
qed

theorem syscall_init_table_witness: "ld32 (syscall_init 0x5000 (\<lambda>_. 7) (\<lambda>_. 0)) 0x500C = 7"
  using syscall_init_table [of "0x5000" "\<lambda>_. 7" "\<lambda>_. 0" Sys_fork] by (simp add: aligned4_numeral SYS_FORK_def)

section \<open>A system call from end to end\<close>

text \<open>
  The state a routine starts in, with the return address pushed, when \<open>t\<close> is the state behind
  the gate: only the top of the kernel's stack has been written, and the caller's registers lie
  there.
\<close>

definition routine_start :: "cpu \<Rightarrow> u32 \<Rightarrow> u32 \<Rightarrow> cpu" where
  "routine_start t table n = (let u = (syscall_save t)\<lparr>ebx := table, eax := n\<rparr> in push (eip u) u)"

definition call_stack :: "cpu \<Rightarrow> u32 set" where "call_stack t = region (esp t - 76) 96"

lemma call_stack_parts:
  "call_stack t = region (esp t - 76) 4 \<union> region (esp t - 72) 92" "region (esp t - 76) 4 \<inter> region (esp t - 72) 92 = {}"
  "word_bytes (esp t - 76) \<subseteq> region (esp t - 76) 4" "word_bytes (esp t - 12) \<subseteq> call_stack t"
  using region_add [of "esp t - 76" 4 92] region_add_disjoint [of 4 92 "esp t - 76"] word_in_region [of 0 4 _ "esp t - 76"]
    word_in_region [of 64 96 _ "esp t - 76"] by (auto simp: call_stack_def)

lemma routine_start_state:
  fixes esp0 ss0 gate_cs gate_eip s table n
  defines "t \<equiv> arrive esp0 ss0 gate_cs gate_eip None s"
  defines "v \<equiv> routine_start t table n"
  shows "x \<notin> call_stack t \<Longrightarrow> cmem v x = cmem s x" "\<exists>m. core v = (cli (core s))\<lparr>ram := m\<rparr>"
    "aligned4 (esp t) \<Longrightarrow> words_at (cmem v) (esp t - 72) (syscall_words t @ saved_state gate_cs None s)"
proof -
  let ?u = "(syscall_save t)\<lparr>ebx := table, eax := n\<rparr>"
  have eu: "esp ?u = esp t - 72" by (simp add: syscall_save_pushes)
  have v: "v = push (eip ?u) ?u" by (simp add: v_def routine_start_def Let_def)
  have top: "cmem v x = cmem ?u x" if "x \<notin> region (esp t - 76) 4" for x
  proof -
    have "x \<notin> word_bytes (esp ?u - 4)" using that call_stack_parts(3) [of t] eu by auto
    then show ?thesis by (simp add: v st32_other_byte)
  qed
  show "cmem v x = cmem s x" if "x \<notin> call_stack t"
    using that top call_stack_parts(1) [of t] syscall_save_other [of x esp0 ss0 gate_cs gate_eip s] eu by (auto simp: t_def)
  show "words_at (cmem v) (esp t - 72) (syscall_words t @ saved_state gate_cs None s)" if al: "aligned4 (esp t)"
  proof (rule words_at_cong)
    have "stack_top t (saved_state gate_cs None s)" using stack_arrive al unfolding t_def by blast
    then have "stack_top (syscall_save t) (syscall_words t @ saved_state gate_cs None s)"
      unfolding syscall_save_pushes by (intro stack_pushes [THEN conjunct1] al) (simp_all add: length_saved_state)
    then show "words_at (cmem ?u) (esp t - 72) (syscall_words t @ saved_state gate_cs None s)"
      using eu by (simp add: stack_top_def)
    fix x assume "x \<in> region (esp t - 72) (4 * length (syscall_words t @ saved_state gate_cs None s))"
    moreover have "4 * length (syscall_words t @ saved_state gate_cs None s) \<le> 92" by (simp add: saved_state_def)
    ultimately have "x \<in> region (esp t - 72) 92" using region_mono by blast
    then show "cmem v x = cmem ?u x" using call_stack_parts(2) [of t] by (intro top) blast
  qed
  let ?s = "if rpl gate_cs < rpl (cs s) then s\<lparr>esp := esp0, ss := ss0\<rparr> else s"
  obtain m where m: "core (pushes (saved_state gate_cs None s) ?s) = (core s)\<lparr>ram := m\<rparr>"
    using core_pushes [of "saved_state gate_cs None s" ?s] by (auto split: if_splits)
  obtain m' where "core (syscall_save t) = (core t)\<lparr>ram := m'\<rparr>" using core_pushes unfolding syscall_save_pushes by blast
  then have "core (syscall_save t) = (cli (core s))\<lparr>ram := m'\<rparr>"
    using m by (simp add: t_def arrive_pushes Let_def cli_def write_eflags_def)
  then show "\<exists>m. core v = (cli (core s))\<lparr>ram := m\<rparr>" by (auto simp: v push_def)
qed

text \<open>
  A call whose routine keeps off the stack the processor and the entry code use: its result is in
  \<open>eax\<close>, the rest of the machine is what it left, with the result also in the place of the saved \<open>eax\<close>.
\<close>

lemma int80_runs:
  fixes esp0 ss0 gate_eip s table
  defines "t \<equiv> arrive esp0 ss0 KERNEL_SELECTOR_CS gate_eip None s"
  defines "v \<equiv> routine_start t table (ld32 (cmem s) (table + 4 * eax s))"
  assumes al: "aligned4 (esp t)" and tab: "word_bytes (table + 4 * eax s) \<inter> call_stack t = {}"
    and r: "routine (ld32 (cmem s) (table + 4 * eax s)) = of_c1 scr h"
    and run: "h (esp t - 68) (core v) = Some (m', res)" and keep: "\<forall>x\<in>call_stack t. ram m' x = cmem v x"
  shows "int80 esp0 ss0 gate_eip table routine s = Some (s\<lparr>eax := res,
    core := write_eflags (eflags (core s)) (m'\<lparr>ram := st32 (ram m') (esp t - 12) res\<rparr>)\<rparr>)"
proof -
  let ?u = "(syscall_save t)\<lparr>ebx := table, eax := ld32 (cmem s) (table + 4 * eax s)\<rparr>"
  have eu: "esp ?u = esp t - 72" by (simp add: syscall_save_pushes)
  have v: "v = push (eip ?u) ?u" by (simp add: v_def routine_start_def Let_def)
  have "ld32 (cmem v) (esp t - 72) = esp t - 68"
    using routine_start_state(3) [of esp0 ss0 KERNEL_SELECTOR_CS gate_eip s] al by (simp add: v_def t_def syscall_words_def)
  then have h: "h (ld32 (cmem (push (eip ?u) ?u)) (esp ?u)) (core (push (eip ?u) ?u)) = Some (m', res)"
    using run v eu by simp
  define w where "w = snd (pop ((scratched scr (v\<lparr>core := m'\<rparr>))\<lparr>eax := res\<rparr>))"
  have "call (of_c1 scr h) ?u = Some w" using h by (simp add: call_def of_c1_def w_def v)
  moreover have "writes_elsewhere1 92 h ?u"
  proof -
    have "ram m' x = cmem ?u x" if "x \<in> region (esp ?u) 92" for x
    proof -
      have x: "x \<in> call_stack t" "x \<notin> word_bytes (esp ?u - 4)" using that eu call_stack_parts(1-3) [of t] by auto
      from x(1) keep have "ram m' x = cmem v x" by blast
      then show ?thesis using x(2) by (simp add: v st32_other_byte)
    qed
    then show ?thesis using h by (simp add: writes_elsewhere1_def)
  qed
  moreover have "word_bytes (table + 4 * eax s) \<inter> region (esp ?u) 92 = {}" using tab call_stack_parts(1) [of t] eu by auto
  ultimately have "syscall_handler table routine t = Some (s\<lparr>eax := eax w, core := write_eflags (eflags (core s))
    ((core w)\<lparr>ram := st32 (cmem w) (esp t - 12) (eax w)\<rparr>)\<rparr>)"
    using syscall_handler_effect al r unfolding t_def by blast
  then show ?thesis by (simp add: int80_def t_def w_def pop_def)
qed

definition getpid_routine :: "old_env \<Rightarrow> u32 \<Rightarrow> machine \<Rightarrow> (machine \<times> u32) option" where
  "getpid_routine e frame m = Some (sys_getpid e m)"

text \<open>
  a user program that calls \<open>get_pid\<close> gets the number of the current process, and all its
  other registers, its flags and its stack are as before, when the table holds the address of
  \<open>sys_getpid\<close> and the kernel stack lies apart from the table and the words the routine reads.
\<close>

theorem get_pid_correct:
  fixes e s table routine esp0 ss0 gate_eip
  defines "t \<equiv> arrive esp0 ss0 KERNEL_SELECTOR_CS gate_eip None (s\<lparr>eax := SYS_GETPID\<rparr>)"
  defines "K \<equiv> region (esp (syscall_save t) - 4) 96"
  assumes "aligned4 (esp t)" "word_bytes table \<inter> K = {}" "routine (ld32 (cmem s) table) = of_c1 scr (getpid_routine e)"
    and "word_bytes (pr_cur e) \<inter> K = {}" "word_bytes (pr_pid (cur_proc e (cmem s))) \<inter> K = {}"
  shows "\<exists>c. get_pid (int80 esp0 ss0 gate_eip table routine) s
    = Some (s\<lparr>eax := ld32 (cmem s) (pr_pid (cur_proc e (cmem s))), core := c\<rparr>,
        ld32 (cmem s) (pr_pid (cur_proc e (cmem s))))
    \<and> eflags c = eflags (core s) \<and> same_outside K (cmem s) (ram c)"
proof -
  let ?s = "s\<lparr>eax := SYS_GETPID\<rparr>" and ?pid = "ld32 (cmem s) (pr_pid (cur_proc e (cmem s)))"
  let ?v = "routine_start t table (ld32 (cmem ?s) (table + 4 * eax ?s))"
  have K: "K = call_stack t" by (simp add: K_def call_stack_def syscall_save_pushes)
  have v: "cmem ?v x = cmem s x" if "x \<notin> K" for x
    using routine_start_state(1) [of x esp0 ss0 KERNEL_SELECTOR_CS gate_eip ?s] that by (simp add: K t_def)
  have "cur_proc e (cmem ?v) = cur_proc e (cmem s)"
    unfolding cur_proc_def using assms(6) by (intro ld32_cong v) blast
  moreover have "ld32 (cmem ?v) (pr_pid (cur_proc e (cmem s))) = ?pid"
    using assms(7) by (intro ld32_cong v) blast
  ultimately have h: "getpid_routine e (esp t - 68) (core ?v) = Some (core ?v, ?pid)"
    by (simp only: getpid_routine_def sys_getpid_def Let_def)
  have "int80 esp0 ss0 gate_eip table routine ?s = Some (?s\<lparr>eax := ?pid,
      core := write_eflags (eflags (core ?s)) ((core ?v)\<lparr>ram := st32 (cmem ?v) (esp t - 12) ?pid\<rparr>)\<rparr>)"
    using assms(3-5) h unfolding K t_def by (intro int80_runs [where h = "getpid_routine e"]) (simp_all add: SYS_GETPID_def)
  moreover have "same_outside K (cmem s) (st32 (cmem ?v) (esp t - 12) ?pid)"
    unfolding same_outside_def
  proof (intro allI impI)
    fix x assume x: "x \<notin> K"
    then have "x \<notin> word_bytes (esp t - 12)" using call_stack_parts(4) [of t] unfolding K by blast
    then show "st32 (cmem ?v) (esp t - 12) ?pid x = cmem s x" using v [OF x] by (simp add: st32_other_byte)
  qed
  ultimately show ?thesis
    by (intro exI [of _ "write_eflags (eflags (core s)) ((core ?v)\<lparr>ram := st32 (cmem ?v) (esp t - 12) ?pid\<rparr>)"])
      (simp add: get_pid_def syscall0_def write_eflags_def)
qed

theorem get_pid_correct_witness:
  "\<exists>c. get_pid (int80 0x9000 0x10 0x500 0x5000 (\<lambda>_. of_c1 sample_scratch (getpid_routine sample_old)))
        (set_ram (st32 (st32 (\<lambda>_. 0) 0x1000 0x2000) 0x2000 7) sample_cpu)
    = Some ((set_ram (st32 (st32 (\<lambda>_. 0) 0x1000 0x2000) 0x2000 7) sample_cpu)\<lparr>eax := 7, core := c\<rparr>, 7)"
proof -
  define s where "s = set_ram (st32 (st32 (\<lambda>_. 0) 0x1000 0x2000) 0x2000 7) sample_cpu"
  have sp: "esp (arrive 0x9000 0x10 KERNEL_SELECTOR_CS 0x500 None (s\<lparr>eax := SYS_GETPID\<rparr>)) = 0x8FEC"
    by (simp add: s_def arrive_pushes Let_def sample_cpu_def set_ram_def saved_state_def rpl_def selector_defs)
  have cur: "pr_cur sample_old = 0x1000" "cur_proc sample_old (cmem s) = 0x2000" "pr_pid 0x2000 = 0x2000"
    "ld32 (cmem s) 0x2000 = 7"
    by (simp_all add: s_def cur_proc_def pr_cur_def pr_pid_def sample_old_def ld32_st32 ld32_st32_other aligned4_numeral)
  have r: "word_bytes 0x5000 \<inter> region 0x8FA0 96 = {}" "word_bytes 0x1000 \<inter> region 0x8FA0 96 = {}"
    "word_bytes 0x2000 \<inter> region 0x8FA0 96 = {}"
    by (intro word_region_disjoint region_before(1), simp, simp)+
  show ?thesis unfolding s_def [symmetric]
    using get_pid_correct [of "0x9000" "0x10" "0x500" s "0x5000" "\<lambda>_. of_c1 sample_scratch (getpid_routine sample_old)" sample_scratch sample_old] r
    by (auto simp add: syscall_save_pushes sp cur aligned4_numeral)
qed

end
