(* ===== verification/Panic.thy ===== *)
theory Panic
  imports Irq Log
begin

text \<open>
  The end of the line: \<open>panic\<close> of \<open>source/kernel/debug/debug.c\<close>, which switches interrupts
  off, prints where and why, and halts.  Its five format strings are literals; their
  addresses are a parameter.
\<close>

definition panic :: "log_frame \<Rightarrow> (nat \<Rightarrow> u32) \<Rightarrow> u32 \<Rightarrow> c_int \<Rightarrow> u32 \<Rightarrow> u32 \<Rightarrow> machine \<Rightarrow> machine option" where
  "panic fr lit filename line func condition s =
    Option.bind (klog_printf fr (lit 0) (\<lambda>_. 0) (snd (irq_disable s))) (\<lambda>s.
    Option.bind (klog_printf fr (lit 1) (\<lambda>_. filename) s) (\<lambda>s.
    Option.bind (klog_printf fr (lit 2) (\<lambda>_. line) s) (\<lambda>s.
    Option.bind (klog_printf fr (lit 3) (\<lambda>_. func) s) (\<lambda>s.
    Option.bind (klog_printf fr (lit 4) (\<lambda>_. condition) s) (\<lambda>s. Some (hlt s))))))"

text \<open>A request to print: the address of a format, its text, its one argument; it is printable when its text fits and has no number the log misprints.\<close>

definition printable :: "log_frame \<Rightarrow> (u32 \<Rightarrow> u8 list) \<Rightarrow> mem \<Rightarrow> u32 \<times> u8 list \<times> u32 \<Rightarrow> bool" where
  "printable fr strs m = (\<lambda>(fmt, fs, a).
     let T = render strs (\<lambda>_. a) fs 0; D = region (buf_addr fr) 256 \<union> scratch_area fr
     in length T < 256 \<and> 0 \<notin> set T \<and> numbers_ok (\<lambda>_. a) fs 0 \<and> str_at m fmt fs \<and> region fmt (Suc (length fs)) \<inter> D = {}
      \<and> (\<forall>v\<in>string_args (\<lambda>_. a) fs 0. str_at m v (strs v) \<and> region v (Suc (length (strs v))) \<inter> D = {}))"

definition print_text :: "(u32 \<Rightarrow> u8 list) \<Rightarrow> u32 \<times> u8 list \<times> u32 \<Rightarrow> u8 list" where
  "print_text strs = (\<lambda>(fmt, fs, a). render strs (\<lambda>_. a) fs 0)"

fun print_all :: "log_frame \<Rightarrow> (u32 \<times> u8 list \<times> u32) list \<Rightarrow> machine \<Rightarrow> machine option" where
  "print_all fr [] s = Some s"
| "print_all fr ((fmt, fs, a) # rs) s = Option.bind (klog_printf fr fmt (\<lambda>_. a) s) (print_all fr rs)"

lemma printable_outside:
  assumes "printable fr strs m r" "same_outside (region (buf_addr fr) 256 \<union> scratch_area fr) m m'"
  shows "printable fr strs m' r"
  using assms str_at_cong [OF _ assms(2)] by (cases r) (fastforce simp: printable_def Let_def)

lemma print_all_sends:
  assumes "region (buf_addr fr) 256 \<inter> scratch_area fr = {}"
  shows "\<forall>r\<in>set rs. printable fr strs (ram s) r \<Longrightarrow> keeps_ready s
    \<Longrightarrow> \<exists>s'. print_all fr rs s = Some s' \<and> eflags s' = eflags s
      \<and> sent (trace s') = sent (trace s) @ concat (map (print_text strs) rs)"
proof (induction rs arbitrary: s)
  case (Cons r rs)
  obtain fmt fs a where r: "r = (fmt, fs, a)" by (cases r)
  let ?D = "region (buf_addr fr) 256 \<union> scratch_area fr" and ?T = "render strs (\<lambda>_. a) fs 0"
  have p: "str_at (ram s) fmt fs" "length ?T < 256" "0 \<notin> set ?T" "region fmt (Suc (length fs)) \<inter> ?D = {}"
    "\<forall>v\<in>string_args (\<lambda>_. a) fs 0. str_at (ram s) v (strs v) \<and> region v (Suc (length (strs v))) \<inter> ?D = {}"
    "numbers_ok (\<lambda>_. a) fs 0"
    using Cons.prems(1) by (simp_all add: r printable_def Let_def)
  have w: "?T = written_text strs (\<lambda>_. a) fs 0" using written_text_render [of "\<lambda>_. a" fs 0 strs] p(6) by simp
  obtain s1 where s1: "klog_printf fr fmt (\<lambda>_. a) s = Some s1" "sent (trace s1) = sent (trace s) @ ?T"
    "eflags s1 = eflags s" "device s1 = device s" "same_outside ?D (ram s) (ram s1)"
    using klog_printf_effect [OF p(1) w p(2,3) refl assms p(4,5) Cons.prems(2)] by blast
  have "\<forall>r\<in>set rs. printable fr strs (ram s1) r"
    using Cons.prems(1) printable_outside [OF _ s1(5)] by simp
  moreover have "keeps_ready s1" using Cons.prems(2) s1(4) by (simp add: keeps_ready_def port_ready_def)
  ultimately show ?case using Cons.IH [of s1] s1 by (auto simp: r print_text_def)
qed simp

lemma map_bind: "map_option f (Option.bind x g) = Option.bind x (\<lambda>y. map_option f (g y))"
  by (cases x) simp_all

text \<open>
  \<open>panic\<close> prints its five lines in order and ends with the processor halted and interrupts
  off, when the formats and the strings they name are readable, each line fits the buffer, and
  the serial port becomes ready again and again.
\<close>

theorem panic_prints_and_halts:
  assumes "region (buf_addr fr) 256 \<inter> scratch_area fr = {}" and "keeps_ready s"
    and "rs = [(lit 0, f0, 0), (lit 1, f1, filename), (lit 2, f2, line), (lit 3, f3, func), (lit 4, f4, condition)]"
    and "\<forall>r\<in>set rs. printable fr strs (ram s) r"
  shows "\<exists>s'. panic fr lit filename line func condition s = Some s' \<and> get_irq_status s' = INTR_OFF
    \<and> last (trace s') = Hlt \<and> sent (trace s') = sent (trace s) @ concat (map (print_text strs) rs)"
proof -
  let ?s = "snd (irq_disable s)"
  have eq: "panic fr lit filename line func condition s = map_option hlt (print_all fr rs ?s)"
    unfolding assms(3) by (simp add: panic_def map_bind)
  have s: "ram ?s = ram s" "device ?s = device s" "trace ?s = trace s"
    by (simp_all add: irq_disable_def cli_def Let_def)
  have "keeps_ready ?s" using assms(2) s by (simp add: keeps_ready_def port_ready_def)
  then obtain s1 where s1: "print_all fr rs ?s = Some s1" "eflags s1 = eflags ?s"
    "sent (trace s1) = sent (trace s) @ concat (map (print_text strs) rs)"
    using print_all_sends [OF assms(1), of rs strs ?s] assms(4) s by auto
  have "\<not> bit (eflags ?s) 9" by (simp add: irq_disable_def Let_def)
  then show ?thesis unfolding eq using s1 by (simp add: hlt_def)
qed

text \<open>The sample: the literals are one newline each, the text is five times newline and return.\<close>

theorem panic_prints_and_halts_witness:
  "\<exists>s'. panic sample_frame (\<lambda>_. 0x1000) 0 0 0 0 (sample_machine\<lparr>ram := (\<lambda>_. 0)(0x1000 := 10)\<rparr>) = Some s'
    \<and> last (trace s') = Hlt \<and> sent (trace s') = concat (replicate 5 [10, 13])"
proof -
  let ?m = "(\<lambda>_. 0)(0x1000 := 10 :: u8)" let ?s = "sample_machine\<lparr>ram := ?m\<rparr>"
  have k: "keeps_ready ?s" by (auto simp: keeps_ready_def port_ready_def sample_machine_def)
  have r: "render (\<lambda>_. []) args [10] 0 = [10, 13]" "string_args args [10] 0 = {}" for args
    by (simp_all add: render_def plain_text_def)
  have d: "region 0x1000 2 \<inter> (region 0x2000 256 \<union> scratch_area sample_frame) = {}"
    "region 0x2000 256 \<inter> scratch_area sample_frame = {}"
    by (simp_all add: scratch_area_def sample_frame_def Int_Un_distrib region_before)
  have b: "buf_addr sample_frame = 0x2000" by (simp add: sample_frame_def)
  have p: "printable sample_frame (\<lambda>_. []) ?m (0x1000, [10], a)" for a
    using d(1) by (simp add: printable_def Let_def r b plain_text_def numeral_2_eq_2 [symmetric])
  have t: "print_text (\<lambda>_. []) (0x1000, [10], a) = [10, 13]" for a by (simp add: print_text_def r)
  have "sent (trace ?s) = []" by (simp add: sample_machine_def)
  then show ?thesis
    using panic_prints_and_halts [where fr = sample_frame and s = ?s and lit = "\<lambda>_. 0x1000" and ?f0.0 = "[10]"
        and ?f1.0 = "[10]" and ?f2.0 = "[10]" and ?f3.0 = "[10]" and ?f4.0 = "[10]" and strs = "\<lambda>_. []"
        and filename = 0 and line = 0 and func = 0 and condition = 0, OF _ k refl]
      d(2) p t by (simp add: b numeral_eq_Suc) blast
qed

end
