(* ===== verification/Sync.thy ===== *)
theory Sync
  imports Task_Old
begin

text \<open>
  The semaphores of \<open>source/kernel/sync/sync.c\<close>, on the threads of the old kernel.  A
  semaphore is a byte, the value, and at offset 4 the list of the threads that wait.  Waiting
  may hand the processor to another thread in the middle of the loop; the model then ends, and
  \<open>Blocked\<close> holds the state in which the other thread runs and what the waiter needs to
  continue its loop.
\<close>

definition sem_value :: "mem \<Rightarrow> u32 \<Rightarrow> u8" where "sem_value m sem = m sem"
definition wait_list :: "u32 \<Rightarrow> u32" where "wait_list sem = sem + 4"

definition sem_init :: "mem \<Rightarrow> u32 \<Rightarrow> bool \<Rightarrow> u8 \<Rightarrow> mem" where
  "sem_init m sem shared v = klist_init (m(sem := v)) (wait_list sem)"

definition sem_destroy :: "mem \<Rightarrow> u32 \<Rightarrow> mem" where
  "sem_destroy m sem = m"

datatype wait_result = Passed cpu | Blocked irq_status cpu

text \<open>One round of the loop: the result of the search is only used in an assertion that is off.\<close>

definition sem_wait_round :: "old_env \<Rightarrow> u32 \<Rightarrow> u32 \<Rightarrow> irq_status \<Rightarrow> cpu \<Rightarrow> wait_result option" where
  "sem_wait_round e sem cur status s =
    (let m = cmem s in
     if sem_value m sem = 0 then
       Option.bind (klist_find m (wait_list sem) (th_state_node cur)) (\<lambda>wait_node.
       Option.bind (klist_remove m (th_ready_list e) (th_state_node cur)) (\<lambda>(_, m).
       Option.bind (klist_remove m (th_sleep_list e) (th_state_node cur)) (\<lambda>(_, m).
         let m = klist_append m (wait_list sem) (th_state_node cur)
         in Some (Blocked status (thread_set_block e cur (set_ram m s))))))
     else
       let s = set_ram (m(sem := sem_value m sem - 1)) s
       in Some (Passed (s\<lparr>core := irq_leave_protection status (core s)\<rparr>)))"

definition thread_sem_wait :: "old_env \<Rightarrow> u32 \<Rightarrow> cpu \<Rightarrow> wait_result option" where
  "thread_sem_wait e sem s =
    (case irq_enter_protection (core s) of (status, c) \<Rightarrow>
      let s = s\<lparr>core := c\<rparr>; cur = cur_thread e (cmem s)
      in sem_wait_round e sem cur status s)"

definition thread_sem_post :: "old_env \<Rightarrow> u32 \<Rightarrow> machine \<Rightarrow> machine option" where
  "thread_sem_post e sem s =
    (case irq_enter_protection s of (status, s) \<Rightarrow>
      map_option (\<lambda>m. irq_leave_protection status (s\<lparr>ram := m(sem := sem_value m sem + 1)\<rparr>))
       (if \<not> klist_empty (ram s) (wait_list sem) then
          let node = node_next (ram s) (l_head (wait_list sem));
              pcb = struct_addr node (th_state_node 0)
          in Option.bind (klist_remove (ram s) (wait_list sem) node) (\<lambda>(_, m). thread_push_ready e m pcb)
        else Some (ram s)))"

section \<open>The value\<close>

text \<open>
  a thread that waits on a positive semaphore goes on at once, with the value one less and
  nothing else changed, the interrupt flag included.
\<close>

theorem sem_wait_takes:
  assumes "sem_value (cmem s) sem \<noteq> 0"
  shows "\<exists>c. thread_sem_wait e sem s = Some (Passed (s\<lparr>core := c\<rparr>))
    \<and> ram c = (cmem s)(sem := sem_value (cmem s) sem - 1) \<and> trace c = trace (core s)
    \<and> get_irq_status c = get_irq_status (core s)"
proof -
  obtain st c where p: "irq_enter_protection (core s) = (st, c)" by fastforce
  have k: "ram c = cmem s" "trace c = trace (core s)" using irq_keeps(1,2) [of "core s"] p by simp_all
  have "get_irq_status (irq_leave_protection st x) = get_irq_status (core s)" for x
    using irq_restore [of "core s" x] p by simp
  with assms show ?thesis
    by (intro exI [of _ "irq_leave_protection st (c\<lparr>ram := (cmem s)(sem := sem_value (cmem s) sem - 1)\<rparr>)"])
      (simp add: thread_sem_wait_def p sem_wait_round_def Let_def k set_ram_def)
qed

theorem sem_wait_takes_witness:
  "\<exists>c. thread_sem_wait sample_old 0x7000 (set_ram ((\<lambda>_. 0)(0x7000 := 3)) sample_cpu)
    = Some (Passed ((set_ram ((\<lambda>_. 0)(0x7000 := 3)) sample_cpu)\<lparr>core := c\<rparr>)) \<and> ram c 0x7000 = 2"
  using sem_wait_takes [of "set_ram ((\<lambda>_. 0)(0x7000 := 3)) sample_cpu" "0x7000" sample_old]
  by (auto simp: sem_value_def)

section \<open>The queue of waiters\<close>

text \<open>
  The waiting threads \<open>ws\<close>, the ready threads \<open>rs\<close>, and the words of one more thread \<open>t\<close>: two
  lists with no word in common, and the value and the thread's state apart from both.
\<close>

definition sem_ok :: "old_env \<Rightarrow> u32 \<Rightarrow> mem \<Rightarrow> u32 list \<Rightarrow> u32 list \<Rightarrow> bool" where
  "sem_ok e sem m ws rs \<longleftrightarrow> aligned4 sem
     \<and> dlist m (wait_list sem) (map th_state_node ws) \<and> dlist m (th_ready_list e) (map th_state_node rs)
     \<and> (let W = list_cells (wait_list sem) (map th_state_node ws); R = list_cells (th_ready_list e) (map th_state_node rs)
        in W \<inter> R = {} \<and> sem \<notin> W \<union> R \<and> (\<forall>t\<in>set ws. aligned4 (th_status t) \<and> th_status t \<notin> W \<union> R \<and> th_status t \<noteq> sem)
         \<and> (\<forall>t\<in>set ws. fresh_node (th_ready_list e) (map th_state_node rs) (th_state_node t)))"

lemma unchanged_byte: "unchanged_outside {a} m (m(a := v))"
  by (simp add: unchanged_outside_def word_bytes_def)

text \<open>Lists with no cell in common do not disturb each other.\<close>

lemma unlink_other:
  assumes a: "dlist m a (xs @ n # zs)" and b: "dlist m b ys" "list_cells a (xs @ n # zs) \<inter> list_cells b ys = {}"
  shows "dlist (klist_unlink m a n) b ys"
  by (rule dlist_frame [OF b(1) klist_unlink_frame [OF a] _ b(2)]) (use list_cells_aligned [OF a] in blast)

lemma moved_cells:
  assumes "dlist m a (xs @ n # zs)"
  shows "{n, n + 4} \<inter> list_cells a (xs @ zs) = {}" "list_cells a (xs @ n # zs) = {n, n + 4} \<union> list_cells a (xs @ zs)"
  using removed_node_fresh [OF assms] list_cells_insert [of a xs n zs]
  by (auto simp: fresh_node_def sep_nodes_def list_cells_def)

lemma push_other:
  assumes b: "dlist m b ys" "fresh_node b ys n" and a: "dlist m a xs" "({n, n + 4} \<union> list_cells b ys) \<inter> list_cells a xs = {}"
  shows "dlist (klist_push m b n) a xs"
proof (rule dlist_frame [OF a(1)])
  have e: "list_cells b (n # ys) = {n, n + 4} \<union> list_cells b ys" using list_cells_insert [of b "[]" n ys] by simp
  show "unchanged_outside ({n, n + 4} \<union> list_cells b ys) m (klist_push m b n)"
    using klist_push_frame [OF b] by (simp add: e)
  show "\<forall>c\<in>{n, n + 4} \<union> list_cells b ys. aligned4 c"
    using list_cells_aligned [OF klist_push_dlist [OF b]] by (simp add: e)
qed (rule a(2))

lemma aligned_byte:
  assumes "\<forall>c\<in>C. aligned4 c" "aligned4 a" "a \<notin> C"
  shows "a \<notin> \<Union> (word_bytes ` C)"
  using assms aligned_word_bytes_disjoint [of _ a] by (fastforce simp: word_bytes_def)

text \<open>
  The memory after the first waiter \<open>t\<close> has been moved to the front of the ready queue and
  marked ready.
\<close>

definition woken :: "old_env \<Rightarrow> u32 \<Rightarrow> mem \<Rightarrow> u32 \<Rightarrow> mem" where
  "woken e sem m t = klist_push (st32 (klist_unlink m (wait_list sem) (th_state_node t)) (th_status t)
     (task_status_code TASK_READY)) (th_ready_list e) (th_state_node t)"

lemma woken_lists:
  assumes ok: "sem_ok e sem m (t # ws) rs"
  shows "thread_push_ready e (klist_unlink m (wait_list sem) (th_state_node t)) t = Some (woken e sem m t)"
    and "dlist (woken e sem m t) (wait_list sem) (map th_state_node ws)"
    and "dlist (woken e sem m t) (th_ready_list e) (map th_state_node (t # rs))"
    and "ld32 (woken e sem m t) (th_status t) = task_status_code TASK_READY" and "woken e sem m t sem = m sem"
    and "sem \<notin> list_cells (wait_list sem) (map th_state_node ws)"
    and "sem \<notin> list_cells (th_ready_list e) (map th_state_node (t # rs))"
proof -
  let ?wl = "wait_list sem" and ?rl = "th_ready_list e" and ?n = "th_state_node t"
  let ?W = "list_cells ?wl (map th_state_node (t # ws))" and ?R = "list_cells ?rl (map th_state_node rs)"
  let ?W' = "list_cells ?wl (map th_state_node ws)" and ?R' = "list_cells ?rl (map th_state_node (t # rs))"
  let ?m1 = "klist_unlink m ?wl ?n" let ?m2 = "st32 ?m1 (th_status t) (task_status_code TASK_READY)"
  have dw: "dlist m ?wl ([] @ ?n # map th_state_node ws)" and dr: "dlist m ?rl (map th_state_node rs)"
    and dj: "?W \<inter> ?R = {}" and sem: "aligned4 sem" "sem \<notin> ?W" "sem \<notin> ?R"
    and st: "aligned4 (th_status t)" "th_status t \<notin> ?W" "th_status t \<notin> ?R" "th_status t \<noteq> sem"
    and fr: "fresh_node ?rl (map th_state_node rs) ?n"
    using ok by (simp_all add: sem_ok_def Let_def)
  have W: "{?n, ?n + 4} \<inter> ?W' = {}" "?W = {?n, ?n + 4} \<union> ?W'" using moved_cells [OF dw] by simp_all
  have R: "?R' = {?n, ?n + 4} \<union> ?R" using list_cells_insert [of ?rl "[]" ?n "map th_state_node rs"] by simp
  show notin: "sem \<notin> ?W'" "sem \<notin> ?R'" using sem W R by auto
  have r1: "dlist ?m1 ?rl (map th_state_node rs)" by (rule unlink_other [OF dw dr]) (use dj in simp)
  have r2: "dlist ?m2 ?rl (map th_state_node rs)" by (rule dlist_store [OF r1 st(1,3)])
  have w2: "dlist ?m2 ?wl (map th_state_node ws)"
    using klist_unlink_dlist [OF dw] st W by (intro dlist_store) simp_all
  have "({?n, ?n + 4} \<union> ?R) \<inter> ?W' = {}" using W dj by blast
  then show "dlist (woken e sem m t) ?wl (map th_state_node ws)"
    unfolding woken_def by (rule push_other [OF r2 fr w2])
  show r3: "dlist (woken e sem m t) ?rl (map th_state_node (t # rs))"
    unfolding woken_def using klist_push_dlist [OF r2 fr] by simp
  have "?n \<notin> set (map th_state_node rs)" "?n \<noteq> ?rl + 8" using fr by (auto simp: fresh_node_def list_nodes_def)
  from klist_remove_missing [OF r1 this] show "thread_push_ready e ?m1 t = Some (woken e sem m t)"
    by (simp add: thread_push_ready_def woken_def Let_def)
  have aR: "\<forall>c\<in>?R'. aligned4 c" and aW: "\<forall>c\<in>?W. aligned4 c"
    using list_cells_aligned [OF r3] list_cells_aligned [OF dw] by simp_all
  have u3: "unchanged_outside ?R' ?m2 (woken e sem m t)" unfolding woken_def using klist_push_frame [OF r2 fr] by simp
  have "th_status t \<notin> ?R'" using st R W by auto
  from unchanged_ld32 [OF u3 aR st(1) this] show "ld32 (woken e sem m t) (th_status t) = task_status_code TASK_READY"
    by (simp add: ld32_st32)
  have "sem \<notin> word_bytes (th_status t)" using aligned_byte [of "{th_status t}" sem] st sem by auto
  then show "woken e sem m t sem = m sem"
    using u3 klist_unlink_frame [OF dw] aligned_byte [OF aR sem(1) notin(2)] aligned_byte [OF aW sem(1,2)]
    by (simp add: unchanged_outside_def st32_other_byte)
qed

lemma woken_other:
  assumes ok: "sem_ok e sem m (t # ws) rs" and p: "aligned4 p" "p \<noteq> th_status t"
    "p \<notin> list_cells (wait_list sem) (map th_state_node (t # ws))" "p \<notin> list_cells (th_ready_list e) (map th_state_node (t # rs))"
  shows "ld32 (woken e sem m t) p = ld32 m p"
proof -
  let ?n = "th_state_node t" let ?m1 = "klist_unlink m (wait_list sem) ?n"
  let ?m2 = "st32 ?m1 (th_status t) (task_status_code TASK_READY)"
  have dw: "dlist m (wait_list sem) ([] @ ?n # map th_state_node ws)" and dr: "dlist m (th_ready_list e) (map th_state_node rs)"
    and fr: "fresh_node (th_ready_list e) (map th_state_node rs) ?n" and st: "aligned4 (th_status t)"
      "th_status t \<notin> list_cells (th_ready_list e) (map th_state_node rs)"
      "list_cells (wait_list sem) (map th_state_node (t # ws)) \<inter> list_cells (th_ready_list e) (map th_state_node rs) = {}"
    using ok by (simp_all add: sem_ok_def Let_def)
  have "dlist ?m1 (th_ready_list e) (map th_state_node rs)" by (rule unlink_other [OF dw dr]) (use st(3) in simp)
  then have d2: "dlist ?m2 (th_ready_list e) (map th_state_node rs)" by (rule dlist_store [OF _ st(1,2)])
  have "ld32 (woken e sem m t) p = ld32 ?m2 p"
    unfolding woken_def
    by (rule unchanged_ld32 [OF klist_push_frame [OF d2 fr] _ p(1)])
      (use p(4) list_cells_aligned [OF klist_push_dlist [OF d2 fr]] in simp_all)
  also have "\<dots> = ld32 ?m1 p" using p(1,2) st(1) by (simp add: ld32_st32_other)
  also have "\<dots> = ld32 m p"
    by (rule unchanged_ld32 [OF klist_unlink_frame [OF dw] _ p(1)]) (use p(3) list_cells_aligned [OF dw] in simp_all)
  finally show ?thesis .
qed

text \<open>The whole post, and what it leaves in memory.\<close>

definition posted :: "old_env \<Rightarrow> u32 \<Rightarrow> mem \<Rightarrow> u32 \<Rightarrow> mem" where
  "posted e sem m t = (woken e sem m t)(sem := sem_value m sem + 1)"

lemma posted_state:
  assumes ok: "sem_ok e sem m (t # ws) rs"
  shows "dlist (posted e sem m t) (wait_list sem) (map th_state_node ws)"
    "dlist (posted e sem m t) (th_ready_list e) (map th_state_node (t # rs))"
    "ld32 (posted e sem m t) (th_status t) = task_status_code TASK_READY"
    "sem_value (posted e sem m t) sem = sem_value m sem + 1"
proof -
  note w = woken_lists [OF ok]
  have sem: "aligned4 sem" and st: "aligned4 (th_status t)" "th_status t \<noteq> sem"
    using ok by (simp_all add: sem_ok_def Let_def)
  have keep: "dlist (posted e sem m t) l xs" if "dlist (woken e sem m t) l xs" "sem \<notin> list_cells l xs" for l xs
    unfolding posted_def by (rule dlist_frame [OF that(1) unchanged_byte]) (use sem that(2) in auto)
  show "dlist (posted e sem m t) (wait_list sem) (map th_state_node ws)" by (rule keep [OF w(2,6)])
  show "dlist (posted e sem m t) (th_ready_list e) (map th_state_node (t # rs))" by (rule keep [OF w(3,7)])
  show "ld32 (posted e sem m t) (th_status t) = task_status_code TASK_READY"
    unfolding posted_def w(4) [symmetric] by (rule unchanged_ld32 [OF unchanged_byte]) (use sem st in auto)
qed (simp add: posted_def sem_value_def)

lemma post_wakes:
  assumes ok: "sem_ok e sem (ram s) (t # ws) rs"
  shows "\<exists>s'. thread_sem_post e sem s = Some s' \<and> ram s' = posted e sem (ram s) t \<and> get_irq_status s' = get_irq_status s"
proof -
  let ?wl = "wait_list sem" and ?n = "th_state_node t"
  note w = woken_lists [OF ok]
  have dw: "dlist (ram s) ?wl ([] @ ?n # map th_state_node ws)" using ok by (simp add: sem_ok_def Let_def)
  obtain irq s0 where p: "irq_enter_protection s = (irq, s0)" by fastforce
  have s0: "ram s0 = ram s" using irq_keeps(1) [of s] p by simp
  have ne: "\<not> klist_empty (ram s) ?wl" using klist_empty_dlist [OF dw] by simp
  have first: "node_next (ram s) (l_head ?wl) = ?n" using first_after [OF dw] by (simp add: l_head_def node_after_def)
  have "?n \<noteq> 0" using ok by (simp add: sem_ok_def fresh_node_def sep_nodes_def Let_def)
  then have pcb: "struct_addr ?n (th_state_node 0) = t" by (simp add: struct_addr_def th_fields)
  have "thread_sem_post e sem s = Some (irq_leave_protection irq (s0\<lparr>ram := posted e sem (ram s) t\<rparr>))"
    using ne first pcb w(1,5) klist_remove_found [OF dw] by (simp add: thread_sem_post_def p s0 Let_def posted_def sem_value_def)
  moreover have "get_irq_status (irq_leave_protection irq x) = get_irq_status s" for x
    using irq_restore [of s x] p by simp
  ultimately show ?thesis by (simp add: irq_keeps)
qed

text \<open>
  C18: posting wakes the thread that has waited longest.  It leaves the list of the semaphore,
  the others keep their order, it becomes the first of the ready threads and is marked ready,
  the value goes up by one, and the interrupt flag is as before.
\<close>

theorem sem_post_wakes_first:
  assumes ok: "sem_ok e sem (ram s) (t # ws) rs"
  shows "\<exists>s'. thread_sem_post e sem s = Some s' \<and> dlist (ram s') (wait_list sem) (map th_state_node ws)
    \<and> dlist (ram s') (th_ready_list e) (map th_state_node (t # rs))
    \<and> ld32 (ram s') (th_status t) = task_status_code TASK_READY
    \<and> sem_value (ram s') sem = sem_value (ram s) sem + 1 \<and> get_irq_status s' = get_irq_status s"
  using post_wakes [OF ok] posted_state [OF ok] by auto

text \<open>The sample: the thread at 0x4000 waits on the semaphore at 0x7000, nobody is ready.\<close>

definition sample_sem :: mem where
  "sample_sem = klist_init (klist_push (klist_init (\<lambda>_. 0) 0x7004) 0x7004 0x4028) 0x1018"

lemma sample_sem_ok: "sem_ok sample_old 0x7000 sample_sem [0x4000] []"
proof -
  have "dlist (klist_init (\<lambda>_. 0) 0x7004) 0x7004 []"
    by (rule klist_init_dlist) (simp add: sep_nodes_def aligned4_numeral)
  from klist_push_dlist [OF this, of "0x4028"]
  have p: "dlist (klist_push (klist_init (\<lambda>_. 0) 0x7004) 0x7004 0x4028) 0x7004 [0x4028]"
    by (simp add: sample_numeric)
  have r: "dlist sample_sem 0x1018 []"
    unfolding sample_sem_def by (rule klist_init_dlist) (simp add: sep_nodes_def aligned4_numeral)
  have "dlist sample_sem 0x7004 [0x4028]"
    unfolding sample_sem_def
    by (rule dlist_frame [OF p klist_init_frame]) (simp_all add: sample_numeric)
  with r show ?thesis
    by (simp add: sem_ok_def sample_old_def wait_list_def th_ready_list_def th_fields sample_numeric)
qed

theorem sem_post_wakes_first_witness:
  "\<exists>s'. thread_sem_post sample_old 0x7000 (sample_machine\<lparr>ram := sample_sem\<rparr>) = Some s'
    \<and> dlist (ram s') 0x7004 [] \<and> dlist (ram s') 0x1018 [0x4028] \<and> ld32 (ram s') 0x401C = task_status_code TASK_READY"
  using sem_post_wakes_first [of sample_old "0x7000" "sample_machine\<lparr>ram := sample_sem\<rparr>" "0x4000" "[]" "[]"] sample_sem_ok
  by (auto simp: wait_list_def th_ready_list_def sample_old_def th_fields)

text \<open>
  A thread \<open>t\<close> about to wait: it is the running thread and the first of the ready queue, \<open>u\<close> is
  the next; the three lists have no word in common, and the words written to lie in none.
\<close>

definition wait_ok :: "old_env \<Rightarrow> u32 \<Rightarrow> mem \<Rightarrow> u32 list \<Rightarrow> u32 \<Rightarrow> u32 \<Rightarrow> u32 list \<Rightarrow> u32 list \<Rightarrow> bool" where
  "wait_ok e sem m ws t u rs zs \<longleftrightarrow>
     dlist m (wait_list sem) (map th_state_node ws) \<and> dlist m (th_ready_list e) (map th_state_node (t # u # rs))
   \<and> dlist m (th_sleep_list e) (map th_state_node zs) \<and> ld32 m (th_cur e) = t \<and> ld32 m (th_status u) = task_status_code TASK_READY
   \<and> fresh_node (wait_list sem) (map th_state_node ws) (th_state_node t)
   \<and> th_state_node t \<notin> set (map th_state_node zs) \<and> th_state_node t \<noteq> th_sleep_list e + 8 \<and> th_state_node u \<noteq> 0
   \<and> (let W = list_cells (wait_list sem) (map th_state_node (t # ws)); R = list_cells (th_ready_list e) (map th_state_node (u # rs));
          S = list_cells (th_sleep_list e) (map th_state_node zs); ps = [sem, th_cur e, th_status t, th_status u]
      in W \<inter> R = {} \<and> W \<inter> S = {} \<and> R \<inter> S = {} \<and> distinct ps \<and> (\<forall>p\<in>set ps. aligned4 p \<and> p \<notin> W \<union> R \<union> S))"

lemma append_other:
  assumes b: "dlist m b ys" "fresh_node b ys n" and a: "dlist m a xs" "({n, n + 4} \<union> list_cells b ys) \<inter> list_cells a xs = {}"
  shows "dlist (klist_append m b n) a xs"
proof (rule dlist_frame [OF a(1)])
  have e: "list_cells b (ys @ [n]) = {n, n + 4} \<union> list_cells b ys" using list_cells_insert [of b ys n "[]"] by simp
  show "unchanged_outside ({n, n + 4} \<union> list_cells b ys) m (klist_append m b n)"
    using klist_append_frame [OF b] by (simp add: e)
  show "\<forall>c\<in>{n, n + 4} \<union> list_cells b ys. aligned4 c"
    using list_cells_aligned [OF klist_append_dlist [OF b]] by (simp add: e)
qed (rule a(2))

text \<open>The memory when \<open>t\<close> has moved from the ready queue to the end of the waiters.\<close>

definition parked :: "old_env \<Rightarrow> u32 \<Rightarrow> mem \<Rightarrow> u32 \<Rightarrow> mem" where
  "parked e sem m t = klist_append (klist_unlink m (th_ready_list e) (th_state_node t)) (wait_list sem) (th_state_node t)"

lemma parked_lists:
  assumes ok: "wait_ok e sem m ws t u rs zs"
  shows "dlist (parked e sem m t) (wait_list sem) (map th_state_node (ws @ [t]))"
    and "dlist (parked e sem m t) (th_ready_list e) (map th_state_node (u # rs))"
    and "dlist (parked e sem m t) (th_sleep_list e) (map th_state_node zs)"
    and "p \<in> {th_cur e, th_status t, th_status u} \<Longrightarrow> ld32 (parked e sem m t) p = ld32 m p"
    and "parked e sem m t sem = m sem"
    and "sem_value m sem = 0 \<Longrightarrow> sem_wait_round e sem t st (set_ram m s)
      = Some (Blocked st (thread_set_block e t (set_ram (parked e sem m t) s)))"
proof -
  let ?wl = "wait_list sem" and ?rl = "th_ready_list e" and ?sl = "th_sleep_list e" and ?n = "th_state_node t"
  let ?W = "list_cells ?wl (map th_state_node (t # ws))" and ?R = "list_cells ?rl (map th_state_node (u # rs))"
  let ?S = "list_cells ?sl (map th_state_node zs)" let ?m1 = "klist_unlink m ?rl ?n" and ?m2 = "parked e sem m t"
  have dw: "dlist m ?wl (map th_state_node ws)" and dr: "dlist m ?rl ([] @ ?n # map th_state_node (u # rs))"
    and ds: "dlist m ?sl (map th_state_node zs)" and fr: "fresh_node ?wl (map th_state_node ws) ?n"
    and ns: "?n \<notin> set (map th_state_node zs)" "?n \<noteq> ?sl + 8"
    and dj: "?W \<inter> ?R = {}" "?W \<inter> ?S = {}" "?R \<inter> ?S = {}"
    and al: "\<And>p. p \<in> {sem, th_cur e, th_status t, th_status u} \<Longrightarrow> aligned4 p \<and> p \<notin> ?W \<and> p \<notin> ?R"
    using ok by (simp_all add: wait_ok_def Let_def) blast+
  have W: "?W = {?n, ?n + 4} \<union> list_cells ?wl (map th_state_node ws)"
    using list_cells_insert [of ?wl "[]" ?n "map th_state_node ws"] by simp
  have W': "list_cells ?wl (map th_state_node ws @ [?n]) = ?W"
    using list_cells_insert [of ?wl "map th_state_node ws" ?n "[]"] W by simp
  have R: "list_cells ?rl ([] @ ?n # map th_state_node (u # rs)) = {?n, ?n + 4} \<union> ?R"
    using moved_cells(2) [OF dr] by simp
  have nW: "{?n, ?n + 4} \<inter> list_cells ?wl (map th_state_node ws) = {}"
    using fr by (auto simp: fresh_node_def sep_nodes_def list_cells_def)
  have w1: "dlist ?m1 ?wl (map th_state_node ws)"
    by (rule unlink_other [OF dr dw]) (unfold R, use dj(1) W nW in blast)
  have s1: "dlist ?m1 ?sl (map th_state_node zs)"
    by (rule unlink_other [OF dr ds]) (unfold R, use dj(2,3) W in blast)
  have r1: "dlist ?m1 ?rl (map th_state_node (u # rs))" using klist_unlink_dlist [OF dr] by simp
  show w2: "dlist ?m2 ?wl (map th_state_node (ws @ [t]))"
    using klist_append_dlist [OF w1 fr] by (simp add: parked_def)
  show "dlist ?m2 ?rl (map th_state_node (u # rs))" "dlist ?m2 ?sl (map th_state_node zs)"
    unfolding parked_def by (rule append_other [OF w1 fr]; use r1 s1 dj(1,2) W in simp)+
  have a1: "\<forall>c\<in>{?n, ?n + 4} \<union> ?R. aligned4 c" using list_cells_aligned [OF dr] R by simp
  have a2: "\<forall>c\<in>?W. aligned4 c" using list_cells_aligned [OF w2] W' by simp
  have u1: "unchanged_outside ({?n, ?n + 4} \<union> ?R) m ?m1" using klist_unlink_frame [OF dr] R by simp
  have u2: "unchanged_outside ?W ?m1 ?m2" using klist_append_frame [OF w1 fr] W' by (simp add: parked_def)
  show "ld32 ?m2 p = ld32 m p" if "p \<in> {th_cur e, th_status t, th_status u}"
    using unchanged_ld32 [OF u1 a1, of p] unchanged_ld32 [OF u2 a2, of p] al [of p] that W by auto
  show "?m2 sem = m sem"
    using u1 u2 aligned_byte [OF a1, of sem] aligned_byte [OF a2, of sem] al [of sem] W by (simp add: unchanged_outside_def)
  have find: "klist_find m ?wl ?n = Some 0"
    by (rule klist_find_missing [OF dw]) (use fr in \<open>auto simp: fresh_node_def list_nodes_def\<close>)
  have ready: "klist_remove m ?rl ?n = Some (?n, ?m1)" using klist_remove_found [OF dr] by simp
  have sleep: "klist_remove ?m1 ?sl ?n = Some (0, ?m1)" by (rule klist_remove_missing [OF s1 ns])
  show "sem_wait_round e sem t st (set_ram m s) = Some (Blocked st (thread_set_block e t (set_ram ?m2 s)))"
    if "sem_value m sem = 0"
    using find ready sleep that by (simp add: sem_wait_round_def Let_def parked_def)
qed

text \<open>The dispatcher hands the processor to the first ready thread.\<close>

definition running :: "old_env \<Rightarrow> mem \<Rightarrow> u32 \<Rightarrow> mem" where
  "running e m u = st32 (st32 m (th_cur e) u) (th_status u) (task_status_code TASK_RUNNING)"

lemma dispatch_to_first:
  assumes d: "dlist (cmem s) (th_ready_list e) (map th_state_node (u # rs))" and ne: "u \<noteq> t"
    and m: "ld32 (cmem s) (th_cur e) = t" "ld32 (cmem s) (th_status u) = task_status_code TASK_READY"
  shows "thread_dispatch e s = switch_thread_from_to t u (set_ram (running e (cmem s) u) s)"
proof -
  have "thread_schedule e (cmem s) = u" unfolding thread_schedule_eq using threads.first_of_queue [OF d] by simp
  then show ?thesis using m ne by (simp add: thread_dispatch_def Let_def cur_thread_def running_def)
qed

text \<open>Blocking the running thread \<open>t\<close> hands the processor to the first ready thread \<open>u\<close>.\<close>

definition blocked :: "old_env \<Rightarrow> mem \<Rightarrow> u32 \<Rightarrow> u32 \<Rightarrow> mem" where
  "blocked e m t u = running e (st32 m (th_status t) (task_status_code TASK_BLOCKED)) u"

lemma block_switches:
  assumes d: "dlist m (th_ready_list e) (map th_state_node (u # rs))" and m: "ld32 m (th_cur e) = t"
      "ld32 m (th_status u) = task_status_code TASK_READY"
    and p: "distinct [th_cur e, th_status t, th_status u]" "\<forall>p\<in>{th_cur e, th_status t, th_status u}. aligned4 p"
      "th_status t \<notin> list_cells (th_ready_list e) (map th_state_node (u # rs))"
  shows "thread_set_block e t (set_ram m s) = switch_thread_from_to t u (set_ram (blocked e m t u) s)"
proof -
  let ?m = "st32 m (th_status t) (task_status_code TASK_BLOCKED)"
  have "dlist ?m (th_ready_list e) (map th_state_node (u # rs))" by (rule dlist_store [OF d _ p(3)]) (use p(2) in simp)
  moreover have "ld32 ?m (th_cur e) = t" "ld32 ?m (th_status u) = task_status_code TASK_READY"
    using m p by (auto simp: ld32_st32_other)
  moreover have "u \<noteq> t" using p(1) by (auto simp: th_fields)
  ultimately have "thread_dispatch e (set_ram ?m s) = switch_thread_from_to t u (set_ram (running e ?m u) (set_ram ?m s))"
    using dispatch_to_first [of "set_ram ?m s" e u rs t] by (simp add: set_ram_def)
  then show ?thesis by (simp add: thread_set_block_def blocked_def running_def set_ram_def)
qed

text \<open>The whole wait, and what it leaves in memory.\<close>

lemma blocked_state:
  assumes ok: "wait_ok e sem m ws t u rs zs" and zero: "sem_value m sem = 0"
  defines "m' \<equiv> blocked e (parked e sem m t) t u"
  shows "dlist m' (wait_list sem) (map th_state_node (ws @ [t]))" "dlist m' (th_ready_list e) (map th_state_node (u # rs))"
    "dlist m' (th_sleep_list e) (map th_state_node zs)"
    "ld32 m' (th_status t) = task_status_code TASK_BLOCKED" "ld32 m' (th_status u) = task_status_code TASK_RUNNING"
    "ld32 m' (th_cur e) = u" "sem_value m' sem = 0"
proof -
  let ?m = "parked e sem m t"
  let ?cells = "list_cells (wait_list sem) (map th_state_node (ws @ [t])) \<union> list_cells (th_ready_list e) (map th_state_node (u # rs))
    \<union> list_cells (th_sleep_list e) (map th_state_node zs)"
  note l = parked_lists [OF ok]
  have ps: "distinct [sem, th_cur e, th_status t, th_status u]"
    and al: "\<forall>p\<in>{sem, th_cur e, th_status t, th_status u}. aligned4 p \<and> p \<notin> ?cells"
    using ok by (auto simp: wait_ok_def Let_def list_cells_def list_nodes_def)
  have keep: "dlist m' l xs" if "dlist ?m l xs" "list_cells l xs \<subseteq> ?cells" for l xs
    unfolding m'_def blocked_def running_def using that al by (intro dlist_store) blast+
  show "dlist m' (wait_list sem) (map th_state_node (ws @ [t]))" "dlist m' (th_ready_list e) (map th_state_node (u # rs))"
    "dlist m' (th_sleep_list e) (map th_state_node zs)"
    by (rule keep [OF l(1)] keep [OF l(2)] keep [OF l(3)], blast)+
  show "ld32 m' (th_status t) = task_status_code TASK_BLOCKED" "ld32 m' (th_status u) = task_status_code TASK_RUNNING"
    "ld32 m' (th_cur e) = u"
    using ps al by (auto simp: m'_def blocked_def running_def ld32_st32_other ld32_st32)
  have "sem \<notin> word_bytes a" if "a \<in> {th_cur e, th_status t, th_status u}" for a
    using aligned_byte [of "{a}" sem] that ps al by auto
  then show "sem_value m' sem = 0" using zero l(5) by (simp add: m'_def blocked_def running_def sem_value_def st32_other_byte)
qed

text \<open>
  The assertion after the search (empty in the build) demands the opposite of what the comment
  beside it says, and of what holds whenever a thread waits: its node is not in the queue yet.
\<close>

lemma wait_search_null:
  assumes "wait_ok e sem m ws t u rs zs"
  shows "klist_find m (wait_list sem) (th_state_node t) = Some 0"
  using assms by (intro klist_find_missing [where xs = "map th_state_node ws"])
    (auto simp: wait_ok_def fresh_node_def list_nodes_def)

lemma wait_blocks:
  assumes ok: "wait_ok e sem (cmem s) ws t u rs zs" and zero: "sem_value (cmem s) sem = 0"
  shows "\<exists>c. thread_sem_wait e sem s = Some (Blocked (get_irq_status (core s))
      (switch_thread_from_to t u (set_ram (blocked e (parked e sem (cmem s) t) t u) (s\<lparr>core := c\<rparr>))))
    \<and> get_irq_status c = INTR_OFF"
proof -
  let ?m0 = "cmem s"
  note l = parked_lists [OF ok]
  have ps: "distinct [th_cur e, th_status t, th_status u]" "\<forall>p\<in>{th_cur e, th_status t, th_status u}. aligned4 p"
    "th_status t \<notin> list_cells (th_ready_list e) (map th_state_node (u # rs))"
    and m: "ld32 ?m0 (th_cur e) = t" "ld32 ?m0 (th_status u) = task_status_code TASK_READY"
    using ok by (auto simp: wait_ok_def Let_def)
  obtain st c where p: "irq_enter_protection (core s) = (st, c)" by fastforce
  have c: "set_ram ?m0 (s\<lparr>core := c\<rparr>) = s\<lparr>core := c\<rparr>" "ram c = ?m0" using irq_keeps(1) [of "core s"] p by (simp_all add: set_ram_def)
  have irq: "st = get_irq_status (core s)" "get_irq_status c = INTR_OFF"
    using p flag_cli_sti by (auto simp: irq_enter_protection_def irq_disable_def Let_def split: if_splits)
  have "thread_sem_wait e sem s
    = Some (Blocked st (switch_thread_from_to t u (set_ram (blocked e (parked e sem ?m0 t) t u) (s\<lparr>core := c\<rparr>))))"
    using l(6) [OF zero, of st "s\<lparr>core := c\<rparr>"] block_switches [OF l(2), of t] l(4) m ps
    by (simp add: thread_sem_wait_def p c Let_def cur_thread_def)
  then show ?thesis using irq by auto
qed

text \<open>
  C17: a thread that waits on a semaphore of value 0 is blocked: it leaves the ready queue, goes
  to the end of the queue of waiters, and the processor switches to the stack of the next ready
  thread, which is marked running.  The value and the sleeping threads are untouched, and the
  switch happens with interrupts off; the state the section was entered in is kept for the
  waiter.  The search for the thread among the waiters comes back with a null pointer.  That is
  what the comment at line 28 of \<open>sync.c\<close> asks for, and the opposite of the assertion
  \<open>wait_node != NULL\<close> there, which is empty in this build: with assertions on, every wait that
  blocks would end in a panic.
\<close>

theorem sem_wait_blocks:
  assumes ok: "wait_ok e sem (cmem s) ws t u rs zs" and zero: "sem_value (cmem s) sem = 0"
  shows "\<exists>c m. thread_sem_wait e sem s =
        Some (Blocked (get_irq_status (core s)) (switch_thread_from_to t u (set_ram m (s\<lparr>core := c\<rparr>))))
    \<and> get_irq_status c = INTR_OFF
    \<and> dlist m (wait_list sem) (map th_state_node (ws @ [t])) \<and> dlist m (th_ready_list e) (map th_state_node (u # rs))
    \<and> dlist m (th_sleep_list e) (map th_state_node zs)
    \<and> ld32 m (th_status t) = task_status_code TASK_BLOCKED \<and> ld32 m (th_status u) = task_status_code TASK_RUNNING
    \<and> ld32 m (th_cur e) = u \<and> sem_value m sem = 0
    \<and> klist_find (cmem s) (wait_list sem) (th_state_node t) = Some 0"
  using wait_search_null [OF ok] wait_blocks [OF ok zero] blocked_state [OF ok zero]
  by (elim exE conjE, intro exI [of _ "blocked e (parked e sem (cmem s) t) t u"] exI) simp

section \<open>From the wait to its return\<close>

lemma round_passes:
  assumes "sem_value (cmem s) sem \<noteq> 0"
  shows "\<exists>c. sem_wait_round e sem cur st s = Some (Passed (s\<lparr>core := c\<rparr>))
    \<and> ram c = (cmem s)(sem := sem_value (cmem s) sem - 1) \<and> trace c = trace (core s) \<and> get_irq_status c = st"
proof -
  let ?c = "irq_leave_protection st ((core s)\<lparr>ram := (cmem s)(sem := sem_value (cmem s) sem - 1)\<rparr>)"
  have "get_irq_status ?c = st"
    using flag_cli_sti by (cases st) (simp_all add: irq_leave_protection_def irq_set_status_def irq_enable_def irq_disable_def Let_def)
  then show ?thesis
    using assms by (intro exI [of _ ?c]) (simp add: sem_wait_round_def Let_def irq_keeps set_ram_def)
qed

text \<open>
  What the threads share: the value, the two lists, the current thread and the state of the waiter.
  Between the steps of the hand-over the threads may do anything that leaves these as they are.
\<close>

definition sync_words :: "old_env \<Rightarrow> u32 \<Rightarrow> u32 \<Rightarrow> u32 \<Rightarrow> u32 list \<Rightarrow> u32 set" where
  "sync_words e sem t u rs = {th_cur e, th_status t} \<union> list_cells (wait_list sem) (map th_state_node [t])
     \<union> list_cells (th_ready_list e) (map th_state_node (t # u # rs))"

definition same_sync :: "u32 set \<Rightarrow> u32 \<Rightarrow> mem \<Rightarrow> mem \<Rightarrow> bool" where
  "same_sync W sem m m' \<longleftrightarrow> m' sem = m sem \<and> (\<forall>c\<in>W. ld32 m' c = ld32 m c)"

text \<open>From memory \<open>m\<close> on, the next round of \<open>t\<close>'s loop leaves the semaphore with the flag \<open>st\<close>.\<close>

definition leaves_loop :: "old_env \<Rightarrow> u32 \<Rightarrow> u32 set \<Rightarrow> u32 \<Rightarrow> irq_status \<Rightarrow> mem \<Rightarrow> bool" where
  "leaves_loop e sem W t st m \<longleftrightarrow> (\<forall>z. same_sync W sem m (cmem z) \<longrightarrow>
     (\<exists>z'. sem_wait_round e sem t st z = Some (Passed z') \<and> sem_value (cmem z') sem = 0
       \<and> dlist (cmem z') (wait_list sem) [] \<and> get_irq_status (core z') = st))"

text \<open>From memory \<open>m\<close> on, the dispatcher goes from \<open>u\<close> to \<open>t\<close>, which then leaves its loop.\<close>

definition hands_back :: "old_env \<Rightarrow> u32 \<Rightarrow> u32 set \<Rightarrow> u32 \<Rightarrow> u32 \<Rightarrow> irq_status \<Rightarrow> mem \<Rightarrow> bool" where
  "hands_back e sem W t u st m \<longleftrightarrow> (\<forall>y. same_sync W sem m (cmem y) \<longrightarrow>
     (\<exists>m'. thread_dispatch e y = switch_thread_from_to u t (set_ram m' y) \<and> ld32 m' (th_cur e) = t \<and> leaves_loop e sem W t st m'))"

lemma same_sync_dlist: "dlist m l xs \<Longrightarrow> same_sync W sem m m' \<Longrightarrow> list_cells l xs \<subseteq> W \<Longrightarrow> dlist m' l xs"
  using dlist_cong [of m l xs m'] by (auto simp: same_sync_def)

lemma sync_cells:
  "list_cells (wait_list sem) (map th_state_node [t]) \<subseteq> sync_words e sem t u rs"
  "list_cells (wait_list sem) (map th_state_node []) \<subseteq> sync_words e sem t u rs"
  "list_cells (th_ready_list e) (map th_state_node (u # rs)) \<subseteq> sync_words e sem t u rs"
  "list_cells (th_ready_list e) (map th_state_node (t # u # rs)) \<subseteq> sync_words e sem t u rs"
  by (auto simp: sync_words_def list_cells_def list_nodes_def)

lemma wait_ok_sem_ok:
  assumes ok: "wait_ok e sem m [] t u rs zs"
    and d: "dlist m' (wait_list sem) (map th_state_node [t])" "dlist m' (th_ready_list e) (map th_state_node (u # rs))"
  shows "sem_ok e sem m' [t] (u # rs)"
proof -
  have "dlist m (th_ready_list e) ([] @ th_state_node t # map th_state_node (u # rs))" using ok by (simp add: wait_ok_def)
  from removed_node_fresh [OF this] have "fresh_node (th_ready_list e) (map th_state_node (u # rs)) (th_state_node t)" by simp
  then show ?thesis using ok d by (auto simp: sem_ok_def wait_ok_def Let_def)
qed

lemma wait_ok_cur:
  assumes "wait_ok e sem m [] t u rs zs"
  shows "aligned4 (th_cur e)" "th_cur e \<noteq> th_status t" "th_cur e \<noteq> sem" "th_status t \<noteq> sem" "u \<noteq> t" "aligned4 sem" "aligned4 (th_status t)"
    "th_cur e \<notin> list_cells (wait_list sem) (map th_state_node [t])"
    "th_cur e \<notin> list_cells (th_ready_list e) (map th_state_node (t # u # rs))"
    "sem \<notin> list_cells (wait_list sem) (map th_state_node [t])"
    "th_status t \<notin> list_cells (wait_list sem) (map th_state_node [t])"
proof -
  have "list_cells (th_ready_list e) (map th_state_node (t # u # rs))
    = {th_state_node t, th_state_node t + 4} \<union> list_cells (th_ready_list e) (map th_state_node (u # rs))"
    using list_cells_insert [of "th_ready_list e" "[]" "th_state_node t" "map th_state_node (u # rs)"] by simp
  moreover have "{th_state_node t, th_state_node t + 4} \<subseteq> list_cells (wait_list sem) (map th_state_node [t])"
    by (auto simp: list_cells_def list_nodes_def)
  ultimately show "aligned4 (th_cur e)" "th_cur e \<noteq> th_status t" "th_cur e \<noteq> sem" "th_status t \<noteq> sem" "u \<noteq> t" "aligned4 sem"
    "aligned4 (th_status t)" "th_cur e \<notin> list_cells (wait_list sem) (map th_state_node [t])"
    "th_cur e \<notin> list_cells (th_ready_list e) (map th_state_node (t # u # rs))"
    "sem \<notin> list_cells (wait_list sem) (map th_state_node [t])" "th_status t \<notin> list_cells (wait_list sem) (map th_state_node [t])"
    using assms by (auto simp: wait_ok_def Let_def)
qed

text \<open>
  C19: a wait that blocks returns, when the thread is the only one that waits.  The thread \<open>t\<close> finds
  the value 0 and nobody waiting, and is switched away from.  When the next thread \<open>u\<close>, still with
  \<open>t\<close> as the only waiter, posts, the dispatcher goes back from \<open>u\<close> to \<open>t\<close>, and if nobody takes the
  semaphore or changes its lists meanwhile the next round of \<open>t\<close>'s loop leaves it: the value
  is 0 again, nobody waits, and the interrupt flag is as \<open>t\<close> had it when it began to wait.  As in
  every wait that blocks the search gives a null pointer, which the assertion at line 28 of \<open>sync.c\<close>,
  empty in this build, would not let pass.
\<close>

theorem sem_wait_returns:
  fixes e sem s t u rs
  defines "st \<equiv> get_irq_status (core s)" and "W \<equiv> sync_words e sem t u rs"
  assumes ok: "wait_ok e sem (cmem s) [] t u rs zs" and zero: "sem_value (cmem s) sem = 0"
  shows "\<exists>c m. thread_sem_wait e sem s = Some (Blocked st (switch_thread_from_to t u (set_ram m (s\<lparr>core := c\<rparr>))))
    \<and> (\<forall>p. same_sync W sem m (ram p) \<longrightarrow>
      (\<exists>p'. thread_sem_post e sem p = Some p' \<and> hands_back e sem W t u st (ram p')))
    \<and> klist_find (cmem s) (wait_list sem) (th_state_node t) = Some 0"
proof -
  let ?m = "blocked e (parked e sem (cmem s) t) t u"
  note b = blocked_state [OF ok zero] and k = wait_ok_cur [OF ok] and cells = sync_cells [where sem = sem and t = t and e = e and u = u and rs = rs, folded W_def]
  obtain c where wait: "thread_sem_wait e sem s = Some (Blocked st (switch_thread_from_to t u (set_ram ?m (s\<lparr>core := c\<rparr>))))"
    using wait_blocks [OF ok zero] unfolding st_def by blast
  have W: "th_cur e \<in> W" "th_status t \<in> W" by (simp_all add: W_def sync_words_def)
  have post: "\<exists>p'. thread_sem_post e sem p = Some p' \<and> dlist (ram p') (wait_list sem) []
      \<and> dlist (ram p') (th_ready_list e) (map th_state_node (t # u # rs)) \<and> ld32 (ram p') (th_status t) = task_status_code TASK_READY
      \<and> ram p' sem = 1 \<and> ld32 (ram p') (th_cur e) = u" if p: "same_sync W sem ?m (ram p)" for p
  proof -
    have so: "sem_ok e sem (ram p) [t] (u # rs)"
      using same_sync_dlist [OF b(1) p] same_sync_dlist [OF b(2) p] cells by (intro wait_ok_sem_ok [OF ok]) simp_all
    have "sem_value (ram p) sem = 0" "ld32 (ram p) (th_cur e) = u" using p b(6,7) W by (auto simp: same_sync_def sem_value_def)
    moreover have "ld32 (posted e sem (ram p) t) (th_cur e) = ld32 (woken e sem (ram p) t) (th_cur e)"
      unfolding posted_def by (rule unchanged_ld32 [OF unchanged_byte]) (use k in auto)
    moreover have "ld32 (woken e sem (ram p) t) (th_cur e) = ld32 (ram p) (th_cur e)"
      by (rule woken_other [OF so k(1,2)]) (use k(8,9) in simp_all)
    ultimately show ?thesis using post_wakes [OF so] posted_state [OF so] by (auto simp: sem_value_def)
  qed
  have turn: "thread_dispatch e y = switch_thread_from_to u t (set_ram (running e (cmem y) t) y)"
    "dlist (running e (cmem y) t) (wait_list sem) []" "running e (cmem y) t sem = 1" "ld32 (running e (cmem y) t) (th_cur e) = t"
    if y: "same_sync W sem m1 (cmem y)" and m1: "dlist m1 (wait_list sem) []" "dlist m1 (th_ready_list e) (map th_state_node (t # u # rs))"
      "ld32 m1 (th_status t) = task_status_code TASK_READY" "m1 sem = 1" "ld32 m1 (th_cur e) = u" for m1 y
  proof -
    have d: "dlist (cmem y) (wait_list sem) []" "dlist (cmem y) (th_ready_list e) (map th_state_node (t # u # rs))"
      using same_sync_dlist [OF m1(1) y] same_sync_dlist [OF m1(2) y] cells by simp_all
    show "thread_dispatch e y = switch_thread_from_to u t (set_ram (running e (cmem y) t) y)"
      using m1(3,5) y W k(5) by (intro dispatch_to_first [OF d(2)]) (auto simp: same_sync_def)
    have "list_cells (wait_list sem) [] \<subseteq> list_cells (wait_list sem) (map th_state_node [t])"
      by (auto simp: list_cells_def list_nodes_def)
    then show "dlist (running e (cmem y) t) (wait_list sem) []"
      unfolding running_def using k by (intro dlist_store d(1)) auto
    have "sem \<notin> word_bytes (th_cur e)" "sem \<notin> word_bytes (th_status t)"
      using aligned_byte [of "{th_cur e}" sem] aligned_byte [of "{th_status t}" sem] k by auto
    then show "running e (cmem y) t sem = 1" using y m1(4) by (simp add: running_def st32_other_byte same_sync_def)
    show "ld32 (running e (cmem y) t) (th_cur e) = t" using k by (simp add: running_def ld32_st32_other ld32_st32)
  qed
  have leave: "leaves_loop e sem W t st m2" if m2: "dlist m2 (wait_list sem) []" "m2 sem = 1" for m2
    unfolding leaves_loop_def
  proof (intro allI impI)
    fix z assume z: "same_sync W sem m2 (cmem z)"
    have one: "sem_value (cmem z) sem = 1" using z m2(2) by (simp add: same_sync_def sem_value_def)
    obtain c' where c': "sem_wait_round e sem t st z = Some (Passed (z\<lparr>core := c'\<rparr>))" "ram c' = (cmem z)(sem := 0)" "get_irq_status c' = st"
      using round_passes [of z sem e t st] one by auto
    have "dlist (cmem z) (wait_list sem) []" using same_sync_dlist [OF m2(1) z] cells by simp
    moreover have "sem \<notin> list_cells (wait_list sem) []" using k(10) by (auto simp: list_cells_def list_nodes_def)
    ultimately have "dlist ((cmem z)(sem := 0)) (wait_list sem) []"
      by (intro dlist_frame [OF _ unchanged_byte]) (use k(6) in auto)
    then show "\<exists>z'. sem_wait_round e sem t st z = Some (Passed z') \<and> sem_value (cmem z') sem = 0
      \<and> dlist (cmem z') (wait_list sem) [] \<and> get_irq_status (core z') = st" using c' by (intro exI [of _ "z\<lparr>core := c'\<rparr>"]) (simp add: sem_value_def)
  qed
  have "hands_back e sem W t u st m1"
    if "dlist m1 (wait_list sem) []" "dlist m1 (th_ready_list e) (map th_state_node (t # u # rs))"
      "ld32 m1 (th_status t) = task_status_code TASK_READY" "m1 sem = 1" "ld32 m1 (th_cur e) = u" for m1
    unfolding hands_back_def using turn [OF _ that] leave by blast
  then show ?thesis using wait post wait_search_null [OF ok] by (intro exI [of _ c] exI [of _ ?m]) blast
qed

text \<open>
  posting to a semaphore nobody waits for and waiting again leaves memory as it was, unless
  the value was 255: then the post wraps to 0.
\<close>

theorem sem_post_wait_roundtrip:
  assumes "klist_empty (cmem s) (wait_list sem)"
  shows "\<exists>c. thread_sem_post e sem (core s) = Some c \<and> ram c = (cmem s)(sem := sem_value (cmem s) sem + 1)
    \<and> (if sem_value (cmem s) sem = 255 then sem_value (ram c) sem = 0
       else \<exists>c'. thread_sem_wait e sem (s\<lparr>core := c\<rparr>) = Some (Passed (s\<lparr>core := c'\<rparr>)) \<and> ram c' = cmem s)"
proof -
  obtain irq s0 where p: "irq_enter_protection (core s) = (irq, s0)" by fastforce
  have s0: "ram s0 = cmem s" using irq_keeps(1) [of "core s"] p by simp
  let ?m = "(cmem s)(sem := sem_value (cmem s) sem + 1)"
  let ?c = "irq_leave_protection irq (s0\<lparr>ram := ?m\<rparr>)"
  have c: "thread_sem_post e sem (core s) = Some ?c" "ram ?c = ?m"
    using assms by (simp_all add: thread_sem_post_def p s0)
  show ?thesis
  proof (cases "sem_value (cmem s) sem = 255")
    case True
    with c show ?thesis by (intro exI [of _ ?c]) (simp add: sem_value_def)
  next
    case False
    have "(x :: u8) + 1 \<noteq> 0" if "x \<noteq> 255" for x
    proof
      assume "x + 1 = 0"
      then have "x = - 1" by (simp add: eq_neg_iff_add_eq_0)
      with that show False by simp
    qed
    with False have "sem_value (cmem (s\<lparr>core := ?c\<rparr>)) sem \<noteq> 0" by (simp add: sem_value_def)
    from sem_wait_takes [OF this, of e] c False show ?thesis
      by (intro exI [of _ ?c]) (auto simp: sem_value_def)
  qed
qed

theorem sem_post_wait_roundtrip_witness:
  "\<exists>c. thread_sem_post sample_old 0x7000 (core (set_ram ((\<lambda>_. 0)(0x7000 := 255)) sample_cpu)) = Some c \<and> ram c 0x7000 = 0"
proof -
  have "klist_empty (cmem (set_ram ((\<lambda>_. 0)(0x7000 := 255)) sample_cpu)) (wait_list 0x7000)"
    by (simp add: klist_empty_def klist_len_def list_len_def wait_list_def ld32_def set_ram_def)
  from sem_post_wait_roundtrip [OF this, of sample_old] show ?thesis
    by (auto simp: sem_value_def set_ram_def)
qed

text \<open>The sample: of the threads at 0x2000 and 0x3000, the first waits on a semaphore of value 0.\<close>

definition sample_wait :: mem where
  "sample_wait = (klist_init (klist_init sample_threads 0x102C) 0x7004)(0x7000 := 0)"

lemma sample_wait_ok: "wait_ok sample_old 0x7000 sample_wait [] 0x2000 0x3000 [] []"
proof -
  let ?m = "klist_init sample_threads 0x102C" let ?m' = "klist_init ?m 0x7004"
  have t: "dlist sample_threads 0x1018 [0x2028, 0x3028]" "ld32 sample_threads 0x1000 = 0x2000" "ld32 sample_threads 0x301C = 2"
    using sample_threads_ok by (simp_all add: thread_queue_def rotation_ok_def sample_old_def old_lists th_fields)
  have s1: "dlist ?m 0x102C []" and w1: "dlist ?m' 0x7004 []"
    by (rule klist_init_dlist, simp add: sep_nodes_def aligned4_numeral)+
  note frame = klist_init_frame [of "0x102C" sample_threads] klist_init_frame [of "0x7004" ?m]
  have r2: "dlist ?m' 0x1018 [0x2028, 0x3028]"
    by (rule dlist_frame [OF dlist_frame [OF t(1) frame(1)] frame(2)]) (simp_all add: sample_numeric)
  have s2: "dlist ?m' 0x102C []" by (rule dlist_frame [OF s1 frame(2)]) (simp_all add: sample_numeric)
  have w: "ld32 ?m' a = ld32 sample_threads a" if "a = 0x1000 \<or> a = 0x301C" for a
    using that unchanged_ld32 [OF frame(1), of a] unchanged_ld32 [OF frame(2), of a] by (auto simp: sample_numeric)
  have byte: "dlist sample_wait l xs" if "dlist ?m' l xs" "0x7000 \<notin> list_cells l xs" for l xs
    unfolding sample_wait_def by (rule dlist_frame [OF that(1) unchanged_byte]) (use that(2) in \<open>auto simp: aligned4_numeral\<close>)
  have b: "dlist sample_wait 0x7004 []" "dlist sample_wait 0x1018 [0x2028, 0x3028]" "dlist sample_wait 0x102C []"
    by (rule byte [OF w1] byte [OF r2] byte [OF s2], simp add: list_cells_def list_nodes_def)+
  have v: "ld32 sample_wait a = ld32 ?m' a" if "a = 0x1000 \<or> a = 0x301C" for a
    unfolding sample_wait_def by (rule unchanged_ld32 [OF unchanged_byte]) (use that in \<open>auto simp: aligned4_numeral\<close>)
  show ?thesis
    using b t(2,3) v w by (simp add: wait_ok_def sample_old_def wait_list_def old_lists th_fields sample_numeric)
qed

theorem sem_wait_blocks_witness:
  "\<exists>c m. thread_sem_wait sample_old 0x7000 (set_ram sample_wait sample_cpu) =
        Some (Blocked (get_irq_status (core sample_cpu))
          (switch_thread_from_to 0x2000 0x3000 (set_ram m ((set_ram sample_wait sample_cpu)\<lparr>core := c\<rparr>))))
     \<and> dlist m 0x7004 [0x2028] \<and> dlist m 0x1018 [0x3028]"
proof -
  have "sem_value (cmem (set_ram sample_wait sample_cpu)) 0x7000 = 0" by (simp add: sem_value_def set_ram_def sample_wait_def)
  moreover have "cmem (set_ram sample_wait sample_cpu) = sample_wait"
    "get_irq_status (core (set_ram sample_wait sample_cpu)) = get_irq_status (core sample_cpu)"
    by (simp_all add: set_ram_def get_irq_status_def)
  moreover have "wait_list 0x7000 = 0x7004" "th_ready_list sample_old = 0x1018"
    by (simp_all add: wait_list_def th_ready_list_def sample_old_def)
  moreover have "th_state_node 0x2000 = 0x2028" "th_state_node 0x3000 = 0x3028" by (simp_all add: th_fields)
  ultimately show ?thesis
    using sem_wait_blocks [of sample_old "0x7000" "set_ram sample_wait sample_cpu" "[]" "0x2000" "0x3000" "[]" "[]"]
      sample_wait_ok by auto
qed

theorem sem_wait_returns_witness:
  "\<exists>c m p' m' z'. thread_sem_wait sample_old 0x7000 (set_ram sample_wait sample_cpu) =
        Some (Blocked (get_irq_status sample_machine)
          (switch_thread_from_to 0x2000 0x3000 (set_ram m ((set_ram sample_wait sample_cpu)\<lparr>core := c\<rparr>))))
     \<and> thread_sem_post sample_old 0x7000 (sample_machine\<lparr>ram := m\<rparr>) = Some p'
     \<and> thread_dispatch sample_old (set_ram (ram p') sample_cpu) = switch_thread_from_to 0x3000 0x2000 (set_ram m' (set_ram (ram p') sample_cpu))
     \<and> sem_wait_round sample_old 0x7000 0x2000 (get_irq_status sample_machine) (set_ram m' sample_cpu) = Some (Passed z')
     \<and> sem_value (cmem z') 0x7000 = 0"
proof -
  let ?s = "set_ram sample_wait sample_cpu" and ?st = "get_irq_status sample_machine"
  let ?W = "sync_words sample_old 0x7000 0x2000 0x3000 []"
  have s: "cmem ?s = sample_wait" "sem_value sample_wait 0x7000 = 0" "get_irq_status (core ?s) = ?st"
    by (simp_all add: sem_value_def set_ram_def sample_wait_def sample_cpu_def get_irq_status_def)
  have same: "same_sync ?W 0x7000 m (cmem (set_ram m x))" "cmem (set_ram m x) = m" for m x
    by (simp_all add: same_sync_def set_ram_def)
  obtain c m where w: "thread_sem_wait sample_old 0x7000 ?s = Some (Blocked ?st
        (switch_thread_from_to 0x2000 0x3000 (set_ram m (?s\<lparr>core := c\<rparr>))))"
    and post: "\<forall>p. same_sync ?W 0x7000 m (ram p) \<longrightarrow>
      (\<exists>p'. thread_sem_post sample_old 0x7000 p = Some p' \<and> hands_back sample_old 0x7000 ?W 0x2000 0x3000 ?st (ram p'))"
    using sem_wait_returns [of sample_old "0x7000" ?s "0x2000" "0x3000" "[]" "[]", unfolded s, OF sample_wait_ok HOL.refl] by blast
  from post [rule_format, of "sample_machine\<lparr>ram := m\<rparr>"]
  obtain p' where p': "thread_sem_post sample_old 0x7000 (sample_machine\<lparr>ram := m\<rparr>) = Some p'"
    and h: "hands_back sample_old 0x7000 ?W 0x2000 0x3000 ?st (ram p')" by (auto simp: same_sync_def)
  from h [unfolded hands_back_def, rule_format, OF same(1), of sample_cpu]
  obtain m' where d: "thread_dispatch sample_old (set_ram (ram p') sample_cpu)
      = switch_thread_from_to 0x3000 0x2000 (set_ram m' (set_ram (ram p') sample_cpu))"
    and l: "leaves_loop sample_old 0x7000 ?W 0x2000 ?st m'" by blast
  from l [unfolded leaves_loop_def, rule_format, OF same(1), of sample_cpu] show ?thesis using w p' d by blast
qed

end
