(* ===== verification/Tasks_Init.thy ===== *)
theory Tasks_Init
  imports Clock
begin

text \<open>
  What \<open>task_manager_init\<close> of \<open>core/task.c\<close> leaves behind, and what the first clock interrupt
  makes of it.  The descriptor allocator the file calls, \<open>gdt_alloc_desc\<close>, is not in the
  repository; here it is any operation that, on the table as it is, yields the selector of a free
  entry and writes to no other.  \<open>gdt_alloc_seg\<close> of \<open>gdt/gdt.c\<close> is such an operation.
\<close>

definition desc_slot :: "c_int \<Rightarrow> nat" where
  "desc_slot sel = unat (drop_bit 3 (ucast sel :: u16))"

definition gdt_slot :: "task_env \<Rightarrow> nat \<Rightarrow> u32 set" where
  "gdt_slot e i = region (slot8 (gdt_tab e) i) 8"

definition free_slot :: "task_env \<Rightarrow> mem \<Rightarrow> nat \<Rightarrow> bool" where
  "free_slot e m i \<longleftrightarrow> i < 256 \<and> entry_free (gdt_entry_at m (slot8 (gdt_tab e) i))"

definition desc_alloc_ok :: "task_env \<Rightarrow> mem \<Rightarrow> bool" where
  "desc_alloc_ok e m \<longleftrightarrow> (\<forall>m'. (\<forall>x\<in>region (gdt_tab e) 2048. m' x = m x) \<longrightarrow>
     (case gdt_alloc_desc e m' of (m'', sel) \<Rightarrow> 0 \<le> sint sel \<and> free_slot e m (desc_slot sel)
       \<and> same_outside (gdt_slot e (desc_slot sel)) m' m''))"

lemma gdt_slot_sub: "free_slot e m i \<Longrightarrow> gdt_slot e i \<subseteq> region (gdt_tab e) 2048"
  using slot_region by (auto simp: gdt_slot_def free_slot_def region_def)

lemma free_slot_cong:
  assumes "\<And>x. x \<in> region (gdt_tab e) 2048 \<Longrightarrow> m' x = m x"
  shows "free_slot e m' i = free_slot e m i"
proof (cases "i < 256")
  case True
  then have "gdt_entry_at m' (slot8 (gdt_tab e) i) = gdt_entry_at m (slot8 (gdt_tab e) i)"
    using slot_region by (intro gdt_entry_at_cong assms) simp
  then show ?thesis by (simp add: free_slot_def)
qed (simp add: free_slot_def)

lemma desc_alloc_ok_cong:
  assumes "desc_alloc_ok e m" "\<And>x. x \<in> region (gdt_tab e) 2048 \<Longrightarrow> m' x = m x"
  shows "desc_alloc_ok e m'"
  using assms(1) free_slot_cong [of e m' m] assms(2) unfolding desc_alloc_ok_def by simp

lemma alloc_seg_ok:
  assumes "gdt_alloc_desc e = (\<lambda>m. (m, gdt_alloc_seg (gdt_tab e) m))" "free_slot e m i" "i \<noteq> 0"
  shows "desc_alloc_ok e m"
  unfolding desc_alloc_ok_def
proof (intro allI impI)
  fix m' assume same: "\<forall>x\<in>region (gdt_tab e) 2048. m' x = m x"
  let ?P = "\<lambda>i. entry_free (gdt_entry_at m' (slot8 (gdt_tab e) i))"
  have "find ?P [1..<GDT_SIZE] \<noteq> None"
    using assms(2,3) free_slot_cong [of e m' m] same by (auto simp: find_None_iff free_slot_def GDT_SIZE_def)
  then obtain j where j: "find ?P [1..<GDT_SIZE] = Some j" by auto
  then have fj: "j < GDT_SIZE" "?P j" by (auto simp: find_Some_iff)
  have "free_slot e m j" using fj free_slot_cong [of e m' m j] same by (simp add: free_slot_def GDT_SIZE_def)
  moreover have "desc_slot (of_nat (j * 8)) = j" using unat_slot_selector [OF fj(1)] by (simp add: desc_slot_def)
  moreover have "0 \<le> sint (of_nat (j * 8) :: c_int)"
    using fj(1) by (subst sint_of_nat) (simp_all add: GDT_SIZE_def)
  ultimately show "case gdt_alloc_desc e m' of (m'', sel) \<Rightarrow> 0 \<le> sint sel \<and> free_slot e m (desc_slot sel)
      \<and> same_outside (gdt_slot e (desc_slot sel)) m' m''"
    using j by (simp add: assms(1) alloc_find)
qed

text \<open>The manager, 408 bytes: the pointer, three lists, the first task and the idle task.\<close>

definition manager_region :: "task_env \<Rightarrow> u32 set" where
  "manager_region e = region (tm e) 408"

definition manager_ok :: "task_env \<Rightarrow> bool" where
  "manager_ok e \<longleftrightarrow> aligned4 (tm e) \<and> 48 \<le> unat (tm e) \<and> unat (tm e) + 408 < 2 ^ 32
     \<and> manager_region e \<inter> region (gdt_tab e) 2048 = {}"

lemma manager_word:
  assumes "k + 4 \<le> 408"
  shows "word_bytes (tm e + of_nat k) \<subseteq> manager_region e"
  using word_in_region [OF assms, of _ "tm e"] by (auto simp: manager_region_def)

lemma manager_part:
  assumes "k + n \<le> 408"
  shows "region (tm e + of_nat k) n \<subseteq> manager_region e"
proof -
  have "region (tm e + of_nat k) n \<subseteq> region (tm e) (k + n)" by (simp add: region_add)
  then show ?thesis using region_mono [OF assms] by (auto simp: manager_region_def)
qed

lemma manager_apart_words:
  assumes "i + 4 \<le> j" "j + n \<le> 408"
  shows "word_bytes (tm e + of_nat i) \<inter> region (tm e + of_nat j) n = {}"
proof -
  have "word_bytes (tm e + of_nat i) \<subseteq> region (tm e) j"
    using word_in_region [OF assms(1), of _ "tm e"] by auto
  moreover have "region (tm e) j \<inter> region (tm e + of_nat j) n = {}"
    by (rule region_add_disjoint, rule order_trans [OF assms(2)]) simp
  ultimately show ?thesis by (meson disjoint_iff subsetD)
qed

section \<open>Setting up a task\<close>

lemma tss_setup_frame:
  "same_outside (gdt_slot e (desc_slot sel) \<union> region (t_tss task) 108) m (tss_setup e m task sel entry stk)"
proof -
  have "t_tss_sel task = t_tss task + of_nat 104" by (simp add: task_fields add.commute [of task])
  then have "x \<notin> word_bytes (t_tss_sel task)" if "x \<notin> region (t_tss task) 108" for x
    using that word_in_region [of 104 108 x "t_tss task"] by auto
  moreover have "gdt_segment_set g m' s l b a x = m' x" if "x \<notin> region (gdt_desc g s) 8" for g m' s l b a x
    using that by (intro gdt_segment_set_byte) (auto simp: region_def)
  moreover have "gdt_slot e (desc_slot sel) = region (gdt_desc (gdt_tab e) (ucast sel)) 8"
    by (simp add: gdt_slot_def desc_slot_def gdt_desc_slot)
  ultimately show ?thesis
    by (simp add: same_outside_def tss_setup_def Let_def set_reg_byte st32_other_byte)
qed

text \<open>Up to the list of all tasks, \<open>task_init\<close> writes the structure and one free descriptor.\<close>

lemma task_init_eq:
  assumes a: "desc_alloc_ok e (ram s)" and task: "task = idle_task e" "aligned4 task"
    and apart: "region task 172 \<inter> region (gdt_tab e) 2048 = {}"
  shows "\<exists>m i. task_init e task name entry stk s = Some (s\<lparr>ram := klist_append m (task_list e) (t_all_node task)\<rparr>, 0)
    \<and> free_slot e (ram s) i \<and> same_outside (region task 172 \<union> gdt_slot e i) (ram s) m
    \<and> ld32 m (t_state task) = state_code CREATED \<and> ld32 m (t_slice_ticks task) = TASK_TIME_SLICE_DEFAULT"
proof -
  let ?R = "region task 172"
  let ?m0 = "kmemset (ram s) (t_tss task) 0 sizeof_tss"
  have r: "region (t_tss task) 108 \<subseteq> ?R" "region (t_tss task) 104 \<subseteq> ?R" "region (task + 4) 4 \<subseteq> ?R"
    using region_add [of task 64 108] region_add [of task 4 4] region_mono [of 172 172 task] region_mono [of 8 172 task]
      region_mono [of 104 108 "t_tss task"] by (auto simp: t_tss_def)
  have clear: "same_outside ?R (ram s) ?m0"
    using r(2) by (auto simp: same_outside_def kmemset_eq sizeof_tss_def)
  obtain m1 sel where al: "gdt_alloc_desc e ?m0 = (m1, sel)" by fastforce
  have "\<forall>x\<in>region (gdt_tab e) 2048. ?m0 x = ram s x" using clear apart unfolding same_outside_def by blast
  then have "case gdt_alloc_desc e ?m0 of (m'', sel) \<Rightarrow> 0 \<le> sint sel \<and> free_slot e (ram s) (desc_slot sel)
      \<and> same_outside (gdt_slot e (desc_slot sel)) ?m0 m''"
    by (rule a [unfolded desc_alloc_ok_def, THEN spec, THEN mp])
  then have sel: "0 \<le> sint sel" "free_slot e (ram s) (desc_slot sel)" "same_outside (gdt_slot e (desc_slot sel)) ?m0 m1"
    by (simp_all add: al)
  let ?G = "gdt_slot e (desc_slot sel)"
  let ?m2 = "tss_setup e m1 task sel stk (missing_arg e)"
  have tss: "tss_init e task entry stk (missing_arg e) s = Some (s\<lparr>ram := ?m2\<rparr>, 0)"
    using sel(1) by (simp add: tss_init_def al)
  let ?m3 = "kmemcpy (st32 ?m2 task (state_code CREATED)) (task + 4) name 4"
  let ?m4 = "st32 (st32 ?m3 (task + 44) TASK_TIME_SLICE_DEFAULT) (task + 40) TASK_TIME_SLICE_DEFAULT"
  let ?m5 = "klist_node_init (klist_node_init ?m4 (task + 48)) (task + 56)"
  have w: "word_bytes task \<subseteq> ?R" "word_bytes (task + 40) \<subseteq> ?R" "word_bytes (task + 44) \<subseteq> ?R"
    "word_bytes (task + 48) \<subseteq> ?R" "word_bytes (task + 52) \<subseteq> ?R" "word_bytes (task + 56) \<subseteq> ?R" "word_bytes (task + 60) \<subseteq> ?R"
    using word_in_region [of 0 172 _ task] word_in_region [of 40 172 _ task] word_in_region [of 44 172 _ task]
      word_in_region [of 48 172 _ task] word_in_region [of 52 172 _ task] word_in_region [of 56 172 _ task]
      word_in_region [of 60 172 _ task] by auto
  have "same_outside (?R \<union> ?G) (ram s) m1" by (rule same_outside_trans [OF clear sel(3)]) auto
  moreover have "same_outside (?R \<union> ?G) m1 ?m2"
    by (rule same_outside_mono [OF tss_setup_frame]) (use r(1) in auto)
  ultimately have "same_outside (?R \<union> ?G) (ram s) ?m2" by (rule same_outside_step)
  moreover have "same_outside (?R \<union> ?G) ?m2 ?m5"
    unfolding same_outside_def
  proof (intro allI impI)
    fix x assume "x \<notin> ?R \<union> ?G"
    then have "x \<notin> word_bytes task" "x \<notin> word_bytes (task + 40)" "x \<notin> word_bytes (task + 44)" "x \<notin> word_bytes (task + 48)"
      "x \<notin> word_bytes (task + 52)" "x \<notin> word_bytes (task + 56)" "x \<notin> word_bytes (task + 60)" "x \<notin> region (task + 4) 4"
      using w r by blast+
    then show "?m5 x = ?m2 x"
      by (simp add: klist_node_init_def node_defs st32_other_byte kmemcpy_def kmemcpy_loop_other add.assoc)
  qed
  ultimately have frame: "same_outside (?R \<union> ?G) (ram s) ?m5" by (rule same_outside_step)
  have keep: "ld32 ?m5 (task + k) = ld32 ?m4 (task + k)" if "k \<in> {0, 40}" for k
    using that task(2) by (auto simp: klist_node_init_def node_defs ld32_st32_other align_simps aligned4_numeral add.assoc)
  have "word_bytes task \<inter> region (task + 4) 4 = {}"
    using word_region_disjoint [OF region_add_disjoint [of 4 4 task]] by simp
  then have "ld32 ?m3 task = ld32 (st32 ?m2 task (state_code CREATED)) task"
    by (intro ld32_cong) (simp add: kmemcpy_def, rule kmemcpy_loop_other, blast)
  moreover have "ld32 ?m4 task = ld32 ?m3 task"
    using task(2) by (simp add: ld32_st32_other align_simps)
  ultimately have "ld32 ?m5 (t_state task) = state_code CREATED" using keep [of 0] by (simp add: t_state_def ld32_st32)
  moreover have "ld32 ?m5 (t_slice_ticks task) = TASK_TIME_SLICE_DEFAULT"
    using keep [of 40] by (simp add: t_slice_ticks_def ld32_st32)
  moreover have "task_init e task name entry stk s = Some (s\<lparr>ram := klist_append ?m5 (task_list e) (t_all_node task)\<rparr>, 0)"
    unfolding task_init_def tss
    by (simp add: Let_def task_set_ready_def task(1) [symmetric]) (simp add: task_fields ld32_st32)
  ultimately show ?thesis using frame sel(2) by (intro exI [of _ ?m5] exI [of _ "desc_slot sel"]) simp
qed

section \<open>The manager after its initialisation\<close>

text \<open>Nobody is ready, nobody sleeps, nobody runs, and the idle task is the only one listed.\<close>

definition fresh_manager :: "task_env \<Rightarrow> mem \<Rightarrow> bool" where
  "fresh_manager e m \<longleftrightarrow> queued e m [] \<and> dlist m (sleep_list e) []
     \<and> dlist m (task_list e) [t_all_node (idle_task e)] \<and> ld32 m (curr_task e) = 0"

lemma unchanged_same_outside:
  "unchanged_outside C m m' \<Longrightarrow> (\<And>c. c \<in> C \<Longrightarrow> word_bytes c \<subseteq> R) \<Longrightarrow> same_outside R m m'"
  unfolding unchanged_outside_def same_outside_def by blast

lemma manager_above:
  assumes "manager_ok e" "k < 408"
  shows "48 \<le> unat (tm e + of_nat k)"
proof -
  have "unat (tm e + of_nat k) = unat (tm e) + k"
    using assms unat_of_nat_word [of k, where 'a = 32]
    by (subst unat_add_lem [THEN iffD1]) (simp_all add: manager_ok_def)
  then show ?thesis using assms(1) by (simp add: manager_ok_def)
qed

lemma manager_nonzero: "manager_ok e \<Longrightarrow> k < 408 \<Longrightarrow> tm e + of_nat k \<noteq> 0"
  using manager_above by force

lemma low_word_kept:
  assumes "manager_ok e" "same_outside (region (idle_task e) 172 \<union> G) m m'" "G \<subseteq> region (gdt_tab e) 2048" "k + 4 \<le> 236"
  shows "ld32 m' (tm e + of_nat k) = ld32 m (tm e + of_nat k)"
proof (rule ld32_cong)
  fix x assume x: "x \<in> word_bytes (tm e + of_nat k)"
  have "word_bytes (tm e + of_nat k) \<inter> region (idle_task e) 172 = {}"
    using manager_apart_words [OF assms(4), of 172 e] by (simp add: idle_task_def)
  moreover have "word_bytes (tm e + of_nat k) \<subseteq> manager_region e" by (rule manager_word) (use assms(4) in simp)
  ultimately have "x \<notin> region (idle_task e) 172 \<union> G"
    using x assms(1,3) unfolding manager_ok_def by blast
  then show "m' x = m x" using assms(2) by (simp add: same_outside_def)
qed

lemma manager_cells:
  "list_cells (ready_list e) [] = {tm e + 4, tm e + 8, tm e + 12, tm e + 16, tm e + 20}"
  "list_cells (task_list e) [] = {tm e + 24, tm e + 28, tm e + 32, tm e + 36, tm e + 40}"
  "list_cells (sleep_list e) [] = {tm e + 44, tm e + 48, tm e + 52, tm e + 56, tm e + 60}"
  by (auto simp: list_cells_def list_nodes_def manager_fields add.assoc)

lemma low_cells:
  assumes "c \<in> {tm e} \<union> list_cells (ready_list e) [] \<union> list_cells (task_list e) [] \<union> list_cells (sleep_list e) []"
  shows "\<exists>k. c = tm e + of_nat k \<and> k + 4 \<le> 64"
proof -
  let ?K = "{0, 4, 8, 12, 16, 20, 24, 28, 32, 36, 40, 44, 48, 52, 56, 60} :: nat set"
  have "c \<in> (\<lambda>k. tm e + of_nat k) ` ?K" using assms by (simp add: manager_cells) blast
  then obtain k where "k \<in> ?K" "c = tm e + of_nat k" by (rule imageE)
  moreover from this(1) have "k + 4 \<le> 64" by auto
  ultimately show ?thesis by blast
qed

lemma lists_initialised:
  fixes e m
  defines "m' \<equiv> st32 (klist_init (klist_init (klist_init m (ready_list e)) (task_list e)) (sleep_list e)) (tm e) 0"
  assumes ok: "manager_ok e"
  shows "dlist m' (ready_list e) []" "dlist m' (task_list e) []" "dlist m' (sleep_list e) []" "ld32 m' (tm e) = 0"
    "same_outside (manager_region e) m m'"
proof -
  have tm: "aligned4 (tm e)" using ok by (simp add: manager_ok_def)
  let ?m1 = "klist_init m (ready_list e)" let ?m2 = "klist_init ?m1 (task_list e)" let ?m3 = "klist_init ?m2 (sleep_list e)"
  have sep: "sep_nodes (ready_list e) {ready_list e, ready_list e + 8}" "sep_nodes (task_list e) {task_list e, task_list e + 8}"
    "sep_nodes (sleep_list e) {sleep_list e, sleep_list e + 8}"
    using tm manager_nonzero [OF ok, of 4] manager_nonzero [OF ok, of 12] manager_nonzero [OF ok, of 24]
      manager_nonzero [OF ok, of 32] manager_nonzero [OF ok, of 44] manager_nonzero [OF ok, of 52]
    by (auto simp: sep_nodes_def manager_fields tm_words add.assoc)
  have al: "\<forall>c\<in>list_cells (task_list e) []. aligned4 c" "\<forall>c\<in>list_cells (sleep_list e) []. aligned4 c"
    using tm by (simp_all add: manager_cells tm_words)
  have r1: "dlist ?m1 (ready_list e) []" by (rule klist_init_dlist [OF sep(1)])
  have r2: "dlist ?m2 (ready_list e) []"
    by (rule dlist_frame [OF r1 klist_init_frame al(1)]) (simp add: manager_cells)
  have r3: "dlist ?m3 (ready_list e) []"
    by (rule dlist_frame [OF r2 klist_init_frame al(2)]) (simp add: manager_cells)
  have t3: "dlist ?m3 (task_list e) []"
    by (rule dlist_frame [OF klist_init_dlist [OF sep(2)] klist_init_frame al(2)]) (simp add: manager_cells)
  have s3: "dlist ?m3 (sleep_list e) []" by (rule klist_init_dlist [OF sep(3)])
  show "dlist m' (ready_list e) []" "dlist m' (task_list e) []" "dlist m' (sleep_list e) []"
    unfolding m'_def using tm by (intro dlist_store r3 t3 s3; simp add: manager_cells)+
  show "ld32 m' (tm e) = 0" by (simp add: m'_def ld32_st32)
  have "unchanged_outside ({tm e} \<union> list_cells (ready_list e) [] \<union> list_cells (task_list e) [] \<union> list_cells (sleep_list e) []) m m'"
    unfolding m'_def
    by (intro unchanged_st32 unchanged_trans [OF unchanged_trans [OF unchanged_mono [OF klist_init_frame]
          unchanged_mono [OF klist_init_frame]] unchanged_mono [OF klist_init_frame]]) auto
  then show "same_outside (manager_region e) m m'"
  proof (rule unchanged_same_outside)
    fix c assume "c \<in> {tm e} \<union> list_cells (ready_list e) [] \<union> list_cells (task_list e) [] \<union> list_cells (sleep_list e) []"
    then obtain k where "c = tm e + of_nat k" "k + 4 \<le> 408" using low_cells by fastforce
    then show "word_bytes c \<subseteq> manager_region e" using manager_word by simp
  qed
qed

lemma task_manager_init_spec:
  assumes ok: "manager_ok e" and desc: "desc_alloc_ok e (ram s)"
  shows "\<exists>m i. task_manager_init e s = Some (s\<lparr>ram := m\<rparr>) \<and> fresh_manager e m
    \<and> ld32 m (t_state (idle_task e)) = state_code CREATED
    \<and> free_slot e (ram s) i \<and> same_outside (manager_region e \<union> gdt_slot e i) (ram s) m"
proof -
  let ?i = "idle_task e" and ?n = "t_all_node (idle_task e)" and ?M = "manager_region e"
  have tm: "aligned4 (tm e)" using ok by (simp add: manager_ok_def)
  let ?m4 = "st32 (klist_init (klist_init (klist_init (ram s) (ready_list e)) (task_list e)) (sleep_list e)) (tm e) 0"
  note l = lists_initialised [OF ok, of "ram s"]
  have n: "?n = tm e + 292" "?i = tm e + 236" by (simp_all add: t_all_node_def idle_task_def add.assoc)
  have i: "aligned4 ?i" using tm by (simp add: n tm_words)
  have ri: "region ?i 172 \<subseteq> ?M" using manager_part [of 236 172 e] by (simp add: n)
  have far: "?M \<inter> region (gdt_tab e) 2048 = {}" using ok by (simp add: manager_ok_def)
  have same: "?m4 x = ram s x" if "x \<in> region (gdt_tab e) 2048" for x
    using that far l(5) by (auto simp: same_outside_def)
  have desc4: "desc_alloc_ok e (ram (s\<lparr>ram := ?m4\<rparr>))" by (rule desc_alloc_ok_cong [OF desc]) (simp add: same)
  have apart: "region ?i 172 \<inter> region (gdt_tab e) 2048 = {}" using ri far by blast
  obtain m5 j where m5: "task_init e ?i (idle_name e) (idle_code e) (idle_task_stack e + 4 * IDLE_TASK_SIZE) (s\<lparr>ram := ?m4\<rparr>)
      = Some (s\<lparr>ram := klist_append m5 (task_list e) ?n\<rparr>, 0)"
    "same_outside (region ?i 172 \<union> gdt_slot e j) ?m4 m5" "ld32 m5 (t_state ?i) = state_code CREATED" "free_slot e ?m4 j"
    using task_init_eq [OF desc4 refl i apart, of "idle_name e" "idle_code e" "idle_task_stack e + 4 * IDLE_TASK_SIZE"]
    by auto
  have kept: "ld32 m5 c = ld32 ?m4 c"
    if "c \<in> {tm e} \<union> list_cells (ready_list e) [] \<union> list_cells (task_list e) [] \<union> list_cells (sleep_list e) []" for c
    using low_cells [OF that] low_word_kept [OF ok m5(2) gdt_slot_sub [OF m5(4)]] by fastforce
  have d5: "dlist m5 (ready_list e) []" "dlist m5 (task_list e) []" "dlist m5 (sleep_list e) []" "ld32 m5 (tm e) = 0"
    using dlist_cong [OF l(1)] dlist_cong [OF l(2)] dlist_cong [OF l(3)] l(4) kept by simp_all
  have fr: "fresh_node (task_list e) [] ?n"
    using d5(2) tm manager_nonzero [OF ok, of 292]
    unfolding n(1)
    by (auto simp: fresh_node_def dlist_def sep_nodes_def list_nodes_def manager_fields tm_words add.assoc)
  let ?m6 = "klist_append m5 (task_list e) ?n"
  have d6: "dlist ?m6 (task_list e) [?n]" using klist_append_dlist [OF d5(2) fr] by simp
  have cells: "list_cells (task_list e) [?n] = {tm e + 292, tm e + 296, tm e + 24, tm e + 28, tm e + 32, tm e + 36, tm e + 40}"
    unfolding n(1) using list_cells_insert [of "task_list e" "[]" "tm e + 292" "[]"]
    by (auto simp: manager_cells add.assoc)
  have u: "unchanged_outside (list_cells (task_list e) [?n]) m5 ?m6" using klist_append_frame [OF d5(2) fr] by simp
  have al: "\<forall>c\<in>list_cells (task_list e) [?n]. aligned4 c" by (rule list_cells_aligned [OF d6])
  have "dlist ?m6 (ready_list e) []" "dlist ?m6 (sleep_list e) []"
    by (rule dlist_frame [OF d5(1) u al], simp add: cells manager_cells, rule dlist_frame [OF d5(3) u al], simp add: cells manager_cells)
  moreover have "ld32 ?m6 (tm e) = 0" "ld32 ?m6 (t_state ?i) = state_code CREATED"
    using unchanged_ld32 [OF u al tm] unchanged_ld32 [OF u al i] d5(4) m5(3) unfolding cells
    by (simp_all add: n(2) t_state_def)
  moreover have "tasks_apart e []" using tm by (simp add: tasks_apart_def ready_cells_def manager_cells)
  ultimately have "fresh_manager e ?m6" "ld32 ?m6 (t_state ?i) = state_code CREATED"
    using d6 by (simp_all add: fresh_manager_def queued_def curr_task_def)
  moreover have "free_slot e (ram s) j" using m5(4) free_slot_cong [of e ?m4 "ram s"] same by simp
  moreover have "same_outside (?M \<union> gdt_slot e j) (ram s) ?m6"
  proof (rule same_outside_trans [OF same_outside_trans [OF l(5) m5(2)]])
    show "region ?i 172 \<union> gdt_slot e j \<subseteq> ?M \<union> gdt_slot e j" using ri by blast
    show "same_outside ?M m5 ?m6"
    proof (rule unchanged_same_outside [OF u])
      fix c assume "c \<in> list_cells (task_list e) [?n]"
      then have "c \<in> (\<lambda>k. tm e + of_nat k) ` {292, 296, 24, 28, 32, 36, 40}" by (simp add: cells)
      then obtain k where "k \<in> {292, 296, 24, 28, 32, 36, 40 :: nat}" "c = tm e + of_nat k" by (rule imageE)
      moreover from this(1) have "k + 4 \<le> 408" by auto
      ultimately show "word_bytes c \<subseteq> ?M" using manager_word by simp
    qed
  qed auto
  moreover have "task_manager_init e s = Some (s\<lparr>ram := ?m6\<rparr>)"
    using m5(1) by (simp add: task_manager_init_def Let_def curr_task_def)
  ultimately show ?thesis by (intro exI [of _ ?m6] exI [of _ j]) simp
qed

section \<open>The first tick after it\<close>

lemma fresh_manager_cong:
  assumes f: "fresh_manager e m" and same: "\<And>x. x \<in> manager_region e \<Longrightarrow> m' x = m x"
  shows "fresh_manager e m'"
proof -
  have w: "ld32 m' (tm e + of_nat k) = ld32 m (tm e + of_nat k)" if "k + 4 \<le> 408" for k
    by (rule ld32_cong) (use manager_word [OF that] same in blast)
  have low: "ld32 m' c = ld32 m c"
    if "c \<in> {tm e} \<union> list_cells (ready_list e) [] \<union> list_cells (task_list e) [] \<union> list_cells (sleep_list e) []" for c
  proof -
    from low_cells [OF that] obtain k where "c = tm e + of_nat k" "k + 4 \<le> 64" by blast
    then show ?thesis using w [of k] by simp
  qed
  have "dlist m' (task_list e) [t_all_node (idle_task e)]"
  proof (rule dlist_cong)
    show "dlist m (task_list e) [t_all_node (idle_task e)]" using f by (simp add: fresh_manager_def)
    fix c assume "c \<in> list_cells (task_list e) [t_all_node (idle_task e)]"
    then have "c = tm e + of_nat 292 \<or> c = tm e + of_nat 296 \<or> c \<in> list_cells (task_list e) []"
      using list_cells_insert [of "task_list e" "[]" "t_all_node (idle_task e)" "[]"]
      by (auto simp: t_all_node_def idle_task_def add.assoc)
    then show "ld32 m' c = ld32 m c" using w [of 292] w [of 296] low by auto
  qed
  moreover have "dlist m' (ready_list e) []" "dlist m' (sleep_list e) []"
    using f low by (auto simp: fresh_manager_def queued_def intro: dlist_cong)
  ultimately show ?thesis using f low [of "tm e"] by (simp add: fresh_manager_def queued_def curr_task_def)
qed

lemma fresh_all_tasks: "fresh_manager e m \<Longrightarrow> all_tasks e m = 1"
  by (simp add: fresh_manager_def dlist_def all_tasks_def)

lemma fresh_apart:
  assumes "manager_ok e"
  shows "sleep_words e \<inter> sched_words e [] = {}"
  using manager_nonzero [OF assms, of 0] manager_nonzero [OF assms, of 4] manager_nonzero [OF assms, of 8]
    manager_nonzero [OF assms, of 12] manager_nonzero [OF assms, of 16] manager_nonzero [OF assms, of 20]
  by (auto simp: sleep_words_eq sched_words_def ready_cells_def manager_cells)

text \<open>
  The null pointer: with nobody running the slice of the running task is the word at address 40.
\<close>

lemma null_slice:
  assumes "ld32 (ram s) (curr_task e) = 0" "ld32 (ram s) 40 \<noteq> 1"
  shows "tick_slice e s = Some (s\<lparr>ram := st32 (ram s) 40 (ld32 (ram s) 40 - 1)\<rparr>)"
  using assms by (simp add: tick_slice_def task_current_def t_slice_ticks_def ld32_st32)

lemma low_null: "manager_ok e \<Longrightarrow> k < 408 \<Longrightarrow> tm e + of_nat k \<noteq> 40"
  using manager_above by force

lemma fresh_tick:
  assumes ok: "manager_ok e" and f: "fresh_manager e (ram s)" and slice: "ld32 (ram s) 40 \<noteq> 1"
  shows "\<exists>s'. task_time_tick e s = Some s' \<and> get_irq_status s' = get_irq_status s
    \<and> task_current e (ram s') = ready_list e \<and> node_prev (ram s') (ready_list e) = state_code RUNNING
    \<and> ld32 (ram s') 40 = ld32 (ram s) 40 - 1
    \<and> trace s' = trace s @ [FarJmp (get_reg (ram s) (first_task e) Ecx) 0]"
proof -
  let ?l = "ready_list e" and ?n = "tm e + 52" and ?v = "ld32 (ram s) 40 - 1"
  let ?s1 = "s\<lparr>ram := st32 (ram s) 40 ?v\<rparr>"
  have tm: "aligned4 (tm e)" using ok by (simp add: manager_ok_def)
  have "x \<notin> word_bytes 40" if "x \<in> manager_region e" for x
    using that manager_above [OF ok] by (force simp: manager_region_def region_def word_bytes_def)
  then have f1: "fresh_manager e (ram ?s1)" by (intro fresh_manager_cong [OF f]) (simp add: st32_other_byte)
  then have q: "queued e (ram ?s1) []" and d: "dlist (ram ?s1) (sleep_list e) []" and c: "ld32 (ram ?s1) (tm e) = 0"
    by (simp_all add: fresh_manager_def curr_task_def)
  define m3 where "m3 = klist_append (klist_unlink (st32 (ram ?s1) (tm e + 40) 0) (sleep_list e) ?n) ?l ?n"
  note sq = sentinel_queued [OF q d fresh_apart [OF ok], folded m3_def]
  let ?m = "st32 m3 (tm e + 4) (state_code READY)"
  have m: "task_set_ready e (klist_unlink (st32 (ram ?s1) (tm e + 40) 0) (sleep_list e) ?n) (tm e + 4) = ?m"
    by (simp add: task_set_ready_def idle_task_def t_state_def t_run_node_def m3_def add.assoc)
  have loop: "sleep_loop e (ram ?s1) (klist_get_first_node (ram ?s1) (sleep_list e)) = Some ?m"
    using sleep_loop_wakes [OF d tm] fresh_all_tasks [OF f1] m by (simp add: all_tasks_def)
  have low: "40 \<notin> sleep_words e \<union> ready_cells e []" "tm e \<noteq> 40" "tm e + 4 \<noteq> 40"
    using low_null [OF ok, of 0] low_null [OF ok, of 4] low_null [OF ok, of 8] low_null [OF ok, of 12] low_null [OF ok, of 16]
      low_null [OF ok, of 20] low_null [OF ok, of 40] low_null [OF ok, of 44] low_null [OF ok, of 48] low_null [OF ok, of 52]
      low_null [OF ok, of 56] low_null [OF ok, of 60]
    by (auto simp: sleep_words_eq ready_cells_def manager_cells dest: sym)
  have kept: "ld32 m3 w = ld32 (ram ?s1) w" if "w \<in> {tm e, tm e + 172, 40}" for w
  proof (rule unchanged_ld32 [OF sq(2)])
    show "\<forall>c\<in>sleep_words e \<union> ready_cells e []. aligned4 c"
      using sleep_words_aligned [OF tm] queued_aligned [OF q] by blast
    show "aligned4 w" using that tm by (auto simp: tm_words aligned4_numeral)
    show "w \<notin> sleep_words e \<union> ready_cells e []"
      using that manager_nonzero [OF ok, of 0] manager_nonzero [OF ok, of 172] low
      by (auto simp: sleep_words_eq ready_cells_def manager_cells)
  qed
  have w: "ld32 ?m x = ld32 m3 x" if "x \<in> {tm e, tm e + 8, tm e + 20, tm e + 172}" for x
    using that tm by (intro ld32_st32_other) (auto simp: tm_words)
  have "klist_len ?m ?l = 1"
    using sq(1) w by (simp add: dlist_def klist_len_def list_len_def ready_list_def add.assoc)
  moreover have "klist_get_first_node ?m ?l = ?n"
    using klist_ends_dlist(1) [OF sq(1)] w
    by (simp add: klist_get_first_node_def l_head_def node_next_def ready_list_def node_after_def add.assoc)
  moreover have "?n \<noteq> 0" using empty_sleep_list(2) [OF d tm] .
  ultimately have next_run: "task_next_run e ?m = tm e + 4" by (simp add: task_next_run_def KLIST_STRUCT_ADDR_def add.assoc)
  have cur: "task_current e ?m = 0" using w kept c by (simp add: task_current_def curr_task_def)
  have ne: "tm e + 4 \<noteq> 0" using manager_nonzero [OF ok, of 4] by simp
  let ?t = "task_dispatch e (?s1\<lparr>ram := ?m\<rparr>)" and ?m' = "st32 (st32 ?m (tm e) (tm e + 4)) (tm e + 4) (state_code RUNNING)"
  have t: "ram ?t = ?m'" "trace ?t = trace s @ [FarJmp (ld32 ?m' (tm e + 172)) 0]" "get_irq_status ?t = get_irq_status s"
    using task_dispatch_eqs [of e "?s1\<lparr>ram := ?m\<rparr>"] next_run cur ne
    by (simp_all add: curr_task_def t_state_def t_tss_sel_def add.assoc get_irq_status_def)
  have "ld32 ?m' (tm e + 172) = ld32 ?m (tm e + 172)" using tm by (simp add: ld32_st32_other tm_words)
  moreover have "ld32 ?m (tm e + 172) = ld32 (ram s) (tm e + 172)"
    using w kept low_null [OF ok, of 172] tm by (simp add: ld32_st32_other tm_words aligned4_numeral)
  ultimately have "ld32 ?m' (tm e + 172) = ld32 (ram s) (tm e + 172)" by simp
  moreover have "get_reg (ram s) (first_task e) Ecx = ld32 (ram s) (tm e + 172)"
    by (simp add: get_reg_def first_task_def t_tss_def add.assoc)
  moreover have "ld32 ?m' 40 = ?v"
    using kept low(2,3) tm by (simp add: ld32_st32_other ld32_st32 tm_words aligned4_numeral)
  moreover have "task_current e ?m' = ready_list e" "node_prev ?m' ?l = state_code RUNNING"
    using tm by (simp_all add: task_current_def curr_task_def ready_list_def node_prev_def ld32_st32 ld32_st32_other tm_words)
  moreover have "task_time_tick e s = Some ?t"
    using null_slice [of s e] f slice loop by (simp add: task_time_tick_def fresh_manager_def)
  ultimately show ?thesis using t by (intro exI [of _ ?t]) simp
qed

text \<open>
  So the first clock interrupt makes the ready list itself the running task, sends the processor
  to a segment whose selector is read from the middle of the saved registers of \<open>first_task\<close>,
  and leaves a ready list that is no list any more.
\<close>

lemma first_tick_derails:
  assumes ok: "manager_ok e" and f: "fresh_manager e (ram s)" and slice: "ld32 (ram s) 40 \<noteq> 1"
    and tk: "word_bytes tk \<inter> (manager_region e \<union> word_bytes 40) = {}"
  shows "\<exists>s'. irq_handler_timer e tk s = Some s' \<and> ld32 (ram s') 40 = ld32 (ram s) 40 - 1
    \<and> task_current e (ram s') = ready_list e
    \<and> trace s' = trace s @ [FarJmp (get_reg (ram s) (first_task e) Ecx) 0, Outb PIC_M_CTRL 0x20]
    \<and> (\<forall>ts. \<not> queued e (ram s') ts)"
proof -
  let ?s = "s\<lparr>ram := st32 (ram s) tk (ld32 (ram s) tk + 1)\<rparr>"
  have same: "ram ?s x = ram s x" if "x \<in> manager_region e \<union> word_bytes 40" for x
  proof -
    have "x \<notin> word_bytes tk" using that tk by blast
    then show ?thesis by (simp add: st32_other_byte)
  qed
  have "fresh_manager e (ram ?s)" by (rule fresh_manager_cong [OF f]) (use same in blast)
  moreover have "ld32 (ram ?s) 40 = ld32 (ram s) 40" by (rule ld32_cong) (use same in blast)
  ultimately obtain s' where s': "task_time_tick e ?s = Some s'" "task_current e (ram s') = ready_list e"
    "node_prev (ram s') (ready_list e) = state_code RUNNING" "ld32 (ram s') 40 = ld32 (ram s) 40 - 1"
    "trace s' = trace s @ [FarJmp (get_reg (ram ?s) (first_task e) Ecx) 0]"
    using fresh_tick [OF ok, of ?s] slice by auto
  have "ld32 (ram ?s) (tm e + of_nat 172) = ld32 (ram s) (tm e + of_nat 172)"
    by (rule ld32_cong) (use same manager_word [of 172 e] in fastforce)
  then have "get_reg (ram ?s) (first_task e) Ecx = get_reg (ram s) (first_task e) Ecx"
    by (simp add: get_reg_def first_task_def t_tss_def add.assoc)
  moreover have "pic_send_eoi (ucast IRQ_Timer) s' = s'\<lparr>trace := trace s' @ [Outb PIC_M_CTRL 0x20]\<rparr>"
    using pic_send_eoi_correct [of "ucast IRQ_Timer" s'] by (simp add: IRQ_Timer_def)
  ultimately show ?thesis using s' by (simp add: irq_handler_timer_def queued_def dlist_def)
qed

end
