(* ===== verification/Init.thy ===== *)
theory Init
  imports Kernel_Map Tasks_Init Syscall
begin

text \<open>
  The start of the kernel, \<open>source/kernel/init/init.c\<close>: the initialisations in the order
  \<open>kernel_init\<close> makes them, on one memory.  Its global variables are addresses; the manager of
  the page pool is a value of the model and part of the result.
\<close>

unbundle bit_operations_syntax

record boot_env =
  boot_gdt :: u32
  boot_idt :: u32
  boot_kernel_table :: u32
  boot_free_addr :: u32
  boot_syscall_table :: u32
  boot_ticks :: u32
  boot_links :: link_map
  boot_entry :: "isr \<Rightarrow> u32"
  boot_routines :: "sys_routine \<Rightarrow> u32"
  boot_tasks :: task_env
  boot_frame :: log_frame
  boot_msg :: u32

text \<open>The first six calls of \<open>kernel_init\<close>, up to the clock, and the whole of it.\<close>

definition init_hardware :: "boot_env \<Rightarrow> u32 \<Rightarrow> machine \<Rightarrow> (machine \<times> addr_alloc_t) option" where
  "init_hardware b mem_info s =
    (let s = log_init s;
         s = gdt_init (boot_gdt b) s;
         (am, m) = memory_init (ram s) (boot_free_addr b) mem_info;
         s = irq_init (boot_idt b) (boot_entry b) (s\<lparr>ram := m\<rparr>)
     in Option.bind (pagetable_init (boot_frame b) (boot_msg b) am (boot_links b) (boot_kernel_table b) s)
       (\<lambda>s. map_option (\<lambda>s. (s, am))
         (timer_init (boot_frame b) (boot_msg b) (boot_idt b) (boot_ticks b) (boot_entry b Timer_isr) s)))"

definition kernel_init :: "boot_env \<Rightarrow> u32 \<Rightarrow> machine \<Rightarrow> (machine \<times> addr_alloc_t) option" where
  "kernel_init b mem_info s =
    Option.bind (init_hardware b mem_info s) (\<lambda>(s, am).
      map_option (\<lambda>s. (s\<lparr>ram := syscall_init (boot_syscall_table b) (boot_routines b) (ram s)\<rparr>, am))
        (task_manager_init (boot_tasks b) s))"

text \<open>\<open>main\<close> spins.\<close>

definition kernel_main :: "machine \<Rightarrow> machine option" where
  "kernel_main s = spin_forever s"

section \<open>The layout of memory\<close>

text \<open>
  The pool the loader's memory map gives, and where the linker puts the tables: the descriptor
  tables, the tick counter, and what paging writes to have no byte in common, and the loader's
  map does not lie in the descriptor table.
\<close>

definition boot_pool :: "boot_env \<Rightarrow> u32 \<Rightarrow> machine \<Rightarrow> addr_alloc_t" where
  "boot_pool b mem_info s = fst (memory_init (ram s) (boot_free_addr b) mem_info)"

definition mem_info_bytes :: "mem \<Rightarrow> u32 \<Rightarrow> u32 set" where
  "mem_info_bytes m mi = word_bytes (mi + 160)
     \<union> (\<Union>i\<in>{..<nat (sint (info_count m mi))}. word_bytes (mi + of_nat (8 * i) + 4))"

definition boot_layout :: "boot_env \<Rightarrow> u32 \<Rightarrow> machine \<Rightarrow> bool" where
  "boot_layout b mi s \<longleftrightarrow>
    (let G = region (boot_gdt b) 2048; I = region (boot_idt b) 2048; T = word_bytes (boot_ticks b);
         am = boot_pool b mi s; kt = boot_kernel_table b
     in G \<inter> I = {} \<and> G \<inter> T = {} \<and> I \<inter> T = {} \<and> (G \<union> I \<union> T) \<inter> space_bytes am kt = {}
      \<and> mem_info_bytes (ram s) mi \<inter> G = {}
      \<and> page_aligned kt \<and> bitmap_apart am kt \<and> (\<forall>i. 0 \<le> i \<and> i < npages am \<longrightarrow> page_addr am i \<noteq> kt)
      \<and> link_ok (boot_links b) \<and> (\<forall>h. boot_entry b h \<le> 0xFFFFF))"

text \<open>What the initialisations up to the clock write to.\<close>

definition hardware_bytes :: "boot_env \<Rightarrow> addr_alloc_t \<Rightarrow> u32 set" where
  "hardware_bytes b am = region (boot_gdt b) 2048 \<union> region (boot_idt b) 2048 \<union> word_bytes (boot_ticks b)
     \<union> space_bytes am (boot_kernel_table b)"

lemma total_mem_cong:
  assumes "\<And>x. x \<in> mem_info_bytes m mi \<Longrightarrow> m' x = m x"
  shows "total_mem_size m' mi = total_mem_size m mi"
proof -
  have c: "info_count m' mi = info_count m mi"
    unfolding info_count_def by (rule ld32_cong) (auto intro: assms simp: mem_info_bytes_def)
  have o: "info_offset m' mi i = info_offset m mi i" if "i < nat (sint (info_count m mi))" for i
    unfolding info_offset_def by (rule ld32_cong) (use that in \<open>auto intro!: assms simp: mem_info_bytes_def\<close>)
  show ?thesis unfolding total_mem_size_def c by (rule fold_cong) (simp_all add: o)
qed

lemma memory_init_am: "fst (memory_init m free mi) = fst (memory_init m' free mi)"
  if "total_mem_size m mi = total_mem_size m' mi"
  by (simp add: memory_init_def alloc_init_def bitmap_init_def Let_def that)

lemma idt_gate_cong:
  assumes "\<And>x. x \<in> region idt 2048 \<Longrightarrow> m' x = m x" "i < 256"
  shows "idt_gate idt m' i = idt_gate idt m i"
  unfolding idt_gate_def using slot_region [OF assms(2)] by (intro irq_desc_at_cong assms(1))

lemma gdt_init_outside: "x \<notin> region (gdt :: u32) 2048 \<Longrightarrow> ram (gdt_init gdt s) x = ram s x"
  using gdt_init_frame by (simp add: region_def)

lemma hardware_regs [simp]:
  "ram (log_init s) = ram s" "cr0 (log_init s) = cr0 s" "cr0 (gdt_init gdt s) = cr0 s"
  "gdtr (gdt_init gdt s) = (gdt, 2047)"
  "gdtr (irq_init idt f s) = gdtr s" "cr0 (irq_init idt f s) = cr0 s"
  by (simp_all add: log_init_def gdt_init_def irq_init_def pic_init_def lgdt_def lidt_def emit_def outb_def Let_def)
    (simp add: GDT_SIZE_def)

lemma irq_init_idtr [simp]: "idtr (irq_init idt f s) = (idt, 2047)"
proof -
  have "\<exists>t. irq_init idt f s = lidt idt (of_nat (8 * IDT_SIZE)) t" by (auto simp: irq_init_def Let_def)
  then have "idtr (irq_init idt f s) = idtr (lidt idt (of_nat (8 * IDT_SIZE)) s)" by (auto simp: lidt_def)
  then show ?thesis by (simp add: IDT_SIZE_def lidt_def)
qed

lemma space_ok_kept:
  assumes "space_ok am m dir" "\<And>x. x \<in> space_bytes am dir \<Longrightarrow> m' x = m x"
  shows "space_ok am m' dir"
proof -
  have "used am m' = used am m" by (rule used_cong) (auto intro: assms(2) simp: space_bytes_def)
  then show ?thesis using assms(1) space_kept(1) [OF assms] by (simp add: space_ok_def tables_ok_def)
qed

text \<open>
  The hardware is ready: the descriptor table holds the flat segments, every one of the 256 gates
  leads to its routine, the timer's included, paging is on with the kernel's identity map in
  force, no tick is counted yet, and interrupts are on.
\<close>

definition boot_segments :: "gdt_entry_t list" where
  "boot_segments = [null_entry, flat_entry KERNEL_CODE_ATTR, flat_entry KERNEL_DATA_ATTR, null_entry,
     flat_entry USER_CODE_ATTR, flat_entry USER_DATA_ATTR] @ replicate 250 null_entry"

definition segments_ready :: "boot_env \<Rightarrow> mem \<Rightarrow> bool" where
  "segments_ready b m \<longleftrightarrow> (\<forall>i\<in>{1, 2, 4, 5}. gdt_entry_at m (slot8 (boot_gdt b) i) = boot_segments ! i)"

definition gates_ready :: "boot_env \<Rightarrow> mem \<Rightarrow> bool" where
  "gates_ready b m \<longleftrightarrow> (\<forall>i<256. idt_gate (boot_idt b) m i =
     gate_for KERNEL_SELECTOR_CS (boot_entry b (if i = 0x20 then Timer_isr else handler_of i))
       (if i = 0x80 then 0xEE00 else 0x8E00))"

definition paging_ready :: "boot_env \<Rightarrow> addr_alloc_t \<Rightarrow> mem \<Rightarrow> bool" where
  "paging_ready b am m \<longleftrightarrow> space_ok am m (boot_kernel_table b)
     \<and> id_map m (boot_kernel_table b) (kernel_pages (boot_links b))"

definition registers_ready :: "boot_env \<Rightarrow> machine \<Rightarrow> bool" where
  "registers_ready b s \<longleftrightarrow> gdtr s = (boot_gdt b, 2047) \<and> idtr s = (boot_idt b, 2047)
     \<and> cr3 s = boot_kernel_table b \<and> bit (cr0 s) 31 \<and> get_irq_status s = INTR_ON"

lemma init_hardware_ready:
  assumes layout: "boot_layout b mi s"
    and size: "MEM_KERNELFREE_START \<le> total_mem_size (ram s) mi" "5 \<le> npages (boot_pool b mi s)"
  shows "\<exists>s'. init_hardware b mi s = Some (s', boot_pool b mi s) \<and> registers_ready b s'
    \<and> gdt_table (boot_gdt b) (ram s') = boot_segments \<and> gates_ready b (ram s')
    \<and> paging_ready b (boot_pool b mi s) (ram s') \<and> SYSTEM_READ_TIMER (boot_ticks b) (ram s') = 0
    \<and> same_outside (hardware_bytes b (boot_pool b mi s)) (ram s) (ram s')"
proof -
  let ?G = "region (boot_gdt b) 2048" let ?I = "region (boot_idt b) 2048" let ?T = "word_bytes (boot_ticks b)"
  let ?am = "boot_pool b mi s" let ?kt = "boot_kernel_table b" let ?S = "space_bytes ?am ?kt" let ?H = "hardware_bytes b ?am"
  have apart: "?G \<inter> ?I = {}" "?G \<inter> ?T = {}" "?I \<inter> ?T = {}" "(?G \<union> ?I \<union> ?T) \<inter> ?S = {}" "mem_info_bytes (ram s) mi \<inter> ?G = {}"
    and kt: "page_aligned ?kt" "bitmap_apart ?am ?kt" "\<forall>i. 0 \<le> i \<and> i < npages ?am \<longrightarrow> page_addr ?am i \<noteq> ?kt"
    and links: "link_ok (boot_links b)" and small: "\<And>h. boot_entry b h \<le> 0xFFFFF"
    using layout by (simp_all add: boot_layout_def Let_def)
  have apart_G: "x \<notin> ?I \<and> x \<notin> ?T \<and> x \<notin> ?S" if "x \<in> ?G" for x using that apart(1,2,4) by blast
  have apart_I: "x \<notin> ?T \<and> x \<notin> ?S" if "x \<in> ?I" for x using that apart(3,4) by blast
  have apart_S: "x \<notin> ?I \<and> x \<notin> ?T" if "x \<in> ?S" for x using that apart(4) by blast
  have bits: "pool_bits ?am \<subseteq> ?S" by (auto simp: space_bytes_def)
  let ?s1 = "gdt_init (boot_gdt b) (log_init s)"
  have r1: "ram ?s1 x = ram s x" if "x \<notin> ?G" for x using gdt_init_outside [OF that] by simp
  have total: "total_mem_size (ram ?s1) mi = total_mem_size (ram s) mi"
    using apart(5) r1 by (intro total_mem_cong) blast
  obtain m2 where m2: "memory_init (ram ?s1) (boot_free_addr b) mi = (?am, m2)"
    using memory_init_am [OF total, of "boot_free_addr b"] unfolding boot_pool_def by (metis surjective_pairing)
  have wf: "wf_alloc ?am" and u2: "used ?am m2 = {}"
    using memory_init_pool [OF _ m2] size(1) total by simp_all
  have r2: "m2 x = ram ?s1 x" if "x \<notin> ?S" for x
    using memory_init_eq(5) [OF m2] that bits by (auto simp: same_outside_def pool_bits_def)
  let ?s3 = "irq_init (boot_idt b) (boot_entry b) (?s1\<lparr>ram := m2\<rparr>)"
  have r3: "ram ?s3 x = m2 x" if "x \<notin> ?I" for x
    using irq_init_frame [of "boot_idt b" "?s1\<lparr>ram := m2\<rparr>"] that by (simp add: same_outside_def)
  have "used ?am (ram ?s3) = used ?am m2" by (rule used_cong) (use bits apart_S r3 in auto)
  then have u3: "used ?am (ram ?s3) = {}" using u2 by simp
  have "int (card (used ?am (ram ?s3))) + 5 \<le> min 1023 (npages ?am)" using u3 size(2) by simp
  moreover have "\<forall>i. 0 \<le> i \<and> i < npages ?am \<and> i \<notin> used ?am (ram ?s3) \<longrightarrow> page_addr ?am i \<noteq> ?kt" using kt(3) by blast
  ultimately obtain m4 where m4: "pagetable_init (boot_frame b) (boot_msg b) ?am (boot_links b) ?kt ?s3
      = Some (?s3\<lparr>ram := m4, cr3 := ?kt, cr0 := cr0 ?s3 OR CR0_PG\<rparr>)" (is "_ = Some ?s4")
    "space_ok ?am m4 ?kt" "id_map m4 ?kt (kernel_pages (boot_links b))" "same_outside ?S (ram ?s3) m4"
    using pagetable_init_spec [OF wf kt(1,2) links] by metis
  have r4: "m4 x = ram ?s3 x" if "x \<notin> ?S" for x using m4(4) that by (simp add: same_outside_def)
  obtain s5 where s5: "timer_init (boot_frame b) (boot_msg b) (boot_idt b) (boot_ticks b) (boot_entry b Timer_isr) ?s4 = Some s5"
    "ram s5 = snd (irq_install (boot_idt b) (st32 m4 (boot_ticks b) 0) 0x20 (boot_entry b Timer_isr))"
    "get_irq_status s5 = INTR_ON" "cr0 s5 = cr0 s OR CR0_PG" "cr3 s5 = ?kt" "gdtr s5 = (boot_gdt b, 2047)" "idtr s5 = (boot_idt b, 2047)"
    by (rule timer_init_effect [of "boot_frame b" "boot_msg b" "boot_idt b" "boot_ticks b" "boot_entry b Timer_isr" ?s4]) simp
  have r5: "ram s5 x = m4 x" if "x \<notin> ?I" "x \<notin> ?T" for x
    using irq_install_frame [of "boot_idt b" "st32 m4 (boot_ticks b) 0" "0x20" "boot_entry b Timer_isr"] that
    by (simp add: s5(2) same_outside_def st32_other_byte)
  have "gdt_table (boot_gdt b) (ram s5) = gdt_table (boot_gdt b) (ram ?s1)"
    by (rule gdt_table_cong) (use apart_G r2 r3 r4 r5 in simp)
  then have g: "gdt_table (boot_gdt b) (ram s5) = boot_segments"
    by (simp add: gdt_init_table boot_segments_def)
  have gate: "idt_gate (boot_idt b) (ram s5) i = gate_for KERNEL_SELECTOR_CS
      (boot_entry b (if i = 0x20 then Timer_isr else handler_of i)) (if i = 0x80 then 0xEE00 else 0x8E00)" if i: "i < 256" for i
  proof -
    have "idt_gate (boot_idt b) (st32 m4 (boot_ticks b) 0) i = idt_gate (boot_idt b) (ram ?s3) i"
      by (rule idt_gate_cong [OF _ i]) (use apart_I r4 in \<open>simp add: st32_other_byte\<close>)
    also have "\<dots> = gate_for KERNEL_SELECTOR_CS (boot_entry b (handler_of i)) (if i = 0x80 then 0xEE00 else 0x8E00)"
      by (rule irq_init_gate [OF small i])
    finally show ?thesis using i small by (simp add: s5(2) idt_gate_install IDT_SIZE_def gate_defs)
  qed
  have S5: "ram s5 x = m4 x" if "x \<in> ?S" for x using that apart_S r5 by simp
  have pg: "paging_ready b ?am (ram s5)"
    using space_ok_kept [OF m4(2) S5] id_map_kept [OF m4(2) S5 m4(3)] by (simp add: paging_ready_def)
  have h: "init_hardware b mi s = Some (s5, ?am)"
    using m2 m4(1) s5(1) by (simp add: init_hardware_def Let_def)
  have "bit (cr0 s5) 31" by (simp add: s5(4) CR0_PG_def bit_simps)
  then have "registers_ready b s5" using s5(3,5-7) by (simp add: registers_ready_def)
  moreover have "SYSTEM_READ_TIMER (boot_ticks b) (ram s5) = 0" unfolding s5(2) by (rule ticks_kept [OF apart(3)])
  moreover have "same_outside ?H (ram s) (ram s5)"
    using r1 r2 r3 r4 r5 by (simp add: same_outside_def hardware_bytes_def)
  ultimately show ?thesis
    using h g gate pg by (intro exI [of _ s5]) (simp add: gates_ready_def)
qed

section \<open>The whole of it\<close>

text \<open>
  The manager of the tasks and the table of the system calls lie apart from the rest, and the
  allocator of descriptors works on the table as \<open>gdt_init\<close> leaves it.
\<close>

definition calls_region :: "boot_env \<Rightarrow> u32 set" where
  "calls_region b = region (boot_syscall_table b) 24"

definition tasks_layout :: "boot_env \<Rightarrow> u32 \<Rightarrow> machine \<Rightarrow> bool" where
  "tasks_layout b mi s \<longleftrightarrow>
    (let e = boot_tasks b; H = hardware_bytes b (boot_pool b mi s)
     in manager_ok e \<and> gdt_tab e = boot_gdt b \<and> aligned4 (boot_syscall_table b)
      \<and> manager_region e \<inter> H = {} \<and> calls_region b \<inter> H = {} \<and> calls_region b \<inter> manager_region e = {}
      \<and> (\<forall>m. gdt_table (boot_gdt b) m = boot_segments \<longrightarrow> desc_alloc_ok e m))"

lemma syscall_init_frame:
  assumes "aligned4 (boot_syscall_table b)"
  shows "same_outside (calls_region b) m (syscall_init (boot_syscall_table b) addr m)"
proof (rule unchanged_same_outside)
  let ?t = "boot_syscall_table b"
  show "unchanged_outside ((\<lambda>k. ?t + of_nat k) ` {0, 4, 8, 12, 16, 20}) m (syscall_init ?t addr m)"
    using syscall_init_table [OF assms, of addr m] by simp
  fix c assume "c \<in> (\<lambda>k. ?t + of_nat k) ` {0, 4, 8, 12, 16, 20}"
  then obtain k where "k \<in> {0, 4, 8, 12, 16, 20 :: nat}" "c = ?t + of_nat k" by (rule imageE)
  moreover from this(1) have "k + 4 \<le> 24" by auto
  ultimately show "word_bytes c \<subseteq> calls_region b" using word_in_region [of k 24 _ ?t] by (auto simp: calls_region_def)
qed

lemma boot_slot_used:
  assumes "gdt_table (boot_gdt b) m = boot_segments" "gdt_tab e = boot_gdt b" "free_slot e m j"
  shows "j \<notin> {1, 2, 4, 5}"
proof -
  have "j < 256" "attributes (boot_segments ! j) = 0"
    using assms by (auto simp: free_slot_def entry_free_def GDT_SIZE_def gdt_table_def list_eq_iff_nth_eq)
  then show ?thesis
    by (auto simp: boot_segments_def flat_entry_def or_eq_0_iff)
qed

lemma slots_disjoint:
  assumes "i < 256" "j < 256" "i \<noteq> j"
  shows "region (slot8 t i) 8 \<inter> region (slot8 t j) 8 = {}"
proof -
  have lt: "region (slot8 t i) 8 \<inter> region (slot8 t j) 8 = {}" if "i < j" "j < 256" for i j
  proof -
    have "slot8 t j = slot8 t i + of_nat (8 * (j - i))" using that by (simp add: slot8_def of_nat_diff algebra_simps)
    moreover have "region (slot8 t i) 8 \<subseteq> region (slot8 t i) (8 * (j - i))" using that by (intro region_mono) simp
    moreover have "region (slot8 t i) (8 * (j - i)) \<inter> region (slot8 t i + of_nat (8 * (j - i))) 8 = {}"
      by (rule region_add_disjoint) (use that in simp)
    ultimately show ?thesis by auto
  qed
  show ?thesis using lt [of i j] lt [of j i] assms by (cases "i < j") auto
qed

text \<open>What is written outside the tables, and to a descriptor nobody uses, keeps them.\<close>

lemma tables_kept:
  assumes layout: "boot_layout b mi s"
    and ready: "segments_ready b m" "gates_ready b m" "paging_ready b (boot_pool b mi s) m" "SYSTEM_READ_TIMER (boot_ticks b) m = 0"
    and frame: "same_outside (R \<union> region (slot8 (boot_gdt b) i) 8) m m'"
    and R: "R \<inter> hardware_bytes b (boot_pool b mi s) = {}" and i: "i < 256" "i \<notin> {1, 2, 4, 5}"
  shows "segments_ready b m'" "gates_ready b m'" "paging_ready b (boot_pool b mi s) m'" "SYSTEM_READ_TIMER (boot_ticks b) m' = 0"
proof -
  let ?am = "boot_pool b mi s" and ?gt = "boot_gdt b"
  have slot: "region (slot8 ?gt i) 8 \<subseteq> region ?gt 2048" using slot_region [OF i(1)] by (auto simp: region_def)
  have G: "m' x = m x" if "x \<in> region ?gt 2048" "x \<notin> region (slot8 ?gt i) 8" for x
    using that frame R by (auto simp: same_outside_def hardware_bytes_def)
  have "gdt_entry_at m' (slot8 ?gt k) = gdt_entry_at m (slot8 ?gt k)" if k: "k \<in> {1, 2, 4, 5}" for k
  proof -
    have k': "k < 256" "k \<noteq> i" using k i(2) by auto
    have "slot8 ?gt k + of_nat n \<in> region (slot8 ?gt k) 8" if "n < 8" for n using that by (auto simp: region_def)
    then show ?thesis using slot_region [OF k'(1)] slots_disjoint [OF k'(1) i(1) k'(2)]
      by (intro gdt_entry_at_cong G) blast+
  qed
  then show "segments_ready b m'" using ready(1) by (simp add: segments_ready_def)
  have kept: "m' x = m x" if "x \<in> region (boot_idt b) 2048 \<union> word_bytes (boot_ticks b) \<union> space_bytes ?am (boot_kernel_table b)" for x
  proof -
    have "x \<notin> region ?gt 2048" using that layout unfolding boot_layout_def Let_def by blast
    then show ?thesis using that frame R slot by (auto simp: same_outside_def hardware_bytes_def)
  qed
  have "idt_gate (boot_idt b) m' k = idt_gate (boot_idt b) m k" if "k < 256" for k
    by (rule idt_gate_cong [OF _ that]) (simp add: kept)
  then show "gates_ready b m'" using ready(2) by (simp add: gates_ready_def)
  have sp: "m' x = m x" if "x \<in> space_bytes ?am (boot_kernel_table b)" for x using kept that by simp
  show "paging_ready b ?am m'"
    using ready(3) space_ok_kept [OF _ sp] id_map_kept [OF _ sp] by (auto simp: paging_ready_def)
  have "ld32 m' (boot_ticks b) = ld32 m (boot_ticks b)" by (rule ld32_cong) (simp add: kept)
  then show "SYSTEM_READ_TIMER (boot_ticks b) m' = 0" using ready(4) by (simp add: SYSTEM_READ_TIMER_def)
qed

lemma boot_segments_ready: "segments_ready b m" if "gdt_table (boot_gdt b) m = boot_segments"
proof -
  have "gdt_entry_at m (slot8 (boot_gdt b) i) = gdt_table (boot_gdt b) m ! i" if "i < 256" for i
    using that by (simp add: gdt_table_def GDT_SIZE_def)
  then show ?thesis by (auto simp: segments_ready_def that)
qed

lemma kernel_init_ready:
  assumes layout: "boot_layout b mi s" "tasks_layout b mi s"
    and size: "MEM_KERNELFREE_START \<le> total_mem_size (ram s) mi" "5 \<le> npages (boot_pool b mi s)"
  shows "\<exists>s'. kernel_init b mi s = Some (s', boot_pool b mi s) \<and> registers_ready b s'
    \<and> segments_ready b (ram s') \<and> gates_ready b (ram s') \<and> paging_ready b (boot_pool b mi s) (ram s')
    \<and> SYSTEM_READ_TIMER (boot_ticks b) (ram s') = 0 \<and> fresh_manager (boot_tasks b) (ram s')
    \<and> (\<forall>r. ld32 (ram s') (boot_syscall_table b + 4 * sys_number r) = boot_routines b r)
    \<and> same_outside (hardware_bytes b (boot_pool b mi s) \<union> manager_region (boot_tasks b) \<union> calls_region b) (ram s) (ram s')"
proof -
  let ?e = "boot_tasks b" and ?am = "boot_pool b mi s" and ?gt = "boot_gdt b"
  let ?H = "hardware_bytes b ?am" and ?M = "manager_region ?e" and ?Y = "calls_region b"
  have mgr: "manager_ok ?e" "gdt_tab ?e = ?gt" "aligned4 (boot_syscall_table b)"
    and apart: "?M \<inter> ?H = {}" "?Y \<inter> ?H = {}" "?Y \<inter> ?M = {}"
    and desc: "\<And>m. gdt_table ?gt m = boot_segments \<Longrightarrow> desc_alloc_ok ?e m"
    using layout(2) by (simp_all add: tasks_layout_def Let_def)
  obtain s1 where s1: "init_hardware b mi s = Some (s1, ?am)" "registers_ready b s1" "gdt_table ?gt (ram s1) = boot_segments"
    "gates_ready b (ram s1)" "paging_ready b ?am (ram s1)" "SYSTEM_READ_TIMER (boot_ticks b) (ram s1) = 0"
    "same_outside ?H (ram s) (ram s1)"
    using init_hardware_ready [OF layout(1) size] by blast
  obtain m i where m: "task_manager_init ?e s1 = Some (s1\<lparr>ram := m\<rparr>)" "fresh_manager ?e m" "free_slot ?e (ram s1) i"
    "same_outside (?M \<union> gdt_slot ?e i) (ram s1) m"
    using task_manager_init_spec [OF mgr(1) desc [OF s1(3)]] by blast
  let ?m = "syscall_init (boot_syscall_table b) (boot_routines b) m"
  have slot: "gdt_slot ?e i = region (slot8 ?gt i) 8" by (simp add: gdt_slot_def mgr(2))
  have i: "i < 256" "i \<notin> {1, 2, 4, 5}"
    using m(3) boot_slot_used [OF s1(3) mgr(2) m(3)] by (simp_all add: free_slot_def)
  note y = syscall_init_frame [OF mgr(3), of m "boot_routines b"]
  have frame: "same_outside (?M \<union> ?Y \<union> region (slot8 ?gt i) 8) (ram s1) ?m"
    by (rule same_outside_trans [OF m(4) [unfolded slot] y]) auto
  have "(?M \<union> ?Y) \<inter> ?H = {}" using apart by blast
  note t = tables_kept [OF layout(1) boot_segments_ready [OF s1(3)] s1(4-6) frame this i]
  have "fresh_manager ?e ?m"
    by (rule fresh_manager_cong [OF m(2)]) (use y apart(3) in \<open>auto simp: same_outside_def\<close>)
  moreover have "region (slot8 ?gt i) 8 \<subseteq> ?H" using slot_region [OF i(1)] by (auto simp: region_def hardware_bytes_def)
  then have "same_outside (?H \<union> ?M \<union> ?Y) (ram s) ?m" by (intro same_outside_trans [OF s1(7) frame]) auto
  moreover have "kernel_init b mi s = Some (s1\<lparr>ram := ?m\<rparr>, ?am)" by (simp add: kernel_init_def s1(1) m(1))
  moreover have "registers_ready b (s1\<lparr>ram := ?m\<rparr>)" using s1(2) by (simp add: registers_ready_def get_irq_status_def)
  moreover have "\<forall>r. ld32 ?m (boot_syscall_table b + 4 * sys_number r) = boot_routines b r"
    using syscall_init_table [OF mgr(3)] by blast
  ultimately show ?thesis using t by (intro exI [of _ "s1\<lparr>ram := ?m\<rparr>"]) simp
qed

text \<open>
  C1: \<open>kernel_init\<close> as a whole.  On a machine with room for five page tables above one megabyte
  and tables that do not overlap it returns, and then everything it set up is there together, no
  step having spoiled the work of an earlier one: the code and data segments of kernel and user,
  every one of the 256 gates with its routine, the timer's included, paging on with the kernel's
  identity map in force, the manager of the tasks with empty queues and the idle task listed,
  and the table of the system calls.  Nothing else in memory has changed, and interrupts are on.
\<close>

theorem kernel_init_completes:
  assumes "boot_layout b mi s" "tasks_layout b mi s"
    and "MEM_KERNELFREE_START \<le> total_mem_size (ram s) mi" "5 \<le> npages (boot_pool b mi s)"
  shows "\<exists>s'. kernel_init b mi s = Some (s', boot_pool b mi s) \<and> get_irq_status s' = INTR_ON
    \<and> gdtr s' = (boot_gdt b, 2047) \<and> (\<forall>i\<in>{1, 2, 4, 5}. gdt_entry_at (ram s') (slot8 (boot_gdt b) i) = boot_segments ! i)
    \<and> idtr s' = (boot_idt b, 2047) \<and> (\<forall>i<256. idt_gate (boot_idt b) (ram s') i =
        gate_for KERNEL_SELECTOR_CS (boot_entry b (if i = 0x20 then Timer_isr else handler_of i))
          (if i = 0x80 then 0xEE00 else 0x8E00))
    \<and> cr3 s' = boot_kernel_table b \<and> bit (cr0 s') 31 \<and> (\<forall>x. walk (ram s') (boot_kernel_table b) x =
        (if page_of x \<in> kernel_pages (boot_links b) then Some x else None))
    \<and> fresh_manager (boot_tasks b) (ram s')
    \<and> (\<forall>r. ld32 (ram s') (boot_syscall_table b + 4 * sys_number r) = boot_routines b r)
    \<and> same_outside (hardware_bytes b (boot_pool b mi s) \<union> manager_region (boot_tasks b) \<union> calls_region b) (ram s) (ram s')"
proof -
  obtain s' where "kernel_init b mi s = Some (s', boot_pool b mi s)" "registers_ready b s'" "segments_ready b (ram s')"
    "gates_ready b (ram s')" "paging_ready b (boot_pool b mi s) (ram s')" "fresh_manager (boot_tasks b) (ram s')"
    "\<forall>r. ld32 (ram s') (boot_syscall_table b + 4 * sys_number r) = boot_routines b r"
    "same_outside (hardware_bytes b (boot_pool b mi s) \<union> manager_region (boot_tasks b) \<union> calls_region b) (ram s) (ram s')"
    using kernel_init_ready [OF assms] by blast
  then show ?thesis
    using id_map_walk
    by (intro exI [of _ s']) (simp add: registers_ready_def segments_ready_def gates_ready_def paging_ready_def)
qed

text \<open>
  C36: and then the first clock interrupt ruins the scheduler. No task runs yet, so the slice
  that is counted down is the word at address 40, through a null pointer. In the layouts assumed
  the kernel starts, and the word is not 1 when it does and lies apart from the kernel's tables.
  The tick then takes the tail sentinel of the empty list of sleeping tasks for a task, whose
  counter is the number of all tasks, which is one. The ready list itself becomes the running
  task, the processor is sent to the segment whose selector is read from the middle of the saved
  registers of \<open>first_task\<close>, and the ready list is no list any more.
\<close>

theorem first_tick_after_boot:
  assumes layout: "boot_layout b mi s" "tasks_layout b mi s"
    and size: "MEM_KERNELFREE_START \<le> total_mem_size (ram s) mi" "5 \<le> npages (boot_pool b mi s)"
    and null: "ld32 (ram s) 40 \<noteq> 1" "word_bytes 40 \<inter> (hardware_bytes b (boot_pool b mi s) \<union> calls_region b) = {}"
  shows "\<exists>s1 s2. kernel_init b mi s = Some (s1, boot_pool b mi s)
    \<and> irq_handler_timer (boot_tasks b) (boot_ticks b) s1 = Some s2
    \<and> ld32 (ram s1) 40 = ld32 (ram s) 40 \<and> ld32 (ram s2) 40 = ld32 (ram s1) 40 - 1
    \<and> task_current (boot_tasks b) (ram s2) = ready_list (boot_tasks b)
    \<and> trace s2 = trace s1 @ [FarJmp (get_reg (ram s1) (first_task (boot_tasks b)) Ecx) 0, Outb PIC_M_CTRL 0x20]
    \<and> (\<forall>ts. \<not> queued (boot_tasks b) (ram s2) ts)"
proof -
  let ?e = "boot_tasks b" and ?H = "hardware_bytes b (boot_pool b mi s)"
  have mgr: "manager_ok ?e" "manager_region ?e \<inter> ?H = {}" using layout(2) by (simp_all add: tasks_layout_def Let_def)
  obtain s1 where s1: "kernel_init b mi s = Some (s1, boot_pool b mi s)" "fresh_manager ?e (ram s1)"
    "same_outside (?H \<union> manager_region ?e \<union> calls_region b) (ram s) (ram s1)"
    using kernel_init_ready [OF layout size] by blast
  have far: "word_bytes 40 \<inter> manager_region ?e = {}"
    using manager_above [OF mgr(1)] by (force simp: manager_region_def region_def word_bytes_def)
  have "ld32 (ram s1) 40 = ld32 (ram s) 40"
    by (rule ld32_cong) (use s1(3) null(2) far in \<open>auto simp: same_outside_def\<close>)
  moreover have "word_bytes (boot_ticks b) \<subseteq> ?H" by (auto simp: hardware_bytes_def)
  then have "word_bytes (boot_ticks b) \<inter> (manager_region ?e \<union> word_bytes 40) = {}" using mgr(2) null(2) by blast
  ultimately show ?thesis using first_tick_derails [OF mgr(1) s1(2), of "boot_ticks b"] s1(1) null(1) by auto
qed

text \<open>The sample: three megabytes, the kernel's tables between 256 and 384 KB.\<close>

definition sample_boot :: boot_env where
  "sample_boot = \<lparr>boot_gdt = 0x40000, boot_idt = 0x41000, boot_kernel_table = 0x42000, boot_free_addr = 0x50000,
     boot_syscall_table = 0x44000, boot_ticks = 0x43000,
     boot_links = \<lparr>kernel_base = 0, kernel_end = 0x10000, stext = 0x10000, etext = 0x14123, sdata = 0x15000\<rparr>,
     boot_entry = (\<lambda>_. 0x11000), boot_routines = (\<lambda>_. 0x12000), boot_tasks = sample_env\<lparr>gdt_tab := 0x40000, gdt_alloc_desc := \<lambda>m. (m, gdt_alloc_seg 0x40000 m)\<rparr>,
     boot_frame = sample_frame, boot_msg = 0x5000\<rparr>"

definition sample_start :: machine where
  "sample_start = sample_machine\<lparr>ram := sample_map 0x300000\<rparr>"

lemma sample_boot_pool:
  "npages (boot_pool sample_boot 0x5000 sample_start) = 512" "kernelstart (boot_pool sample_boot 0x5000 sample_start) = 0x100000"
  "bm_bits (bitmap (boot_pool sample_boot 0x5000 sample_start)) = 0x50000" "wf_alloc (boot_pool sample_boot 0x5000 sample_start)"
proof -
  obtain am m where am: "memory_init (sample_map 0x300000) 0x50000 0x5000 = (am, m)" by fastforce
  have b: "boot_pool sample_boot 0x5000 sample_start = am"
    by (simp add: boot_pool_def sample_start_def sample_boot_def am)
  show "npages (boot_pool sample_boot 0x5000 sample_start) = 512" "kernelstart (boot_pool sample_boot 0x5000 sample_start) = 0x100000"
    using memory_init_eq(2,3) [OF am] by (simp_all add: b sample_map_total MEM_KERNELFREE_START_def)
  show "bm_bits (bitmap (boot_pool sample_boot 0x5000 sample_start)) = 0x50000"
    using am by (auto simp: b memory_init_def alloc_init_def bitmap_init_def Let_def)
  show "wf_alloc (boot_pool sample_boot 0x5000 sample_start)"
    using memory_init_pool [OF _ am] by (simp add: b sample_map_total MEM_KERNELFREE_START_def)
qed

lemma region_page: "page_aligned a \<Longrightarrow> n \<le> 4096 \<Longrightarrow> x \<in> region a n \<Longrightarrow> page_of x = page_of a"
  using in_region_page region_mono by blast

lemma sample_space_page:
  assumes "x \<in> space_bytes (boot_pool sample_boot 0x5000 sample_start) 0x42000"
  shows "page_of x = 0x50 \<or> page_of x = 0x42 \<or> 0x100 \<le> page_of x"
proof -
  have "page_of y = 0x50" if "y \<in> pool_bits (boot_pool sample_boot 0x5000 sample_start)" for y
    using that region_page [of "0x50000" 64 y]
    by (simp add: pool_bits_def bit_bytes_def sample_boot_pool page_aligned_def) (simp add: page_of_def)
  moreover have "0x100 \<le> page_of (page_addr (boot_pool sample_boot 0x5000 sample_start) i)" if "0 \<le> i" "i < 512" for i
    using uint_page_addr [OF sample_boot_pool(4), of i] that
    by (simp add: sample_boot_pool page_of_def) (simp add: unat_eq_nat_uint)
  ultimately show ?thesis using assms by (auto simp: space_bytes_def sample_boot_pool page_of_def)
qed

lemma sample_layout: "boot_layout sample_boot 0x5000 sample_start"
proof -
  let ?am = "boot_pool sample_boot 0x5000 sample_start"
  have al: "page_aligned 0x40000" "page_aligned 0x41000" "page_aligned 0x42000" "page_aligned 0x43000" "page_aligned 0x50000"
    by (simp_all add: page_aligned_def)
  have pg: "page_of 0x40000 = 0x40" "page_of 0x41000 = 0x41" "page_of 0x42000 = 0x42" "page_of 0x43000 = 0x43" "page_of 0x50000 = 0x50"
    by (simp_all add: page_of_def)
  have G: "page_of x = 0x40" if "x \<in> region 0x40000 2048" for x using region_page [OF al(1) _ that] pg by simp
  have I: "page_of x = 0x41" if "x \<in> region 0x41000 2048" for x using region_page [OF al(2) _ that] pg by simp
  have T: "page_of x = 0x43" if "x \<in> word_bytes 0x43000" for x
    using word_bytes_page [OF al(4), of 0 x] that pg by simp
  have M: "page_of x = 5" if "x \<in> mem_info_bytes (sample_map 0x300000) 0x5000" for x
    using that by (auto simp: mem_info_bytes_def info_count_def sample_map_def ld32_st32 word_bytes_def page_of_def lessThan_Suc)
  have S: "page_of x \<noteq> 0x40 \<and> page_of x \<noteq> 0x41 \<and> page_of x \<noteq> 0x43" if "x \<in> space_bytes ?am 0x42000" for x
    using sample_space_page [OF that] by auto
  have P: "0x100 \<le> page_of (page_addr ?am i)" if "0 \<le> i" "i < npages ?am" for i
    using uint_page_addr [OF sample_boot_pool(4) that] that
    by (simp add: sample_boot_pool page_of_def) (simp add: unat_eq_nat_uint)
  have B: "page_of x = 0x50" if "x \<in> bit_bytes (bitmap ?am) (npages ?am)" for x
    using that region_page [OF al(5), of 64 x] pg by (simp add: bit_bytes_def sample_boot_pool)
  have apart: "bitmap_apart ?am 0x42000"
    unfolding bitmap_apart_def pg
  proof (intro ballI conjI allI impI)
    fix x i assume x: "x \<in> bit_bytes (bitmap ?am) (npages ?am)"
    show "page_of x \<noteq> 0x42" using B [OF x] by simp
    assume "0 \<le> i \<and> i < npages ?am"
    then show "page_of x \<noteq> page_of (page_addr ?am i)" using B [OF x] P [of i] by auto
  qed
  have disj: "A \<inter> C = {}" if "\<And>x. x \<in> A \<Longrightarrow> x \<in> C \<Longrightarrow> False" for A C :: "u32 set" using that by blast
  have sets: "region 0x40000 2048 \<inter> region 0x41000 2048 = {}" "region 0x40000 2048 \<inter> word_bytes 0x43000 = {}"
    "region 0x41000 2048 \<inter> word_bytes 0x43000 = {}"
    "(region 0x40000 2048 \<union> region 0x41000 2048 \<union> word_bytes 0x43000) \<inter> space_bytes ?am 0x42000 = {}"
    "mem_info_bytes (sample_map 0x300000) 0x5000 \<inter> region 0x40000 2048 = {}"
    by (rule disj, use G I T S M in fastforce)+
  moreover have "page_addr ?am i \<noteq> 0x42000" if "0 \<le> i" "i < npages ?am" for i using P [OF that] pg by auto
  moreover have "link_ok (boot_links sample_boot)"
    by (simp add: sample_boot_def link_ok_def page_aligned_def MEM_EBDA_START_def)
  moreover have "boot_gdt sample_boot = 0x40000" "boot_idt sample_boot = 0x41000" "boot_kernel_table sample_boot = 0x42000"
    "boot_ticks sample_boot = 0x43000" "\<And>h. boot_entry sample_boot h \<le> 0xFFFFF" "ram sample_start = sample_map 0x300000"
    by (simp_all add: sample_boot_def sample_start_def)
  ultimately show ?thesis
    using apart al(3) unfolding boot_layout_def Let_def by simp
qed

lemma sample_tasks_layout: "tasks_layout sample_boot 0x5000 sample_start"
proof -
  let ?e = "boot_tasks sample_boot" and ?am = "boot_pool sample_boot 0x5000 sample_start"
  have al: "page_aligned 0x1000" "page_aligned 0x44000" "page_aligned 0x40000" "page_aligned 0x41000" "page_aligned 0x43000"
    by (simp_all add: page_aligned_def)
  have pg: "page_of 0x1000 = 1" "page_of 0x44000 = 0x44" "page_of 0x40000 = 0x40" "page_of 0x41000 = 0x41" "page_of 0x43000 = 0x43"
    by (simp_all add: page_of_def)
  have e: "tm ?e = 0x1000" "gdt_tab ?e = 0x40000" by (simp_all add: sample_boot_def sample_env_def)
  have M: "page_of x = 1" if "x \<in> manager_region ?e" for x
    using that region_page [OF al(1), of 408 x] pg by (simp add: manager_region_def e)
  have Y: "page_of x = 0x44" if "x \<in> calls_region sample_boot" for x
    using that region_page [OF al(2), of 24 x] pg by (simp add: calls_region_def sample_boot_def)
  have H: "page_of x \<noteq> 1 \<and> page_of x \<noteq> 0x44" if "x \<in> hardware_bytes sample_boot ?am" for x
    using that region_page [OF al(3), of 2048 x] region_page [OF al(4), of 2048 x] word_bytes_page [OF al(5), of 0 x] pg
      sample_space_page [of x] by (auto simp: hardware_bytes_def sample_boot_def)
  have "manager_region ?e \<inter> region (gdt_tab ?e) 2048 = {}"
    using M region_page [OF al(3), of 2048] pg by (fastforce simp: e)
  then have "manager_ok ?e" by (simp add: manager_ok_def e aligned4_numeral)
  moreover have "manager_region ?e \<inter> hardware_bytes sample_boot ?am = {}" "calls_region sample_boot \<inter> hardware_bytes sample_boot ?am = {}"
    "calls_region sample_boot \<inter> manager_region ?e = {}"
    using M Y H by (fastforce)+
  moreover have "desc_alloc_ok ?e m" if "gdt_table (boot_gdt sample_boot) m = boot_segments" for m
  proof (rule alloc_seg_ok [of _ m 3])
    have "gdt_entry_at m (slot8 (gdt_tab ?e) 3) = boot_segments ! 3"
      by (simp add: that [symmetric] gdt_table_def GDT_SIZE_def sample_boot_def)
    then show "free_slot ?e m 3" by (simp add: free_slot_def entry_free_def boot_segments_def null_entry_def)
  qed (simp_all add: sample_boot_def)
  ultimately show ?thesis by (simp add: tasks_layout_def Let_def sample_boot_def aligned4_numeral)
qed

lemma sample_size: "MEM_KERNELFREE_START \<le> total_mem_size (ram sample_start) 0x5000"
  by (simp add: sample_start_def sample_map_total MEM_KERNELFREE_START_def)

theorem kernel_init_completes_witness:
  "\<exists>s'. kernel_init sample_boot 0x5000 sample_start = Some (s', boot_pool sample_boot 0x5000 sample_start)
     \<and> cr3 s' = 0x42000 \<and> walk (ram s') 0x42000 0x1234 = Some 0x1234 \<and> get_irq_status s' = INTR_ON
     \<and> ld32 (ram s') 0x4400C = 0x12000"
proof -
  have "page_of 0x1234 \<in> kernel_pages (boot_links sample_boot)" by (simp add: kernel_pages_def sample_boot_def page_of_def)
  moreover obtain s' where "kernel_init sample_boot 0x5000 sample_start = Some (s', boot_pool sample_boot 0x5000 sample_start)"
    "get_irq_status s' = INTR_ON" "cr3 s' = boot_kernel_table sample_boot"
    "\<forall>x. walk (ram s') (boot_kernel_table sample_boot) x =
        (if page_of x \<in> kernel_pages (boot_links sample_boot) then Some x else None)"
    "\<forall>r. ld32 (ram s') (boot_syscall_table sample_boot + 4 * sys_number r) = boot_routines sample_boot r"
    using kernel_init_completes [OF sample_layout sample_tasks_layout sample_size] sample_boot_pool(1) by auto
  moreover from this(5) [rule_format, of Sys_fork] have "ld32 (ram s') 0x4400C = 0x12000"
    by (simp add: sample_boot_def SYS_FORK_def)
  ultimately show ?thesis by (auto simp: sample_boot_def)
qed

theorem first_tick_after_boot_witness:
  "\<exists>s1 s2. kernel_init sample_boot 0x5000 sample_start = Some (s1, boot_pool sample_boot 0x5000 sample_start)
     \<and> irq_handler_timer (boot_tasks sample_boot) 0x43000 s1 = Some s2 \<and> task_current (boot_tasks sample_boot) (ram s2) = 0x1004
     \<and> ld32 (ram s2) 40 = - 1"
proof -
  have al: "page_aligned 0x44000" "page_aligned 0x40000" "page_aligned 0x41000" "page_aligned 0x43000"
    by (simp_all add: page_aligned_def)
  have H: "page_of x \<noteq> 0" if "x \<in> hardware_bytes sample_boot (boot_pool sample_boot 0x5000 sample_start) \<union> calls_region sample_boot" for x
    using that region_page [OF al(1), of 24 x] region_page [OF al(2), of 2048 x] region_page [OF al(3), of 2048 x]
      word_bytes_page [OF al(4), of 0 x] sample_space_page [of x]
    by (auto simp: hardware_bytes_def calls_region_def sample_boot_def page_of_def)
  have "page_of x = 0" if "x \<in> word_bytes 40" for x using that by (auto simp: word_bytes_def page_of_def)
  then have "word_bytes 40 \<inter> (hardware_bytes sample_boot (boot_pool sample_boot 0x5000 sample_start) \<union> calls_region sample_boot) = {}"
    using H by blast
  moreover have "ld32 (ram sample_start) 40 = 0"
    by (simp add: sample_start_def sample_map_def ld32_st32_other aligned4_numeral) (simp add: ld32_def)
  ultimately show ?thesis
    using first_tick_after_boot [OF sample_layout sample_tasks_layout sample_size] sample_boot_pool(1)
    by (fastforce simp: sample_boot_def ready_list_def sample_env_def)
qed

end
