(* ===== verification/Boot.thy ===== *)
theory Boot
  imports Entry
begin

text \<open>
  The boot sector, \<open>source/boot/start.S\<close> and \<open>source/boot/boot.c\<close>, in real mode: it clears the
  screen and reads the loader through the firmware, and jumps to it.  The firmware is a
  parameter, what call \<open>i\<close> of an interrupt makes of the processor; the addresses the assembler
  gives to the labels are another.
\<close>

unbundle bit_operations_syntax

section \<open>Real mode\<close>

text \<open>The low 16 bits of a register, their two bytes, and setting them.\<close>

definition lo16 :: "u32 \<Rightarrow> u16" where "lo16 r = ucast r"
definition set_lo16 :: "u16 \<Rightarrow> u32 \<Rightarrow> u32" where "set_lo16 v r = (r AND NOT 0xFFFF) OR ucast v"
definition set_lo8 :: "u8 \<Rightarrow> u32 \<Rightarrow> u32" where "set_lo8 v r = (r AND NOT 0xFF) OR ucast v"
definition set_hi8 :: "u8 \<Rightarrow> u32 \<Rightarrow> u32" where "set_hi8 v r = (r AND NOT 0xFF00) OR push_bit 8 (ucast v)"

definition real_addr :: "u16 \<Rightarrow> u16 \<Rightarrow> u32" where
  "real_addr seg off = push_bit 4 (ucast seg) + ucast off"

definition push16 :: "u16 \<Rightarrow> cpu \<Rightarrow> cpu" where
  "push16 v s =
    (let sp = lo16 (esp s) - 2
     in s\<lparr>esp := set_lo16 sp (esp s), core := (core s)\<lparr>ram := st16 (cmem s) (real_addr (ss s) sp) v\<rparr>\<rparr>)"

definition pop16 :: "cpu \<Rightarrow> u16 \<times> cpu" where
  "pop16 s = (ld16 (cmem s) (real_addr (ss s) (lo16 (esp s))),
     s\<lparr>esp := set_lo16 (lo16 (esp s) + 2) (esp s)\<rparr>)"

definition call16 :: "u16 \<Rightarrow> cpu \<Rightarrow> cpu" where "call16 return_addr s = push16 return_addr s"

definition ret16 :: "cpu \<Rightarrow> cpu" where
  "ret16 s = (let (v, s) = pop16 s in s\<lparr>eip := ucast v\<rparr>)"

definition carry :: "cpu \<Rightarrow> bool" where "carry s \<longleftrightarrow> bit (eflags (core s)) 0"

type_synonym firmware = "nat \<Rightarrow> u8 \<Rightarrow> cpu \<Rightarrow> cpu"

section \<open>The boot sector\<close>

definition LOADER_ENTRY :: u32 where "LOADER_ENTRY = 0x8000"

text \<open>\<open>clear_screen\<close> up to the interrupt, and from there to the return.\<close>

definition clear_request :: "cpu \<Rightarrow> cpu" where
  "clear_request s =
    (let s = push16 (lo16 (eax s)) s; s = push16 (lo16 (ecx s)) s;
         s = push16 (lo16 (edx s)) s; s = push16 (lo16 (ebx s)) s;
         s = s\<lparr>eax := set_hi8 0x06 (eax s)\<rparr>; s = s\<lparr>eax := set_lo8 0 (eax s)\<rparr>;
         s = s\<lparr>ecx := set_hi8 0 (ecx s)\<rparr>; s = s\<lparr>ecx := set_lo8 0 (ecx s)\<rparr>;
         s = s\<lparr>edx := set_hi8 24 (edx s)\<rparr>; s = s\<lparr>edx := set_lo8 79 (edx s)\<rparr>
     in s\<lparr>ebx := set_hi8 0x07 (ebx s)\<rparr>)"

definition clear_return :: "cpu \<Rightarrow> cpu" where
  "clear_return s =
    (let (v, s) = pop16 s; s = s\<lparr>ebx := set_lo16 v (ebx s)\<rparr>;
         (v, s) = pop16 s; s = s\<lparr>edx := set_lo16 v (edx s)\<rparr>;
         (v, s) = pop16 s; s = s\<lparr>ecx := set_lo16 v (ecx s)\<rparr>;
         (v, s) = pop16 s; s = s\<lparr>eax := set_lo16 v (eax s)\<rparr>
     in ret16 s)"

definition clear_screen :: "firmware \<Rightarrow> nat \<Rightarrow> cpu \<Rightarrow> cpu" where
  "clear_screen bios i s = clear_return (bios i 0x10 (clear_request s))"

text \<open>
  \<open>read_loader\<close> up to the interrupt, and from there to the return.  When the disk reports an
  error the code jumps back to its first line, so the four registers are pushed again.
\<close>

definition read_request :: "cpu \<Rightarrow> cpu" where
  "read_request s =
    (let s = push16 (lo16 (ebx s)) s; s = push16 (lo16 (ecx s)) s;
         s = push16 (lo16 (eax s)) s; s = push16 (lo16 (edx s)) s;
         s = s\<lparr>ebx := set_lo16 0x8000 (ebx s)\<rparr>; s = s\<lparr>ecx := set_lo16 0x2 (ecx s)\<rparr>;
         s = s\<lparr>eax := set_hi8 0x2 (eax s)\<rparr>; s = s\<lparr>eax := set_lo8 64 (eax s)\<rparr>
     in s\<lparr>edx := set_lo16 0x0080 (edx s)\<rparr>)"

definition read_return :: "cpu \<Rightarrow> cpu" where
  "read_return s =
    (let (v, s) = pop16 s; s = s\<lparr>edx := set_lo16 v (edx s)\<rparr>;
         (v, s) = pop16 s; s = s\<lparr>eax := set_lo16 v (eax s)\<rparr>;
         (v, s) = pop16 s; s = s\<lparr>ecx := set_lo16 v (ecx s)\<rparr>;
         (v, s) = pop16 s; s = s\<lparr>ebx := set_lo16 v (ebx s)\<rparr>
     in ret16 s)"

partial_function (option) read_loader :: "firmware \<Rightarrow> nat \<Rightarrow> cpu \<Rightarrow> cpu option" where
  "read_loader bios i s =
    (let s = bios i 0x13 (read_request s)
     in if carry s then read_loader bios (Suc i) s else Some (read_return s))"

text \<open>The call of the loader does not return; the frame the compiler gives it is left out.\<close>

definition boot_entry :: "cpu \<Rightarrow> cpu" where
  "boot_entry s = s\<lparr>eip := LOADER_ENTRY\<rparr>"

text \<open>
  The addresses of \<open>_start\<close> and of the instructions after the two calls.  A routine that does
  not return to where it was called from leaves the boot sector: the state is then the result.
\<close>

record boot_code =
  start_addr :: u32
  after_clear :: u16
  after_read :: u16

definition init_segments :: "cpu \<Rightarrow> cpu" where
  "init_segments s =
    (let s = s\<lparr>eax := set_lo16 0 (eax s)\<rparr>; ax = lo16 (eax s)
     in s\<lparr>ds := ax, ss := ax, es := ax, fs := ax, gs := ax\<rparr>)"

definition boot_start :: "boot_code \<Rightarrow> firmware \<Rightarrow> cpu \<Rightarrow> cpu option" where
  "boot_start code bios s =
    (let s = init_segments s;
         s = s\<lparr>esp := start_addr code\<rparr>;
         s = clear_screen bios 0 (call16 (after_clear code) s)
     in if eip s \<noteq> ucast (after_clear code) then Some s
        else Option.bind (read_loader bios 1 (call16 (after_read code) s)) (\<lambda>s.
          if eip s \<noteq> ucast (after_read code) then Some s else Some (boot_entry s)))"

section \<open>The stack\<close>

lemma low_mask: "(0xFFFF :: u32) = mask 16"
  by (simp add: mask_eq_exp_minus_1)

lemma set_lo16_twice [simp]: "set_lo16 v (set_lo16 w r) = set_lo16 v r"
  unfolding set_lo16_def low_mask by (rule bit_word_eqI) (auto simp: bit_simps dest: bit_imp_le_length)

lemma lo16_set [simp]: "lo16 (set_lo16 v r) = v"
proof (rule bit_word_eqI)
  fix n assume "n < LENGTH(16)"
  then show "bit (lo16 (set_lo16 v r)) n = bit v n" unfolding lo16_def set_lo16_def low_mask by (simp add: bit_simps)
qed

text \<open>With the stack segment 0 and the stack pointer \<open>k\<close> below 64 KB, the stack is at \<open>k\<close>.\<close>

definition flat_stack :: "nat \<Rightarrow> cpu \<Rightarrow> bool" where
  "flat_stack k s \<longleftrightarrow> ss s = 0 \<and> esp s = of_nat k \<and> k < 2 ^ 16"

lemma low_half: "j < 2 ^ 16 \<Longrightarrow> ucast (of_nat j :: u16) = (of_nat j :: u32)" "lo16 (of_nat k) = of_nat k"
  by (simp add: word_unat_eq_iff unsigned_ucast_eq take_bit_nat_eq_self unat_of_nat_word)
    (simp add: lo16_def word_unat_eq_iff unsigned_ucast_eq unsigned_of_nat min_def)

lemma set_lo16_small:
  assumes "k < 2 ^ 16" "j < 2 ^ 16"
  shows "set_lo16 (of_nat j) (of_nat k) = of_nat j"
proof -
  have t: "bit k n \<Longrightarrow> n < 16" for n by (metis assms(1) bit_take_bit_iff take_bit_nat_eq_self)
  have "(of_nat k :: u32) AND NOT 0xFFFF = 0"
    unfolding low_mask by (rule bit_word_eqI) (auto simp: bit_simps simp del: of_nat_numeral dest: t)
  then show ?thesis using low_half(1) [OF assms(2)] by (simp add: set_lo16_def)
qed

lemma real_addr_0: "j < 2 ^ 16 \<Longrightarrow> real_addr 0 (of_nat j) = of_nat j"
  by (simp add: real_addr_def low_half)

lemma push16_flat:
  assumes "flat_stack k s" "2 \<le> k"
  shows "push16 v s = s\<lparr>esp := of_nat (k - 2), core := (core s)\<lparr>ram := st16 (cmem s) (of_nat (k - 2)) v\<rparr>\<rparr>"
    "flat_stack (k - 2) (push16 v s)"
proof -
  have k: "k < 2 ^ 16" "k - 2 < 2 ^ 16" using assms(1) unfolding flat_stack_def by linarith+
  have "(of_nat k :: u16) - 2 = of_nat (k - 2)" using assms(2) by (simp add: of_nat_diff)
  then show p: "push16 v s = s\<lparr>esp := of_nat (k - 2), core := (core s)\<lparr>ram := st16 (cmem s) (of_nat (k - 2)) v\<rparr>\<rparr>"
    using assms(1) set_lo16_small [OF k] real_addr_0 [OF k(2)]
    by (simp add: push16_def flat_stack_def Let_def low_half(2))
  show "flat_stack (k - 2) (push16 v s)" unfolding p using assms(1) k(2) by (simp add: flat_stack_def)
qed

lemma pop16_flat:
  assumes "flat_stack k s" "k + 2 < 2 ^ 16"
  shows "pop16 s = (ld16 (cmem s) (of_nat k), s\<lparr>esp := of_nat (k + 2)\<rparr>)"
proof -
  have "(of_nat k :: u16) + 2 = of_nat (k + 2)" by simp
  then have "set_lo16 (lo16 (esp s) + 2) (esp s) = of_nat (k + 2)"
    using assms set_lo16_small [of k "k + 2"] by (simp only: flat_stack_def low_half(2))
  then show ?thesis using assms(1) real_addr_0 [of k] unfolding pop16_def by (simp add: flat_stack_def low_half(2))
qed

lemma unat_half: "k + 1 < 2 ^ 32 \<Longrightarrow> unat (of_nat k :: u32) = k" "k + 1 < 2 ^ 32 \<Longrightarrow> unat (of_nat k + 1 :: u32) = k + 1"
  using unat_of_nat_word [of k, where 'a = 32] unat_of_nat_word [of "Suc k", where 'a = 32]
  by (simp_all add: add.commute [of _ 1])

text \<open>The halfwords on the stack, the top first.\<close>

primrec halves_at :: "mem \<Rightarrow> nat \<Rightarrow> u16 list \<Rightarrow> bool" where
  "halves_at m k [] = True"
| "halves_at m k (w # ws) = (ld16 m (of_nat k) = w \<and> halves_at m (k + 2) ws)"

lemma halves_cong:
  "(\<And>x. k \<le> unat x \<Longrightarrow> unat x < k + 2 * length ws \<Longrightarrow> m' x = m x) \<Longrightarrow> k + 2 * length ws < 2 ^ 32
    \<Longrightarrow> halves_at m k ws \<Longrightarrow> halves_at m' k ws"
proof (induction ws arbitrary: k)
  case (Cons w ws)
  have u: "unat (of_nat k :: u32) = k" "unat (of_nat k + 1 :: u32) = k + 1"
    using Cons.prems(2) unat_half [of k] by simp_all
  have "ld16 m' (of_nat k) = ld16 m (of_nat k)" by (simp add: ld16_def Cons.prems(1) u)
  moreover have "halves_at m' (k + 2) ws" by (rule Cons.IH) (use Cons.prems in auto)
  ultimately show ?case using Cons.prems(3) by simp
qed simp

lemma halves_push:
  assumes "flat_stack k s" "2 \<le> k" "halves_at (cmem s) k ws" "k + 2 * length ws < 2 ^ 32"
  shows "halves_at (cmem (push16 v s)) (k - 2) (v # ws)"
proof -
  have k: "k < 2 ^ 16" using assms(1) by (simp add: flat_stack_def)
  have u: "unat (of_nat (k - 2) :: u32) = k - 2" "unat (of_nat (k - 2) + 1 :: u32) = k - 1"
    using k assms(2) unat_half [of "k - 2"] by simp_all
  have "halves_at (st16 (cmem s) (of_nat (k - 2)) v) k ws"
    by (rule halves_cong [OF _ assms(4,3)]) (use u assms(2) in \<open>auto simp: st16_def\<close>)
  moreover have "k - 2 + 2 = k" using assms(2) by simp
  ultimately show ?thesis unfolding push16_flat(1) [OF assms(1,2)] halves_at.simps by (simp add: ld16_st16)
qed

text \<open>What is on the stack stays when the code below it runs.\<close>

definition stack_of :: "nat \<Rightarrow> u16 list \<Rightarrow> cpu \<Rightarrow> bool" where
  "stack_of k ws s \<longleftrightarrow> flat_stack k s \<and> halves_at (cmem s) k ws \<and> k + 2 * length ws \<le> 0x8000"

lemma stack_push16:
  assumes "stack_of k ws s" "2 \<le> k"
  shows "stack_of (k - 2) (v # ws) (push16 v s)"
proof -
  have s: "flat_stack k s" "halves_at (cmem s) k ws" "k + 2 * length ws \<le> 0x8000" using assms(1) by (simp_all add: stack_of_def)
  then have "k - 2 + 2 * length (v # ws) \<le> 0x8000" "k + 2 * length ws < 2 ^ 32" using assms(2) by auto
  then show ?thesis
    unfolding stack_of_def using push16_flat(2) [OF s(1) assms(2)] halves_push [OF s(1) assms(2) s(2)] by blast
qed

lemma stack_push4:
  assumes "stack_of k ws s" "8 \<le> k"
  shows "stack_of (k - 8) (d # c # b # a # ws) (push16 d (push16 c (push16 b (push16 a s))))"
proof -
  have 1: "stack_of (k - 2) (a # ws) (push16 a s)" by (rule stack_push16) (use assms in auto)
  have 2: "stack_of (k - 2 - 2) (b # a # ws) (push16 b (push16 a s))" by (rule stack_push16 [OF 1]) (use assms in auto)
  have 3: "stack_of (k - 2 - 2 - 2) (c # b # a # ws) (push16 c (push16 b (push16 a s)))"
    by (rule stack_push16 [OF 2]) (use assms in auto)
  have "stack_of (k - 2 - 2 - 2 - 2) (d # c # b # a # ws) (push16 d (push16 c (push16 b (push16 a s))))"
    by (rule stack_push16 [OF 3]) (use assms in auto)
  then show ?thesis by (simp add: diff_diff_left)
qed

lemma stack_pop16:
  assumes "stack_of k (w # ws) s"
  shows "pop16 s = (w, s\<lparr>esp := esp s + 2\<rparr>)" "stack_of (k + 2) ws (s\<lparr>esp := esp s + 2\<rparr>)"
  using assms pop16_flat [of k s] by (simp_all add: stack_of_def flat_stack_def add.commute)

lemma stack_of_upd [simp]:
  "stack_of k ws (s\<lparr>eax := v\<rparr>) = stack_of k ws s" "stack_of k ws (s\<lparr>ebx := v\<rparr>) = stack_of k ws s"
  "stack_of k ws (s\<lparr>ecx := v\<rparr>) = stack_of k ws s" "stack_of k ws (s\<lparr>edx := v\<rparr>) = stack_of k ws s"
  "stack_of k ws (s\<lparr>eip := v\<rparr>) = stack_of k ws s"
  by (simp_all add: stack_of_def flat_stack_def)

lemma push16_fields [simp]:
  "eax (push16 v s) = eax s" "ebx (push16 v s) = ebx s" "ecx (push16 v s) = ecx s" "edx (push16 v s) = edx s"
  "ds (push16 v s) = ds s" "es (push16 v s) = es s" "fs (push16 v s) = fs s" "gs (push16 v s) = gs s"
  "ss (push16 v s) = ss s" "eip (push16 v s) = eip s" "cs (push16 v s) = cs s"
  by (simp_all add: push16_def Let_def)

section \<open>The firmware\<close>

text \<open>
  Its documented behaviour: a call returns with the stack pointer and the segment registers as
  they were and with the memory from the stack up to the loader's place untouched, but for the
  buffer of interrupt 0x13.  Function 2 of that interrupt keeps the other general registers; unless
  it reports an error, with the carry flag, the sectors are in memory from the address in \<open>es:bx\<close>
  on, \<open>al\<close> of them, counted from one on track 0 of head 0.
\<close>

definition byte0 :: "u32 \<Rightarrow> u8" where "byte0 r = ucast r"
definition byte1 :: "u32 \<Rightarrow> u8" where "byte1 r = ucast (drop_bit 8 r)"

definition segments :: "cpu \<Rightarrow> u16 list" where "segments s = [ds s, es s, fs s, gs s, ss s]"

definition transfer :: "u8 \<Rightarrow> cpu \<Rightarrow> u32 set" where
  "transfer v s = (if v = 0x13 then region (real_addr (es s) (lo16 (ebx s))) (512 * unat (byte0 (eax s))) else {})"

definition firmware_ok :: "(nat \<Rightarrow> u8) \<Rightarrow> firmware \<Rightarrow> bool" where
  "firmware_ok disk bios \<longleftrightarrow>
    (\<forall>i v s. esp (bios i v s) = esp s \<and> segments (bios i v s) = segments s
       \<and> (\<forall>x. real_addr (ss s) (lo16 (esp s)) \<le> x \<and> x < LOADER_ENTRY \<and> x \<notin> transfer v s \<longrightarrow> cmem (bios i v s) x = cmem s x))
  \<and> (\<forall>i s. byte1 (eax s) = 2 \<and> byte1 (ecx s) = 0 \<and> byte1 (edx s) = 0 \<longrightarrow>
       ebx (bios i 0x13 s) = ebx s \<and> ecx (bios i 0x13 s) = ecx s \<and> edx (bios i 0x13 s) = edx s
       \<and> (\<not> carry (bios i 0x13 s) \<longrightarrow> (\<forall>j<512 * unat (byte0 (eax s)).
            cmem (bios i 0x13 s) (real_addr (es s) (lo16 (ebx s)) + of_nat j) = disk (512 * (unat (byte0 (ecx s)) - 1) + j))))"

lemma firmware_stack:
  assumes f: "firmware_ok disk bios" and k: "stack_of k ws s" and up: "\<And>x. x \<in> transfer v s \<Longrightarrow> LOADER_ENTRY \<le> x"
  shows "stack_of k ws (bios i v s)"
proof -
  have e: "esp (bios i v s) = esp s" "segments (bios i v s) = segments s"
    and m: "\<And>x. real_addr (ss s) (lo16 (esp s)) \<le> x \<Longrightarrow> x < LOADER_ENTRY \<Longrightarrow> cmem (bios i v s) x = cmem s x"
    using f up unfolding firmware_ok_def by (meson leD)+
  have fl: "ss s = 0" "esp s = of_nat k" "k < 2 ^ 16" and h: "halves_at (cmem s) k ws" and l: "k + 2 * length ws \<le> 0x8000"
    using k by (simp_all add: stack_of_def flat_stack_def)
  have "unat (of_nat k :: u32) = k" using fl(3) by (intro unat_of_nat_word) simp
  then have "halves_at (cmem (bios i v s)) k ws"
    using h l fl real_addr_0 [OF fl(3)]
    by (intro halves_cong [OF m]) (auto simp: low_half(2) word_le_nat_alt word_less_nat_alt LOADER_ENTRY_def)
  then show ?thesis using e fl l by (simp add: stack_of_def flat_stack_def segments_def)
qed

lemma firmware_keeps:
  assumes "firmware_ok disk bios"
  shows "segments (bios i v s) = segments s" "esp (bios i v s) = esp s"
  using assms unfolding firmware_ok_def by blast+

section \<open>Clearing the screen and reading the loader\<close>

lemma ret16_stack: "stack_of k (r # ws) s \<Longrightarrow> ret16 s = s\<lparr>esp := esp s + 2, eip := ucast r\<rparr>"
  using stack_pop16(1) by (simp add: ret16_def)

text \<open>Four registers popped, in either order the code has, and the return.\<close>

lemma pop_at:
  assumes "k + 10 \<le> 0x8000" "ss s = 0" "esp s = of_nat k + of_nat j" "j \<le> 8"
  shows "pop16 s = (ld16 (cmem s) (of_nat k + of_nat j), s\<lparr>esp := of_nat k + of_nat j + 2\<rparr>)"
  using pop16_flat [of "k + j" s] assms by (simp add: flat_stack_def add.commute add.left_commute)

lemmas pop_ats = pop_at [where j = 0, simplified] pop_at [where j = 2, simplified] pop_at [where j = 4, simplified]
  pop_at [where j = 6, simplified] pop_at [where j = 8, simplified]

lemma stack_five:
  assumes "stack_of k (w # x # y # z # r # ws) s"
  shows "ss s = 0" "esp s = of_nat k" "k \<le> 32758" "ld16 (cmem s) (of_nat k) = w" "ld16 (cmem s) (of_nat k + 2) = x"
    "ld16 (cmem s) (of_nat k + 4) = y" "ld16 (cmem s) (of_nat k + 6) = z" "ld16 (cmem s) (of_nat k + 8) = r"
    "stack_of (k + 10) ws (s\<lparr>esp := esp s + 10\<rparr>)"
proof -
  show "ss s = 0" "esp s = of_nat k" "k \<le> 32758" "ld16 (cmem s) (of_nat k) = w" "ld16 (cmem s) (of_nat k + 2) = x"
    "ld16 (cmem s) (of_nat k + 4) = y" "ld16 (cmem s) (of_nat k + 6) = z" "ld16 (cmem s) (of_nat k + 8) = r"
    using assms by (simp_all add: stack_of_def flat_stack_def add.commute)
  have "halves_at (cmem s) (k + 2 + 2 + 2 + 2 + 2) ws" using assms unfolding stack_of_def halves_at.simps by blast
  moreover have "k + 2 + 2 + 2 + 2 + 2 = k + 10" by simp
  ultimately have "halves_at (cmem s) (k + 10) ws" by (simp only:)
  then show "stack_of (k + 10) ws (s\<lparr>esp := esp s + 10\<rparr>)"
    using assms by (simp add: stack_of_def flat_stack_def add.commute)
qed

lemma read_return_stack:
  assumes "stack_of k (d # a # c # b # r # ws) s"
  shows "read_return s = s\<lparr>edx := set_lo16 d (edx s), eax := set_lo16 a (eax s), ecx := set_lo16 c (ecx s),
      ebx := set_lo16 b (ebx s), esp := esp s + 10, eip := ucast r\<rparr>"
    "stack_of (k + 10) ws (read_return s)"
proof -
  note st = stack_five [OF assms]
  note p = pop_ats [OF st(3)]
  show r: "read_return s = s\<lparr>edx := set_lo16 d (edx s), eax := set_lo16 a (eax s), ecx := set_lo16 c (ecx s),
      ebx := set_lo16 b (ebx s), esp := esp s + 10, eip := ucast r\<rparr>"
    by (simp add: read_return_def ret16_def p st add.assoc)
  show "stack_of (k + 10) ws (read_return s)" unfolding r using st(9) by (simp add: stack_of_def flat_stack_def)
qed

lemma clear_return_stack:
  assumes "stack_of k (b # d # c # a # r # ws) s"
  shows "clear_return s = s\<lparr>ebx := set_lo16 b (ebx s), edx := set_lo16 d (edx s), ecx := set_lo16 c (ecx s),
      eax := set_lo16 a (eax s), esp := esp s + 10, eip := ucast r\<rparr>"
    "stack_of (k + 10) ws (clear_return s)"
proof -
  note st = stack_five [OF assms]
  note p = pop_ats [OF st(3)]
  show r: "clear_return s = s\<lparr>ebx := set_lo16 b (ebx s), edx := set_lo16 d (edx s), ecx := set_lo16 c (ecx s),
      eax := set_lo16 a (eax s), esp := esp s + 10, eip := ucast r\<rparr>"
    by (simp add: clear_return_def ret16_def p st add.assoc)
  show "stack_of (k + 10) ws (clear_return s)" unfolding r using st(9) by (simp add: stack_of_def flat_stack_def)
qed

lemma clear_screen_returns:
  assumes f: "firmware_ok disk bios" and k: "stack_of k (r # ws) s" "8 \<le> k"
  shows "stack_of (k + 2) ws (clear_screen bios i s)" "eip (clear_screen bios i s) = ucast r"
    "segments (clear_screen bios i s) = segments s"
    "lo16 (edx (clear_screen bios i s)) = lo16 (edx s)"
proof -
  let ?t = "clear_request s"
  have t: "stack_of (k - 8) (lo16 (ebx s) # lo16 (edx s) # lo16 (ecx s) # lo16 (eax s) # r # ws) ?t"
    using stack_push4 [OF k] by (simp add: clear_request_def Let_def)
  have "stack_of (k - 8) (lo16 (ebx s) # lo16 (edx s) # lo16 (ecx s) # lo16 (eax s) # r # ws) (bios i 0x10 ?t)"
    by (rule firmware_stack [OF f t]) (simp add: transfer_def)
  note u = clear_return_stack [OF this]
  have seg: "segments ?t = segments s" by (simp add: clear_request_def Let_def segments_def)
  show "stack_of (k + 2) ws (clear_screen bios i s)" using u(2) k(2) by (simp add: clear_screen_def)
  show "eip (clear_screen bios i s) = ucast r" "lo16 (edx (clear_screen bios i s)) = lo16 (edx s)"
    by (simp_all add: clear_screen_def u(1))
  show "segments (clear_screen bios i s) = segments s"
    using firmware_keeps(1) [OF f, of i "0x10" ?t] seg by (simp add: clear_screen_def u(1) segments_def)
qed

lemma byte_masks: "(0xFF :: u32) = mask 8" "(0xFF00 :: u32) = push_bit 8 (mask 8)"
  by (simp_all add: mask_eq_exp_minus_1)

lemma register_bytes:
  "byte0 (set_lo8 v r) = v" "byte1 (set_lo8 v r) = byte1 r" "byte1 (set_hi8 v r) = v"
  "byte0 (set_lo16 w r) = ucast w" "byte1 (set_lo16 w r) = ucast (drop_bit 8 w)"
  unfolding byte0_def byte1_def set_lo8_def set_hi8_def set_lo16_def byte_masks low_mask
  by (rule bit_word_eqI, auto simp: bit_simps dest: bit_imp_le_length)+

lemma request_bytes:
  "byte1 (set_lo8 64 (set_hi8 0x2 r)) = 2" "byte0 (set_lo8 64 (set_hi8 0x2 r)) = 64"
  "byte1 (set_lo16 0x2 r) = 0" "byte0 (set_lo16 0x2 r) = 2" "byte1 (set_lo16 0x80 r) = 0"
  by (simp_all add: register_bytes)

lemma read_request_stack:
  assumes "stack_of k ws s" "8 \<le> k"
  defines "t \<equiv> read_request s"
  shows "stack_of (k - 8) (lo16 (edx s) # lo16 (eax s) # lo16 (ecx s) # lo16 (ebx s) # ws) t"
    "byte1 (eax t) = 2" "byte0 (eax t) = 64" "byte1 (ecx t) = 0" "byte0 (ecx t) = 2" "byte1 (edx t) = 0"
    "lo16 (edx t) = 0x80" "lo16 (ebx t) = 0x8000" "segments t = segments s"
  using stack_push4 [OF assms(1,2)]
  by (simp_all add: t_def read_request_def Let_def request_bytes segments_def)

text \<open>One round: the request, the interrupt.\<close>

definition loaded :: "(nat \<Rightarrow> u8) \<Rightarrow> mem \<Rightarrow> bool" where
  "loaded disk m \<longleftrightarrow> (\<forall>j<0x8000. m (LOADER_ENTRY + of_nat j) = disk (512 + j))"

lemma read_round:
  fixes i
  assumes f: "firmware_ok disk bios" and k: "stack_of k ws s" "8 \<le> k" and es: "es s = 0"
  defines "u \<equiv> bios i 0x13 (read_request s)"
  shows "stack_of (k - 8) (lo16 (edx s) # lo16 (eax s) # lo16 (ecx s) # lo16 (ebx s) # ws) u"
    "segments u = segments s" "lo16 (edx u) = 0x80" "\<not> carry u \<Longrightarrow> loaded disk (cmem u)"
proof -
  note t = read_request_stack [OF k]
  have "real_addr 0 0x8000 = LOADER_ENTRY" by (simp add: real_addr_def LOADER_ENTRY_def)
  moreover have "es (read_request s) = 0" using t(9) es by (simp add: segments_def)
  ultimately have tr: "transfer 0x13 (read_request s) = region LOADER_ENTRY 0x8000" using t(3,8) by (simp add: transfer_def)
  show "stack_of (k - 8) (lo16 (edx s) # lo16 (eax s) # lo16 (ecx s) # lo16 (ebx s) # ws) u"
    unfolding u_def
  proof (rule firmware_stack [OF f t(1)])
    fix x assume "x \<in> transfer 0x13 (read_request s)"
    then show "LOADER_ENTRY \<le> x"
      using region_range(1) [of x LOADER_ENTRY] by (simp add: tr word_le_nat_alt) (simp add: LOADER_ENTRY_def)
  qed
  show "segments u = segments s" using firmware_keeps(1) [OF f] t(9) by (simp add: u_def)
  let ?t = "read_request s"
  have d: "edx u = edx ?t" "\<not> carry u \<Longrightarrow> \<forall>j<512 * unat (byte0 (eax ?t)).
      cmem u (real_addr (es ?t) (lo16 (ebx ?t)) + of_nat j) = disk (512 * (unat (byte0 (ecx ?t)) - 1) + j)"
    using f t(2,4,6) unfolding firmware_ok_def u_def by blast+
  show "lo16 (edx u) = 0x80" using d(1) t(7) by simp
  have "es ?t = 0" using t(9) es by (simp add: segments_def)
  moreover have "real_addr 0 0x8000 = LOADER_ENTRY" by (simp add: real_addr_def LOADER_ENTRY_def)
  ultimately show "\<not> carry u \<Longrightarrow> loaded disk (cmem u)" using d(2) t(3,5,8) by (simp add: loaded_def)
qed

text \<open>
  With \<open>n\<close> failures before the success, \<open>n\<close> frames of four registers stay on the stack, and the
  return takes the top one for the return address: \<open>dx\<close>.
\<close>

lemma read_loader_runs:
  assumes f: "firmware_ok disk bios"
  shows "stack_of k (r # ws) s \<Longrightarrow> 8 * Suc n \<le> k \<Longrightarrow> es s = 0
    \<Longrightarrow> (\<And>j s. j < n \<Longrightarrow> carry (bios (i + j) 0x13 s)) \<Longrightarrow> (\<And>s. \<not> carry (bios (i + n) 0x13 s))
    \<Longrightarrow> \<exists>s'. read_loader bios i s = Some s' \<and> loaded disk (cmem s') \<and> segments s' = segments s
      \<and> eip s' = ucast (if n = 0 then r else if n = 1 then lo16 (edx s) else 0x80)
      \<and> unat (esp s') = k + 2 - 8 * n"
proof (induction n arbitrary: i k r ws s)
  case 0
  let ?u = "bios i 0x13 (read_request s)"
  have k8: "8 \<le> k" using 0(2) by simp
  note u = read_round [OF f 0(1) k8 0(3), of i]
  have nc: "\<not> carry ?u" using 0(5) by simp
  note rr = read_return_stack [OF u(1)]
  have st: "stack_of (k - 8 + 10) ws (read_return ?u)" by (rule rr(2))
  have "read_loader bios i s = Some (read_return ?u)" using nc by (subst read_loader.simps) (simp add: Let_def)
  moreover have "segments (read_return ?u) = segments s" using u(2) by (simp add: rr(1) segments_def)
  moreover have sp: "esp (read_return ?u) = of_nat (k + 2)" "k + 2 \<le> 0x8000" using st k8 by (simp_all add: stack_of_def flat_stack_def)
  then have "unat (of_nat (k + 2) :: u32) = k + 2" by (intro unat_of_nat_word) simp
  with sp(1) have "unat (esp (read_return ?u)) = k + 2" by (simp only:)
  ultimately show ?case using u(4) [OF nc] by (simp add: rr(1))
next
  case (Suc n)
  let ?u = "bios i 0x13 (read_request s)"
  have k8: "8 \<le> k" using Suc.prems(2) by simp
  note u = read_round [OF f Suc.prems(1) k8 Suc.prems(3), of i]
  have c: "carry ?u" using Suc.prems(4) [of 0] by simp
  have es: "es ?u = 0" using u(2) Suc.prems(3) by (simp add: segments_def)
  have "\<exists>s'. read_loader bios (Suc i) ?u = Some s' \<and> loaded disk (cmem s') \<and> segments s' = segments ?u
      \<and> eip s' = ucast (if n = 0 then lo16 (edx s) else if n = 1 then lo16 (edx ?u) else 0x80)
      \<and> unat (esp s') = k - 8 + 2 - 8 * n"
    by (rule Suc.IH [OF u(1) _ es]) (use Suc.prems(2) Suc.prems(4) [of "Suc _"] Suc.prems(5) in auto)
  moreover have "read_loader bios i s = read_loader bios (Suc i) ?u" using c by (subst read_loader.simps) (simp add: Let_def)
  moreover have "k - 8 + 2 - 8 * n = k + 2 - 8 * Suc n" using Suc.prems(2) by simp
  ultimately show ?case using u(2,3) by auto
qed

lemma boot_start_runs:
  assumes f: "firmware_ok disk bios" and room: "8 * n + 10 \<le> unat (start_addr code)" "unat (start_addr code) \<le> 0x8000"
    and disk: "\<And>i s. 1 \<le> i \<Longrightarrow> i \<le> n \<Longrightarrow> carry (bios i 0x13 s)" "\<And>s. \<not> carry (bios (Suc n) 0x13 s)"
  shows "\<exists>s'. boot_start code bios s
      = Some (if eip s' \<noteq> ucast (after_read code) then s' else boot_entry s')
    \<and> loaded disk (cmem s') \<and> segments s' = [0, 0, 0, 0, 0]
    \<and> eip s' = ucast (if n = 0 then after_read code else if n = 1 then lo16 (edx s) else 0x80)
    \<and> unat (esp s') = unat (start_addr code) - 8 * n"
proof -
  let ?K = "unat (start_addr code)" let ?s0 = "(init_segments s)\<lparr>esp := start_addr code\<rparr>"
  have seg: "segments ?s0 = [0, 0, 0, 0, 0]" "lo16 (edx ?s0) = lo16 (edx s)"
    by (simp_all add: init_segments_def Let_def segments_def)
  have 0: "stack_of ?K [] ?s0"
    using seg room(2) by (simp add: stack_of_def flat_stack_def segments_def)
  have 1: "stack_of (?K - 2) [after_clear code] (call16 (after_clear code) ?s0)"
    unfolding call16_def by (rule stack_push16 [OF 0]) (use room in simp)
  let ?s1 = "clear_screen bios 0 (call16 (after_clear code) ?s0)"
  have k8: "8 \<le> ?K - 2" and k2: "?K - 2 + 2 = ?K" using room(1) by simp_all
  note c = clear_screen_returns [OF f 1 k8, of 0, unfolded k2]
  have 2: "stack_of (?K - 2) [after_read code] (call16 (after_read code) ?s1)"
    using stack_push16 [OF c(1)] room(1) by (simp add: call16_def)
  let ?s2 = "call16 (after_read code) ?s1"
  have s2: "segments ?s2 = [0, 0, 0, 0, 0]" "lo16 (edx ?s2) = lo16 (edx s)"
    using c(3,4) seg by (simp_all add: call16_def segments_def)
  have "\<exists>s'. read_loader bios 1 ?s2 = Some s' \<and> loaded disk (cmem s') \<and> segments s' = segments ?s2
      \<and> eip s' = ucast (if n = 0 then after_read code else if n = 1 then lo16 (edx ?s2) else 0x80)
      \<and> unat (esp s') = ?K - 2 + 2 - 8 * n"
    by (rule read_loader_runs [OF f 2]) (use room(1) disk s2(1) in \<open>auto simp: segments_def\<close>)
  then obtain s' where "read_loader bios 1 ?s2 = Some s'" "loaded disk (cmem s')" "segments s' = [0, 0, 0, 0, 0]"
    "eip s' = ucast (if n = 0 then after_read code else if n = 1 then lo16 (edx s) else 0x80)" "unat (esp s') = ?K - 8 * n"
    using s2 k2 by auto
  then show ?thesis using c(2) by (intro exI [of _ s']) (simp add: boot_start_def Let_def)
qed

text \<open>
  C37: when the disk answers the first time, the boot sector reaches the loader's entry with
  the 64 sectors that follow it on the disk in memory from there up to 64 KB and the segment
  registers 0.
\<close>

theorem boot_reaches_loader:
  assumes "firmware_ok disk bios" and "10 \<le> unat (start_addr code)" "unat (start_addr code) \<le> 0x8000"
    and "\<forall>s. \<not> carry (bios 1 0x13 s)"
  shows "\<exists>s'. boot_start code bios s = Some s' \<and> eip s' = LOADER_ENTRY
    \<and> (\<forall>j<64 * 512. cmem s' (LOADER_ENTRY + of_nat j) = disk (512 + j))
    \<and> segments s' = [0, 0, 0, 0, 0]"
proof -
  obtain s' where s': "boot_start code bios s = Some (if eip s' \<noteq> ucast (after_read code) then s' else boot_entry s')"
    "loaded disk (cmem s')" "segments s' = [0, 0, 0, 0, 0]" "eip s' = ucast (after_read code)"
    "unat (esp s') = unat (start_addr code)"
    using boot_start_runs [OF assms(1), of 0 code s] assms(2-4) by auto
  then show ?thesis
    by (intro exI [of _ "boot_entry s'"]) (simp add: boot_entry_def loaded_def segments_def word_unat_eq_iff)
qed

text \<open>
  C38: when the disk fails first, the boot sector does not survive the retry.  The code jumps back
  to before the four pushes, so after \<open>n\<close> failures \<open>n\<close> frames too many are on the stack: the
  sectors do get loaded, but the return takes a saved \<open>dx\<close> for the return address, the value
  the boot sector was started with after one failure and 0x80 after more, and goes on there.
\<close>

theorem boot_retry_derails:
  assumes "firmware_ok disk bios" and "8 * n + 10 \<le> unat (start_addr code)" "unat (start_addr code) \<le> 0x8000"
    and "0 < n" "\<forall>i s. 1 \<le> i \<and> i \<le> n \<longrightarrow> carry (bios i 0x13 s)" "\<forall>s. \<not> carry (bios (Suc n) 0x13 s)"
    and "after_read code \<noteq> lo16 (edx s)" "after_read code \<noteq> 0x80"
  shows "\<exists>s'. boot_start code bios s = Some s' \<and> loaded disk (cmem s')
    \<and> eip s' = ucast (if n = 1 then lo16 (edx s) else 0x80)
    \<and> unat (esp s') = unat (start_addr code) - 8 * n"
proof -
  obtain s' where s': "boot_start code bios s = Some (if eip s' \<noteq> ucast (after_read code) then s' else boot_entry s')"
    "loaded disk (cmem s')" "eip s' = ucast (if n = 1 then lo16 (edx s) else 0x80)"
    "unat (esp s') = unat (start_addr code) - 8 * n"
    using boot_start_runs [OF assms(1-3), of s] assms(4-6) by auto
  have "lo16 (ucast v) = v" for v :: u16 by (simp add: lo16_def)
  then have up: "ucast v = (ucast w :: u32) \<longleftrightarrow> v = w" for v w :: u16 by metis
  have "eip s' \<noteq> ucast (after_read code)" unfolding s'(3) up using assms(7,8) by auto
  then show ?thesis using s' by auto
qed

text \<open>
  A firmware whose first \<open>n\<close> reads fail, and a disk whose byte \<open>j\<close> is \<open>j\<close> modulo 256.
\<close>

definition sample_firmware :: "nat \<Rightarrow> firmware" where
  "sample_firmware n i v s =
    (if v = 0x13 then
       if i \<le> n then s\<lparr>core := (core s)\<lparr>eflags := 1\<rparr>\<rparr>
       else s\<lparr>core := (core s)\<lparr>eflags := 0, ram := (\<lambda>x. if x \<in> transfer v s
          then of_nat (512 * (unat (byte0 (ecx s)) - 1) + unat (x - real_addr (es s) (lo16 (ebx s)))) else cmem s x)\<rparr>\<rparr>
     else s)"

lemma sample_firmware_ok: "firmware_ok of_nat (sample_firmware n)"
proof -
  have u: "unat (of_nat j :: u32) = j" if "j < 512 * unat (byte0 (eax s))" for j and s :: cpu
  proof -
    have "unat (byte0 (eax s)) < 256" using unsigned_less [where 'a = nat, of "byte0 (eax s)"] by simp
    then show ?thesis using that by (intro unat_of_nat_word) simp
  qed
  then show ?thesis
    by (auto simp: firmware_ok_def sample_firmware_def segments_def transfer_def region_def carry_def)
qed

definition sample_code :: boot_code where
  "sample_code = \<lparr>start_addr = 0x7C00, after_clear = 0x7C12, after_read = 0x7C15\<rparr>"

theorem boot_reaches_loader_witness:
  "\<exists>s'. boot_start sample_code (sample_firmware 0) sample_cpu = Some s' \<and> eip s' = 0x8000
     \<and> cmem s' 0x8003 = 3"
proof -
  obtain s' where s': "boot_start sample_code (sample_firmware 0) sample_cpu = Some s'" "eip s' = LOADER_ENTRY"
    "\<forall>j<64 * 512. cmem s' (LOADER_ENTRY + of_nat j) = of_nat (512 + j)"
    using boot_reaches_loader [OF sample_firmware_ok [of 0], of sample_code sample_cpu]
    by (auto simp: sample_code_def sample_firmware_def carry_def)
  from s'(3) [rule_format, of 3] have "cmem s' 0x8003 = 3" by (simp add: LOADER_ENTRY_def)
  then show ?thesis using s'(1,2) by (auto simp: LOADER_ENTRY_def)
qed

theorem boot_retry_derails_witness:
  "\<exists>s'. boot_start sample_code (sample_firmware 2) sample_cpu = Some s' \<and> eip s' = 0x80"
  using boot_retry_derails [OF sample_firmware_ok [of 2], of 2 sample_code sample_cpu]
  by (auto simp: sample_code_def sample_firmware_def carry_def lo16_def sample_cpu_def)

end
