(* ===== verification/Handover.thy ===== *)
theory Handover
  imports Boot Loader
begin

text \<open>
  The loader from its first instruction to the call of the kernel: \<open>source/loader/start.S\<close> around
  the C code of \<open>Loader\<close>, and what the kernel's entry in \<open>kernel/init/start.S\<close> then finds.
\<close>

section \<open>The two stages\<close>

text \<open>
  Addresses the linker gives: the memory map, the descriptor table and the two entry points; and
  what the variable \<open>countID\<close>, which is never initialised, happens to be.
\<close>

record loader_code =
  l_mem :: u32
  l_gdt :: u32
  l_protected :: u32
  l_loader32 :: u32
  l_start :: u32

text \<open>The far jump into protected mode sets the code segment.\<close>

definition loader16_start :: "loader_code \<Rightarrow> bios \<Rightarrow> cpu \<Rightarrow> cpu" where
  "loader16_start c bios s =
    s\<lparr>core := loader16c_entry bios (l_mem c) (l_start c) (l_gdt c) (l_protected c) (core s), cs := 8,
      eip := l_protected c\<rparr>"

definition protected_mode_entry :: "loader_code \<Rightarrow> cpu \<Rightarrow> cpu" where
  "protected_mode_entry c s =
    (let s = s\<lparr>eax := set_lo16 16 (eax s)\<rparr>; ax = lo16 (eax s);
         s = s\<lparr>ds := ax\<rparr>; s = s\<lparr>ss := ax\<rparr>; s = s\<lparr>es := ax\<rparr>; s = s\<lparr>fs := ax\<rparr>; s = s\<lparr>gs := ax\<rparr>
     in s\<lparr>cs := 8, eip := l_loader32 c\<rparr>)"

text \<open>The kernel is called as a C function with one argument, the address of the memory map.\<close>

definition call_kernel :: "loader_code \<Rightarrow> u32 \<Rightarrow> cpu \<Rightarrow> cpu" where
  "call_kernel c kernel_entry s =
    (let s = push (l_mem c) s; s = push (eip s) s in s\<lparr>eip := kernel_entry\<rparr>)"

definition loader_start :: "loader_code \<Rightarrow> bios \<Rightarrow> cpu \<Rightarrow> cpu option" where
  "loader_start c bios s =
    (let s = protected_mode_entry c (loader16_start c bios s)
     in map_option (\<lambda>(k, kernel_entry). call_kernel c kernel_entry (s\<lparr>core := k\<rparr>)) (loader32c_entry (core s)))"

section \<open>The hand-over\<close>

lemma gdt16_init_other:
  "gdtr (gdt16_init gdt s) = (gdt, 2047)" "cr0 (gdt16_init gdt s) = cr0 s" "eflags (gdt16_init gdt s) = eflags s"
  "device (gdt16_init gdt s) = device s"
  by (simp_all add: gdt16_init_eq GDT_SIZE_def)

lemma enter_portected_state:
  fixes gdt entry s
  defines "t \<equiv> enter_portected gdt entry s"
  shows "gdt_table gdt (ram t) = [null_entry, flat_entry KERNEL_CODE_ATTR, flat_entry KERNEL_DATA_ATTR] @ replicate 253 null_entry"
    "same_outside (region gdt 2048) (ram s) (ram t)" "gdtr t = (gdt, 2047)" "bit (cr0 t) 0" "get_irq_status t = INTR_OFF"
    "device t = device s"
proof -
  obtain a u where u: "t = far_jmp 8 entry (wcr0 (rcr0 (gdt16_init gdt u) OR 1) (gdt16_init gdt u))" "ram u = ram s"
    "eflags u = eflags s AND NOT EFLAGS_IF" "device u = device s"
    by (simp add: t_def enter_portected_def Let_def inb_def outb_def emit_def cli_def)
  have r: "ram t = ram (gdt16_init gdt u)" by (simp add: u(1))
  have no_if: "EFLAGS_IF AND (eflags s AND NOT EFLAGS_IF) = 0" by (rule bit_word_eqI) (auto simp: bit_simps)
  show "gdt_table gdt (ram t) = [null_entry, flat_entry KERNEL_CODE_ATTR, flat_entry KERNEL_DATA_ATTR] @ replicate 253 null_entry"
    unfolding r by (rule gdt16_init_table)
  show "same_outside (region gdt 2048) (ram s) (ram t)"
    unfolding r same_outside_def region_def using gdt16_init_frame [of _ gdt u] u(2) by simp
  show "gdtr t = (gdt, 2047)" "bit (cr0 t) 0" "get_irq_status t = INTR_OFF" "device t = device s"
    using no_if by (simp_all add: u far_jmp_def wcr0_def emit_def gdt16_init_other bit_simps get_irq_status_def)
qed

text \<open>The memory in which the parts of the loader must not meet.\<close>

definition kernel_file :: "u32 set" where "kernel_file = region KERNEL_ENTRY 256000"

definition loader_layout :: "loader_code \<Rightarrow> bool" where
  "loader_layout c \<longleftrightarrow> aligned4 (l_mem c) \<and> region (l_mem c) 164 \<inter> region (l_gdt c) 2048 = {}
     \<and> region (l_mem c) 164 \<inter> kernel_file = {} \<and> region (l_gdt c) 2048 \<inter> kernel_file = {}"

text \<open>
  The state in which the loader asks the disk for the kernel, and what it must find there: a
  well-formed image of \<open>n\<close> program headers whose segments keep off the loader's tables and
  its stack.
\<close>

definition before_disk :: "loader_code \<Rightarrow> bios \<Rightarrow> cpu \<Rightarrow> machine" where
  "before_disk c bios s = core (protected_mode_entry c (loader16_start c bios s))"

definition good_kernel :: "loader_code \<Rightarrow> u32 \<Rightarrow> nat \<Rightarrow> mem \<Rightarrow> bool" where
  "good_kernel c sp n m \<longleftrightarrow> magic_ok m KERNEL_ENTRY \<and> elf_image m KERNEL_ENTRY n
     \<and> (\<forall>i<n. seg_dest m KERNEL_ENTRY i \<inter> (region (l_mem c) 164 \<union> region (l_gdt c) 2048 \<union> region (sp - 8) 8) = {})"

lemma loader32c_places:
  assumes disk: "disk_answers k" and layout: "loader_layout c"
    and image: "\<And>k'. load2mem 100 500 KERNEL_ENTRY k = Some k' \<Longrightarrow> good_kernel c sp n (ram k')"
  shows "\<exists>k1 k2. load2mem 100 500 KERNEL_ENTRY k = Some k1
    \<and> loader32c_entry k = Some (k2, e_entry (ram k1) KERNEL_ENTRY) \<and> registers k2 = registers k
    \<and> (\<forall>i<n. seg_placed (ram k1) (ram k2) KERNEL_ENTRY i)
    \<and> same_outside (kernel_file \<union> (\<Union>i<n. seg_dest (ram k1) KERNEL_ENTRY i)) (ram k) (ram k2)"
proof -
  obtain k1 where k1: "load2mem 100 500 KERNEL_ENTRY k = Some k1" "same_outside kernel_file (ram k) (ram k1)"
    using load2mem_spec [OF disk, of 100 500 KERNEL_ENTRY] by (auto simp: kernel_file_def)
  have g: "magic_ok (ram k1) KERNEL_ENTRY" "elf_image (ram k1) KERNEL_ENTRY n"
    using image [OF k1(1)] by (simp_all add: good_kernel_def)
  obtain m where m: "read_elf (ram k1) KERNEL_ENTRY = (m, e_entry (ram k1) KERNEL_ENTRY)"
    "\<forall>i<n. seg_placed (ram k1) m KERNEL_ENTRY i" "same_outside (\<Union>i<n. seg_dest (ram k1) KERNEL_ENTRY i) (ram k1) m"
    using read_elf_spec [OF g] by blast
  have "same_outside (kernel_file \<union> (\<Union>i<n. seg_dest (ram k1) KERNEL_ENTRY i)) (ram k) m"
    by (rule same_outside_trans [OF k1(2) m(3)]) auto
  then show ?thesis
    using k1(1) m load2mem_registers [OF k1(1)]
    by (intro exI [of _ k1] exI [of _ "k1\<lparr>ram := m\<rparr>"]) (simp add: loader32c_entry_def)
qed

lemma seg_placed_cong:
  assumes "seg_placed m0 m f i" "\<And>x. x \<in> seg_dest m0 f i \<Longrightarrow> m' x = m x"
  shows "seg_placed m0 m' f i"
  using assms by (auto simp: seg_placed_def seg_dest_def Let_def region_def)

lemma infos_cong:
  assumes "\<And>x. x \<in> region mi 164 \<Longrightarrow> m' x = m x" "length (infos m mi) \<le> 20"
  shows "infos m' mi = infos m mi"
proof -
  have w: "ld32 m' (mi + of_nat k) = ld32 m (mi + of_nat k)" if "k + 4 \<le> 164" for k
    by (rule ld32_cong) (use word_in_region [OF that, of _ mi] assms(1) in blast)
  have c: "info_count m' mi = info_count m mi" using w [of 160] by (simp add: info_count_def)
  have "ld32 m' (mi + of_nat (8 * j)) = ld32 m (mi + of_nat (8 * j)) \<and> info_offset m' mi j = info_offset m mi j"
    if "j < nat (sint (info_count m mi))" for j
    using w [of "8 * j"] w [of "8 * j + 4"] that assms(2) by (simp add: infos_def info_offset_def add.assoc)
  then show ?thesis unfolding infos_def c by (intro map_cong) auto
qed

lemma call_kernel_state:
  fixes c entry s
  defines "s' \<equiv> call_kernel c entry s"
  assumes "aligned4 (esp s)"
  shows "stack_top s' [eip s, l_mem c]" "esp s' = esp s - 8" "eip s' = entry" "cs s' = cs s" "segments s' = segments s"
    "registers (core s') = registers (core s)" "same_outside (region (esp s - 8) 8) (cmem s) (cmem s')"
proof -
  show "esp s' = esp s - 8" "eip s' = entry" "cs s' = cs s" "segments s' = segments s"
    by (simp_all add: s'_def call_kernel_def Let_def segments_def)
  show "registers (core s') = registers (core s)" by (simp add: s'_def call_kernel_def Let_def push_def registers_def)
  have "stack_top (push (l_mem c) s) [l_mem c]" by (rule stack_push) (use assms(2) in \<open>simp_all add: stack_top_def\<close>)
  then have "stack_top (push (eip s) (push (l_mem c) s)) [eip s, l_mem c]"
    by (intro stack_push) (simp_all add: aligned4_minus4 assms(2))
  then show "stack_top s' [eip s, l_mem c]" by (simp add: s'_def call_kernel_def Let_def)
  have "word_bytes (esp s - 8) \<subseteq> region (esp s - 8) 8" "word_bytes (esp s - 4) \<subseteq> region (esp s - 8) 8"
    using word_in_region [of 0 8 _ "esp s - 8"] word_in_region [of 4 8 _ "esp s - 8"] by auto
  then have "x \<notin> word_bytes (esp s - 8) \<and> x \<notin> word_bytes (esp s - 4)" if "x \<notin> region (esp s - 8) 8" for x using that by blast
  then show "same_outside (region (esp s - 8) 8) (cmem s) (cmem s')"
    unfolding same_outside_def s'_def call_kernel_def Let_def by (simp add: st32_other_byte)
qed

text \<open>
  C2: the loader hands the machine over to the kernel.  With a disk that keeps becoming ready
  and a well-formed kernel on it, the kernel is entered at the entry point of its header, in
  protected mode with flat segments and interrupts off; its segments are in place, and the
  memory map is byte for byte what the detection recorded before.  The kernel's own entry then
  finds the address of that map and calls \<open>kernel_init\<close> with it.
\<close>

theorem loader_hands_over:
  assumes layout: "loader_layout c" and count: "info_count (cmem s) (l_mem c) = 0"
    and disk: "disk_answers (core s)"
    and image: "\<And>k. load2mem 100 500 KERNEL_ENTRY (before_disk c bios s) = Some k \<Longrightarrow> good_kernel c (esp s) n (ram k)"
    and stack: "aligned4 (esp s)" "region (esp s - 8) 8 \<inter> (region (l_mem c) 164 \<union> region (l_gdt c) 2048) = {}"
  shows "\<exists>k s'. load2mem 100 500 KERNEL_ENTRY (before_disk c bios s) = Some k \<and> loader_start c bios s = Some s'
    \<and> eip s' = e_entry (ram k) KERNEL_ENTRY \<and> cs s' = 8 \<and> segments s' = replicate 5 16
    \<and> bit (cr0 (core s')) 0 \<and> get_irq_status (core s') = INTR_OFF \<and> gdtr (core s') = (l_gdt c, 2047)
    \<and> gdt_table (l_gdt c) (cmem s') = [null_entry, flat_entry KERNEL_CODE_ATTR, flat_entry KERNEL_DATA_ATTR] @ replicate 253 null_entry
    \<and> (\<forall>i<n. seg_placed (ram k) (cmem s') KERNEL_ENTRY i)
    \<and> (\<forall>x\<in>region (l_mem c) 164. cmem s' x = detect_memory bios (l_mem c) (l_start c) (cmem s) x)
    \<and> (\<exists>t. stack_top t [l_mem c] \<and> kernel_start kernel_init stack main s' = map_option (\<lambda>s. s\<lparr>cs := KERNEL_SELECTOR_CS,
        eax := (eax s AND NOT 0xFFFF) OR ucast KERNEL_SELECTOR_DS, ds := KERNEL_SELECTOR_DS,
        ss := KERNEL_SELECTOR_DS, es := KERNEL_SELECTOR_DS, fs := KERNEL_SELECTOR_DS,
        gs := KERNEL_SELECTOR_DS, esp := stack + KERNEL_STACK_SIZE, eip := main\<rparr>) (call kernel_init t))"
proof -
  let ?s1 = "protected_mode_entry c (loader16_start c bios s)" and ?k = "before_disk c bios s" and ?mi = "l_mem c" and ?gdt = "l_gdt c"
  let ?d = "(core s)\<lparr>ram := detect_memory bios ?mi (l_start c) (cmem s)\<rparr>"
  have k: "?k = enter_portected ?gdt (l_protected c) ?d"
    by (simp add: before_disk_def protected_mode_entry_def loader16_start_def loader16c_entry_def Let_def)
  note ent = enter_portected_state [where gdt = ?gdt and entry = "l_protected c" and s = ?d, folded k]
  have s1: "core ?s1 = ?k" "esp ?s1 = esp s" "cs ?s1 = 8" "segments ?s1 = replicate 5 16"
    by (simp_all add: before_disk_def protected_mode_entry_def loader16_start_def Let_def segments_def numeral_eq_Suc)
  have "disk_answers ?k" using disk ent(6) by (simp add: disk_answers_def)
  note places = loader32c_places [OF this layout image]
  obtain k1 k2 where k1: "load2mem 100 500 KERNEL_ENTRY ?k = Some k1"
    and k2: "loader32c_entry ?k = Some (k2, e_entry (ram k1) KERNEL_ENTRY)" "registers k2 = registers ?k"
      "\<forall>i<n. seg_placed (ram k1) (ram k2) KERNEL_ENTRY i"
      "same_outside (kernel_file \<union> (\<Union>i<n. seg_dest (ram k1) KERNEL_ENTRY i)) (ram ?k) (ram k2)"
    using places by blast
  let ?s2 = "?s1\<lparr>core := k2\<rparr>"
  define s' where "s' = call_kernel c (e_entry (ram k1) KERNEL_ENTRY) ?s2"
  have "aligned4 (esp ?s2)" using stack(1) s1(2) by simp
  note ck = call_kernel_state [OF this, of c "e_entry (ram k1) KERNEL_ENTRY", folded s'_def]
  have dest: "seg_dest (ram k1) KERNEL_ENTRY i \<inter> (region ?mi 164 \<union> region ?gdt 2048 \<union> region (esp s - 8) 8) = {}" if "i < n" for i
    using image [OF k1] that by (simp add: good_kernel_def)
  have tables: "cmem s' x = ram ?k x" if "x \<in> region ?mi 164 \<union> region ?gdt 2048" for x
  proof -
    have "x \<notin> kernel_file" "x \<notin> region (esp s - 8) 8" using that layout stack(2) unfolding loader_layout_def by blast+
    moreover have "x \<notin> (\<Union>i<n. seg_dest (ram k1) KERNEL_ENTRY i)" using that dest by blast
    ultimately show ?thesis using k2(4) ck(7) s1(2) by (simp add: same_outside_def)
  qed
  have seg: "seg_placed (ram k1) (cmem s') KERNEL_ENTRY i" if i: "i < n" for i
  proof (rule seg_placed_cong [OF k2(3) [rule_format, OF i]])
    fix x assume "x \<in> seg_dest (ram k1) KERNEL_ENTRY i"
    then have "x \<notin> region (esp s - 8) 8" using dest [OF i] by blast
    then show "cmem s' x = ram k2 x" using ck(7) s1(2) by (simp add: same_outside_def)
  qed
  have map_kept: "cmem s' x = detect_memory bios ?mi (l_start c) (cmem s) x" if "x \<in> region ?mi 164" for x
  proof -
    have "x \<notin> region ?gdt 2048" using that layout unfolding loader_layout_def by blast
    then show ?thesis using tables [of x] that ent(2) by (simp add: same_outside_def)
  qed
  have "gdt_table ?gdt (cmem s') = gdt_table ?gdt (ram ?k)" by (rule gdt_table_cong) (simp add: tables)
  note gdt = this [unfolded ent(1)]
  have "registers (core s') = registers ?k" using ck(6) k2(2) by simp
  then have regs: "bit (cr0 (core s')) 0" "get_irq_status (core s') = INTR_OFF" "gdtr (core s') = (?gdt, 2047)"
    using ent(3-5) by (simp_all add: registers_def get_irq_status_def)
  have "aligned4 (esp s')" unfolding ck(2) using aligned4_minus4 [OF aligned4_minus4 [OF stack(1)]] s1(2) by (simp add: add.assoc)
  note kernel = kernel_start_state [OF this ck(1), of kernel_init stack main]
  have "loader_start c bios s = Some s'" using k2(1) s1(1) by (simp add: loader_start_def Let_def s'_def)
  moreover have "cs s' = 8" "segments s' = replicate 5 16" using ck(4,5) s1(3,4) by (simp_all add: segments_def)
  ultimately show ?thesis using k1 ck(3) gdt seg map_kept regs kernel by blast
qed

section \<open>A disk with a small kernel on it\<close>

text \<open>What a disk that is always ready delivers: one status read before the words of each sector.\<close>

lemma put_word: "put_bytes m a (words_bytes (w # ws)) = put_bytes (st16 m a w) (a + 2) (words_bytes ws)"
  by (simp add: words_bytes_def st16_def add.commute [of a])

lemma read_words_exact:
  "ram (read_words n a s) = put_bytes (ram s) a (words_bytes (map (\<lambda>i. device s (reads s + i) 0x1F0) [0..<n]))
   \<and> reads (read_words n a s) = reads s + n \<and> device (read_words n a s) = device s"
proof (induction n arbitrary: a s)
  case (Suc n)
  let ?w = "device s (reads s) 0x1F0"
  let ?s = "(snd (inw 0x1F0 s))\<lparr>ram := st16 (ram s) a ?w\<rparr>"
  have r: "read_words (Suc n) a s = read_words n (a + 2) ?s" by (simp add: inw_def Let_def emit_def)
  have "ram ?s = st16 (ram s) a ?w" "reads ?s = Suc (reads s)" "device ?s = device s"
    by (simp_all add: inw_def Let_def emit_def)
  moreover have "map (\<lambda>i. device s (reads s + i) 0x1F0) [0..<Suc n]
      = ?w # map (\<lambda>i. device s (Suc (reads s) + i) 0x1F0) [0..<n]"
    by (simp add: map_upt_Suc del: upt_Suc)
  ultimately show ?case using Suc.IH [of "a + 2" ?s] unfolding r put_word by (simp add: put_word del: upt_Suc)
qed (simp add: words_bytes_def)

definition sector_word :: "nat \<Rightarrow> nat" where
  "sector_word i = 1 + 257 * (i div 256) + i mod 256"

lemma read_sectors_exact:
  assumes "\<forall>j. (ucast (device s j 0x1F7) :: u8) AND 0x88 = 0x8"
  shows "\<exists>s'. read_sectors n a s = Some s'
    \<and> ram s' = put_bytes (ram s) a (words_bytes (map (\<lambda>i. device s (reads s + sector_word i) 0x1F0) [0..<256 * n]))"
  using assms
proof (induction n arbitrary: a s)
  case (Suc n)
  let ?s1 = "snd (inb 0x1F7 s)"
  have s1: "disk_wait s = Some ?s1" "ram ?s1 = ram s" "device ?s1 = device s" "reads ?s1 = Suc (reads s)"
    using Suc.prems by (subst disk_wait.simps) (simp_all add: inb_def Let_def emit_def)
  let ?s2 = "read_words 256 a ?s1"
  have s2: "ram ?s2 = put_bytes (ram s) a (words_bytes (map (\<lambda>i. device s (Suc (reads s) + i) 0x1F0) [0..<256]))"
    "reads ?s2 = reads s + 257" "device ?s2 = device s"
    using read_words_exact [of 256 a ?s1] s1 by simp_all
  obtain s' where s': "read_sectors n (a + 512) ?s2 = Some s'"
    "ram s' = put_bytes (ram ?s2) (a + 512) (words_bytes (map (\<lambda>i. device s (reads s + 257 + sector_word i) 0x1F0) [0..<256 * n]))"
    using Suc.IH [of ?s2 "a + 512"] Suc.prems s2(2,3) by auto
  have "map (\<lambda>i. device s (reads s + sector_word i) 0x1F0) [0..<256 * Suc n]
      = map (\<lambda>i. device s (Suc (reads s) + i) 0x1F0) [0..<256] @ map (\<lambda>i. device s (reads s + 257 + sector_word i) 0x1F0) [0..<256 * n]"
  proof (rule nth_equalityI)
    fix i assume "i < length (map (\<lambda>i. device s (reads s + sector_word i) 0x1F0) [0..<256 * Suc n])"
    then have i: "i < 256 * Suc n" by (simp del: mult_Suc_right upt_Suc)
    show "map (\<lambda>i. device s (reads s + sector_word i) 0x1F0) [0..<256 * Suc n] ! i
        = (map (\<lambda>i. device s (Suc (reads s) + i) 0x1F0) [0..<256]
            @ map (\<lambda>i. device s (reads s + 257 + sector_word i) 0x1F0) [0..<256 * n]) ! i"
    proof (cases "i < 256")
      case True
      then show ?thesis using i by (simp add: nth_append sector_word_def del: mult_Suc_right upt_Suc)
    next
      case False
      then have "sector_word i = 257 + sector_word (i - 256)"
        using le_div_geq [of 256 i] le_mod_geq [of 256 i] by (simp add: sector_word_def)
      moreover have lt: "i - 256 < 256 * n" using i False by simp
      moreover have "[0..<256 * n] ! (i - 256) = i - 256" using lt by (subst nth_upt) simp_all
      ultimately show ?thesis using i False by (simp add: nth_append add.assoc del: mult_Suc_right upt_Suc)
    qed
  qed (simp del: upt_Suc)
  then show ?case
    using s1(1) s' s2(1) by (intro exI [of _ s']) (simp add: SECTOR_SIZE_def put_bytes_append del: mult_Suc_right upt_Suc)
qed (simp add: words_bytes_def)

text \<open>
  The sample: the small image of \<open>Loader\<close>, behind a disk whose first word is the second the
  loader reads from a port.
\<close>

lemma sample_elf_rest: "0x1058 \<le> unat a \<Longrightarrow> sample_elf a = 0"
  by (auto simp: sample_elf_def)

definition sample_disk :: "nat \<Rightarrow> u16 \<Rightarrow> u16" where
  "sample_disk j port = (if port = 0x1F7 then 8 else ld16 sample_elf (0x1000 + 2 * of_nat (j - 2)))"

lemma sector_word_eq: "sector_word i = 1 + (i + i div 256)"
proof -
  have "i = 256 * (i div 256) + i mod 256" by simp
  then show ?thesis unfolding sector_word_def by linarith
qed

lemma sample_disk_word:
  assumes "i < 128000"
  shows "sample_disk (1 + sector_word i) 0x1F0 = ld16 sample_elf (0x1000 + 2 * of_nat i)"
proof (cases "i < 256")
  case True
  then show ?thesis by (simp add: sample_disk_def sector_word_eq)
next
  case False
  have zero: "ld16 sample_elf (0x1000 + 2 * of_nat k) = 0" if "256 \<le> k" "k < 200000" for k
  proof -
    have "0x1000 + 2 * of_nat k = (of_nat (0x1000 + 2 * k) :: u32)" "0x1000 + 2 * of_nat k + 1 = (of_nat (0x1001 + 2 * k) :: u32)" by simp_all
    moreover have "unat (of_nat (0x1000 + 2 * k) :: u32) = 0x1000 + 2 * k" "unat (of_nat (0x1001 + 2 * k) :: u32) = 0x1001 + 2 * k"
      using that(2) by (intro unat_of_nat_word; simp)+
    ultimately have "sample_elf (0x1000 + 2 * of_nat k) = 0" "sample_elf (0x1000 + 2 * of_nat k + 1) = 0"
      using that(1) sample_elf_rest by simp_all
    then show ?thesis by (simp only: ld16_def) simp
  qed
  have "sample_disk (1 + sector_word i) 0x1F0 = ld16 sample_elf (0x1000 + 2 * of_nat (i + i div 256))"
    by (simp add: sample_disk_def sector_word_eq)
  moreover have "i div 256 < 500" using assms by (simp add: div_less_iff_less_mult)
  ultimately show ?thesis using zero [of i] zero [of "i + i div 256"] assms False by simp
qed

lemma bytes_of_word: "words_bytes [ld16 m x] = [m x, m (x + 1)]"
proof -
  have "ucast (ld16 m x) = m x" "ucast (drop_bit 8 (ld16 m x)) = m (x + 1)"
    unfolding ld16_def by (rule bit_word_eqI, auto simp: bit_simps dest: bit_imp_le_length)+
  then show ?thesis by (simp add: words_bytes_def)
qed

lemma bytes_of_words:
  "words_bytes (map (\<lambda>i. ld16 m (a + 2 * of_nat i)) [0..<n]) = map (\<lambda>j. m (a + of_nat j)) [0..<2 * n]"
proof (induction n)
  case (Suc n)
  have "[0..<2 * Suc n] = [0..<2 * n] @ [2 * n, Suc (2 * n)]" by simp
  then show ?case using Suc.IH bytes_of_word [of m "a + 2 * of_nat n"] by (simp add: algebra_simps del: mult_Suc_right)
qed (simp add: words_bytes_def)

text \<open>A file found at two addresses has the same fields at both.\<close>

lemma ld_shift:
  assumes "\<And>j. j < N \<Longrightarrow> m (f + of_nat j) = m' (f' + of_nat j)"
  shows "k + 4 \<le> N \<Longrightarrow> ld32 m (f + of_nat k) = ld32 m' (f' + of_nat k)"
    "k + 2 \<le> N \<Longrightarrow> ld16 m (f + of_nat k) = ld16 m' (f' + of_nat k)"
  using assms [of k] assms [of "k + 1"] assms [of "k + 2"] assms [of "k + 3"] by (simp_all add: ld32_def ld16_def add_ac)

lemma sample_kernel:
  assumes "\<And>j. j < 256000 \<Longrightarrow> m (KERNEL_ENTRY + of_nat j) = sample_elf (0x1000 + of_nat j)"
  shows "magic_ok m KERNEL_ENTRY" "elf_image m KERNEL_ENTRY 1" "seg_dest m KERNEL_ENTRY 0 = region 0x2000 8"
    "e_entry m KERNEL_ENTRY = 0x2000" "seg_placed m m' KERNEL_ENTRY 0 \<Longrightarrow> m' 0x2001 = 8"
proof -
  note K = KERNEL_ENTRY_def
  have w: "ld32 m (KERNEL_ENTRY + of_nat k) = ld32 sample_elf (0x1000 + of_nat k)" if "k + 4 \<le> 256000" for k
    by (rule ld_shift(1) [where N = 256000 and m' = sample_elf and f' = "0x1000"]) (use assms that in simp_all)
  have h: "ld16 m (KERNEL_ENTRY + of_nat 44) = ld16 sample_elf (0x1000 + of_nat 44)"
    by (rule ld_shift(2) [where N = 256000]) (use assms in simp_all)
  show "magic_ok m KERNEL_ENTRY" 
    using assms [of 0] assms [of 1] assms [of 2] assms [of 3] by (simp add: magic_ok_def K sample_elf_def)
  note s = sample_elf_fields [unfolded elf_fields, simplified]
  have e: "e_phoff m KERNEL_ENTRY = 52" "e_phnum m KERNEL_ENTRY = 1" and entry: "e_entry m KERNEL_ENTRY = 0x2000"
  proof -
    have "ld32 sample_elf 0x101C = 52" by (simp add: sample_elf_def ld32_def)
    then show "e_phoff m KERNEL_ENTRY = 52" using w [of 28] by (simp add: e_phoff_def K)
    show "e_phnum m KERNEL_ENTRY = 1" "e_entry m KERNEL_ENTRY = 0x2000"
      using h w [of 24] s by (simp_all add: e_phnum_def e_entry_def K)
  qed
  have p: "elf_phdr m KERNEL_ENTRY 0 = 0x100034" using e by (simp add: elf_phdr_def K)
  have f: "p_type m 0x100034 = PT_LOAD" "p_offset m 0x100034 = 84" "p_paddr m 0x100034 = 0x2000"
    "p_filesz m 0x100034 = 4" "p_memsz m 0x100034 = 8"
    using w [of 52] w [of 56] w [of 64] w [of 68] w [of 72] s by (simp_all add: elf_fields K)
  show "seg_dest m KERNEL_ENTRY 0 = region 0x2000 8" "e_entry m KERNEL_ENTRY = 0x2000"
    by (simp_all add: seg_dest_def p f entry)
  show "m' 0x2001 = 8" if "seg_placed m m' KERNEL_ENTRY 0"
  proof -
    have "\<forall>j<8. m' (0x2000 + of_nat j) = (if j < 4 then m (KERNEL_ENTRY + 84 + of_nat j) else 0)"
      using that by (simp add: seg_placed_def p f Let_def)
    from this [rule_format, of 1] show ?thesis using assms [of 85] by (simp add: K sample_elf_def)
  qed
  have "region 0x100000 52 \<inter> region 0x2000 8 = {}" "region 0x100034 32 \<inter> region 0x2000 8 = {}"
    "region 0x100054 4 \<inter> region 0x2000 8 = {}"
    by (simp_all add: region_before(2))
  then show "elf_image m KERNEL_ENTRY 1" using p e by (simp add: elf_image_def seg_dest_def seg_src_def f K)
qed

definition sample_loader :: loader_code where
  "sample_loader = \<lparr>l_mem = 0x9000, l_gdt = 0xA000, l_protected = 0x8100, l_loader32 = 0x8200, l_start = 0\<rparr>"

definition sample_real :: cpu where
  "sample_real = sample_cpu\<lparr>esp := 0x7C00, core := sample_machine\<lparr>ram := \<lambda>_. 0, device := sample_disk\<rparr>\<rparr>"

lemma sample_disk_reads:
  assumes "load2mem 100 500 KERNEL_ENTRY k = Some k'" "device k = sample_disk" "reads k = 1" "j < 256000"
  shows "ram k' (KERNEL_ENTRY + of_nat j) = sample_elf (0x1000 + of_nat j)"
proof -
  let ?c = "disk_command 100 500 k"
  have c: "device ?c = sample_disk" "reads ?c = 1" using assms(2,3) by (simp_all add: disk_command_def Let_def outb_def emit_def)
  have ready: "\<forall>j. (ucast (device ?c j 0x1F7) :: u8) AND 0x88 = 0x8" by (simp add: c sample_disk_def)
  have words: "map (\<lambda>i. device ?c (reads ?c + sector_word i) 0x1F0) [0..<128000] = map (\<lambda>i. ld16 sample_elf (0x1000 + 2 * of_nat i)) [0..<128000]"
    by (rule map_cong [OF refl]) (simp add: c sample_disk_word [simplified] del: upt_Suc)
  have "ram k' = put_bytes (ram ?c) KERNEL_ENTRY (words_bytes (map (\<lambda>i. device ?c (reads ?c + sector_word i) 0x1F0) [0..<128000]))"
    using read_sectors_exact [OF ready, of 500 KERNEL_ENTRY] assms(1) by (auto simp: load2mem_def simp del: upt_Suc)
  then have "ram k' = put_bytes (ram ?c) KERNEL_ENTRY (map (\<lambda>j. sample_elf (0x1000 + of_nat j)) [0..<256000])"
    unfolding words bytes_of_words by simp
  then have "bytes_at (ram k') KERNEL_ENTRY (map (\<lambda>j. sample_elf (0x1000 + of_nat j)) [0..<256000])"
    by (simp add: bytes_at_put del: upt_Suc)
  then show ?thesis using assms(4) by (simp add: bytes_at_nth del: upt_Suc)
qed

theorem loader_hands_over_witness:
  "\<exists>s'. loader_start sample_loader (sample_bios 24) sample_real = Some s' \<and> eip s' = 0x2000 \<and> cs s' = 8
     \<and> cmem s' 0x2001 = 8 \<and> infos (cmem s') 0x9000 = [(0x100000, 0x700000)]"
proof -
  let ?c = sample_loader and ?b = "sample_bios 24" and ?s = sample_real
  have fields: "l_mem ?c = 0x9000" "l_gdt ?c = 0xA000" "l_start ?c = 0" "esp ?s = 0x7C00" "cmem ?s = (\<lambda>_. 0)"
    by (simp_all add: sample_loader_def sample_real_def)
  have layout: "loader_layout ?c"
    by (simp add: loader_layout_def fields kernel_file_def KERNEL_ENTRY_def aligned4_numeral region_before(1))
  have k: "device (before_disk ?c ?b ?s) = sample_disk" "reads (before_disk ?c ?b ?s) = 1"
    by (simp_all add: before_disk_def protected_mode_entry_def loader16_start_def loader16c_entry_def enter_portected_def Let_def
        inb_def outb_def emit_def cli_def gdt16_init_other gdt16_init_eq wcr0_def far_jmp_def sample_real_def sample_machine_def)
  have kernel: "magic_ok (ram k) KERNEL_ENTRY" "elf_image (ram k) KERNEL_ENTRY 1" "seg_dest (ram k) KERNEL_ENTRY 0 = region 0x2000 8"
      "e_entry (ram k) KERNEL_ENTRY = 0x2000"
    if "load2mem 100 500 KERNEL_ENTRY (before_disk ?c ?b ?s) = Some k" for k
    using sample_kernel [of "ram k"] sample_disk_reads [OF that k] by blast+
  have apart: "region 0x2000 8 \<inter> region 0x9000 164 = {}" "region 0x2000 8 \<inter> region 0xA000 2048 = {}"
    "region 0x2000 8 \<inter> region 0x7BF8 8 = {}" "region 0x7BF8 8 \<inter> region 0x9000 164 = {}" "region 0x7BF8 8 \<inter> region 0xA000 2048 = {}"
    by (simp_all add: region_before(1))
  have good: "good_kernel ?c (esp ?s) 1 (ram k)"
    if "load2mem 100 500 KERNEL_ENTRY (before_disk ?c ?b ?s) = Some k" for k
    using kernel [OF that] apart by (simp add: good_kernel_def fields Int_Un_distrib)
  have "disk_answers (core ?s)" by (auto simp: disk_answers_def sample_real_def sample_disk_def)
  from loader_hands_over [OF layout _ this good, where bios = "sample_bios 24" and kernel_init = Some and stack = 0 and main = 0]
  obtain k s' where s': "load2mem 100 500 KERNEL_ENTRY (before_disk ?c ?b ?s) = Some k" "loader_start ?c ?b ?s = Some s'"
    "eip s' = e_entry (ram k) KERNEL_ENTRY" "cs s' = 8" "seg_placed (ram k) (cmem s') KERNEL_ENTRY 0"
    "\<forall>x\<in>region 0x9000 164. cmem s' x = detect_memory ?b 0x9000 0 (\<lambda>_. 0) x"
    using apart sample_no_info unfolding fields
    by (auto simp: info_count_def ld32_def Int_Un_distrib aligned4_numeral)
  have "cmem s' 0x2001 = 8" "eip s' = 0x2000" using sample_kernel(5) [of "ram k" "cmem s'"] sample_disk_reads [OF s'(1) k] s'(3,5) kernel(4) [OF s'(1)] by auto
  moreover obtain m where m: "detect_method1 ?b 0x9000 0 (\<lambda>_. 0) = (m, Some True)" "infos m 0x9000 = usable [sample_entry]"
    using detect_method1_records [OF sample_bios_lists [of 24], of "0x9000" "\<lambda>_. 0"]
    by (auto simp: aligned4_numeral info_count_def ld32_def)
  then have "infos (cmem s') 0x9000 = infos m 0x9000"
    using s'(6) by (intro infos_cong) (auto simp: detect_memory_def infos_def usable_def sample_entry_def)
  ultimately show ?thesis using s'(2,4) m(2) by (simp add: usable_def sample_entry_def)
qed

end
