(* ===== verification/Page_Own.thy ===== *)
theory Page_Own
  imports Kernel_Map
begin

text \<open>
  What belongs to a data structure while pages are taken from the pool for it.  A set of bytes is
  owned when neither the allocator nor the kernel's directory lies in it and no free page meets
  it; a page that is taken is added to the set, and writing in the set leaves the pool as it is.
\<close>

definition free_page :: "addr_alloc_t \<Rightarrow> mem \<Rightarrow> int \<Rightarrow> bool" where
  "free_page am m i \<longleftrightarrow> 0 \<le> i \<and> i < npages am \<and> i \<notin> used am m"

definition owned :: "addr_alloc_t \<Rightarrow> u32 \<Rightarrow> mem \<Rightarrow> u32 set \<Rightarrow> bool" where
  "owned am dir m X \<longleftrightarrow> space_ok am m dir \<and> X \<inter> (pool_bits am \<union> region dir 4096) = {}
     \<and> (\<forall>i. free_page am m i \<longrightarrow> X \<inter> region (page_addr am i) 4096 = {})"

text \<open>\<open>k\<close> pages that both allocators can hand out.\<close>

definition pages_left :: "addr_alloc_t \<Rightarrow> mem \<Rightarrow> nat \<Rightarrow> bool" where
  "pages_left am m k \<longleftrightarrow> k \<le> card ({256..<min 1023 (npages am)} - used am m)"

lemma owned_write:
  assumes o: "owned am dir m X" and w: "same_outside Y m m'" and Y: "Y \<inter> (pool_bits am \<union> region dir 4096) = {}"
  shows "owned am dir m' X" "used am m' = used am m" "d < 1024 \<Longrightarrow> pde m' dir d = pde m dir d"
proof -
  have ok: "space_ok am m dir" and dir: "page_aligned dir" using o by (simp_all add: owned_def space_ok_def)
  show u: "used am m' = used am m" by (rule used_cong) (use w Y in \<open>auto simp: same_outside_def\<close>)
  have p: "pde m' dir d = pde m dir d" if "d < 1024" for d
    unfolding pde_def
  proof (rule table_word_cong [OF dir that])
    fix x assume "page_of x = page_of dir"
    then have "x \<notin> Y" using page_in_region [OF dir] Y by blast
    with w show "m' x = m x" by (simp add: same_outside_def)
  qed
  then show "d < 1024 \<Longrightarrow> pde m' dir d = pde m dir d" .
  have "space_ok am m' dir" using ok p u by (simp add: space_ok_def tables_ok_def)
  then show "owned am dir m' X" using o u by (simp add: owned_def free_page_def)
qed

lemma pages_left_cong: "used am m' = used am m \<Longrightarrow> pages_left am m' k = pages_left am m k"
  by (simp add: pages_left_def)

lemma owned_mono: "owned am dir m X \<Longrightarrow> Y \<subseteq> X \<Longrightarrow> owned am dir m Y"
  unfolding owned_def by blast

text \<open>Pages of the pool do not meet.\<close>

lemma pages_apart: "page_aligned p \<Longrightarrow> page_aligned q \<Longrightarrow> p \<noteq> q \<Longrightarrow> region p 4096 \<inter> region q 4096 = {}"
  using in_region_page page_of_eq by (metis disjoint_iff)

lemma free_page_apart:
  assumes "space_ok am m dir" "free_page am m i"
  shows "page_aligned (page_addr am i)" "page_addr am i \<noteq> 0" "page_addr am i \<notin> used_addrs (am, m)"
    "region (page_addr am i) 4096 \<inter> (pool_bits am \<union> region dir 4096) = {}"
    "0 \<le> j \<Longrightarrow> j < npages am \<Longrightarrow> j \<noteq> i \<Longrightarrow> region (page_addr am i) 4096 \<inter> region (page_addr am j) 4096 = {}"
proof -
  have wf: "wf_alloc am" and dir: "page_aligned dir" "page_addr am i \<noteq> dir" and i: "0 \<le> i" "i < npages am" "i \<notin> used am m"
    using assms by (auto simp: space_ok_def free_page_def)
  show al: "page_aligned (page_addr am i)" by (rule page_addr_aligned [OF wf i(1,2)])
  show "page_addr am i \<noteq> 0" by (rule page_addr_nonzero [OF wf i(1,2)])
  show "page_addr am i \<notin> used_addrs (am, m)"
    using page_addr_inj [OF wf i(1,2)] used_range i(3) by (auto simp: used_addrs_def)
  have "page_of x \<noteq> page_of (page_addr am i)" if "x \<in> pool_bits am" for x
    using bits_not_in_page [OF assms(1) that, of "page_addr am i"] i by blast
  then show "region (page_addr am i) 4096 \<inter> (pool_bits am \<union> region dir 4096) = {}"
    using in_region_page [OF al] pages_apart [OF al dir] by blast
  show "region (page_addr am i) 4096 \<inter> region (page_addr am j) 4096 = {}" if "0 \<le> j" "j < npages am" "j \<noteq> i"
    using pages_apart [OF al page_addr_aligned [OF wf that(1,2)]] page_addr_inj [OF wf i(1,2) that(1,2)] that(3) by metis
qed

text \<open>A page is taken.\<close>

definition takes_page :: "addr_alloc_t \<Rightarrow> u32 \<Rightarrow> u32 set \<Rightarrow> nat \<Rightarrow> mem \<Rightarrow> mem \<Rightarrow> u32 \<Rightarrow> bool" where
  "takes_page am dir X k m m' p \<longleftrightarrow> page_aligned p \<and> p \<noteq> 0 \<and> region p 4096 \<inter> X = {}
     \<and> region p 4096 \<inter> (pool_bits am \<union> region dir 4096) = {}
     \<and> p \<notin> used_addrs (am, m) \<and> used_addrs (am, m') = insert p (used_addrs (am, m))
     \<and> owned am dir m' (X \<union> region p 4096) \<and> pages_left am m' k"

lemma takes_pageI:
  assumes o: "owned am dir m X" and k: "pages_left am m (Suc k)" and i: "free_page am m i"
    and m': "m' = bitmap_set_bit m (bitmap am) (word_of_int i) 1 1"
  shows "takes_page am dir X k m m' (page_addr am i)" "same_outside (pool_bits am) m m'"
    "d < 1024 \<Longrightarrow> pde m' dir d = pde m dir d"
proof -
  have ok: "space_ok am m dir" and wf: "wf_alloc am" using o by (simp_all add: owned_def space_ok_def)
  have r: "0 \<le> i" "i < npages am" "i \<notin> used am m" using i by (simp_all add: free_page_def)
  note fp = free_page_apart [OF ok i] and fr = fresh_page [OF ok r, of m']
  have u: "used am m' = insert i (used am m)" and ok': "space_ok am m' dir" using fr m' by simp_all
  show "same_outside (pool_bits am) m m'" unfolding m' by (rule alloc_bit_frame [OF wf r(1,2)])
  show "d < 1024 \<Longrightarrow> pde m' dir d = pde m dir d" using fr m' by simp
  let ?F = "{256..<min 1023 (npages am)} - used am m"
  have "card ?F - 1 \<le> card (?F - {i})" by (simp add: card_Diff_singleton_if)
  moreover have "{256..<min 1023 (npages am)} - used am m' = ?F - {i}" using u by blast
  ultimately have "pages_left am m' k" using k by (simp add: pages_left_def)
  moreover have "owned am dir m' (X \<union> region (page_addr am i) 4096)"
    unfolding owned_def
  proof (intro conjI allI impI ok')
    show "(X \<union> region (page_addr am i) 4096) \<inter> (pool_bits am \<union> region dir 4096) = {}" using o fp(4) unfolding owned_def by blast
    fix j assume "free_page am m' j"
    then have j: "free_page am m j" "j \<noteq> i" using u by (auto simp: free_page_def)
    then have "X \<inter> region (page_addr am j) 4096 = {}" using o by (simp add: owned_def)
    moreover have "region (page_addr am i) 4096 \<inter> region (page_addr am j) 4096 = {}"
      using fp(5) j by (simp add: free_page_def)
    ultimately show "(X \<union> region (page_addr am i) 4096) \<inter> region (page_addr am j) 4096 = {}" by blast
  qed
  moreover have "region (page_addr am i) 4096 \<inter> X = {}" using o i unfolding owned_def by blast
  moreover have "used_addrs (am, m') = insert (page_addr am i) (used_addrs (am, m))" using u by (simp add: used_addrs_def)
  ultimately show "takes_page am dir X k m m' (page_addr am i)" using fp(1-4) by (simp add: takes_page_def)
qed

lemma pages_left_free:
  assumes "pages_left am m (Suc k)"
  obtains i where "256 \<le> i" "i < 1023" "i < npages am" "i \<notin> used am m"
proof -
  have "{256..<min 1023 (npages am)} - used am m \<noteq> {}"
    using assms unfolding pages_left_def by (metis Suc_le_D card.empty less_eq_Suc_le not_less_zero)
  then show thesis using that by force
qed

lemma kalloc_takes:
  assumes o: "owned am dir m X" and k: "pages_left am m (Suc k)" and run: "kalloc_pages am m 1 = (m', p)"
  shows "takes_page am dir X k m m' p" "same_outside (pool_bits am) m m'" "d < 1024 \<Longrightarrow> pde m' dir d = pde m dir d"
proof -
  have wf: "wf_alloc am" using o by (simp add: owned_def space_ok_def)
  obtain j where j: "256 \<le> j" "j < 1023" "j < npages am" "j \<notin> used am m" by (rule pages_left_free [OF k])
  obtain i where "free_page am m i" "m' = bitmap_set_bit m (bitmap am) (word_of_int i) 1 1" "p = page_addr am i"
    using wf
  proof (cases rule: kalloc_cases [of _ m])
    case (beyond i)
    then have "j \<in> {0..<i}" using j by simp
    then show thesis using beyond(4) j(4) by blast
  next
    case full
    have "j \<in> {0..<npages am}" using j by simp
    then show thesis using full(1) j(4) by blast
  qed (use that run in \<open>simp add: free_page_def\<close>)
  from takes_pageI [OF o k this(1,2)] this(3)
  show "takes_page am dir X k m m' p" "same_outside (pool_bits am) m m'" "d < 1024 \<Longrightarrow> pde m' dir d = pde m dir d" by simp_all
qed

lemma ualloc_takes:
  assumes o: "owned am dir m X" and k: "pages_left am m (Suc k)" and run: "ualloc_pages am m 1 = (m', p)"
  shows "takes_page am dir X k m m' p" "same_outside (pool_bits am) m m'" "d < 1024 \<Longrightarrow> pde m' dir d = pde m dir d"
proof -
  have wf: "wf_alloc am" using o by (simp add: owned_def space_ok_def)
  obtain j where j: "256 \<le> j" "j < 1023" "j < npages am" "j \<notin> used am m" by (rule pages_left_free [OF k])
  obtain i where "free_page am m i" "m' = bitmap_set_bit m (bitmap am) (word_of_int i) 1 1" "p = page_addr am i"
    using wf
  proof (cases rule: ualloc_cases [of _ m])
    case (page i)
    then show thesis using run by (intro that [of i]) (auto simp: free_page_def)
  next
    case full
    have "j \<in> {256..<npages am}" using j by simp
    then show thesis using full(1) j(4) by blast
  qed
  from takes_pageI [OF o k this(1,2)] this(3)
  show "takes_page am dir X k m m' p" "same_outside (pool_bits am) m m'" "d < 1024 \<Longrightarrow> pde m' dir d = pde m dir d" by simp_all
qed

text \<open>A new directory is a page that is taken and then written.\<close>

lemma create_page_table_takes:
  assumes o: "owned am dir m X" and k: "pages_left am m (Suc k)" and run: "create_page_table am m dir = (m', p)"
  shows "takes_page am dir X k m m' p" "same_outside (pool_bits am \<union> region p 4096) m m'"
    "pde m' p 0 = pde m dir 0" "\<forall>d\<in>{1..<1024}. pde m' p d = 0"
proof -
  obtain m1 q where q: "ualloc_pages am m 1 = (m1, q)" by fastforce
  note t = ualloc_takes [OF o k q]
  let ?m2 = "kmemset m1 q 0 MEM_PAGE_SIZE"
  have m': "m' = st32 ?m2 q (ld32 ?m2 dir)" and p: "p = q"
    using run q by (auto simp: create_page_table_def Let_def user_pde_start)
  have sz: "nat (sint MEM_PAGE_SIZE) = 4096" "0 \<le> sint MEM_PAGE_SIZE" by (simp_all add: MEM_PAGE_SIZE_def)
  have tp: "page_aligned p" "p \<noteq> 0" "region p 4096 \<inter> (pool_bits am \<union> region dir 4096) = {}" "pages_left am m1 k"
    "owned am dir m1 (X \<union> region p 4096)"
    using t(1) by (simp_all add: takes_page_def p)
  have w: "word_bytes q \<subseteq> region q 4096" using word_in_region [of 0 4096 _ q] by auto
  have f: "same_outside (region p 4096) m1 m'"
    unfolding same_outside_def
  proof (intro allI impI)
    fix x assume "x \<notin> region p 4096"
    then have "x \<notin> word_bytes q" "x \<notin> region q 4096" using w p by blast+
    then show "m' x = m1 x" unfolding m' by (simp add: st32_other_byte kmemset_eq sz)
  qed
  have u: "used am m' = used am m1" by (rule owned_write(2) [OF tp(5) f tp(3)])
  have "owned am dir m' (X \<union> region p 4096)" by (rule owned_write(1) [OF tp(5) f tp(3)])
  then show "takes_page am dir X k m m' p"
    using t(1) u pages_left_cong [OF u] by (simp add: takes_page_def p used_addrs_def)
  show "same_outside (pool_bits am \<union> region p 4096) m m'"
    by (rule same_outside_trans [OF t(2) f]) auto
  have "space_ok am m dir" using o by (simp add: owned_def)
  note facts = create_page_table_facts [OF this run tp(2)]
  show "pde m' p 0 = pde m dir 0" "\<forall>d\<in>{1..<1024}. pde m' p d = 0" using facts by simp_all
qed

lemma owned_in:
  assumes "owned am dir m X" "same_outside Y m m'" "Y \<subseteq> X"
  shows "owned am dir m' X" "used am m' = used am m" "d < 1024 \<Longrightarrow> pde m' dir d = pde m dir d"
    "used_addrs (am, m') = used_addrs (am, m)" "pages_left am m' k = pages_left am m k"
proof -
  have "Y \<inter> (pool_bits am \<union> region dir 4096) = {}" using assms(1,3) unfolding owned_def by blast
  note w = owned_write [OF assms(1,2) this]
  show "owned am dir m' X" "used am m' = used am m" "d < 1024 \<Longrightarrow> pde m' dir d = pde m dir d" by (fact w)+
  then show "used_addrs (am, m') = used_addrs (am, m)" "pages_left am m' k = pages_left am m k"
    using pages_left_cong [OF w(2)] by (simp_all add: used_addrs_def)
qed

text \<open>Pages that were free and are in use now, and no others.\<close>

definition pages_taken :: "addr_alloc_t \<Rightarrow> mem \<Rightarrow> mem \<Rightarrow> u32 list \<Rightarrow> bool" where
  "pages_taken am m m' ps \<longleftrightarrow> distinct ps \<and> set ps \<inter> used_addrs (am, m) = {}
     \<and> used_addrs (am, m') = set ps \<union> used_addrs (am, m) \<and> (\<forall>p\<in>set ps. page_aligned p)"

text \<open>The pages a fork takes were free, so nothing that is owned lies in them.\<close>

lemma taken_apart:
  assumes "pages_taken am m m' ps" "p \<in> set ps" "owned am dir m X"
  shows "region p 4096 \<inter> X = {}" "region p 4096 \<inter> pool_bits am = {}"
proof -
  have "p \<in> used_addrs (am, m')" "p \<notin> used_addrs (am, m)" using assms(1,2) by (auto simp: pages_taken_def)
  then obtain i where "i \<in> used am m'" "p = page_addr am i" "i \<notin> used am m" by (auto simp: used_addrs_def)
  then have i: "free_page am m i" "p = page_addr am i" using used_range [of i am m'] by (simp_all add: free_page_def)
  then show "region p 4096 \<inter> X = {}" using assms(3) unfolding owned_def by blast
  have "space_ok am m dir" using assms(3) by (simp add: owned_def)
  from free_page_apart(4) [OF this i(1)] i(2) show "region p 4096 \<inter> pool_bits am = {}" by blast
qed

end
