(* ===== verification/Klist_Bytes.thy ===== *)
theory Klist_Bytes
  imports Klist Klib
begin

text \<open>
  The lists by the bytes they lie in: what clients that know only regions of memory need of
  \<open>Klist\<close>.
\<close>

definition list_bytes :: "u32 \<Rightarrow> u32 list \<Rightarrow> u32 set" where
  "list_bytes l ns = region l 20 \<union> (\<Union>n\<in>set ns. region n 8)"

lemma region_words:
  "word_bytes a \<subseteq> region a 8" "word_bytes (a + 4) \<subseteq> region a 8"
  using region_word [of 0 8 a] region_word [of 4 8 a] by simp_all

lemma list_head_words:
  "word_bytes l \<subseteq> region l 20" "word_bytes (l + 4) \<subseteq> region l 20" "word_bytes (l + 8) \<subseteq> region l 20"
  "word_bytes (l + 12) \<subseteq> region l 20" "word_bytes (l + 16) \<subseteq> region l 20"
  using region_word [of 0 20 l] region_word [of 4 20 l] region_word [of 8 20 l] region_word [of 12 20 l] region_word [of 16 20 l]
  by simp_all

lemma list_cells_eq:
  "list_cells l ns = {l, l + 4, l + 8, l + 12, l + 16} \<union> (\<Union>n\<in>set ns. {n, n + 4})"
  by (auto simp: list_cells_def list_nodes_def add.assoc)

lemma list_cells_bytes: "c \<in> list_cells l ns \<Longrightarrow> word_bytes c \<subseteq> list_bytes l ns"
proof -
  assume "c \<in> list_cells l ns"
  then consider "c \<in> {l, l + 4, l + 8, l + 12, l + 16}" | n where "n \<in> set ns" "c = n \<or> c = n + 4"
    unfolding list_cells_eq by blast
  then show ?thesis
  proof cases
    case 1
    then have "word_bytes c \<subseteq> region l 20" using list_head_words [of l] by (elim insertE emptyE) simp_all
    then show ?thesis by (auto simp: list_bytes_def)
  next
    case (2 n)
    then have "word_bytes c \<subseteq> region n 8" using region_words by blast
    then show ?thesis using 2(1) by (auto simp: list_bytes_def)
  qed
qed

lemma dlist_bytes:
  assumes "dlist m l ns" "same_outside R m m'" "R \<inter> list_bytes l ns = {}"
  shows "dlist m' l ns"
proof (rule dlist_cong [OF assms(1)], rule ld32_cong)
  fix c x assume "c \<in> list_cells l ns" "x \<in> word_bytes c"
  then have "x \<notin> R" using list_cells_bytes assms(3) by blast
  then show "m' x = m x" using assms(2) by (simp add: same_outside_def)
qed

lemma word_start: "a \<in> word_bytes a"
  by (simp add: word_bytes_def)

lemma fresh_bytes:
  assumes d: "dlist m l ns" and n: "aligned4 n" "n \<noteq> 0" "region n 8 \<inter> list_bytes l ns = {}"
  shows "fresh_node l ns n"
proof -
  have mine: "n \<in> region n 8" "n + 4 \<in> region n 8"
    using region_words [of n] word_start [of n] word_start [of "n + 4"] by auto
  have cells: "c \<in> list_bytes l ns" if "c \<in> list_cells l ns" for c
    using list_cells_bytes [OF that] word_start by blast
  have ne: "n \<noteq> c \<and> n + 4 \<noteq> c" if "c \<in> list_cells l ns" for c
    using cells [OF that] mine n(3) by blast
  have nodes: "n \<noteq> b" "n + 4 \<noteq> b" "n \<noteq> b + 4" if "b \<in> set (list_nodes l ns)" for b
    using ne [of b] ne [of "b + 4"] list_cells_member(2,3) [OF that] by auto
  have len: "n \<noteq> l + 16" "n + 4 \<noteq> l + 16" using ne [OF list_cells_member(1)] by auto
  let ?S = "set (list_nodes l ns)"
  have S: "l \<in> ?S" "l + 8 \<in> ?S" and old: "\<forall>a\<in>?S. aligned4 a \<and> a \<noteq> 0 \<and> a \<noteq> l + 16 \<and> a + 4 \<noteq> l + 16 \<and> (\<forall>b\<in>?S. a + 4 \<noteq> b)"
    using dlist_mem(1) [OF d] unfolding sep_nodes_def by blast+
  have new: "\<forall>b\<in>insert n ?S. n + 4 \<noteq> b" using nodes(2) by simp
  have "\<forall>a\<in>insert n ?S. aligned4 a \<and> a \<noteq> 0 \<and> a \<noteq> l + 16 \<and> a + 4 \<noteq> l + 16 \<and> (\<forall>b\<in>insert n ?S. a + 4 \<noteq> b)"
  proof (rule ballI, erule insertE)
    fix a assume a: "a = n"
    show "aligned4 a \<and> a \<noteq> 0 \<and> a \<noteq> l + 16 \<and> a + 4 \<noteq> l + 16 \<and> (\<forall>b\<in>insert n ?S. a + 4 \<noteq> b)"
      unfolding a using n(1,2) len new by blast
  next
    fix a assume a: "a \<in> ?S"
    have "\<forall>b\<in>insert n ?S. a + 4 \<noteq> b" using a old nodes(3) [OF a] by blast
    then show "aligned4 a \<and> a \<noteq> 0 \<and> a \<noteq> l + 16 \<and> a + 4 \<noteq> l + 16 \<and> (\<forall>b\<in>insert n ?S. a + 4 \<noteq> b)"
      using a old by blast
  qed
  then have "sep_nodes l (insert n ?S)" unfolding sep_nodes_def using S by blast
  then show ?thesis using nodes(1) by (auto simp: fresh_node_def)
qed

lemma unchanged_bytes: "unchanged_outside C m m' \<Longrightarrow> (\<And>c. c \<in> C \<Longrightarrow> word_bytes c \<subseteq> R) \<Longrightarrow> same_outside R m m'"
  unfolding unchanged_outside_def same_outside_def by blast

lemma append_bytes:
  assumes d: "dlist m l ns" and n: "aligned4 n" "n \<noteq> 0" "region n 8 \<inter> list_bytes l ns = {}"
  shows "dlist (klist_append m l n) l (ns @ [n])"
    "same_outside (list_bytes l (ns @ [n])) m (klist_append m l n)"
proof -
  have f: "fresh_node l ns n" by (rule fresh_bytes [OF assms])
  show "dlist (klist_append m l n) l (ns @ [n])" by (rule klist_append_dlist [OF d f])
  show "same_outside (list_bytes l (ns @ [n])) m (klist_append m l n)"
    by (rule unchanged_bytes [OF klist_append_frame [OF d f] list_cells_bytes])
qed

lemma list_bytes_snoc: "list_bytes l (ns @ [n]) = list_bytes l ns \<union> region n 8"
  by (auto simp: list_bytes_def)

end
