(* ===== verification/Task_Make.thy ===== *)
theory Task_Make
  imports Tss_Old Page_Own Klist_Bytes
begin

text \<open>
  Making a task, \<open>init_task\<close> of \<open>tss_old.c\<close>: what it needs of the memory it works on, and all that
  the new task is made of, its pages, its descriptor, its registers and its place in the queues.
\<close>

section \<open>The task-state segment of a new task\<close>

definition tss_of :: "u32 \<Rightarrow> u32 set" where "tss_of task = region (tk_tss task) 104"

lemma tss_word: "word_bytes (tk_tss t + tss_offset r) \<subseteq> tss_of t"
proof -
  have "tss_offset r = of_nat (unat (tss_offset r)) \<and> unat (tss_offset r) + 4 \<le> 104" by (cases r) simp_all
  then show ?thesis using word_in_region [of "unat (tss_offset r)" 104 _ "tk_tss t"] by (auto simp: tss_of_def)
qed

lemma ld32_put_tss:
  assumes "aligned4 (tk_tss t)"
  shows "ld32 (put_tss t r v m) (tk_tss t + tss_offset q) = (if q = r then v else ld32 m (tk_tss t + tss_offset q))"
  using assms tss_offset_inj [of r q]
  by (auto simp: put_tss_def ld32_st32 aligned4_add tss_offset_aligned intro!: ld32_st32_other)

lemma put_tss_outside: "same_outside (tss_of t) m (put_tss t r v m)"
  unfolding same_outside_def put_tss_def using tss_word [of t r] by (auto intro!: st32_other_byte)

lemma tss_kept:
  assumes "same_outside R m m'" "R \<inter> tss_of t = {}"
  shows "ld32 m' (tk_tss t + tss_offset r) = ld32 m (tk_tss t + tss_offset r)"
proof (rule ld32_cong)
  fix x assume "x \<in> word_bytes (tk_tss t + tss_offset r)"
  then have "x \<notin> R" using tss_word assms(2) by blast
  then show "m' x = m x" using assms(1) by (simp add: same_outside_def)
qed

text \<open>Registers set one after the other.\<close>

definition put_regs :: "u32 \<Rightarrow> (tss_reg \<times> u32) list \<Rightarrow> mem \<Rightarrow> mem" where
  "put_regs t rvs m = fold (\<lambda>(r, v). put_tss t r v) rvs m"

lemma put_regs_outside: "same_outside (tss_of t) m (put_regs t rvs m)"
  unfolding put_regs_def
proof (induction rvs arbitrary: m)
  case (Cons rv rvs)
  show ?case by (cases rv) (simp, rule same_outside_step [OF put_tss_outside Cons.IH])
qed simp

lemma ld32_put_regs:
  assumes "aligned4 (tk_tss t)"
  shows "ld32 (put_regs t rvs m) (tk_tss t + tss_offset r)
    = (case map_of (rev rvs) r of Some v \<Rightarrow> v | None \<Rightarrow> ld32 m (tk_tss t + tss_offset r))"
  unfolding put_regs_def
proof (induction rvs arbitrary: m)
  case (Cons rv rvs)
  then show ?case
    by (cases rv) (auto simp: ld32_put_tss [OF assms] map_add_def split: option.splits)
qed simp

text \<open>The registers a user task starts with.\<close>

definition user_regs :: "u32 \<Rightarrow> u32 \<Rightarrow> u32 \<Rightarrow> u32 \<Rightarrow> (tss_reg \<times> u32) list" where
  "user_regs eip0 kstack stk dir = [(Eip, eip0), (Esp0, kstack), (Ss0, ucast KERNEL_SELECTOR_DS), (Esp, stk)]
     @ map (\<lambda>r. (r, ucast USER_SELECTOR_DS)) [Gs, Fs, Ds, Es, Ss] @ [(Cs, ucast USER_SELECTOR_CS), (Cr3, dir), (Eflags, ELFAGS_MBS OR EFLAGS_IF)]"

text \<open>The descriptor that leads to the segment.\<close>

definition tss_descriptor :: "old_env \<Rightarrow> u32 \<Rightarrow> mem \<Rightarrow> u32 \<Rightarrow> bool" where
  "tss_descriptor e sel m t \<longleftrightarrow> unat (drop_bit 3 (ucast sel :: u16)) < 256 \<and> (let d = gdt_entry_at m (gdt_desc (old_gdt e) (ucast sel)) in
     seg_base d = tk_tss t \<and> seg_limit d = sizeof_tss \<and> seg_attr d = SEG_S_SYSTEM OR SEG_TYPE_TSS OR SEG_DPL0 OR SEG_P_PRESENT)"

definition gdt_has_room :: "old_env \<Rightarrow> mem \<Rightarrow> bool" where
  "gdt_has_room e m \<longleftrightarrow> (\<exists>i\<in>{1..<256}. entry_free (gdt_entry_at m (slot8 (old_gdt e) i)))"

definition gdt_bytes :: "old_env \<Rightarrow> u32 set" where "gdt_bytes e = region (old_gdt e) 2048"

lemma alloc_slot:
  assumes "gdt_has_room e m"
  obtains i where "0 < i" "i < 256" "gdt_alloc_seg (old_gdt e) m = of_nat (i * 8)"
    "entry_free (gdt_entry_at m (slot8 (old_gdt e) i))"
    "unat (drop_bit 3 (ucast (gdt_alloc_seg (old_gdt e) m) :: u16)) = i"
proof -
  let ?P = "\<lambda>i. entry_free (gdt_entry_at m (slot8 (old_gdt e) i))"
  have "find ?P [1..<GDT_SIZE] \<noteq> None" using assms by (auto simp: find_None_iff gdt_has_room_def GDT_SIZE_def)
  then obtain i where i: "find ?P [1..<GDT_SIZE] = Some i" by auto
  then have "0 < i" "i < 256" "?P i" unfolding find_upt_first by (auto simp: GDT_SIZE_def)
  moreover have "gdt_alloc_seg (old_gdt e) m = of_nat (i * 8)" using i by (simp add: alloc_find)
  ultimately show thesis using that unat_slot_selector [of i] by (simp add: GDT_SIZE_def)
qed

text \<open>
  \<open>init_tss\<close> for a user task: three pages are taken, one for each stack and one for a directory
  that shares the kernel's first table; the descriptor goes into a free entry of the table.
\<close>

lemma init_tss_user:
  fixes e m task eip0 X k
  defines "am \<equiv> pages e" and "kt \<equiv> kernel_table e"
  assumes o: "owned am kt m X" and k: "pages_left am m (Suc (Suc (Suc k)))"
    and X: "region (task + 4) 108 \<union> gdt_bytes e \<subseteq> X" "region (task + 4) 108 \<inter> gdt_bytes e = {}"
    and al: "aligned4 task" and room: "gdt_has_room e m"
  obtains m' ks stk dir where "init_tss e m task eip0 1 = (m', 0)"
    "\<forall>(r, v)\<in>set (user_regs eip0 ks stk dir). ld32 m' (tk_tss task + tss_offset r) = v"
    "tss_descriptor e (ld32 m' (tk_tss_sel task)) m' task"
    "\<forall>i<256. \<not> entry_free (gdt_entry_at m (slot8 (old_gdt e) i)) \<longrightarrow>
       gdt_entry_at m' (slot8 (old_gdt e) i) = gdt_entry_at m (slot8 (old_gdt e) i)"
    "pde m' dir 0 = pde m kt 0" "\<forall>d\<in>{1..<1024}. pde m' dir d = 0"
    "distinct [ks, stk, dir]" "\<forall>p\<in>{ks, stk, dir}. page_aligned p \<and> p \<notin> used_addrs (am, m) \<and> region p 4096 \<inter> X = {}"
    "used_addrs (am, m') = {ks, stk, dir} \<union> used_addrs (am, m)"
    "owned am kt m' (X \<union> region ks 4096 \<union> region stk 4096 \<union> region dir 4096)" "pages_left am m' k"
    "same_outside (pool_bits am \<union> region (task + 4) 108 \<union> gdt_bytes e \<union> region dir 4096) m m'"
proof -
  have tss: "aligned4 (tk_tss task)" "tss_of task \<subseteq> region (task + 4) 108" "word_bytes (tk_tss_sel task) \<subseteq> region (task + 4) 108"
    "word_bytes (tk_tss_sel task) \<inter> tss_of task = {}"
    using al region_mono [of 104 108 "task + 4"] region_word [of 104 108 "task + 4"]
      word_region_disjoint [of "tk_tss_sel task"] region_add_disjoint [of 104 4 "task + 4"]
    by (auto simp: tk_fields tss_of_def align_simps add.assoc)
  let ?sel = "gdt_alloc_seg (old_gdt e) m"
  let ?attr = "SEG_S_SYSTEM OR SEG_TYPE_TSS OR SEG_DPL0 OR SEG_P_PRESENT"
  obtain i where i: "0 < i" "i < 256" "entry_free (gdt_entry_at m (slot8 (old_gdt e) i))" "unat (drop_bit 3 (ucast ?sel :: u16)) = i"
    by (rule alloc_slot [OF room])
  define m0 where "m0 = gdt_segment_set (old_gdt e) m (ucast ?sel) sizeof_tss (tk_tss task) ?attr"
  have f0: "same_outside (gdt_bytes e) m m0"
    unfolding same_outside_def m0_def gdt_bytes_def region_def
    by (intro allI impI gdt_segment_set_outside) (use i in simp_all)
  define mA where "mA = kmemset m0 (tk_tss task) 0 sizeof_tss"
  have fA: "same_outside (tss_of task) m0 mA"
    by (simp add: same_outside_def mA_def kmemset_eq sizeof_tss_def tss_of_def)
  have sub: "tss_of task \<subseteq> X" "gdt_bytes e \<subseteq> X" using X(1) tss(2) by auto
  note o0 = owned_in [OF o f0 sub(2)]
  note oA = owned_in [OF o0(1) fA sub(1)]
  have kA: "pages_left am mA (Suc (Suc (Suc k)))" using k o0(5) oA(5) by simp
  obtain mB ks where ks: "kalloc_pages am mA 1 = (mB, ks)" by fastforce
  note t1 = kalloc_takes [OF oA(1) kA ks]
  let ?XB = "X \<union> region ks 4096"
  have oB: "owned am kt mB ?XB" "pages_left am mB (Suc (Suc k))" using t1(1) by (simp_all add: takes_page_def)
  define mC where "mC = put_regs task [(Eip, eip0), (Esp0, ks), (Ss0, ucast KERNEL_SELECTOR_DS)] mB"
  have fC: "same_outside (tss_of task) mB mC" unfolding mC_def by (rule put_regs_outside)
  have sC: "tss_of task \<subseteq> ?XB" using sub by blast
  note oC = owned_in [OF oB(1) fC sC]
  have kC: "pages_left am mC (Suc (Suc k))" using oB(2) oC(5) by simp
  obtain mD stk where stk: "ualloc_pages am mC 1 = (mD, stk)" by fastforce
  note t2 = ualloc_takes [OF oC(1) kC stk]
  let ?XD = "?XB \<union> region stk 4096"
  have oD: "owned am kt mD ?XD" "pages_left am mD (Suc k)" using t2(1) by (simp_all add: takes_page_def)
  define mE where "mE = put_regs task ((Esp, stk) # map (\<lambda>r. (r, ucast USER_SELECTOR_DS)) [Gs, Fs, Ds, Es, Ss] @ [(Cs, ucast USER_SELECTOR_CS)]) mD"
  have fE: "same_outside (tss_of task) mD mE" unfolding mE_def by (rule put_regs_outside)
  have sE: "tss_of task \<subseteq> ?XD" using sub by blast
  note oE = owned_in [OF oD(1) fE sE]
  have kE: "pages_left am mE (Suc k)" using oD(2) oE(5) by simp
  obtain mF dir where dir: "create_page_table am mE kt = (mF, dir)" by fastforce
  note t3 = create_page_table_takes [OF oE(1) kE dir]
  let ?XF = "?XD \<union> region dir 4096"
  have oF: "owned am kt mF ?XF" "pages_left am mF k" using t3(1) by (simp_all add: takes_page_def)
  define mG where "mG = put_regs task [(Cr3, dir), (Eflags, ELFAGS_MBS OR EFLAGS_IF)] mF"
  have fG: "same_outside (tss_of task) mF mG" unfolding mG_def by (rule put_regs_outside)
  have sG: "tss_of task \<subseteq> ?XF" using sub by blast
  note oG = owned_in [OF oF(1) fG sG]
  define m' where "m' = st32 mG (tk_tss_sel task) ?sel"
  have f': "same_outside (word_bytes (tk_tss_sel task)) mG m'"
    unfolding m'_def by (rule same_outside_st32) simp
  have s': "word_bytes (tk_tss_sel task) \<subseteq> ?XF" using tss(3) X(1) by blast
  note o' = owned_in [OF oG(1) f' s']
  have pages: "region ks 4096 \<inter> X = {}" "region stk 4096 \<inter> ?XB = {}" "region dir 4096 \<inter> ?XD = {}"
    and bits: "pool_bits am \<inter> X = {}"
    using t1(1) t2(1) t3(1) o by (simp_all add: takes_page_def) (auto simp: owned_def)
  have outside: "(pool_bits am \<union> region dir 4096) \<inter> (tss_of task \<union> gdt_bytes e) = {}"
    using bits pages(3) sub by blast
  show thesis
  proof (rule that [of m' ks stk dir])
    have "kalloc_pages (pages e) (kmemset (gdt_segment_set (old_gdt e) m (ucast ?sel) sizeof_tss (tk_tss task) ?attr) (tk_tss task) 0 sizeof_tss) 1 = (mB, ks)"
      using ks unfolding mA_def m0_def am_def .
    moreover have "ualloc_pages (pages e) (put_tss task Ss0 (ucast KERNEL_SELECTOR_DS) (put_tss task Esp0 ks (put_tss task Eip eip0 mB))) 1 = (mD, stk)"
      using stk by (simp add: mC_def put_regs_def am_def)
    moreover have "create_page_table (pages e) (put_tss task Cs (ucast USER_SELECTOR_CS) (fold (\<lambda>r. put_tss task r (ucast USER_SELECTOR_DS))
        [Gs, Fs, Ds, Es, Ss] (put_tss task Esp stk mD))) (kernel_table e) = (mF, dir)"
      using dir by (simp add: mE_def put_regs_def am_def kt_def)
    ultimately show "init_tss e m task eip0 1 = (m', 0)"
      by (simp add: init_tss_def Let_def m'_def mG_def put_regs_def KERNEL_PROC_def)
    have tk: "ld32 m2 (tk_tss task + tss_offset r) = ld32 m1 (tk_tss task + tss_offset r)"
      if "same_outside R m1 m2" "R \<subseteq> pool_bits am \<union> region dir 4096 \<union> word_bytes (tk_tss_sel task)" for R m1 m2 r
      by (rule tss_kept [OF that(1)]) (use that(2) outside tss(4) in blast)
    have "ld32 m' (tk_tss task + tss_offset r) = ld32 mG (tk_tss task + tss_offset r)"
      "ld32 mF (tk_tss task + tss_offset r) = ld32 mE (tk_tss task + tss_offset r)"
      "ld32 mD (tk_tss task + tss_offset r) = ld32 mC (tk_tss task + tss_offset r)" for r
      using tk [OF f'] tk [OF t3(2)] tk [OF t2(2)] by auto
    then show "\<forall>(r, v)\<in>set (user_regs eip0 ks stk dir). ld32 m' (tk_tss task + tss_offset r) = v"
      by (simp add: user_regs_def mG_def mE_def mC_def ld32_put_regs [OF tss(1)] del: tss_offset.simps)
    have after: "same_outside (pool_bits am \<union> region (task + 4) 108 \<union> region dir 4096) m0 m'"
    proof -
      let ?R = "pool_bits am \<union> region (task + 4) 108 \<union> region dir 4096"
      have r: "same_outside ?R m0 mA" "same_outside ?R mA mB" "same_outside ?R mB mC" "same_outside ?R mC mD" "same_outside ?R mD mE"
        "same_outside ?R mE mF" "same_outside ?R mF mG" "same_outside ?R mG m'"
        using same_outside_mono [OF fA, of ?R] same_outside_mono [OF t1(2), of ?R] same_outside_mono [OF fC, of ?R]
          same_outside_mono [OF t2(2), of ?R] same_outside_mono [OF fE, of ?R] same_outside_mono [OF t3(2), of ?R]
          same_outside_mono [OF fG, of ?R] same_outside_mono [OF f', of ?R] tss(2,3) by blast+
      show ?thesis
        by (rule r(1) [THEN same_outside_step, OF r(2) [THEN same_outside_step, OF r(3) [THEN same_outside_step,
          OF r(4) [THEN same_outside_step, OF r(5) [THEN same_outside_step, OF r(6) [THEN same_outside_step,
          OF r(7) [THEN same_outside_step, OF r(8)]]]]]]])
    qed
    then show "same_outside (pool_bits am \<union> region (task + 4) 108 \<union> gdt_bytes e \<union> region dir 4096) m m'"
      by (rule same_outside_trans [OF f0]) auto
    have gdt: "gdt_entry_at m' (slot8 (old_gdt e) j) = gdt_entry_at m0 (slot8 (old_gdt e) j)" if "j < 256" for j
    proof (rule gdt_entry_at_cong)
      fix n :: nat assume "n < 8"
      then have "slot8 (old_gdt e) j + of_nat n \<in> gdt_bytes e" using slot_region that by (simp add: gdt_bytes_def)
      then have "slot8 (old_gdt e) j + of_nat n \<notin> pool_bits am \<union> region (task + 4) 108 \<union> region dir 4096"
        using outside X(2) by blast
      then show "m' (slot8 (old_gdt e) j + of_nat n) = m0 (slot8 (old_gdt e) j + of_nat n)"
        using after by (simp add: same_outside_def)
    qed
    have "ld32 m' (tk_tss_sel task) = ?sel" using al by (simp add: m'_def ld32_st32 tk_fields align_simps)
    moreover have "gdt_entry_at m' (gdt_desc (old_gdt e) (ucast ?sel)) = gdt_entry_at m0 (gdt_desc (old_gdt e) (ucast ?sel))"
      using gdt [OF i(2)] i(4) by (simp add: gdt_desc_slot)
    moreover have a: "?attr AND 0x8F00 = 0" by (simp add: SEG_S_SYSTEM_def SEG_TYPE_TSS_def SEG_DPL0_def SEG_P_PRESENT_def)
    ultimately show "tss_descriptor e (ld32 m' (tk_tss_sel task)) m' task"
      using i(2,4) by (simp add: tss_descriptor_def m0_def seg_limit_set [OF a] seg_attr_set [OF attr_fields_sub(1) [OF a]] eff_attr_def sizeof_tss_def)
    show "\<forall>j<256. \<not> entry_free (gdt_entry_at m (slot8 (old_gdt e) j)) \<longrightarrow>
       gdt_entry_at m' (slot8 (old_gdt e) j) = gdt_entry_at m (slot8 (old_gdt e) j)"
    proof (intro allI impI)
      fix j :: nat assume j: "j < 256" "\<not> entry_free (gdt_entry_at m (slot8 (old_gdt e) j))"
      then have "j \<noteq> unat (drop_bit 3 (ucast ?sel :: u16))" using i(3,4) by auto
      then show "gdt_entry_at m' (slot8 (old_gdt e) j) = gdt_entry_at m (slot8 (old_gdt e) j)"
        using gdt [OF j(1)] j(1) by (simp add: m0_def gdt_entry_at_set_other)
    qed
    have p: "pde mE kt 0 = pde m kt 0" using o0(3) oA(3) t1(3) oC(3) t2(3) oE(3) by simp
    have al: "page_aligned ks" "page_aligned stk" "page_aligned dir" using t1(1) t2(1) t3(1) by (simp_all add: takes_page_def)
    have dir': "pde m' dir d = pde mF dir d" if "d < 1024" for d
      unfolding pde_def
    proof (rule table_word_cong [OF al(3) that])
      fix x assume "page_of x = page_of dir"
      then have "x \<notin> region (task + 4) 108" using page_in_region [OF al(3)] pages(3) X(1) by blast
      moreover have "same_outside (region (task + 4) 108) mF m'"
        using same_outside_step [OF same_outside_mono [OF fG tss(2)] same_outside_mono [OF f' tss(3)]] .
      ultimately show "m' x = mF x" by (simp add: same_outside_def)
    qed
    show "pde m' dir 0 = pde m kt 0" using dir' t3(3) p by simp
    show "\<forall>d\<in>{1..<1024}. pde m' dir d = 0" using dir' t3(4) by simp
    have u: "used_addrs (am, mA) = used_addrs (am, m)" "used_addrs (am, mB) = insert ks (used_addrs (am, mA))" "ks \<notin> used_addrs (am, mA)"
      "used_addrs (am, mD) = insert stk (used_addrs (am, mC))" "stk \<notin> used_addrs (am, mC)"
      "used_addrs (am, mF) = insert dir (used_addrs (am, mE))" "dir \<notin> used_addrs (am, mE)"
      using o0(4) oA(4) t1(1) t2(1) t3(1) by (simp_all add: takes_page_def)
    note u = this oC(4) oE(4) oG(4) o'(4)
    show "distinct [ks, stk, dir]" "used_addrs (am, m') = {ks, stk, dir} \<union> used_addrs (am, m)" using u by auto
    show "\<forall>p\<in>{ks, stk, dir}. page_aligned p \<and> p \<notin> used_addrs (am, m) \<and> region p 4096 \<inter> X = {}" using u al pages by auto
    show "owned am kt m' (X \<union> region ks 4096 \<union> region stk 4096 \<union> region dir 4096)" by (rule o'(1))
    show "pages_left am m' k" using oF(2) oG(5) o'(5) by simp
  qed
qed

section \<open>Making a task\<close>

text \<open>The words of the scheduler, the counter of numbers, the descriptors and the tasks, none meeting another.\<close>

definition tasks_bytes :: "u32 set \<Rightarrow> u32 set" where "tasks_bytes T = (\<Union>t\<in>T. region t 148)"

definition fixed_data :: "old_env \<Rightarrow> u32 set" where
  "fixed_data e = region (task_manage e) 64 \<union> word_bytes (global_pid e) \<union> gdt_bytes e"

definition data_apart :: "old_env \<Rightarrow> u32 set \<Rightarrow> bool" where
  "data_apart e T \<longleftrightarrow> aligned4 (task_manage e) \<and> aligned4 (global_pid e)
     \<and> region (task_manage e) 64 \<inter> (gdt_bytes e \<union> word_bytes (global_pid e)) = {} \<and> word_bytes (global_pid e) \<inter> gdt_bytes e = {}
     \<and> tasks_bytes T \<inter> fixed_data e = {} \<and> (\<forall>t\<in>T. \<forall>u\<in>T. t \<noteq> u \<longrightarrow> region t 148 \<inter> region u 148 = {})"

definition general_bytes :: "old_env \<Rightarrow> u32 list \<Rightarrow> u32 set" where
  "general_bytes e ts = list_bytes (tk_general_list e) (map tk_general_node ts)"

definition ready_bytes :: "old_env \<Rightarrow> u32 list \<Rightarrow> u32 set" where
  "ready_bytes e ts = list_bytes (tk_ready_list e) (map tk_state_node ts)"

lemma queue_bytes:
  "general_bytes e ts = region (task_manage e + 4) 20 \<union> (\<Union>t\<in>set ts. region (t + 128) 8)"
  "ready_bytes e ts = region (task_manage e + 24) 20 \<union> (\<Union>t\<in>set ts. region (t + 120) 8)"
  by (simp_all add: general_bytes_def ready_bytes_def list_bytes_def tk_lists tk_fields)

lemma task_parts:
  "region (t + 4) 108 \<subseteq> region t 148" "region (t + 120) 8 \<subseteq> region t 148" "region (t + 128) 8 \<subseteq> region t 148"
  "region (t + 120) 8 \<inter> region (t + 128) 8 = {}" "region (t + 4) 108 \<inter> region (t + 120) 8 = {}" "region (t + 4) 108 \<inter> region (t + 128) 8 = {}"
  using part_region [of 4 108 148 t] part_region [of 120 8 148 t] part_region [of 128 8 148 t]
    parts_apart [of 120 8 128 8 t] parts_apart [of 4 108 120 8 t] parts_apart [of 4 108 128 8 t] by simp_all

lemma manage_parts:
  "region (task_manage e + 4) 20 \<subseteq> region (task_manage e) 64" "region (task_manage e + 24) 20 \<subseteq> region (task_manage e) 64"
  "word_bytes (task_manage e) \<subseteq> region (task_manage e) 64"
  "region (task_manage e + 4) 20 \<inter> region (task_manage e + 24) 20 = {}"
  "word_bytes (task_manage e) \<inter> (region (task_manage e + 4) 20 \<union> region (task_manage e + 24) 20) = {}"
  using part_region [of 4 20 64 "task_manage e"] part_region [of 24 20 64 "task_manage e"] region_word [of 0 64 "task_manage e"]
    parts_apart [of 4 20 24 20 "task_manage e"] region_word [of 0 4 "task_manage e"]
    parts_apart [of 0 4 4 20 "task_manage e"] parts_apart [of 0 4 24 20 "task_manage e"] by auto

lemma queues_in:
  "general_bytes e ts \<subseteq> region (task_manage e) 64 \<union> tasks_bytes (set ts)"
  "ready_bytes e ts \<subseteq> region (task_manage e) 64 \<union> tasks_bytes (set ts)"
proof -
  have "(\<Union>t\<in>set ts. region (t + 128) 8) \<subseteq> tasks_bytes (set ts)" "(\<Union>t\<in>set ts. region (t + 120) 8) \<subseteq> tasks_bytes (set ts)"
    unfolding tasks_bytes_def by (intro UN_mono subset_refl task_parts(3), intro UN_mono subset_refl task_parts(2))
  then show "general_bytes e ts \<subseteq> region (task_manage e) 64 \<union> tasks_bytes (set ts)"
    "ready_bytes e ts \<subseteq> region (task_manage e) 64 \<union> tasks_bytes (set ts)"
    unfolding queue_bytes using manage_parts(1,2) [of e] by (simp_all add: le_supI1 le_supI2)
qed

lemma queues_apart:
  assumes "data_apart e T" "set us \<subseteq> T" "set rs \<subseteq> T"
  shows "general_bytes e us \<inter> ready_bytes e rs = {}"
proof -
  have m: "region (task_manage e) 64 \<inter> region t 148 = {}" if "t \<in> T" for t
    using assms(1) that by (auto simp: data_apart_def tasks_bytes_def fixed_data_def)
  have t: "region (t + 128) 8 \<inter> region (u + 120) 8 = {}" if "t \<in> T" "u \<in> T" for t u
  proof (cases "t = u")
    case False
    then have "region t 148 \<inter> region u 148 = {}" using assms(1) that by (simp add: data_apart_def)
    then show ?thesis using task_parts(2,3) by blast
  qed (use task_parts(4) in blast)
  have "region (task_manage e + 4) 20 \<inter> region (u + 120) 8 = {}" if "u \<in> set rs" for u
    using m [of u] that assms(3) manage_parts(1) task_parts(2) by blast
  moreover have "region (t + 128) 8 \<inter> region (task_manage e + 24) 20 = {}" if "t \<in> set us" for t
    using m [of t] that assms(2) manage_parts(2) task_parts(3) by blast
  moreover have "region (t + 128) 8 \<inter> region (u + 120) 8 = {}" if "t \<in> set us" "u \<in> set rs" for t u
    using t that assms(2,3) by blast
  ultimately show ?thesis unfolding queue_bytes using manage_parts(4) by blast
qed

text \<open>What a new task of user mode is, apart from its registers.\<close>

definition task_fields :: "u32 \<Rightarrow> mem \<Rightarrow> u32 \<Rightarrow> u32 \<Rightarrow> u32 \<Rightarrow> bool" where
  "task_fields t m pid parent ifkernel \<longleftrightarrow> ld32 m (tk_status t) = task_status_code TASK_READY \<and> ld32 m (tk_pid t) = pid
     \<and> ld32 m (tk_parent t) = parent \<and> ld32 m (tk_ifkernel t) = ifkernel
     \<and> ld32 m (tk_ticks t) = TASK_TICKS_DEFAULT \<and> ld32 m (tk_default_ticks t) = TASK_TICKS_DEFAULT"

definition task_lists :: "old_env \<Rightarrow> mem \<Rightarrow> u32 list \<Rightarrow> u32 list \<Rightarrow> bool" where
  "task_lists e m us rs \<longleftrightarrow> dlist m (tk_general_list e) (map tk_general_node us)
     \<and> dlist m (tk_ready_list e) (map tk_state_node rs)"

text \<open>The part of \<open>init_task\<close> before the task-state segment, on memory.\<close>

definition enlist :: "old_env \<Rightarrow> u32 \<Rightarrow> mem \<Rightarrow> mem" where
  "enlist e t m = klist_append (st32 (klist_append m (tk_general_list e) (tk_general_node t))
     (tk_status t) (task_status_code TASK_READY)) (tk_ready_list e) (tk_state_node t)"

lemma enlist_lists:
  assumes ap: "data_apart e (insert t (set us \<union> set rs))" and l: "task_lists e m us rs"
    and t: "t \<notin> set us \<union> set rs" "aligned4 t" "t + 120 \<noteq> 0" "t + 128 \<noteq> 0"
  shows "task_lists e (enlist e t m) (us @ [t]) (rs @ [t])"
    "same_outside (general_bytes e (us @ [t]) \<union> word_bytes t \<union> ready_bytes e (rs @ [t])) m (enlist e t m)"
    "task_set_ready_old e (task_set_general e m t) t = Some (enlist e t m)"
    "ld32 (enlist e t m) (tk_status t) = task_status_code TASK_READY"
proof -
  let ?T = "insert t (set us \<union> set rs)"
  let ?m1 = "klist_append m (tk_general_list e) (tk_general_node t)"
  let ?m2 = "st32 ?m1 (tk_status t) (task_status_code TASK_READY)"
  have d: "dlist m (tk_general_list e) (map tk_general_node us)" "dlist m (tk_ready_list e) (map tk_state_node rs)"
    using l by (simp_all add: task_lists_def)
  have al: "aligned4 (tk_general_node t)" "aligned4 (tk_state_node t)" "tk_general_node t \<noteq> 0" "tk_state_node t \<noteq> 0" "aligned4 (tk_status t)"
    using t by (simp_all add: tk_fields align_simps)
  have mine: "region t 148 \<inter> region (task_manage e) 64 = {}" "\<And>u. u \<in> set us \<union> set rs \<Longrightarrow> region t 148 \<inter> region u 148 = {}"
    using ap t(1) by (auto simp: data_apart_def tasks_bytes_def fixed_data_def)
  then have old: "region t 148 \<inter> (region (task_manage e) 64 \<union> tasks_bytes (set us) \<union> tasks_bytes (set rs)) = {}"
    unfolding tasks_bytes_def by blast
  have st: "word_bytes t \<subseteq> region t 148" "word_bytes t \<inter> (region (t + 120) 8 \<union> region (t + 128) 8) = {}"
    using region_word [of 0 148 t] region_word [of 0 4 t] parts_apart [of 0 4 120 8 t] parts_apart [of 0 4 128 8 t] by auto
  have g: "region (tk_general_node t) 8 \<inter> list_bytes (tk_general_list e) (map tk_general_node us) = {}"
    using old queues_in(1) [of e us] task_parts(3) [of t] by (simp add: general_bytes_def tk_fields) blast
  note a1 = append_bytes [OF d(1) al(1,3) g]
  have gen: "list_bytes (tk_general_list e) (map tk_general_node us @ [tk_general_node t]) = general_bytes e (us @ [t])"
    by (simp add: general_bytes_def)
  have apart: "general_bytes e (us @ [t]) \<inter> ready_bytes e (rs @ [t]) = {}"
    by (rule queues_apart [OF ap]) auto
  have r_sub: "ready_bytes e (rs @ [t]) = ready_bytes e rs \<union> region (t + 120) 8" by (auto simp: queue_bytes)
  have d1: "dlist ?m1 (tk_ready_list e) (map tk_state_node rs)"
    using dlist_bytes [OF d(2) a1(2)] apart r_sub unfolding gen by (auto simp: ready_bytes_def)
  have f2: "same_outside (word_bytes t) ?m1 ?m2" unfolding tk_fields by (rule same_outside_st32) simp
  have st_r: "word_bytes t \<inter> ready_bytes e rs = {}" "word_bytes t \<inter> general_bytes e us = {}"
    using old st queues_in(2) [of e rs] queues_in(1) [of e us] by blast+
  have d2: "dlist ?m2 (tk_ready_list e) (map tk_state_node rs)"
    by (rule dlist_bytes [OF d1 f2]) (use st_r(1) in \<open>simp add: ready_bytes_def\<close>)
  have r: "region (tk_state_node t) 8 \<inter> list_bytes (tk_ready_list e) (map tk_state_node rs) = {}"
    using old queues_in(2) [of e rs] task_parts(2) [of t] by (simp add: ready_bytes_def tk_fields) blast
  note a3 = append_bytes [OF d2 al(2,4) r]
  have red: "list_bytes (tk_ready_list e) (map tk_state_node rs @ [tk_state_node t]) = ready_bytes e (rs @ [t])"
    by (simp add: ready_bytes_def)
  note f3 = a3(2) [unfolded red] and f1 = a1(2) [unfolded gen]
  have e: "enlist e t m = klist_append ?m2 (tk_ready_list e) (tk_state_node t)" by (simp add: enlist_def)
  have st_g: "word_bytes t \<inter> general_bytes e (us @ [t]) = {}" "word_bytes t \<inter> ready_bytes e (rs @ [t]) = {}"
    using st_r st(2) by (auto simp: queue_bytes)
  have "dlist ?m2 (tk_general_list e) (map tk_general_node (us @ [t]))"
    by (rule dlist_bytes [OF _ f2]) (use a1(1) st_g(1) in \<open>simp_all add: general_bytes_def\<close>)
  then have "dlist (enlist e t m) (tk_general_list e) (map tk_general_node (us @ [t]))"
    unfolding e by (rule dlist_bytes [OF _ f3]) (use apart in \<open>simp add: general_bytes_def Int_commute\<close>)
  then show "task_lists e (enlist e t m) (us @ [t]) (rs @ [t])" using a3(1) by (simp add: task_lists_def e)
  have "same_outside (general_bytes e (us @ [t]) \<union> word_bytes t) m ?m2" by (rule same_outside_trans [OF f1 f2]) auto
  then show "same_outside (general_bytes e (us @ [t]) \<union> word_bytes t \<union> ready_bytes e (rs @ [t])) m (enlist e t m)"
    unfolding e by (rule same_outside_trans [OF _ f3]) auto
  have "tk_state_node t \<noteq> tk_ready_list e + 8"
  proof
    assume "tk_state_node t = tk_ready_list e + 8"
    moreover have "tk_state_node t \<in> region (tk_state_node t) 8" using region_words(1) word_start by blast
    moreover have "tk_ready_list e + 8 \<in> list_bytes (tk_ready_list e) (map tk_state_node rs)"
      using list_head_words(3) word_start by (fastforce simp: list_bytes_def)
    ultimately show False using r by auto
  qed
  moreover have "tk_state_node t \<notin> set (map tk_state_node rs)" using t(1) by (auto simp: tk_fields)
  ultimately have "klist_remove ?m1 (tk_ready_list e) (tk_state_node t) = Some (0, ?m1)"
    by (intro klist_remove_missing [OF d1])
  then show "task_set_ready_old e (task_set_general e m t) t = Some (enlist e t m)"
    by (simp add: task_set_ready_old_def task_set_general_def e)
  have "ld32 (enlist e t m) t = ld32 ?m2 t"
    unfolding e by (rule ld32_cong) (use f3 st_g(2) in \<open>auto simp: same_outside_def\<close>)
  then show "ld32 (enlist e t m) (tk_status t) = task_status_code TASK_READY"
    using t(2) by (simp add: tk_status_def ld32_st32)
qed

text \<open>The fields \<open>init_task\<close> fills in before it enlists the task.\<close>

definition fill_task :: "old_env \<Rightarrow> u32 \<Rightarrow> mem \<Rightarrow> mem" where
  "fill_task e t m =
    (let m = st32 (st32 m (tk_default_ticks t) TASK_TICKS_DEFAULT) (tk_ticks t) TASK_TICKS_DEFAULT;
         m = st32 m (global_pid e) (ld32 m (global_pid e) + 1);
         m = st32 m (tk_pid t) (ld32 m (global_pid e))
     in st32 (st32 m (tk_ifkernel t) (ucast USER_PROC)) (tk_parent t) 0)"

lemma fill_task_fields:
  fixes e t m
  assumes al: "aligned4 t" "aligned4 (global_pid e)" and ap: "word_bytes (global_pid e) \<inter> region t 148 = {}"
  defines "m' \<equiv> fill_task e t m" and "pid \<equiv> ld32 m (global_pid e) + 1"
  shows "ld32 m' (tk_pid t) = pid" "ld32 m' (tk_parent t) = 0" "ld32 m' (tk_ifkernel t) = ucast USER_PROC"
    "ld32 m' (tk_ticks t) = TASK_TICKS_DEFAULT" "ld32 m' (tk_default_ticks t) = TASK_TICKS_DEFAULT"
    "ld32 m' (global_pid e) = pid"
    "same_outside (region t 148 \<union> word_bytes (global_pid e)) m m'"
proof -
  have w: "word_bytes (t + of_nat j) \<subseteq> region t 148" if "j + 4 \<le> 148" for j using region_word [OF that] .
  have W: "word_bytes (tk_default_ticks t) \<subseteq> region t 148" "word_bytes (tk_ticks t) \<subseteq> region t 148" "word_bytes (tk_pid t) \<subseteq> region t 148"
    "word_bytes (tk_ifkernel t) \<subseteq> region t 148" "word_bytes (tk_parent t) \<subseteq> region t 148"
    using w [of 144] w [of 140] w [of 136] w [of 112] w [of 116] by (simp_all add: tk_fields)
  have ne: "global_pid e \<noteq> x" if "word_bytes x \<subseteq> region t 148" for x
    using that ap word_start by blast
  note n = ne [OF W(1)] ne [OF W(2)] ne [OF W(3)] ne [OF W(4)] ne [OF W(5)]
  note n = n n [symmetric]
  have a: "aligned4 (tk_default_ticks t)" "aligned4 (tk_ticks t)" "aligned4 (tk_pid t)" "aligned4 (tk_ifkernel t)" "aligned4 (tk_parent t)"
    using al(1) by (simp_all add: tk_fields align_simps)
  have d: "tk_default_ticks t \<noteq> tk_ticks t" "tk_default_ticks t \<noteq> tk_pid t" "tk_default_ticks t \<noteq> tk_ifkernel t" "tk_default_ticks t \<noteq> tk_parent t"
    "tk_ticks t \<noteq> tk_pid t" "tk_ticks t \<noteq> tk_ifkernel t" "tk_ticks t \<noteq> tk_parent t"
    "tk_pid t \<noteq> tk_ifkernel t" "tk_pid t \<noteq> tk_parent t" "tk_ifkernel t \<noteq> tk_parent t"
    by (simp_all add: tk_fields)
  note d = d d [symmetric]
  show "ld32 m' (tk_pid t) = pid" "ld32 m' (tk_parent t) = 0" "ld32 m' (tk_ifkernel t) = ucast USER_PROC"
    "ld32 m' (tk_ticks t) = TASK_TICKS_DEFAULT" "ld32 m' (tk_default_ticks t) = TASK_TICKS_DEFAULT"
    "ld32 m' (global_pid e) = pid"
    unfolding m'_def pid_def fill_task_def Let_def by (simp_all add: ld32_st32 ld32_st32_other a al(2) n d)
  let ?R = "region t 148 \<union> word_bytes (global_pid e)"
  have st: "same_outside ?R m0 (st32 m0 x v)" if "word_bytes x \<subseteq> ?R" for x v m0 by (rule same_outside_st32 [OF that])
  have W': "word_bytes x \<subseteq> ?R" if "word_bytes x \<subseteq> region t 148" for x using that by blast
  have g: "word_bytes (global_pid e) \<subseteq> ?R" by blast
  note st6 = st [OF W' [OF W(1)], THEN same_outside_step, OF st [OF W' [OF W(2)], THEN same_outside_step, OF st [OF g, THEN same_outside_step,
    OF st [OF W' [OF W(3)], THEN same_outside_step, OF st [OF W' [OF W(4)], THEN same_outside_step, OF st [OF W' [OF W(5)]]]]]]]
  show "same_outside ?R m m'"
    unfolding m'_def fill_task_def Let_def by (rule st6)
qed

lemma init_task_eq:
  assumes "irq_enter_protection s = (st, s0)" "kalloc_pages (pages e) (ram s) 1 = (m1, t)"
    and "task_set_ready_old e (task_set_general e (fill_task e t m1) t) t = Some m2"
    and "init_tss e m2 t eip0 (ld32 m2 (tk_ifkernel t)) = (m3, v)"
  shows "init_task e eip0 s = Some (irq_leave_protection st (s0\<lparr>ram := m3\<rparr>), t)"
proof -
  have "ram s0 = ram s" using irq_keeps(1) [of s] assms(1) by simp
  then show ?thesis using assms by (simp add: init_task_def alloc_pid_def fill_task_def Let_def)
qed

lemma task_lists_frame:
  assumes "task_lists e m us rs" "same_outside R m m'" "R \<inter> (general_bytes e us \<union> ready_bytes e rs) = {}"
  shows "task_lists e m' us rs"
proof -
  have "R \<inter> general_bytes e us = {}" "R \<inter> ready_bytes e rs = {}" using assms(3) by blast+
  then show ?thesis
    using assms(1) dlist_bytes [OF _ assms(2)] by (simp add: task_lists_def general_bytes_def ready_bytes_def)
qed

lemma gdt_frame:
  assumes "same_outside R m m'" "R \<inter> gdt_bytes e = {}" "i < 256"
  shows "gdt_entry_at m' (slot8 (old_gdt e) i) = gdt_entry_at m (slot8 (old_gdt e) i)"
proof (rule gdt_entry_at_cong)
  fix j :: nat assume "j < 8"
  then have "slot8 (old_gdt e) i + of_nat j \<notin> R" using slot_region [OF assms(3)] assms(2) by (auto simp: gdt_bytes_def)
  then show "m' (slot8 (old_gdt e) i + of_nat j) = m (slot8 (old_gdt e) i + of_nat j)" using assms(1) by (simp add: same_outside_def)
qed

text \<open>A page that is taken holds the new task apart from all that was there.\<close>

lemma new_task_apart:
  assumes ap: "data_apart e T" and t: "page_aligned t" "t \<noteq> 0" "region t 4096 \<inter> (fixed_data e \<union> tasks_bytes T) = {}"
  shows "region t 148 \<inter> (fixed_data e \<union> tasks_bytes T) = {}" "data_apart e (insert t T)" "t \<notin> T"
    "aligned4 t" "t + 120 \<noteq> 0" "t + 128 \<noteq> 0"
proof -
  show r: "region t 148 \<inter> (fixed_data e \<union> tasks_bytes T) = {}" using t(3) region_mono [of 148 4096 t] by auto
  then show "data_apart e (insert t T)" using ap by (auto simp: data_apart_def tasks_bytes_def)
  have "t \<in> region t 148" using region_word [of 0 148 t] word_start by auto
  then show "t \<notin> T" using r by (auto simp: tasks_bytes_def)
  show "aligned4 t" using t(1) aligned4_table [of t 0] by simp
  show "t + 120 \<noteq> 0" "t + 128 \<noteq> 0"
    using unat_in_page [OF t(1), of 120] unat_in_page [OF t(1), of 128] t(2) by (auto simp: unat_eq_zero)
qed

text \<open>Up to the task-state segment.\<close>

lemma task_enlisted:
  fixes e m us rs k
  defines "am \<equiv> pages e" and "kt \<equiv> kernel_table e" and "T \<equiv> set us \<union> set rs"
  defines "X \<equiv> fixed_data e \<union> tasks_bytes T"
  assumes ap: "data_apart e T" and l: "task_lists e m us rs" and o: "owned am kt m X" and k: "pages_left am m (Suc k)"
    and run: "kalloc_pages am m 1 = (m1, t)"
  defines "m2 \<equiv> enlist e t (fill_task e t m1)" and "pid \<equiv> ld32 m (global_pid e) + 1"
  shows "page_aligned t" "t \<notin> used_addrs (am, m)" "region t 4096 \<inter> X = {}" "data_apart e (insert t T)" "aligned4 t"
    "used_addrs (am, m2) = insert t (used_addrs (am, m))"
    "owned am kt m2 (X \<union> region t 4096)" "pages_left am m2 k" "pde m2 kt 0 = pde m kt 0"
    "task_set_ready_old e (task_set_general e (fill_task e t m1) t) t = Some m2"
    "task_lists e m2 (us @ [t]) (rs @ [t])" "task_fields t m2 pid 0 (ucast USER_PROC)" "ld32 m2 (global_pid e) = pid"
    "same_outside (pool_bits am \<union> region t 148 \<union> word_bytes (global_pid e) \<union> general_bytes e us \<union> ready_bytes e rs) m m2"
proof -
  note t1 = kalloc_takes [OF o k run]
  have tp: "page_aligned t" "t \<noteq> 0" "region t 4096 \<inter> X = {}" "t \<notin> used_addrs (am, m)" "used_addrs (am, m1) = insert t (used_addrs (am, m))"
    "owned am kt m1 (X \<union> region t 4096)" "pages_left am m1 k"
    using t1(1) by (simp_all add: takes_page_def)
  note nt = new_task_apart [OF ap tp(1,2) tp(3) [unfolded X_def]]
  show "page_aligned t" "t \<notin> used_addrs (am, m)" "region t 4096 \<inter> X = {}" "data_apart e (insert t T)" "aligned4 t"
    using tp nt by simp_all
  have Tu: "tasks_bytes (set us) \<subseteq> tasks_bytes T" "tasks_bytes (set rs) \<subseteq> tasks_bytes T" by (auto simp: T_def tasks_bytes_def)
  have qX: "general_bytes e us \<subseteq> X" "ready_bytes e rs \<subseteq> X"
    using queues_in(1) [of e us] queues_in(2) [of e rs] Tu by (auto simp: X_def fixed_data_def)
  have bits: "pool_bits am \<inter> X = {}" using o by (auto simp: owned_def)
  have pidw: "word_bytes (global_pid e) \<subseteq> X" "aligned4 (global_pid e)" "word_bytes (global_pid e) \<inter> region t 148 = {}"
    using ap nt(1) by (auto simp: data_apart_def X_def fixed_data_def)
  have pq: "word_bytes (global_pid e) \<inter> (general_bytes e us \<union> ready_bytes e rs) = {}"
  proof -
    have "word_bytes (global_pid e) \<inter> (region (task_manage e) 64 \<union> tasks_bytes T) = {}"
      using ap by (auto simp: data_apart_def fixed_data_def)
    then show ?thesis using queues_in(1) [of e us] queues_in(2) [of e rs] Tu by blast
  qed
  have l1: "task_lists e m1 us rs" by (rule task_lists_frame [OF l t1(2)]) (use qX bits in blast)
  note f = fill_task_fields [OF nt(4) pidw(2,3), of m1]
  let ?mf = "fill_task e t m1"
  have tq: "region t 148 \<inter> (general_bytes e us \<union> ready_bytes e rs) = {}" using nt(1) qX by (auto simp: X_def)
  have l2: "task_lists e ?mf us rs" by (rule task_lists_frame [OF l1 f(7)]) (use pq tq in blast)
  have ap2: "data_apart e (insert t (set us \<union> set rs))" and tT: "t \<notin> set us \<union> set rs" using nt(2,3) by (simp_all add: T_def)
  note en = enlist_lists [OF ap2 l2 tT nt(4-6), folded m2_def]
  show "task_set_ready_old e (task_set_general e ?mf t) t = Some m2" "task_lists e m2 (us @ [t]) (rs @ [t])"
    using en by simp_all
  let ?E = "general_bytes e (us @ [t]) \<union> word_bytes t \<union> ready_bytes e (rs @ [t])"
  have E: "?E = general_bytes e us \<union> ready_bytes e rs \<union> word_bytes t \<union> region (t + 128) 8 \<union> region (t + 120) 8"
    by (auto simp: queue_bytes)
  have t_sub: "word_bytes t \<union> region (t + 128) 8 \<union> region (t + 120) 8 \<subseteq> region t 148"
    using task_parts(2,3) [of t] region_word [of 0 148 t] by auto
  have keep: "ld32 m2 x = ld32 ?mf x" if "word_bytes x \<inter> ?E = {}" for x
    by (rule ld32_cong) (use en(2) that in \<open>auto simp: same_outside_def\<close>)
  have low: "word_bytes (t + of_nat j) \<inter> ?E = {}" if "4 \<le> j" "j + 4 \<le> 120 \<or> 136 \<le> j \<and> j + 4 \<le> 148" for j
  proof -
    have w: "word_bytes (t + of_nat j) \<subseteq> region (t + of_nat j) 4" using region_word [of 0 4 "t + of_nat j"] by simp
    have "word_bytes t \<subseteq> region t 4" using region_word [of 0 4 t] by simp
    moreover have "region t 4 \<inter> region (t + of_nat j) 4 = {}" using parts_apart [of 0 4 j 4 t] that by auto
    moreover have "region (t + of_nat j) 4 \<inter> (region (t + 120) 8 \<union> region (t + 128) 8) = {}"
      using that(2) parts_apart [of j 4 120 8 t] parts_apart [of j 4 128 8 t] parts_apart [of 120 8 j 4 t] parts_apart [of 128 8 j 4 t]
      by auto
    moreover have "region (t + of_nat j) 4 \<subseteq> region t 148" by (rule part_region) (use that(2) in auto)
    ultimately show ?thesis using w tq unfolding E by blast
  qed
  have "ld32 m1 (global_pid e) = ld32 m (global_pid e)"
    by (rule ld32_cong) (use t1(2) pidw(1) bits in \<open>auto simp: same_outside_def\<close>)
  then have pid: "ld32 m1 (global_pid e) + 1 = pid" by (simp add: pid_def)
  have "word_bytes (global_pid e) \<inter> ?E = {}" unfolding E using pq pidw(3) t_sub by blast
  then show "ld32 m2 (global_pid e) = pid" using f(6) pid keep by simp
  have k2: "ld32 m2 (tk_ifkernel t) = ld32 ?mf (tk_ifkernel t)" "ld32 m2 (tk_parent t) = ld32 ?mf (tk_parent t)"
    "ld32 m2 (tk_pid t) = ld32 ?mf (tk_pid t)" "ld32 m2 (tk_ticks t) = ld32 ?mf (tk_ticks t)"
    "ld32 m2 (tk_default_ticks t) = ld32 ?mf (tk_default_ticks t)"
    using keep [OF low [of 112]] keep [OF low [of 116]] keep [OF low [of 136]] keep [OF low [of 140]] keep [OF low [of 144]]
    by (simp_all add: tk_fields)
  show "task_fields t m2 pid 0 (ucast USER_PROC)" unfolding task_fields_def k2 using f(1-5) en(4) pid by simp
  have F: "same_outside (region t 148 \<union> word_bytes (global_pid e) \<union> general_bytes e us \<union> ready_bytes e rs) m1 m2"
    by (rule same_outside_trans [OF f(7) en(2)]) (use t_sub in \<open>auto simp: E\<close>)
  then show "same_outside (pool_bits am \<union> region t 148 \<union> word_bytes (global_pid e) \<union> general_bytes e us \<union> ready_bytes e rs) m m2"
    by (rule same_outside_trans [OF t1(2)]) auto
  have FX: "region t 148 \<union> word_bytes (global_pid e) \<union> general_bytes e us \<union> ready_bytes e rs \<subseteq> X \<union> region t 4096"
    using qX pidw(1) region_mono [of 148 4096 t] by auto
  note ow = owned_in [OF tp(6) F FX]
  show "owned am kt m2 (X \<union> region t 4096)" "pages_left am m2 k" "used_addrs (am, m2) = insert t (used_addrs (am, m))" "pde m2 kt 0 = pde m kt 0"
    using ow tp(5,7) t1(3) by simp_all
qed

text \<open>A directory that has the kernel's first table and nothing else.\<close>

definition fresh_space :: "old_env \<Rightarrow> mem \<Rightarrow> mem \<Rightarrow> u32 \<Rightarrow> bool" where
  "fresh_space e m m' dir \<longleftrightarrow> pde m' dir 0 = pde m (kernel_table e) 0 \<and> (\<forall>d\<in>{1..<1024}. pde m' dir d = 0)"

text \<open>The state the old hardware tasks work on, with room for \<open>n\<close> more pages and a descriptor.\<close>

definition tasks_ready :: "old_env \<Rightarrow> nat \<Rightarrow> mem \<Rightarrow> u32 list \<Rightarrow> u32 list \<Rightarrow> bool" where
  "tasks_ready e n m us rs \<longleftrightarrow> data_apart e (set us \<union> set rs) \<and> task_lists e m us rs
     \<and> owned (pages e) (kernel_table e) m (fixed_data e \<union> tasks_bytes (set us \<union> set rs))
     \<and> pages_left (pages e) m n \<and> gdt_has_room e m"

definition task_writes :: "old_env \<Rightarrow> u32 list \<Rightarrow> u32 list \<Rightarrow> u32 \<Rightarrow> u32 \<Rightarrow> u32 set" where
  "task_writes e us rs t dir = pool_bits (pages e) \<union> gdt_bytes e \<union> word_bytes (global_pid e) \<union> general_bytes e us
     \<union> ready_bytes e rs \<union> region t 148 \<union> region dir 4096"

lemma init_task_makes:
  assumes ready: "tasks_ready e (4 + k) (ram s) us rs"
  obtains s' t ks stk dir where "init_task e eip0 s = Some (s', t)"
    "get_irq_status s' = get_irq_status s" "trace s' = trace s"
    "pages_taken (pages e) (ram s) (ram s') [t, ks, stk, dir]" "fresh_space e (ram s) (ram s') dir"
    "task_lists e (ram s') (us @ [t]) (rs @ [t])"
    "task_fields t (ram s') (ld32 (ram s) (global_pid e) + 1) 0 (ucast USER_PROC)" "ld32 (ram s') (global_pid e) = ld32 (ram s) (global_pid e) + 1"
    "\<forall>(r, v)\<in>set (user_regs eip0 ks stk dir). ld32 (ram s') (tk_tss t + tss_offset r) = v"
    "tss_descriptor e (ld32 (ram s') (tk_tss_sel t)) (ram s') t"
    "\<forall>i<256. \<not> entry_free (gdt_entry_at (ram s) (slot8 (old_gdt e) i)) \<longrightarrow>
       gdt_entry_at (ram s') (slot8 (old_gdt e) i) = gdt_entry_at (ram s) (slot8 (old_gdt e) i)"
    "same_outside (task_writes e us rs t dir) (ram s) (ram s')"
    "data_apart e (insert t (set us \<union> set rs))" "region t 4096 \<inter> (fixed_data e \<union> tasks_bytes (set us \<union> set rs)) = {}"
    "aligned4 t" "region dir 4096 \<inter> (fixed_data e \<union> tasks_bytes (set us \<union> set rs) \<union> region t 4096) = {}"
proof -
  let ?am = "pages e" and ?kt = "kernel_table e" and ?T = "set us \<union> set rs"
  let ?X = "fixed_data e \<union> tasks_bytes ?T"
  have rd: "data_apart e ?T" "task_lists e (ram s) us rs" "owned ?am ?kt (ram s) ?X"
    "pages_left ?am (ram s) (Suc (Suc (Suc (Suc k))))" "gdt_has_room e (ram s)"
    using ready by (simp_all add: tasks_ready_def eval_nat_numeral)
  obtain st s0 where p: "irq_enter_protection s = (st, s0)" by fastforce
  obtain m1 t where run: "kalloc_pages ?am (ram s) 1 = (m1, t)" by fastforce
  define m2 where "m2 = enlist e t (fill_task e t m1)"
  note te = task_enlisted [OF rd(1-4) run, folded m2_def]
  let ?X1 = "?X \<union> region t 4096"
  let ?F = "pool_bits ?am \<union> region t 148 \<union> word_bytes (global_pid e) \<union> general_bytes e us \<union> ready_bytes e rs"
  have tX: "region t 148 \<subseteq> region t 4096" "region (t + 4) 108 \<subseteq> region t 148" using region_mono [of 148 4096 t] task_parts(1) by auto
  have apart: "data_apart e (insert t ?T)" by (rule te(4))
  have g1: "gdt_bytes e \<inter> (region (task_manage e) 64 \<union> word_bytes (global_pid e) \<union> tasks_bytes (insert t ?T)) = {}" "gdt_bytes e \<subseteq> ?X"
    using apart by (auto simp: data_apart_def fixed_data_def)
  have ti: "region t 148 \<subseteq> tasks_bytes (insert t ?T)" "tasks_bytes (set us) \<subseteq> tasks_bytes (insert t ?T)" "tasks_bytes (set rs) \<subseteq> tasks_bytes (insert t ?T)"
    by (auto simp: tasks_bytes_def)
  have gF: "?F \<inter> gdt_bytes e = {}"
  proof -
    have "pool_bits ?am \<inter> gdt_bytes e = {}" using rd(3) g1(2) unfolding owned_def by blast
    then show ?thesis using g1(1) ti queues_in(1) [of e us] queues_in(2) [of e rs] by blast
  qed
  have gdt2: "gdt_entry_at m2 (slot8 (old_gdt e) i) = gdt_entry_at (ram s) (slot8 (old_gdt e) i)" if "i < 256" for i
    by (rule gdt_frame [OF te(14) gF that])
  have room: "gdt_has_room e m2" using rd(5) gdt2 by (simp add: gdt_has_room_def)
  have X1: "region (t + 4) 108 \<union> gdt_bytes e \<subseteq> ?X1" "region (t + 4) 108 \<inter> gdt_bytes e = {}"
    using tX g1 ti(1) by blast+
  obtain m3 ks stk dir where i: "init_tss e m2 t eip0 1 = (m3, 0)"
    "\<forall>(r, v)\<in>set (user_regs eip0 ks stk dir). ld32 m3 (tk_tss t + tss_offset r) = v"
    "tss_descriptor e (ld32 m3 (tk_tss_sel t)) m3 t"
    "\<forall>i<256. \<not> entry_free (gdt_entry_at m2 (slot8 (old_gdt e) i)) \<longrightarrow>
       gdt_entry_at m3 (slot8 (old_gdt e) i) = gdt_entry_at m2 (slot8 (old_gdt e) i)"
    "pde m3 dir 0 = pde m2 ?kt 0" "\<forall>d\<in>{1..<1024}. pde m3 dir d = 0"
    "distinct [ks, stk, dir]" "\<forall>p\<in>{ks, stk, dir}. page_aligned p \<and> p \<notin> used_addrs (?am, m2) \<and> region p 4096 \<inter> ?X1 = {}"
    "used_addrs (?am, m3) = {ks, stk, dir} \<union> used_addrs (?am, m2)"
    "owned ?am ?kt m3 (?X1 \<union> region ks 4096 \<union> region stk 4096 \<union> region dir 4096)" "pages_left ?am m3 k"
    "same_outside (pool_bits ?am \<union> region (t + 4) 108 \<union> gdt_bytes e \<union> region dir 4096) m2 m3"
    by (rule init_tss_user [OF te(7,8) X1 te(5) room])
  let ?G = "pool_bits ?am \<union> region (t + 4) 108 \<union> gdt_bytes e \<union> region dir 4096"
  let ?s' = "irq_leave_protection st (s0\<lparr>ram := m3\<rparr>)"
  have ifk: "ld32 m2 (tk_ifkernel t) = 1" using te(12) by (simp add: task_fields_def USER_PROC_def)
  have bits: "pool_bits ?am \<inter> ?X1 = {}" using te(7) by (auto simp: owned_def)
  have Gk: "?G \<inter> (general_bytes e (us @ [t]) \<union> ready_bytes e (rs @ [t])) = {}"
  proof -
    have "general_bytes e (us @ [t]) \<union> ready_bytes e (rs @ [t]) \<subseteq> region (task_manage e) 64 \<union> tasks_bytes ?T \<union> region (t + 120) 8 \<union> region (t + 128) 8"
      using queues_in(1) [of e us] queues_in(2) [of e rs] by (auto simp: queue_bytes tasks_bytes_def)
    moreover have "region (t + 4) 108 \<inter> (region (task_manage e) 64 \<union> tasks_bytes ?T \<union> region (t + 120) 8 \<union> region (t + 128) 8) = {}"
      using tX te(3) task_parts(5,6) [of t] by (auto simp: fixed_data_def)
    moreover have "(pool_bits ?am \<union> region dir 4096) \<inter> (region (task_manage e) 64 \<union> tasks_bytes ?T \<union> region (t + 120) 8 \<union> region (t + 128) 8) = {}"
      using bits i(8) tX(1) task_parts(2,3) [of t] by (auto simp: fixed_data_def)
    moreover have "gdt_bytes e \<inter> (region (task_manage e) 64 \<union> tasks_bytes ?T \<union> region (t + 120) 8 \<union> region (t + 128) 8) = {}"
      using g1(1) ti task_parts(2,3) [of t] by (auto simp: tasks_bytes_def)
    ultimately show ?thesis by blast
  qed
  have kept: "ld32 m3 (t + of_nat j) = ld32 m2 (t + of_nat j)" if "j = 0 \<or> 112 \<le> j" "j + 4 \<le> 148" for j
  proof (rule ld32_cong)
    fix x assume "x \<in> word_bytes (t + of_nat j)"
    then have x: "x \<in> region (t + of_nat j) 4" using region_word [of 0 4 "t + of_nat j"] by auto
    have "region (t + of_nat j) 4 \<inter> region (t + 4) 108 = {}"
      using that parts_apart [of 0 4 4 108 t] parts_apart [of 4 108 j 4 t] by auto
    moreover have "region (t + of_nat j) 4 \<subseteq> region t 148" by (rule part_region) (use that(2) in simp)
    ultimately have "x \<notin> ?G" using x bits i(8) tX(1) g1(1) ti(1) by blast
    then show "m3 x = m2 x" using i(12) by (simp add: same_outside_def)
  qed
  show thesis
  proof (rule that [of ?s' t ks stk dir])
    show "init_task e eip0 s = Some (?s', t)"
      by (rule init_task_eq [OF p run te(10)]) (simp add: ifk i(1))
    show "get_irq_status ?s' = get_irq_status s" using irq_restore [of s] p by simp
    show "trace ?s' = trace s" using irq_keeps(2) [of s] p by simp
    have u: "used_addrs (?am, m2) = insert t (used_addrs (?am, ram s))" by (rule te(6))
    show "pages_taken ?am (ram s) (ram ?s') [t, ks, stk, dir]"
      using te(1,2) i(7-9) u by (auto simp: pages_taken_def)
    show "fresh_space e (ram s) (ram ?s') dir" using i(5,6) te(9) by (simp add: fresh_space_def)
    show "task_lists e (ram ?s') (us @ [t]) (rs @ [t])" using task_lists_frame [OF te(11) i(12) Gk] by simp
    have "ld32 m3 (tk_status t) = ld32 m2 (tk_status t)" "ld32 m3 (tk_pid t) = ld32 m2 (tk_pid t)" "ld32 m3 (tk_parent t) = ld32 m2 (tk_parent t)"
      "ld32 m3 (tk_ifkernel t) = ld32 m2 (tk_ifkernel t)" "ld32 m3 (tk_ticks t) = ld32 m2 (tk_ticks t)"
      "ld32 m3 (tk_default_ticks t) = ld32 m2 (tk_default_ticks t)"
      using kept [of 0] kept [of 136] kept [of 116] kept [of 112] kept [of 140] kept [of 144] by (simp_all add: tk_fields)
    then show "task_fields t (ram ?s') (ld32 (ram s) (global_pid e) + 1) 0 (ucast USER_PROC)" using te(12) by (simp add: task_fields_def)
    have pw: "word_bytes (global_pid e) \<inter> ?G = {}"
    proof -
      have "word_bytes (global_pid e) \<subseteq> ?X" "word_bytes (global_pid e) \<inter> tasks_bytes (insert t ?T) = {}" "word_bytes (global_pid e) \<inter> gdt_bytes e = {}"
        using apart by (auto simp: data_apart_def fixed_data_def)
      then show ?thesis using bits i(8) ti(1) tX(2) by blast
    qed
    have "ld32 m3 (global_pid e) = ld32 m2 (global_pid e)"
      by (rule ld32_cong) (use i(12) pw in \<open>auto simp: same_outside_def\<close>)
    then show "ld32 (ram ?s') (global_pid e) = ld32 (ram s) (global_pid e) + 1" using te(13) by simp
    show "\<forall>(r, v)\<in>set (user_regs eip0 ks stk dir). ld32 (ram ?s') (tk_tss t + tss_offset r) = v"
      "tss_descriptor e (ld32 (ram ?s') (tk_tss_sel t)) (ram ?s') t" using i(2,3) by simp_all
    show "\<forall>i<256. \<not> entry_free (gdt_entry_at (ram s) (slot8 (old_gdt e) i)) \<longrightarrow>
       gdt_entry_at (ram ?s') (slot8 (old_gdt e) i) = gdt_entry_at (ram s) (slot8 (old_gdt e) i)"
      using i(4) gdt2 by simp
    have "same_outside (task_writes e us rs t dir) (ram s) m3"
      by (rule same_outside_trans [OF te(14) i(12)]) (use tX(2) in \<open>auto simp: task_writes_def\<close>)
    then show "same_outside (task_writes e us rs t dir) (ram s) (ram ?s')" by simp
    show "data_apart e (insert t ?T)" "region t 4096 \<inter> ?X = {}" "aligned4 t" by (fact apart te(3) te(5))+
    show "region dir 4096 \<inter> ?X1 = {}" using i(8) by simp
  qed
qed

end
