(* ===== verification/Fork.thy ===== *)
theory Fork
  imports Syscall Task_Make
begin

text \<open>
  What \<open>sys_fork\<close> makes of the process that calls it: the child's registers, from the user
  program's interrupt through the system call frame to the child's task-state segment; and the
  first user process, which forks.
\<close>

section \<open>Copying the frame\<close>

text \<open>Registers copied from a frame that lies apart from the segment.\<close>

lemma copy_registers:
  fixes f t and copies :: "(tss_reg \<times> u32) list"
  defines "go \<equiv> fold (\<lambda>(r, off) m. put_tss t r (ld32 m (f + off)) m)"
  assumes al: "aligned4 (tk_tss t)" and apart: "\<forall>(r, off)\<in>set copies. word_bytes (f + off) \<inter> tss_of t = {}"
    and dist: "distinct (map fst copies)"
  shows "same_outside (tss_of t) m (go copies m)"
    "(r, off) \<in> set copies \<Longrightarrow> ld32 (go copies m) (tk_tss t + tss_offset r) = ld32 m (f + off)"
    "r \<notin> fst ` set copies \<Longrightarrow> ld32 (go copies m) (tk_tss t + tss_offset r) = ld32 m (tk_tss t + tss_offset r)"
proof -
  have "same_outside (tss_of t) m (go copies m)
    \<and> (\<forall>(r, off)\<in>set copies. ld32 (go copies m) (tk_tss t + tss_offset r) = ld32 m (f + off))
    \<and> (\<forall>r. r \<notin> fst ` set copies \<longrightarrow> ld32 (go copies m) (tk_tss t + tss_offset r) = ld32 m (tk_tss t + tss_offset r))"
    using apart dist
  proof (induction copies arbitrary: m)
    case (Cons c cs)
    obtain q o' where c: "c = (q, o')" by fastforce
    let ?m = "put_tss t q (ld32 m (f + o')) m"
    have IH: "same_outside (tss_of t) ?m (go cs ?m)"
      "\<forall>(r, off)\<in>set cs. ld32 (go cs ?m) (tk_tss t + tss_offset r) = ld32 ?m (f + off)"
      "\<forall>r. r \<notin> fst ` set cs \<longrightarrow> ld32 (go cs ?m) (tk_tss t + tss_offset r) = ld32 ?m (tk_tss t + tss_offset r)"
      using Cons.IH [of ?m] Cons.prems by auto
    have keep: "ld32 ?m (f + off) = ld32 m (f + off)" if "(r, off) \<in> set cs" for r off
    proof -
      have "word_bytes (f + off) \<inter> tss_of t = {}" using Cons.prems(1) that by fastforce
      then show ?thesis using put_tss_outside [of t m q "ld32 m (f + o')"]
        by (intro ld32_cong) (auto simp: same_outside_def)
    qed
    have q: "q \<notin> fst ` set cs" using Cons.prems(2) c by simp
    have "same_outside (tss_of t) m (go cs ?m)"
      by (rule same_outside_step [OF put_tss_outside IH(1)])
    then show ?case using IH keep q by (auto simp: c go_def ld32_put_tss [OF al] split: if_splits)
  qed (simp add: go_def)
  then show "same_outside (tss_of t) m (go copies m)"
    "(r, off) \<in> set copies \<Longrightarrow> ld32 (go copies m) (tk_tss t + tss_offset r) = ld32 m (f + off)"
    "r \<notin> fst ` set copies \<Longrightarrow> ld32 (go copies m) (tk_tss t + tss_offset r) = ld32 m (tk_tss t + tss_offset r)"
    by auto
qed

lemma frame_word: "(r, off) \<in> set fork_copies \<Longrightarrow> word_bytes (f + off) \<subseteq> region f 80"
proof -
  assume "(r, off) \<in> set fork_copies"
  then have "off = of_nat (unat off) \<and> unat off + 4 \<le> 80" by (auto simp: fork_copies_def)
  then show ?thesis using word_in_region [of "unat off" 80 _ f] by auto
qed

lemma fork_copies_simps: "distinct (map fst fork_copies)" "Eax \<notin> fst ` set fork_copies"
  by (simp_all add: fork_copies_def)

section \<open>The child of a fork\<close>

text \<open>
  What the copying relies on: the new task is made without touching the frame, and lies apart from
  it, from the task that forks and from the word that keeps the interrupt state.
\<close>

definition fork_layout :: "old_env \<Rightarrow> u32 \<Rightarrow> u32 \<Rightarrow> u32 \<Rightarrow> bool" where
  "fork_layout e f cur new \<longleftrightarrow> aligned4 new \<and> region f 80 \<inter> region new 148 = {}
     \<and> region cur 148 \<inter> region new 148 = {}
     \<and> word_bytes (pr_irq_state e) \<inter> (region f 80 \<union> region cur 148 \<union> region new 148) = {}"

definition fork_writes :: "old_env \<Rightarrow> u32 \<Rightarrow> u32 set" where
  "fork_writes e t = word_bytes (pr_irq_state e) \<union> tss_of t \<union> word_bytes (tk_parent t) \<union> word_bytes (tk_ifkernel t)"

lemma sys_fork_copies:
  assumes init: "init_task e (ld32 (ram s) (f + 68)) s = Some (s1, new)" "\<And>x. x \<in> region f 80 \<Longrightarrow> ram s1 x = ram s x"
    and layout: "fork_layout e f (cur_task e (ram s)) new"
  shows "\<exists>s'. sys_fork e f s = Some (s', ld32 (ram s1) (tk_pid new))
    \<and> (\<forall>(r, off)\<in>set fork_copies. ld32 (ram s') (tk_tss new + tss_offset r) = ld32 (ram s) (f + off))
    \<and> ld32 (ram s') (tk_tss new + tss_offset Eax) = 0
    \<and> (\<forall>r. r \<notin> fst ` set fork_copies \<and> r \<noteq> Eax \<longrightarrow>
        ld32 (ram s') (tk_tss new + tss_offset r) = ld32 (ram s1) (tk_tss new + tss_offset r))
    \<and> ld32 (ram s') (tk_parent new) = cur_task e (ram s)
    \<and> ld32 (ram s') (tk_ifkernel new) = ld32 (ram s1) (tk_ifkernel (cur_task e (ram s)))
    \<and> get_irq_status s' = get_irq_status s1 \<and> same_outside (fork_writes e new) (ram s1) (ram s')"
proof -
  let ?cur = "cur_task e (ram s)" and ?w = "pr_irq_state e" and ?N = "region new 148" and ?W = "fork_writes e new"
  have new: "aligned4 new" "aligned4 (tk_tss new)" and fN: "region f 80 \<inter> ?N = {}" and cN: "region ?cur 148 \<inter> ?N = {}"
    and wf: "word_bytes ?w \<inter> (region f 80 \<union> region ?cur 148 \<union> ?N) = {}"
    using layout by (simp_all add: fork_layout_def tk_tss_def align_simps)
  obtain st s2 where p: "irq_enter_protection s1 = (st, s2)" by fastforce
  have s2: "ram s2 = ram s1" using irq_keeps(1) [of s1] p by simp
  define m0 where "m0 = st32 (ram s1) ?w (irq_status_code st)"
  define m1 where "m1 = fold (\<lambda>(r, off) m. put_tss new r (ld32 m (f + off)) m) fork_copies m0"
  define m2 where "m2 = st32 m1 (tk_parent new) ?cur"
  define m3 where "m3 = st32 m2 (tk_ifkernel new) (ld32 m2 (tk_ifkernel ?cur))"
  define m4 where "m4 = put_tss new Eax 0 m3"
  have T: "tss_of new \<subseteq> ?N" using part_region [of 4 104 148 new] by (simp add: tss_of_def tk_tss_def)
  have sub: "word_bytes (tk_parent new) \<subseteq> ?N" "word_bytes (tk_ifkernel new) \<subseteq> ?N"
    "word_bytes (tk_ifkernel ?cur) \<subseteq> region ?cur 148" "word_bytes (tk_pid new) \<subseteq> ?N"
    using region_word [of 116 148 new] region_word [of 112 148 new] region_word [of 112 148 ?cur] region_word [of 136 148 new]
    by (simp_all add: tk_fields)
  have WN: "?W \<subseteq> word_bytes ?w \<union> ?N" using T sub by (auto simp: fork_writes_def)
  have off: "\<forall>(r, off)\<in>set fork_copies. word_bytes (f + off) \<inter> tss_of new = {}"
    using frame_word [of _ _ f] fN T by blast
  note c = copy_registers [OF new(2) off fork_copies_simps(1), where m = m0, folded m1_def]
  have u0: "same_outside ?W (ram s1) m0" unfolding m0_def by (rule same_outside_st32) (auto simp: fork_writes_def)
  have u1: "same_outside (tss_of new) m0 m1" by (rule c(1))
  have u2: "same_outside (word_bytes (tk_parent new)) m1 m2" "same_outside (word_bytes (tk_ifkernel new)) m2 m3"
    unfolding m2_def m3_def by (rule same_outside_st32, simp)+
  have u4: "same_outside (tss_of new) m3 m4" unfolding m4_def by (rule put_tss_outside)
  let ?V = "tss_of new \<union> word_bytes (tk_parent new) \<union> word_bytes (tk_ifkernel new)"
  have v: "same_outside ?V m0 m1" "same_outside ?V m1 m2" "same_outside ?V m2 m3" "same_outside ?V m3 m4"
    by (rule same_outside_mono [OF u1] same_outside_mono [OF u2(1)] same_outside_mono [OF u2(2)] same_outside_mono [OF u4], blast)+
  have u: "same_outside ?V m0 m4"
    by (rule v(1) [THEN same_outside_step, OF v(2) [THEN same_outside_step, OF v(3) [THEN same_outside_step, OF v(4)]]])
  have tssw: "tk_tss new + tss_offset r \<noteq> tk_parent new \<and> tk_tss new + tss_offset r \<noteq> tk_ifkernel new" "aligned4 (tk_tss new + tss_offset r)" for r
    using new(2) by ((cases r; simp add: tk_fields add.assoc), simp add: aligned4_add tss_offset_aligned)
  have words: "aligned4 (tk_parent new)" "aligned4 (tk_ifkernel new)" "tk_parent new \<noteq> tk_ifkernel new"
    using new(1) by (simp_all add: tk_fields align_simps)
  have other: "ld32 m4 x = ld32 m3 x" if "x = tk_parent new \<or> x = tk_ifkernel new" for x
    unfolding m4_def put_tss_def using that tssw [of Eax] words by (intro ld32_st32_other) auto
  have regs: "ld32 m4 (tk_tss new + tss_offset r) = (if r = Eax then 0 else ld32 m1 (tk_tss new + tss_offset r))" for r
    using tssw [of r] words by (auto simp: m4_def ld32_put_tss [OF new(2)] m3_def m2_def ld32_st32_other)
  have far: "ld32 m4 x = ld32 m0 x" if "word_bytes x \<inter> ?V = {}" for x
    using u that by (intro ld32_cong) (auto simp: same_outside_def)
  have m0: "ld32 m0 x = ld32 (ram s1) x" if "word_bytes x \<inter> word_bytes ?w = {}" for x
    unfolding m0_def using that by (intro ld32_cong) (auto intro!: st32_other_byte)
  have child: "ld32 m4 (tk_tss new + tss_offset r) = ld32 (ram s) (f + off)" if ro: "(r, off) \<in> set fork_copies" for r off
  proof -
    have "r \<noteq> Eax" using ro fork_copies_simps(2) by (metis fst_conv image_eqI)
    moreover have "ld32 m1 (tk_tss new + tss_offset r) = ld32 m0 (f + off)" by (rule c(2) [OF ro])
    moreover have "ld32 m0 (f + off) = ld32 (ram s1) (f + off)" using frame_word [OF ro, of f] wf by (intro m0) blast
    moreover have "ld32 (ram s1) (f + off) = ld32 (ram s) (f + off)"
      using frame_word [OF ro, of f] init(2) by (intro ld32_cong) blast
    ultimately show ?thesis by (simp add: regs)
  qed
  have rest: "ld32 m4 (tk_tss new + tss_offset r) = ld32 (ram s1) (tk_tss new + tss_offset r)"
    if "r \<notin> fst ` set fork_copies" "r \<noteq> Eax" for r
  proof -
    have "word_bytes (tk_tss new + tss_offset r) \<inter> word_bytes ?w = {}" using tss_word [of new r] T wf by blast
    then show ?thesis using c(3) [OF that(1)] that(2) m0 by (simp add: regs)
  qed
  have parent: "ld32 m4 (tk_parent new) = ?cur" using other words by (simp add: m3_def m2_def ld32_st32 ld32_st32_other)
  have "word_bytes (tk_ifkernel ?cur) \<inter> ?V = {}" using sub(1-3) T cN by blast
  then have "ld32 m2 (tk_ifkernel ?cur) = ld32 m0 (tk_ifkernel ?cur)"
    using same_outside_step [OF v(1,2)] by (intro ld32_cong) (auto simp: same_outside_def)
  also have "\<dots> = ld32 (ram s1) (tk_ifkernel ?cur)" using sub(3) wf by (intro m0) blast
  finally have kern: "ld32 m4 (tk_ifkernel new) = ld32 (ram s1) (tk_ifkernel ?cur)" using other by (simp add: m3_def ld32_st32)
  have "word_bytes (tk_pid new) \<inter> ?V = {}"
  proof -
    have "word_bytes (tk_pid new) \<subseteq> region (new + 136) 4" "tss_of new = region (new + 4) 104"
      "word_bytes (tk_parent new) \<subseteq> region (new + 116) 4" "word_bytes (tk_ifkernel new) \<subseteq> region (new + 112) 4"
      using region_word [of 0 4 "new + 136"] region_word [of 0 4 "new + 116"] region_word [of 0 4 "new + 112"]
      by (simp_all add: tk_fields tss_of_def)
    then show ?thesis
      using parts_apart [of 4 104 136 4 new] parts_apart [of 116 4 136 4 new] parts_apart [of 112 4 136 4 new] by auto
  qed
  from far [OF this] have pid4: "ld32 m4 (tk_pid new) = ld32 m0 (tk_pid new)" .
  have "word_bytes (tk_pid new) \<inter> word_bytes ?w = {}" using sub(4) wf by blast
  from m0 [OF this] have pid: "ld32 m4 (tk_pid new) = ld32 (ram s1) (tk_pid new)" using pid4 by simp
  have "word_bytes ?w \<inter> ?V = {}" using wf T sub(1,2) by blast
  then have "ld32 m4 ?w = irq_status_code st" using far [of ?w] by (simp add: m0_def ld32_st32)
  then have st: "irq_status_of (ld32 m4 ?w) = st" by (cases st) (simp_all add: irq_status_of_def irq_status_code_def)
  let ?s' = "irq_leave_protection st (s2\<lparr>ram := m4\<rparr>)"
  have r: "ram ?s' = m4" by (simp add: irq_keeps)
  have "sys_fork e f s = Some (?s', ld32 m4 (tk_pid new))"
    using init(1) st by (simp add: sys_fork_def Let_def p s2 m0_def [symmetric] m1_def [symmetric] m2_def [symmetric]
        m3_def [symmetric] m4_def [symmetric] r)
  moreover have "get_irq_status ?s' = get_irq_status s1" using irq_restore [of s1] p by simp
  moreover have "same_outside ?W (ram s1) m4"
    by (rule same_outside_trans [OF u0 u]) (auto simp: fork_writes_def)
  moreover have "ld32 m4 (tk_tss new + tss_offset Eax) = 0" by (simp only: regs) simp
  ultimately show ?thesis using child rest parent kern pid r by (intro exI [of _ ?s']) auto
qed

lemma ifkernel_apart:
  assumes "data_apart e (set us \<union> set rs)" "c \<in> set us \<union> set rs"
  shows "word_bytes (tk_ifkernel c) \<inter> (gdt_bytes e \<union> word_bytes (global_pid e) \<union> general_bytes e us \<union> ready_bytes e rs) = {}"
proof -
  let ?T = "set us \<union> set rs"
  have w: "word_bytes (tk_ifkernel c) \<subseteq> region (c + 112) 4" "region (c + 112) 4 \<subseteq> region c 148"
    using region_word [of 0 4 "c + 112"] part_region [of 112 4 148 c] by (simp_all add: tk_fields)
  have m: "region c 148 \<inter> fixed_data e = {}" using assms by (auto simp: data_apart_def tasks_bytes_def)
  have own: "region (c + 112) 4 \<inter> (region (c + 128) 8 \<union> region (c + 120) 8) = {}"
    using parts_apart [of 112 4 128 8 c] parts_apart [of 112 4 120 8 c] by (simp add: Int_Un_distrib)
  have n: "region (c + 112) 4 \<inter> (region (u + 128) 8 \<union> region (u + 120) 8) = {}" if "u \<in> ?T" for u
  proof (cases "u = c")
    case False
    then have "region c 148 \<inter> region u 148 = {}" using assms that by (simp add: data_apart_def)
    then show ?thesis using w(2) task_parts(2,3) [of u] by blast
  qed (use own in simp)
  have "region (c + 112) 4 \<inter> general_bytes e us = {}" "region (c + 112) 4 \<inter> ready_bytes e rs = {}"
    unfolding queue_bytes using n m w(2) manage_parts(1,2) [of e] by (fastforce simp: fixed_data_def)+
  then show ?thesis using w m by (auto simp: fixed_data_def)
qed

lemma fork_writes_parts:
  "fork_writes e t \<subseteq> word_bytes (pr_irq_state e) \<union> (region (t + 4) 104 \<union> region (t + 112) 8)"
  "region (t + 4) 104 \<union> region (t + 112) 8 \<subseteq> region t 148"
  "j \<in> {0, 108, 136, 140, 144} \<Longrightarrow> word_bytes (t + of_nat j) \<inter> (region (t + 4) 104 \<union> region (t + 112) 8) = {}"
  "(region (t + 4) 104 \<union> region (t + 112) 8) \<inter> (region (t + 120) 8 \<union> region (t + 128) 8) = {}"
proof -
  have "word_bytes (t + 116) \<subseteq> region (t + 112) 8" using region_word [of 4 8 "t + 112"] by (simp add: add.assoc)
  then show "fork_writes e t \<subseteq> word_bytes (pr_irq_state e) \<union> (region (t + 4) 104 \<union> region (t + 112) 8)"
    using region_words(1) [of "t + 112"] by (auto simp: fork_writes_def tk_fields tss_of_def)
  show "region (t + 4) 104 \<union> region (t + 112) 8 \<subseteq> region t 148"
    using part_region [of 4 104 148 t] part_region [of 112 8 148 t] by simp
  have w: "word_bytes (t + of_nat j) \<subseteq> region (t + of_nat j) 4" for j :: nat using region_word [of 0 4 "t + of_nat j"] by simp
  show "word_bytes (t + of_nat j) \<inter> (region (t + 4) 104 \<union> region (t + 112) 8) = {}" if "j \<in> {0, 108, 136, 140, 144}"
    using that w [of j] parts_apart [of 0 4 4 104 t] parts_apart [of 0 4 112 8 t] parts_apart [of 4 104 108 4 t] parts_apart [of 108 4 112 8 t]
      parts_apart [of 4 104 136 4 t] parts_apart [of 112 8 136 4 t] parts_apart [of 4 104 140 4 t] parts_apart [of 112 8 140 4 t]
      parts_apart [of 4 104 144 4 t] parts_apart [of 112 8 144 4 t]
    by (elim insertE emptyE; hypsubst; auto)
  show "(region (t + 4) 104 \<union> region (t + 112) 8) \<inter> (region (t + 120) 8 \<union> region (t + 128) 8) = {}"
    using parts_apart [of 4 104 120 8 t] parts_apart [of 4 104 128 8 t] parts_apart [of 112 8 120 8 t] parts_apart [of 112 8 128 8 t]
    by (simp add: Int_Un_distrib Int_Un_distrib2)
qed

text \<open>The rest of the child and of the machine is as \<open>init_task\<close> left it.\<close>

lemma fork_keeps:
  assumes w: "same_outside (fork_writes e t) m1 m2"
    and apart: "data_apart e (insert t (set us \<union> set rs))" "region t 148 \<inter> (fixed_data e \<union> tasks_bytes (set us \<union> set rs)) = {}"
    and irq: "word_bytes (pr_irq_state e) \<inter> (fixed_data e \<union> tasks_bytes (set us \<union> set rs) \<union> region t 148) = {}"
  shows "task_lists e m1 (us @ [t]) (rs @ [t]) \<Longrightarrow> task_lists e m2 (us @ [t]) (rs @ [t])"
    "\<And>j. j \<in> {0, 108, 136, 140, 144} \<Longrightarrow> ld32 m2 (t + of_nat j) = ld32 m1 (t + of_nat j)"
    "\<And>i. i < 256 \<Longrightarrow> gdt_entry_at m2 (slot8 (old_gdt e) i) = gdt_entry_at m1 (slot8 (old_gdt e) i)"
proof -
  let ?P = "region (t + 4) 104 \<union> region (t + 112) 8" and ?T = "set us \<union> set rs"
  note fw = fork_writes_parts(1) [of e t] and P = fork_writes_parts(2) [of t]
  have "fork_writes e t \<inter> (general_bytes e (us @ [t]) \<union> ready_bytes e (rs @ [t])) = {}"
  proof -
    have q: "general_bytes e (us @ [t]) \<union> ready_bytes e (rs @ [t]) \<subseteq> fixed_data e \<union> tasks_bytes ?T \<union> (region (t + 120) 8 \<union> region (t + 128) 8)"
      using queues_in(1) [of e us] queues_in(2) [of e rs] by (auto simp: queue_bytes tasks_bytes_def fixed_data_def)
    have "region (t + 120) 8 \<union> region (t + 128) 8 \<subseteq> region t 148" using task_parts(2,3) by blast
    then have "(word_bytes (pr_irq_state e) \<union> ?P) \<inter> (fixed_data e \<union> tasks_bytes ?T \<union> (region (t + 120) 8 \<union> region (t + 128) 8)) = {}"
      using irq apart(2) P fork_writes_parts(4) [of t] by blast
    then show ?thesis using q fw by blast
  qed
  then show "task_lists e m1 (us @ [t]) (rs @ [t]) \<Longrightarrow> task_lists e m2 (us @ [t]) (rs @ [t])"
    by (intro task_lists_frame [OF _ w])
  show "ld32 m2 (t + of_nat j) = ld32 m1 (t + of_nat j)" if j: "j \<in> {0, 108, 136, 140, 144}" for j
  proof (rule ld32_cong)
    fix x assume x: "x \<in> word_bytes (t + of_nat j)"
    have "j + 4 \<le> 148" using j by auto
    from region_word [OF this] have "x \<in> region t 148" using x by blast
    then have "x \<notin> word_bytes (pr_irq_state e)" using irq by blast
    moreover have "x \<notin> ?P" using fork_writes_parts(3) [OF j, of t] x by blast
    ultimately have "x \<notin> fork_writes e t" using fw by blast
    then show "m2 x = m1 x" using w by (simp add: same_outside_def)
  qed
  have "gdt_bytes e \<subseteq> fixed_data e" by (auto simp: fixed_data_def)
  then have "fork_writes e t \<inter> gdt_bytes e = {}" using fw P irq apart(2) by blast
  then show "\<And>i. i < 256 \<Longrightarrow> gdt_entry_at m2 (slot8 (old_gdt e) i) = gdt_entry_at m1 (slot8 (old_gdt e) i)"
    by (rule gdt_frame [OF w])
qed

lemma sys_fork_child:
  fixes e f s us rs
  defines "c \<equiv> cur_task e (ram s)" and "D \<equiv> region f 80 \<union> word_bytes (pr_irq_state e)"
    and "X \<equiv> fixed_data e \<union> tasks_bytes (set us \<union> set rs)" and "pid \<equiv> ld32 (ram s) (global_pid e) + 1"
  assumes ready: "tasks_ready e 4 (ram s) us rs" and cur: "c \<in> set us \<union> set rs"
    and own: "owned (pages e) (kernel_table e) (ram s) D" and D: "D \<inter> X = {}" "region f 80 \<inter> word_bytes (pr_irq_state e) = {}"
  shows "\<exists>s' t kstack stack dir. sys_fork e f s = Some (s', pid)
    \<and> pages_taken (pages e) (ram s) (ram s') [t, kstack, stack, dir] \<and> fresh_space e (ram s) (ram s') dir
    \<and> task_lists e (ram s') (us @ [t]) (rs @ [t]) \<and> task_fields t (ram s') pid c (ld32 (ram s) (tk_ifkernel c))
    \<and> tss_descriptor e (ld32 (ram s') (tk_tss_sel t)) (ram s') t
    \<and> (\<forall>(r, off)\<in>set fork_copies. ld32 (ram s') (tk_tss t + tss_offset r) = ld32 (ram s) (f + off))
    \<and> (\<forall>(r, v)\<in>set [(Eax, 0), (Esp0, kstack), (Ss0, ucast KERNEL_SELECTOR_DS), (Ss, ucast USER_SELECTOR_DS), (Cr3, dir)].
        ld32 (ram s') (tk_tss t + tss_offset r) = v)
    \<and> get_irq_status s' = get_irq_status s
    \<and> same_outside (task_writes e us rs t dir \<union> word_bytes (pr_irq_state e)) (ram s) (ram s')"
proof -
  have "tasks_ready e (4 + 0) (ram s) us rs" using ready by simp
  then obtain s1 t ks stk dir where i: "init_task e (ld32 (ram s) (f + 68)) s = Some (s1, t)"
    "get_irq_status s1 = get_irq_status s" "trace s1 = trace s"
    "pages_taken (pages e) (ram s) (ram s1) [t, ks, stk, dir]" "fresh_space e (ram s) (ram s1) dir"
    "task_lists e (ram s1) (us @ [t]) (rs @ [t])"
    "task_fields t (ram s1) pid 0 (ucast USER_PROC)" "ld32 (ram s1) (global_pid e) = ld32 (ram s) (global_pid e) + 1"
    "\<forall>(r, v)\<in>set (user_regs (ld32 (ram s) (f + 68)) ks stk dir). ld32 (ram s1) (tk_tss t + tss_offset r) = v"
    "tss_descriptor e (ld32 (ram s1) (tk_tss_sel t)) (ram s1) t"
    "\<forall>i<256. \<not> entry_free (gdt_entry_at (ram s) (slot8 (old_gdt e) i)) \<longrightarrow>
       gdt_entry_at (ram s1) (slot8 (old_gdt e) i) = gdt_entry_at (ram s) (slot8 (old_gdt e) i)"
    "same_outside (task_writes e us rs t dir) (ram s) (ram s1)"
    "data_apart e (insert t (set us \<union> set rs))" "region t 4096 \<inter> X = {}" "aligned4 t" "region dir 4096 \<inter> (X \<union> region t 4096) = {}"
    unfolding pid_def X_def by (rule init_task_makes)
  let ?w = "word_bytes (pr_irq_state e)" and ?am = "pages e"
  have tD: "region t 4096 \<inter> D = {}" "region dir 4096 \<inter> D = {}" using taken_apart [OF i(4) _ own] by simp_all
  have t4: "region t 148 \<subseteq> region t 4096" by (rule region_mono) simp
  have cX: "region c 148 \<subseteq> X" using cur unfolding X_def tasks_bytes_def by blast
  have bits: "pool_bits ?am \<inter> (X \<union> D) = {}" using own ready by (auto simp: owned_def tasks_ready_def X_def)
  have qX: "general_bytes e us \<subseteq> X" "ready_bytes e rs \<subseteq> X"
    using queues_in(1) [of e us] queues_in(2) [of e rs] by (auto simp: X_def fixed_data_def tasks_bytes_def)
  have gX: "gdt_bytes e \<subseteq> X" "word_bytes (global_pid e) \<subseteq> X" by (auto simp: X_def fixed_data_def)
  have Wf: "task_writes e us rs t dir \<inter> D = {}"
    unfolding task_writes_def using bits qX gX D(1) tD t4 by blast
  have f: "ram s1 x = ram s x" if "x \<in> region f 80" for x
    using i(12) Wf that by (auto simp: same_outside_def D_def)
  have layout: "fork_layout e f c t"
    unfolding fork_layout_def using i(14,15) tD(1) t4 cX D by (auto simp: D_def)
  note fk = sys_fork_copies [OF i(1) f layout [unfolded c_def]]
  obtain s' where s': "sys_fork e f s = Some (s', ld32 (ram s1) (tk_pid t))"
    "\<forall>(r, off)\<in>set fork_copies. ld32 (ram s') (tk_tss t + tss_offset r) = ld32 (ram s) (f + off)"
    "ld32 (ram s') (tk_tss t + tss_offset Eax) = 0"
    "\<forall>r. r \<notin> fst ` set fork_copies \<and> r \<noteq> Eax \<longrightarrow> ld32 (ram s') (tk_tss t + tss_offset r) = ld32 (ram s1) (tk_tss t + tss_offset r)"
    "ld32 (ram s') (tk_parent t) = c" "ld32 (ram s') (tk_ifkernel t) = ld32 (ram s1) (tk_ifkernel c)"
    "get_irq_status s' = get_irq_status s1" "same_outside (fork_writes e t) (ram s1) (ram s')"
    using fk unfolding c_def by blast
  have irqw: "?w \<inter> (X \<union> region t 148) = {}" using D tD(1) t4 unfolding D_def by blast
  have tX: "region t 148 \<inter> X = {}" using i(14) t4 by blast
  note k = fork_keeps [OF s'(8) i(13) tX [unfolded X_def] irqw [unfolded X_def]]
  have tb: "region t 4096 \<inter> pool_bits ?am = {}" "region dir 4096 \<inter> pool_bits ?am = {}"
    using taken_apart(2) [OF i(4) _ own] by simp_all
  have fw: "fork_writes e t \<subseteq> ?w \<union> region t 148" using fork_writes_parts(1) [of e t] fork_writes_parts(2) [of t] by blast
  have used: "used_addrs (?am, ram s') = used_addrs (?am, ram s1)"
  proof -
    have "fork_writes e t \<inter> pool_bits ?am = {}" using fw bits tb(1) t4 by (auto simp: D_def)
    then have "used ?am (ram s') = used ?am (ram s1)" using s'(8) by (intro used_cong) (auto simp: same_outside_def)
    then show ?thesis by (simp add: used_addrs_def)
  qed
  have taken: "pages_taken ?am (ram s) (ram s') [t, ks, stk, dir]" using i(4) used by (simp add: pages_taken_def)
  have space: "fresh_space e (ram s) (ram s') dir"
  proof -
    have al: "page_aligned dir" using i(4) by (simp add: pages_taken_def)
    have "pde (ram s') dir d = pde (ram s1) dir d" if "d < 1024" for d
      unfolding pde_def
    proof (rule table_word_cong [OF al that])
      fix x assume "page_of x = page_of dir"
      then have "x \<in> region dir 4096" by (rule page_in_region [OF al])
      then have "x \<notin> fork_writes e t" using fw tD(2) i(16) t4 by (auto simp: D_def)
      then show "ram s' x = ram s1 x" using s'(8) by (simp add: same_outside_def)
    qed
    then show ?thesis using i(5) by (simp add: fresh_space_def)
  qed
  have ifk: "ld32 (ram s1) (tk_ifkernel c) = ld32 (ram s) (tk_ifkernel c)"
  proof (rule ld32_cong)
    fix x assume x: "x \<in> word_bytes (tk_ifkernel c)"
    have "data_apart e (set us \<union> set rs)" using ready by (simp add: tasks_ready_def)
    note ap = ifkernel_apart [OF this cur]
    have "x \<in> X" using x region_word [of 112 148 c] cX by (auto simp: tk_fields)
    then have "x \<notin> task_writes e us rs t dir" unfolding task_writes_def using x ap bits tX i(16) by blast
    then show "ram s1 x = ram s x" using i(12) by (simp add: same_outside_def)
  qed
  have fields: "task_fields t (ram s') pid c (ld32 (ram s) (tk_ifkernel c))"
    using i(7) s'(5,6) ifk k(2) [of 0] k(2) [of 136] k(2) [of 140] k(2) [of 144] by (simp add: task_fields_def tk_fields)
  have desc: "tss_descriptor e (ld32 (ram s') (tk_tss_sel t)) (ram s') t"
    using i(10) k(2) [of 108] k(3) by (simp add: tss_descriptor_def tk_fields gdt_desc_slot Let_def)
  have "r \<in> {Esp0, Ss0, Ss, Cr3} \<Longrightarrow> r \<notin> fst ` set fork_copies \<and> r \<noteq> Eax" for r by (auto simp: fork_copies_def)
  then have regs: "\<forall>(r, v)\<in>set [(Eax, 0), (Esp0, ks), (Ss0, ucast KERNEL_SELECTOR_DS), (Ss, ucast USER_SELECTOR_DS), (Cr3, dir)].
      ld32 (ram s') (tk_tss t + tss_offset r) = v"
    using s'(3,4) i(9) by (simp add: user_regs_def del: tss_offset.simps)
  have pid: "ld32 (ram s1) (tk_pid t) = pid" using i(7) by (simp add: task_fields_def)
  have frame: "same_outside (task_writes e us rs t dir \<union> ?w) (ram s) (ram s')"
    by (rule same_outside_trans [OF i(12) s'(8)]) (use fw in \<open>auto simp: task_writes_def\<close>)
  show ?thesis
    using s'(1,2,7) pid taken space k(1) [OF i(6)] fields desc regs i(2) frame
    by (intro exI [of _ s'] exI [of _ t] exI [of _ ks] exI [of _ stk] exI [of _ dir]) simp
qed

section \<open>From the interrupt to the child\<close>

text \<open>All that a fork makes, and that it survives writing elsewhere.\<close>

definition child_made where
  "child_made e m m' us rs t ps dir pid c ifkernel rvs \<longleftrightarrow> pages_taken (pages e) m m' ps \<and> fresh_space e m m' dir
     \<and> task_lists e m' (us @ [t]) (rs @ [t]) \<and> task_fields t m' pid c ifkernel
     \<and> tss_descriptor e (ld32 m' (tk_tss_sel t)) m' t
     \<and> (\<forall>(r, v)\<in>set rvs. ld32 m' (tk_tss t + tss_offset r) = v)"

definition child_bytes :: "old_env \<Rightarrow> u32 list \<Rightarrow> u32 list \<Rightarrow> u32 \<Rightarrow> u32 \<Rightarrow> u32 set" where
  "child_bytes e us rs t dir = pool_bits (pages e) \<union> fixed_data e \<union> tasks_bytes (set us \<union> set rs) \<union> region t 148 \<union> region dir 4096"

lemma child_made_frame:
  assumes c: "child_made e m m' us rs t ps dir pid c ifkernel rvs" "page_aligned dir"
    and w: "same_outside R m' m''" "R \<inter> child_bytes e us rs t dir = {}"
  shows "child_made e m m'' us rs t ps dir pid c ifkernel rvs"
proof -
  have keep: "ld32 m'' x = ld32 m' x" if "word_bytes x \<subseteq> child_bytes e us rs t dir" for x
    using that w by (intro ld32_cong) (auto simp: same_outside_def)
  have t: "region t 148 \<subseteq> child_bytes e us rs t dir" by (auto simp: child_bytes_def)
  have fields: "ld32 m'' (t + of_nat j) = ld32 m' (t + of_nat j)" if "j + 4 \<le> 148" for j
    using region_word [OF that, of t] t by (intro keep) blast
  have u: "used (pages e) m'' = used (pages e) m'"
    using w by (intro used_cong) (auto simp: same_outside_def child_bytes_def)
  have p: "pde m'' dir d = pde m' dir d" if "d < 1024" for d
    unfolding pde_def
  proof (rule table_word_cong [OF c(2) that])
    fix x assume "page_of x = page_of dir"
    then have "x \<in> child_bytes e us rs t dir" using page_in_region [OF c(2)] by (simp add: child_bytes_def)
    then show "m'' x = m' x" using w by (auto simp: same_outside_def)
  qed
  have "R \<inter> (general_bytes e (us @ [t]) \<union> ready_bytes e (rs @ [t])) = {}"
  proof -
    have "general_bytes e (us @ [t]) \<subseteq> child_bytes e us rs t dir" "ready_bytes e (rs @ [t]) \<subseteq> child_bytes e us rs t dir"
      using queues_in(1) [of e "us @ [t]"] queues_in(2) [of e "rs @ [t]"] by (auto simp: child_bytes_def tasks_bytes_def fixed_data_def)
    then show ?thesis using w(2) by blast
  qed
  then have l: "task_lists e m' (us @ [t]) (rs @ [t]) \<Longrightarrow> task_lists e m'' (us @ [t]) (rs @ [t])"
    by (intro task_lists_frame [OF _ w(1)])
  have "R \<inter> gdt_bytes e = {}" using w(2) by (auto simp: child_bytes_def fixed_data_def)
  note g = gdt_frame [OF w(1) this]
  have tss: "ld32 m'' (tk_tss t + tss_offset r) = ld32 m' (tk_tss t + tss_offset r)" for r
    using tss_word [of t r] part_region [of 4 104 148 t] t by (intro keep) (auto simp: tss_of_def tk_tss_def)
  have "ld32 m'' (tk_status t) = ld32 m' (tk_status t)" "ld32 m'' (tk_tss_sel t) = ld32 m' (tk_tss_sel t)"
    "ld32 m'' (tk_ifkernel t) = ld32 m' (tk_ifkernel t)" "ld32 m'' (tk_parent t) = ld32 m' (tk_parent t)"
    "ld32 m'' (tk_pid t) = ld32 m' (tk_pid t)" "ld32 m'' (tk_ticks t) = ld32 m' (tk_ticks t)"
    "ld32 m'' (tk_default_ticks t) = ld32 m' (tk_default_ticks t)"
    using fields [of 0] fields [of 108] fields [of 112] fields [of 116] fields [of 136] fields [of 140] fields [of 144]
    by (simp_all add: tk_fields)
  then show ?thesis
    using c(1) u p l g tss
    by (simp add: child_made_def pages_taken_def used_addrs_def fresh_space_def task_fields_def tss_descriptor_def Let_def gdt_desc_slot)
qed

lemma tasks_ready_frame:
  assumes r: "tasks_ready e n m us rs" and w: "same_outside R m m'"
    and R: "R \<inter> (pool_bits (pages e) \<union> region (kernel_table e) 4096 \<union> fixed_data e \<union> tasks_bytes (set us \<union> set rs)) = {}"
  shows "tasks_ready e n m' us rs"
proof -
  have o: "owned (pages e) (kernel_table e) m (fixed_data e \<union> tasks_bytes (set us \<union> set rs))" using r by (simp add: tasks_ready_def)
  have "R \<inter> (pool_bits (pages e) \<union> region (kernel_table e) 4096) = {}" using R by blast
  note ow = owned_write [OF o w this]
  have "R \<inter> (general_bytes e us \<union> ready_bytes e rs) = {}"
    using R queues_in(1) [of e us] queues_in(2) [of e rs] by (auto simp: fixed_data_def tasks_bytes_def)
  moreover have "R \<inter> gdt_bytes e = {}" using R by (auto simp: fixed_data_def)
  ultimately show ?thesis
    using r ow(1) pages_left_cong [OF ow(2)] task_lists_frame [OF _ w] gdt_frame [OF w]
    by (simp add: tasks_ready_def gdt_has_room_def)
qed

text \<open>What the routine finds in the frame: the registers of the caller.\<close>

definition caller_regs :: "cpu \<Rightarrow> u32 \<Rightarrow> (tss_reg \<times> u32) list" where
  "caller_regs s sp = [(Eip, eip s), (Cs, ucast (cs s)), (Eflags, eflags (core s)), (Ebx, ebx s), (Ecx, ecx s),
     (Edx, edx s), (Esi, esi s), (Edi, edi s), (Ebp, ebp s), (Esp, sp), (Ds, ucast (ds s)), (Es, ucast (es s)),
     (Fs, ucast (fs s)), (Gs, ucast (gs s))]"

lemma frame_registers:
  assumes w: "words_at m (esp t - 72) (syscall_words t @ saved_state cs0 None s)"
    and t: "ebx t = ebx s" "ecx t = ecx s" "edx t = edx s" "esi t = esi s" "edi t = edi s" "ebp t = ebp s"
      "ds t = ds s" "es t = es s" "fs t = fs s" "gs t = gs s"
    and c: "\<forall>(r, off)\<in>set fork_copies. val r = ld32 m (esp t - 68 + off)"
  shows "\<forall>(r, v)\<in>set (caller_regs s (esp t - 8)). val r = v"
  using w c by (simp add: caller_regs_def fork_copies_def syscall_words_def saved_state_def t add.commute)

text \<open>
  The state in which a process may fork: one of the tasks is current, and the kernel's stack \<open>K\<close> and
  the word that keeps the interrupt state lie apart from them, from each other and from free pages.
\<close>

definition fork_ready :: "old_env \<Rightarrow> u32 set \<Rightarrow> mem \<Rightarrow> u32 list \<Rightarrow> u32 list \<Rightarrow> bool" where
  "fork_ready e K m us rs \<longleftrightarrow> tasks_ready e 4 m us rs \<and> cur_task e m \<in> set us \<union> set rs
     \<and> owned (pages e) (kernel_table e) m (K \<union> word_bytes (pr_irq_state e))
     \<and> (K \<union> word_bytes (pr_irq_state e)) \<inter> (fixed_data e \<union> tasks_bytes (set us \<union> set rs)) = {}
     \<and> K \<inter> word_bytes (pr_irq_state e) = {}"

lemma fork_ready_frame:
  assumes r: "fork_ready e K m us rs" and w: "same_outside K m m'"
  shows "fork_ready e K m' us rs" "used_addrs (pages e, m') = used_addrs (pages e, m)"
    "pde m' (kernel_table e) 0 = pde m (kernel_table e) 0" "cur_task e m' = cur_task e m"
    "ld32 m' (global_pid e) = ld32 m (global_pid e)"
    "ld32 m' (tk_ifkernel (cur_task e m)) = ld32 m (tk_ifkernel (cur_task e m))"
proof -
  let ?X = "fixed_data e \<union> tasks_bytes (set us \<union> set rs)" and ?D = "K \<union> word_bytes (pr_irq_state e)"
  have rd: "tasks_ready e 4 m us rs" and cur: "cur_task e m \<in> set us \<union> set rs" and own: "owned (pages e) (kernel_table e) m ?D"
    and D: "?D \<inter> ?X = {}" using r by (simp_all add: fork_ready_def)
  have K: "K \<inter> (pool_bits (pages e) \<union> region (kernel_table e) 4096) = {}" using own unfolding owned_def by blast
  note ow = owned_write [OF own w K]
  show "used_addrs (pages e, m') = used_addrs (pages e, m)" using ow(2) by (simp add: used_addrs_def)
  show "pde m' (kernel_table e) 0 = pde m (kernel_table e) 0" using ow(3) by simp
  have keep: "ld32 m' x = ld32 m x" if "word_bytes x \<subseteq> ?X" for x
    by (rule ld32_cong) (use w that D in \<open>auto simp: same_outside_def\<close>)
  have cX: "region (cur_task e m) 148 \<subseteq> ?X" using cur unfolding tasks_bytes_def by blast
  show c: "cur_task e m' = cur_task e m"
    unfolding cur_task_def tk_cur_def by (rule keep) (use manage_parts(3) [of e] in \<open>auto simp: fixed_data_def\<close>)
  show "ld32 m' (global_pid e) = ld32 m (global_pid e)" by (rule keep) (auto simp: fixed_data_def)
  have "word_bytes (tk_ifkernel (cur_task e m)) \<subseteq> region (cur_task e m) 148"
    using region_word [of 112 148 "cur_task e m"] by (simp add: tk_fields)
  then show "ld32 m' (tk_ifkernel (cur_task e m)) = ld32 m (tk_ifkernel (cur_task e m))"
    using cX by (intro keep) blast
  have "tasks_ready e 4 m' us rs" by (rule tasks_ready_frame [OF rd w]) (use K D in blast)
  then show "fork_ready e K m' us rs" using r ow(1) c by (simp add: fork_ready_def)
qed

lemma fork_routine:
  fixes e s esp0 ss0 gate_eip table n us rs
  defines "t0 \<equiv> arrive esp0 ss0 KERNEL_SELECTOR_CS gate_eip None s"
  defines "v \<equiv> routine_start t0 table n" and "c \<equiv> cur_task e (cmem s)" and "pid \<equiv> ld32 (cmem s) (global_pid e) + 1"
  assumes al: "aligned4 (esp t0)" and ready: "fork_ready e (call_stack t0) (cmem s) us rs"
  obtains s' t ks stk dir where "sys_fork e (esp t0 - 68) (core v) = Some (s', pid)" "\<forall>x\<in>call_stack t0. ram s' x = cmem v x"
    "child_made e (cmem s) (ram s') us rs t [t, ks, stk, dir] dir pid c (ld32 (cmem s) (tk_ifkernel c))
      (caller_regs s (esp t0 - 8) @ [(Eax, 0), (Esp0, ks), (Ss0, ucast KERNEL_SELECTOR_DS), (Ss, ucast USER_SELECTOR_DS), (Cr3, dir)])"
    "same_outside (call_stack t0 \<union> task_writes e us rs t dir \<union> word_bytes (pr_irq_state e)) (cmem s) (ram s')"
    "call_stack t0 \<inter> child_bytes e us rs t dir = {}" "page_aligned dir"
proof -
  let ?K = "call_stack t0" and ?f = "esp t0 - 68" and ?w = "word_bytes (pr_irq_state e)" and ?X = "fixed_data e \<union> tasks_bytes (set us \<union> set rs)"
  note start = routine_start_state [where ?esp0.0 = esp0 and ?ss0.0 = ss0 and gate_cs = KERNEL_SELECTOR_CS and gate_eip = gate_eip
      and s = s and table = table and n = n, folded t0_def v_def]
  have K: "same_outside ?K (cmem s) (cmem v)" using start(1) by (simp add: same_outside_def)
  note fr = fork_ready_frame [OF ready K]
  have f: "region ?f 80 \<subseteq> ?K" using part_region [of 8 80 96 "esp t0 - 76"] by (simp add: call_stack_def)
  have v: "tasks_ready e 4 (cmem v) us rs" "cur_task e (cmem v) \<in> set us \<union> set rs"
    "owned (pages e) (kernel_table e) (cmem v) (?K \<union> ?w)" "(?K \<union> ?w) \<inter> ?X = {}" "?K \<inter> ?w = {}"
    using fr(1) by (simp_all add: fork_ready_def)
  have D: "owned (pages e) (kernel_table e) (cmem v) (region ?f 80 \<union> ?w)" "(region ?f 80 \<union> ?w) \<inter> ?X = {}" "region ?f 80 \<inter> ?w = {}"
  proof -
    show "owned (pages e) (kernel_table e) (cmem v) (region ?f 80 \<union> ?w)" by (rule owned_mono [OF v(3)]) (use f in blast)
    show "(region ?f 80 \<union> ?w) \<inter> ?X = {}" "region ?f 80 \<inter> ?w = {}" using v(4,5) f by blast+
  qed
  from sys_fork_child [OF v(1,2) D] obtain s' t ks stk dir where s': "sys_fork e ?f (core v) = Some (s', pid)"
    "pages_taken (pages e) (cmem v) (ram s') [t, ks, stk, dir]" "fresh_space e (cmem v) (ram s') dir"
    "task_lists e (ram s') (us @ [t]) (rs @ [t])" "task_fields t (ram s') pid c (ld32 (cmem s) (tk_ifkernel c))"
    "tss_descriptor e (ld32 (ram s') (tk_tss_sel t)) (ram s') t"
    "\<forall>(r, off)\<in>set fork_copies. ld32 (ram s') (tk_tss t + tss_offset r) = ld32 (cmem v) (?f + off)"
    "\<forall>(r, v)\<in>set [(Eax, 0), (Esp0, ks), (Ss0, ucast KERNEL_SELECTOR_DS), (Ss, ucast USER_SELECTOR_DS), (Cr3, dir)].
        ld32 (ram s') (tk_tss t + tss_offset r) = v"
    "same_outside (task_writes e us rs t dir \<union> ?w) (cmem v) (ram s')"
    unfolding fr(4-6) pid_def c_def by blast
  have tK: "region t 4096 \<inter> ?K = {}" "region dir 4096 \<inter> ?K = {}" using taken_apart(1) [OF s'(2) _ v(3)] by auto
  have t4: "region t 148 \<subseteq> region t 4096" by (rule region_mono) simp
  have bits: "pool_bits (pages e) \<inter> ?K = {}" using v(3) by (auto simp: owned_def)
  show thesis
  proof (rule that [of s' t ks stk dir])
    show child: "?K \<inter> child_bytes e us rs t dir = {}" using tK t4 bits v(4) unfolding child_bytes_def by blast
    have "task_writes e us rs t dir \<subseteq> child_bytes e us rs t dir"
      using queues_in(1) [of e us] queues_in(2) [of e rs]
      by (auto simp: task_writes_def child_bytes_def fixed_data_def tasks_bytes_def)
    then have "x \<notin> task_writes e us rs t dir \<union> ?w" if "x \<in> ?K" for x using that child v(5) by blast
    then show "\<forall>x\<in>?K. ram s' x = cmem v x" using s'(9) by (simp add: same_outside_def)
    show "same_outside (?K \<union> task_writes e us rs t dir \<union> ?w) (cmem s) (ram s')"
      by (rule same_outside_trans [OF K s'(9)]) auto
    show "page_aligned dir" using s'(2) by (simp add: pages_taken_def)
    show "sys_fork e ?f (core v) = Some (s', pid)" by (rule s'(1))
    have regs: "\<forall>(r, v)\<in>set (caller_regs s (esp t0 - 8)). ld32 (ram s') (tk_tss t + tss_offset r) = v"
      by (rule frame_registers [OF start(3) [OF al] _ _ _ _ _ _ _ _ _ _ s'(7)]) (simp_all add: t0_def)
    show "child_made e (cmem s) (ram s') us rs t [t, ks, stk, dir] dir pid c (ld32 (cmem s) (tk_ifkernel c))
      (caller_regs s (esp t0 - 8) @ [(Eax, 0), (Esp0, ks), (Ss0, ucast KERNEL_SELECTOR_DS), (Ss, ucast USER_SELECTOR_DS), (Cr3, dir)])"
      using s'(2-6,8) regs fr(2,3)
      unfolding child_made_def by (simp add: pages_taken_def fresh_space_def del: tss_offset.simps)
  qed
qed

section \<open>The first user process\<close>

text \<open>
  \<open>first_proc.c\<close> and \<open>first_proc.S\<close>: one fork, with the code of each of its three outcomes commented
  out, and an endless loop.
\<close>

definition first_proc :: "(cpu \<Rightarrow> cpu option) \<Rightarrow> cpu \<Rightarrow> machine option" where
  "first_proc trap s =
    Option.bind (fork trap s) (\<lambda>(s, pid).
      let s = (if pid <s 0 then s else if pid = 0 then s else s)
      in spin_forever (core s))"

definition first_task_entry :: "(cpu \<Rightarrow> cpu option) \<Rightarrow> cpu \<Rightarrow> machine option" where
  "first_task_entry trap s = first_proc trap s"

text \<open>Whatever the fork answers, in the parent and in the child, the process does not return.\<close>

lemma first_task_entry_diverges: "first_task_entry trap s = None"
  by (cases "fork trap s") (auto simp: first_task_entry_def first_proc_def spin_forever_None)

section \<open>A process that may fork\<close>

text \<open>
  One task at \<open>0x2000\<close> in both lists, the manager at \<open>0x1000\<close>, an empty GDT and a page pool of which
  nothing is in use.
\<close>

definition sample_fork :: old_env where
  "sample_fork = sample_old\<lparr>proc_manager := 0x1100, old_gdt := 0x9000, kernel_table := 0x8000\<rparr>"

definition sample_fork_mem :: mem where
  "sample_fork_mem = st32 (enlist sample_fork 0x2000 (klist_init (klist_init (\<lambda>_. 0) 0x1004) 0x1018)) 0x1000 0x2000"

lemma sample_fork_fields:
  "task_manage sample_fork = 0x1000" "global_pid sample_fork = 0x1300" "gdt_bytes sample_fork = region 0x9000 2048"
  "pr_irq_state sample_fork = 0x1140" "kernel_table sample_fork = 0x8000" "pages sample_fork = sample_am"
  "tk_general_list sample_fork = 0x1004" "tk_ready_list sample_fork = 0x1018" "tk_cur sample_fork = 0x1000"
  by (simp_all add: sample_fork_def sample_old_def gdt_bytes_def pr_irq_state_def tk_lists)

lemma region4: "word_bytes a = region a 4"
  using word_in_region [of 0 4 _ a] by (auto simp: region_Suc numeral_eq_Suc word_bytes_def add.assoc)

lemma sample_low:
  assumes "unat a + n \<le> 0x100000" "region a n \<inter> (region 0x100 64 \<union> region 0x8000 4096) = {}"
  shows "owned sample_am 0x8000 (\<lambda>_. 0) (region a n)"
proof -
  have "pool_bits sample_am = region 0x100 64" by (simp add: pool_bits_def bit_bytes_def sample_am_wf(2)) (simp add: sample_am_def)
  moreover have "region a n \<inter> region (page_addr sample_am i) 4096 = {}" if "0 \<le> i" "i < 512" for i
  proof -
    have "uint (page_addr sample_am i) = 0x100000 + 4096 * i"
      using uint_page_addr [OF sample_am_wf(1)] that by (simp add: sample_am_wf MEM_KERNELFREE_START_def)
    then have "unat (page_addr sample_am i) = 0x100000 + 4096 * nat i"
      using that by (metis nat_add_distrib nat_mult_distrib nat_numeral uint_nonnegative unat_eq_nat_uint mult_nonneg_nonneg zero_le_numeral)
    then show ?thesis using assms(1) that by (intro region_before(1)) auto
  qed
  ultimately show ?thesis using assms(2) sample_space by (simp add: owned_def free_page_def sample_am_wf(2))
qed

lemma owned_Un: "owned am dir m (X \<union> Y) \<longleftrightarrow> owned am dir m X \<and> owned am dir m Y"
  by (auto simp: owned_def)

lemma sample_fork_data: "data_apart sample_fork {0x2000}" "fixed_data sample_fork \<union> tasks_bytes {0x2000}
    = region 0x1000 64 \<union> region 0x1300 4 \<union> region 0x9000 2048 \<union> region 0x2000 148"
proof -
  show bytes: "fixed_data sample_fork \<union> tasks_bytes {0x2000} = region 0x1000 64 \<union> region 0x1300 4 \<union> region 0x9000 2048 \<union> region 0x2000 148"
    by (simp add: fixed_data_def tasks_bytes_def sample_fork_fields region4)
  show "data_apart sample_fork {0x2000}"
    using region_before(1) [of "0x1000" 64 "0x9000" 2048] region_before(1) [of "0x1000" 64 "0x1300" 4] region_before(1) [of "0x1300" 4 "0x9000" 2048]
      region_before(2) [of "0x1000" 64 "0x2000" 148] region_before(2) [of "0x1300" 4 "0x2000" 148] region_before(1) [of "0x2000" 148 "0x9000" 2048]
    by (simp add: data_apart_def fixed_data_def tasks_bytes_def sample_fork_fields region4 Int_Un_distrib aligned4_numeral)
qed

lemma sample_fork_lists:
  "task_lists sample_fork sample_fork_mem [0x2000] [0x2000]"
  "same_outside (region 0x1000 64 \<union> region 0x2000 148) (\<lambda>_. 0) sample_fork_mem" "cur_task sample_fork sample_fork_mem = 0x2000"
proof -
  let ?e = sample_fork and ?R = "region 0x1000 64 \<union> region 0x2000 148"
  let ?m = "klist_init (klist_init (\<lambda>_. 0) 0x1004) 0x1018"
  have b: "list_bytes 0x1004 [] = region 0x1004 20" "list_bytes 0x1018 [] = region 0x1018 20" by (simp_all add: list_bytes_def)
  have i: "same_outside (list_bytes l []) m (klist_init m l)" for m l
    by (rule unchanged_bytes [OF klist_init_frame list_cells_bytes])
  have sub: "region 0x1004 20 \<subseteq> region 0x1000 64" "region 0x1018 20 \<subseteq> region 0x1000 64" "word_bytes 0x1000 \<subseteq> region 0x1000 64"
    "word_bytes 0x2000 \<subseteq> region 0x2000 148"
    using part_region [of 4 20 64 "0x1000"] part_region [of 24 20 64 "0x1000"] region_word [of 0 64 "0x1000"] region_word [of 0 148 "0x2000"] by simp_all
  have "dlist (klist_init (\<lambda>_. 0) 0x1004) 0x1004 []" by (rule klist_init_dlist) (simp add: sep_nodes_def align_simps)
  from dlist_bytes [OF this i] have "dlist ?m 0x1004 []" using region_before(2) [of "0x1004" 20 "0x1018" 20] by (simp add: b)
  moreover have "dlist ?m 0x1018 []" by (rule klist_init_dlist) (simp add: sep_nodes_def align_simps)
  ultimately have l: "task_lists ?e ?m [] []" by (simp add: task_lists_def sample_fork_fields)
  have E: "task_lists ?e (enlist ?e 0x2000 ?m) [0x2000] [0x2000]"
    "same_outside (general_bytes ?e [0x2000] \<union> word_bytes 0x2000 \<union> ready_bytes ?e [0x2000]) ?m (enlist ?e 0x2000 ?m)"
    using enlist_lists(1,2) [of ?e "0x2000" "[]" "[]" ?m] l sample_fork_data(1) by (simp_all add: aligned4_numeral)
  have q: "general_bytes ?e [0x2000] \<subseteq> ?R" "ready_bytes ?e [0x2000] \<subseteq> ?R"
    using queues_in [of ?e "[0x2000]"] by (simp_all add: sample_fork_fields tasks_bytes_def)
  have st: "same_outside (word_bytes 0x1000) m (st32 m 0x1000 v)" for m v by (rule same_outside_st32) simp
  have "word_bytes 0x1000 \<inter> (general_bytes ?e [0x2000] \<union> ready_bytes ?e [0x2000]) = {}"
    using region_before(1) [of "0x1000" 4 "0x1004" 20] region_before(1) [of "0x1000" 4 "0x1018" 20]
      region_before(1) [of "0x1000" 4 "0x2080" 8] region_before(1) [of "0x1000" 4 "0x2078" 8]
    by (simp add: queue_bytes sample_fork_fields region4 Int_Un_distrib)
  from task_lists_frame [OF E(1) st this] show "task_lists ?e sample_fork_mem [0x2000] [0x2000]" by (simp add: sample_fork_mem_def)
  have w: "same_outside ?R (\<lambda>_. 0) ?m"
    by (rule same_outside_trans [OF i i]) (use sub b in auto)
  have w': "same_outside ?R ?m (enlist ?e 0x2000 ?m)" by (rule same_outside_mono [OF E(2)]) (use q sub(4) in blast)
  have "same_outside ?R (enlist ?e 0x2000 ?m) sample_fork_mem"
    unfolding sample_fork_mem_def by (rule same_outside_mono [OF st]) (use sub(3) in blast)
  then show "same_outside ?R (\<lambda>_. 0) sample_fork_mem" by (rule same_outside_step [OF same_outside_step [OF w w']])
  show "cur_task ?e sample_fork_mem = 0x2000" by (simp add: cur_task_def sample_fork_fields sample_fork_mem_def ld32_st32)
qed


lemma sample_fork_ready: "fork_ready sample_fork (region 0x5FA0 96) sample_fork_mem [0x2000] [0x2000]"
proof -
  let ?e = sample_fork and ?T = "region 0x1000 64 \<union> region 0x2000 148"
  let ?X = "region 0x1000 64 \<union> region 0x1300 4 \<union> region 0x9000 2048 \<union> region 0x2000 148"
  have T: "?T \<inter> (pool_bits sample_am \<union> region 0x8000 4096) = {}"
    and X: "owned sample_am 0x8000 (\<lambda>_. 0) (?X \<union> (region 0x5FA0 96 \<union> region 0x1140 4))"
  proof -
    have o: "owned sample_am 0x8000 (\<lambda>_. 0) (region a n)"
      if "unat a + n \<le> 0x8000 \<and> 0x140 \<le> unat a \<or> 0x9000 \<le> unat a \<and> unat a + n \<le> 0x100000" for a n
      using that region_before(2) [of "0x100" 64 a n] region_before(1) [of a n "0x8000" 4096] region_before(2) [of "0x8000" 4096 a n]
      by (intro sample_low) (auto simp: Int_Un_distrib)
    show "owned sample_am 0x8000 (\<lambda>_. 0) (?X \<union> (region 0x5FA0 96 \<union> region 0x1140 4))" by (simp add: owned_Un o)
    have "owned sample_am 0x8000 (\<lambda>_. 0) ?T" by (simp add: owned_Un o)
    then show "?T \<inter> (pool_bits sample_am \<union> region 0x8000 4096) = {}" by (simp add: owned_def)
  qed
  note own = owned_write [OF X sample_fork_lists(2) T]
  have "(region 0x5FA0 96 \<union> region 0x1140 4) \<inter> ?X = {}" "region 0x5FA0 96 \<inter> region 0x1140 4 = {}"
    using region_before(2) [of "0x1000" 64 "0x5FA0" 96] region_before(2) [of "0x1300" 4 "0x5FA0" 96] region_before(1) [of "0x5FA0" 96 "0x9000" 2048]
      region_before(2) [of "0x2000" 148 "0x5FA0" 96] region_before(2) [of "0x1000" 64 "0x1140" 4] region_before(1) [of "0x1140" 4 "0x1300" 4]
      region_before(1) [of "0x1140" 4 "0x9000" 2048] region_before(1) [of "0x1140" 4 "0x2000" 148] region_before(2) [of "0x1140" 4 "0x5FA0" 96]
    by (simp_all add: Int_Un_distrib Int_Un_distrib2)
  moreover have "pages_left sample_am sample_fork_mem 4" by (simp add: pages_left_def own(2) sample_am_used sample_am_wf(2))
  moreover have "gdt_has_room ?e sample_fork_mem"
  proof -
    have "?T \<inter> gdt_bytes ?e = {}"
      using region_before(1) [of "0x1000" 64 "0x9000" 2048] region_before(1) [of "0x2000" 148 "0x9000" 2048]
      by (simp add: sample_fork_fields Int_Un_distrib2)
    from gdt_frame [OF sample_fork_lists(2) this, of 1] show ?thesis
      unfolding gdt_has_room_def by (intro bexI [of _ 1]) (simp_all add: entry_free_def gdt_entry_at_def ld16_def)
  qed
  moreover have "owned sample_am 0x8000 sample_fork_mem ?X" "owned sample_am 0x8000 sample_fork_mem (region 0x5FA0 96 \<union> region 0x1140 4)"
    using own(1) unfolding owned_Un by simp_all
  ultimately show ?thesis
    using sample_fork_lists(1,3) sample_fork_data
    by (simp add: fork_ready_def tasks_ready_def sample_fork_fields region4)
qed

text \<open>C4: a user program that calls \<open>fork\<close> gets the number of the child, and its own registers and flags are
  as before.  The child is a new task on fresh pages, the last of both lists of tasks, with its own
  page directory that shares the kernel's first entry, a descriptor of the GDT for its task-state
  segment, the caller as its parent, and the caller's registers with 0 for the result.  Only its
  stack pointer is not the caller's: it is the one of the kernel, from the frame that the interrupt
  pushed.
\<close>

theorem fork_makes_child:
  fixes e s table routine esp0 ss0 gate_eip us rs
  defines "t0 \<equiv> arrive esp0 ss0 KERNEL_SELECTOR_CS gate_eip None (s\<lparr>eax := SYS_FORK\<rparr>)"
    and "c \<equiv> cur_task e (cmem s)" and "pid \<equiv> ld32 (cmem s) (global_pid e) + 1"
  assumes "aligned4 (esp t0)" "word_bytes (table + 4 * SYS_FORK) \<inter> call_stack t0 = {}"
    and "routine (ld32 (cmem s) (table + 4 * SYS_FORK)) = of_c1 scr (sys_fork e)"
    and "fork_ready e (call_stack t0) (cmem s) us rs"
  shows "\<exists>m t ks stk dir. fork (int80 esp0 ss0 gate_eip table routine) s = Some (s\<lparr>eax := pid, core := m\<rparr>, pid)
    \<and> eflags m = eflags (core s)
    \<and> pages_taken (pages e) (cmem s) (ram m) [t, ks, stk, dir] \<and> fresh_space e (cmem s) (ram m) dir
    \<and> task_lists e (ram m) (us @ [t]) (rs @ [t]) \<and> task_fields t (ram m) pid c (ld32 (cmem s) (tk_ifkernel c))
    \<and> tss_descriptor e (ld32 (ram m) (tk_tss_sel t)) (ram m) t
    \<and> (\<forall>(r, v)\<in>set (caller_regs s (esp t0 - 8) @ [(Eax, 0), (Esp0, ks), (Ss0, ucast KERNEL_SELECTOR_DS),
          (Ss, ucast USER_SELECTOR_DS), (Cr3, dir)]). ld32 (ram m) (tk_tss t + tss_offset r) = v)
    \<and> same_outside (call_stack t0 \<union> task_writes e us rs t dir \<union> word_bytes (pr_irq_state e)) (cmem s) (ram m)"
proof -
  let ?s = "s\<lparr>eax := SYS_FORK\<rparr>" and ?K = "call_stack t0"
  let ?n = "ld32 (cmem s) (table + 4 * SYS_FORK)"
  let ?v = "routine_start t0 table ?n"
  have regs: "core ?s = core s" "eax ?s = SYS_FORK" "caller_regs ?s (esp t0 - 8) = caller_regs s (esp t0 - 8)"
    by (simp_all add: caller_regs_def)
  from fork_routine [where s = ?s and ?esp0.0 = esp0 and ?ss0.0 = ss0 and gate_eip = gate_eip and table = table and n = ?n,
      folded t0_def, unfolded regs, folded pid_def c_def, OF assms(4,7)]
  obtain m' t ks stk dir where r: "sys_fork e (esp t0 - 68) (core ?v) = Some (m', pid)" "\<forall>x\<in>?K. ram m' x = cmem ?v x"
    and child: "child_made e (cmem s) (ram m') us rs t [t, ks, stk, dir] dir pid c (ld32 (cmem s) (tk_ifkernel c))
      (caller_regs s (esp t0 - 8) @ [(Eax, 0), (Esp0, ks), (Ss0, ucast KERNEL_SELECTOR_DS), (Ss, ucast USER_SELECTOR_DS), (Cr3, dir)])"
    and frame: "same_outside (?K \<union> task_writes e us rs t dir \<union> word_bytes (pr_irq_state e)) (cmem s) (ram m')"
    and apart: "?K \<inter> child_bytes e us rs t dir = {}" "page_aligned dir"
    unfolding pid_def c_def by blast
  let ?m = "write_eflags (eflags (core s)) (m'\<lparr>ram := st32 (ram m') (esp t0 - 12) pid\<rparr>)"
  have put: "same_outside ?K (ram m') (ram ?m)"
    using call_stack_parts(4) [of t0] by (auto simp: write_eflags_def intro!: same_outside_st32)
  note made = child_made_frame [OF child apart(2) put apart(1)]
  have "same_outside (?K \<union> task_writes e us rs t dir \<union> word_bytes (pr_irq_state e)) (cmem s) (ram ?m)"
    by (rule same_outside_trans [OF frame put]) auto
  moreover have "int80 esp0 ss0 gate_eip table routine ?s = Some (?s\<lparr>eax := pid, core := ?m\<rparr>)"
    using int80_runs [where s = ?s and h = "sys_fork e" and ?esp0.0 = esp0 and ?ss0.0 = ss0 and gate_eip = gate_eip and table = table
      and routine = routine, folded t0_def, unfolded regs, OF assms(4,5,6) r]
    by simp
  ultimately show ?thesis
    using made by (intro exI [of _ ?m] exI [of _ t] exI [of _ ks] exI [of _ stk] exI [of _ dir])
      (simp add: fork_def syscall0_def child_made_def write_eflags_def del: tss_offset.simps)
qed

theorem fork_makes_child_witness:
  "\<exists>m t ks stk dir. fork (int80 0x6000 0x10 0x500 0x5000 (\<lambda>_. of_c1 sample_scratch (sys_fork sample_fork))) (set_ram sample_fork_mem sample_cpu)
      = Some ((set_ram sample_fork_mem sample_cpu)\<lparr>eax := 1, core := m\<rparr>, 1)
    \<and> pages_taken sample_am sample_fork_mem (ram m) [t, ks, stk, dir] \<and> task_lists sample_fork (ram m) [0x2000, t] [0x2000, t]
    \<and> ld32 (ram m) (tk_tss t + tss_offset Eip) = 0x100000 \<and> ld32 (ram m) (tk_tss t + tss_offset Esp) = 0x5FE4
    \<and> ld32 (ram m) (tk_tss t + tss_offset Eax) = 0"
proof -
  define s where "s = set_ram sample_fork_mem sample_cpu"
  have s: "cmem s = sample_fork_mem" "eip s = 0x100000" by (simp_all add: s_def set_ram_def sample_cpu_def)
  have sp: "esp (arrive 0x6000 0x10 KERNEL_SELECTOR_CS 0x500 None (s\<lparr>eax := SYS_FORK\<rparr>)) = 0x5FEC" (is "esp ?t = _")
    by (simp add: s_def arrive_pushes Let_def sample_cpu_def set_ram_def saved_state_def rpl_def selector_defs)
  have K: "call_stack ?t = region 0x5FA0 96" by (simp add: call_stack_def sp)
  have pid: "ld32 sample_fork_mem (global_pid sample_fork) = 0"
  proof -
    have "word_bytes 0x1300 \<inter> (region 0x1000 64 \<union> region 0x2000 148) = {}"
      using region_before(2) [of "0x1000" 64 "0x1300" 4] region_before(1) [of "0x1300" 4 "0x2000" 148]
      by (simp add: region4 Int_Un_distrib)
    then have "ld32 sample_fork_mem 0x1300 = ld32 (\<lambda>_. 0) 0x1300"
      using sample_fork_lists(2) by (intro ld32_cong) (auto simp: same_outside_def)
    then show ?thesis by (simp add: sample_fork_fields ld32_def)
  qed
  have tab: "word_bytes (0x5000 + 4 * SYS_FORK) \<inter> region 0x5FA0 96 = {}"
    using region_before(1) [of "0x500C" 4 "0x5FA0" 96] by (simp add: SYS_FORK_def region4)
  show ?thesis unfolding s_def [symmetric]
    using fork_makes_child [of "0x6000" "0x10" "0x500" s "0x5000" "\<lambda>_. of_c1 sample_scratch (sys_fork sample_fork)" sample_scratch sample_fork "[0x2000]" "[0x2000]"]
      sample_fork_ready tab pid
    by (force simp add: sp K s aligned4_numeral sample_fork_fields caller_regs_def)
qed

end
