(* ===== verification/Page_Destroy.thy ===== *)
theory Page_Destroy
  imports Page_Own
begin

text \<open>
  What \<open>pagetable_destroy\<close> gives back: exactly the pages the directory leads to.
\<close>

section \<open>Freeing a page\<close>

text \<open>Any page address may be freed; one that is not of the pool changes nothing.\<close>

lemma page_number:
  assumes wf: "wf_alloc am" and a: "page_aligned a" and k: "uint ((a - kernelstart am) div page_size am) = k" "k < npages am"
  shows "a = page_addr am k"
proof -
  have "(4096 :: int) dvd uint a" using a unfolding page_aligned_def by (metis int_dvd_int_iff of_nat_numeral uint_nat)
  then have "4096 dvd uint a - uint (kernelstart am)" using wf by (simp add: wf_alloc_def)
  then have "4096 dvd uint (a - kernelstart am)" by (simp add: uint_word_ariths(2) dvd_mod)
  moreover have "page_size am = 4096" using wf by (simp add: wf_alloc_def MEM_PAGE_SIZE_def)
  ultimately have "uint (a - kernelstart am) = k * 4096" using k(1) by (auto simp: uint_div)
  then have "a - kernelstart am = word_of_int (k * 4096)" by (metis word_of_int_uint)
  then show ?thesis by (simp add: page_addr_def algebra_simps)
qed

lemma kfree_page_exact:
  assumes wf: "wf_alloc am" and a: "page_aligned a"
  shows "same_outside (pool_bits am) m (kfree_pages am m a 1)"
    "used_addrs (am, kfree_pages am m a 1) = used_addrs (am, m) - {a}"
proof -
  show "same_outside (pool_bits am) m (kfree_pages am m a 1)" using kfree_any [OF wf] by blast
  let ?pg = "(a - kernelstart am) div page_size am"
  have "page_size am = 4096" using wf by (simp add: wf_alloc_def MEM_PAGE_SIZE_def)
  then have small: "uint ?pg < 2 ^ 31" using uint_bounded [of "a - kernelstart am"] by (simp add: uint_div)
  show "used_addrs (am, kfree_pages am m a 1) = used_addrs (am, m) - {a}"
  proof (cases "uint ?pg < npages am")
    case True
    obtain k where k: "uint ?pg = k" "0 \<le> k" "k < npages am" using True by auto
    have A: "a = page_addr am k" by (rule page_number [OF wf a k(1,3)])
    have "kfree_pages am m a 1 = bitmap_set_bit m (bitmap am) (word_of_int k) 1 0"
      unfolding k(1) [symmetric] by (simp add: kfree_pages_def)
    then have u: "used am (kfree_pages am m a 1) = used am m - {k}" using used_set_bit [OF wf k(2,3), of m 0] by simp
    have "page_addr am i \<noteq> page_addr am k" if "i \<in> used am m - {k}" for i
    proof -
      have "0 \<le> i" "i < npages am" "i \<noteq> k" using that used_range [of i am m] by auto
      from uint_page_addr [OF wf this(1,2)] this(3) show ?thesis using uint_page_addr [OF wf k(2,3)] by auto
    qed
    then have "page_addr am ` (used am m - {k}) = page_addr am ` used am m - {page_addr am k}" by (intro equalityI subsetI) auto
    then show ?thesis using u unfolding used_addrs_def fst_conv snd_conv by (simp only: A [symmetric])
  next
    case False
    then have "kfree_pages am m a 1 = m" using sint_uint_small [OF small] by (simp add: kfree_pages_def bitmap_set_bit_def npages_def)
    moreover have "a \<notin> used_addrs (am, m)"
    proof
      assume "a \<in> used_addrs (am, m)"
      then obtain i where "i \<in> used am m" "a = page_addr am i" by (auto simp: used_addrs_def)
      then have "?pg = word_of_int i" "0 \<le> i" "i < npages am" using page_index [OF wf] used_range by auto
      then show False using False wf_npages [OF wf] by (simp add: uint_word_of_int_id)
    qed
    ultimately show ?thesis by simp
  qed
qed

section \<open>Freeing what a directory leads to\<close>

text \<open>The pages behind one entry of the directory: its table and what the table maps.\<close>

definition behind :: "mem \<Rightarrow> u32 \<Rightarrow> nat \<Rightarrow> u32 set" where
  "behind m dir d = (if present (pde m dir d) then
     insert (entry_addr (pde m dir d)) {entry_addr (mapped m dir d t) | t. t < 1024 \<and> present (mapped m dir d t)} else {})"

definition apart_from :: "addr_alloc_t \<Rightarrow> u32 \<Rightarrow> bool" where
  "apart_from am p \<longleftrightarrow> page_aligned p \<and> (\<forall>x\<in>pool_bits am. page_of x \<noteq> page_of p)"

lemma apart_word:
  assumes "apart_from am p" "t < 1024" "same_outside (pool_bits am) m m'"
  shows "ld32 m' (p + 4 * of_nat t) = ld32 m (p + 4 * of_nat t)"
  using assms by (intro table_word_cong) (auto simp: apart_from_def same_outside_def)

lemma free_table_exact:
  assumes wf: "wf_alloc am" and tab: "apart_from am table"
  shows "same_outside (pool_bits am) m (free_table am m table)"
    "used_addrs (am, free_table am m table) = used_addrs (am, m)
      - {entry_addr (ld32 m (table + 4 * of_nat t)) | t. t < 1024 \<and> present (ld32 m (table + 4 * of_nat t))}"
proof -
  let ?free = "\<lambda>j m. let pte = ld32 m (table + 4 * of_nat j) in if present pte then kfree_pages am m (entry_addr pte) 1 else m"
  let ?S = "\<lambda>js. {entry_addr (ld32 m (table + 4 * of_nat t)) | t. t \<in> set js \<and> present (ld32 m (table + 4 * of_nat t))}"
  have "same_outside (pool_bits am) m (fold ?free js m') \<and> used_addrs (am, fold ?free js m') = used_addrs (am, m') - ?S js"
    if "same_outside (pool_bits am) m m'" "set js \<subseteq> {..<1024}" for js m'
    using that
  proof (induction js arbitrary: m')
    case (Cons j js)
    have w: "ld32 m' (table + 4 * of_nat j) = ld32 m (table + 4 * of_nat j)" using Cons.prems by (intro apart_word [OF tab]) auto
    have "same_outside (pool_bits am) m (?free j m')"
      using same_outside_step [OF Cons.prems(1) kfree_page_exact(1) [OF wf entry_addr_aligned]] Cons.prems(1) by (simp add: Let_def)
    moreover have "used_addrs (am, ?free j m') = used_addrs (am, m') - ?S [j]"
      using kfree_page_exact(2) [OF wf entry_addr_aligned] by (auto simp: Let_def w)
    ultimately show ?case using Cons.IH [of "?free j m'"] Cons.prems(2) by auto
  qed simp
  from this [of m "[0..<1024]"] show "same_outside (pool_bits am) m (free_table am m table)"
    "used_addrs (am, free_table am m table) = used_addrs (am, m)
      - {entry_addr (ld32 m (table + 4 * of_nat t)) | t. t < 1024 \<and> present (ld32 m (table + 4 * of_nat t))}"
    unfolding free_table_def by (simp_all add: same_outside_def atLeast0LessThan)
qed

lemma free_entry_exact:
  assumes wf: "wf_alloc am" and d: "d < 1024" "apart_from am dir" "present (pde m dir d) \<Longrightarrow> apart_from am (entry_addr (pde m dir d))"
    and m: "same_outside (pool_bits am) m m'"
  shows "same_outside (pool_bits am) m (free_entry am dir d m')"
    "used_addrs (am, free_entry am dir d m') = used_addrs (am, m') - behind m dir d"
proof -
  let ?tab = "entry_addr (pde m dir d)"
  have e: "ld32 m' (dir + 4 * of_nat d) = pde m dir d" unfolding pde_def by (rule apart_word [OF d(2,1) m])
  have "same_outside (pool_bits am) m (free_entry am dir d m')
    \<and> used_addrs (am, free_entry am dir d m') = used_addrs (am, m') - behind m dir d"
  proof (cases "present (pde m dir d)")
    case True
    note ft = free_table_exact [OF wf d(3) [OF True], of m']
    note kf = kfree_page_exact [OF wf entry_addr_aligned [of "pde m dir d"], of "free_table am m' ?tab"]
    have w: "ld32 m' (?tab + 4 * of_nat t) = ld32 m (?tab + 4 * of_nat t)" if "t < 1024" for t
      by (rule apart_word [OF d(3) [OF True] that m])
    have "{entry_addr (ld32 m' (?tab + 4 * of_nat t)) | t. t < 1024 \<and> present (ld32 m' (?tab + 4 * of_nat t))}
      = {entry_addr (mapped m dir d t) | t. t < 1024 \<and> present (mapped m dir d t)}"
      using w True by (force simp: mapped_def Let_def present_def)
    then have "used_addrs (am, kfree_pages am (free_table am m' ?tab) ?tab 1) = used_addrs (am, m') - behind m dir d"
      unfolding kf(2) ft(2) using True by (auto simp: behind_def)
    moreover have "same_outside (pool_bits am) m (kfree_pages am (free_table am m' ?tab) ?tab 1)"
      by (rule same_outside_step [OF m same_outside_step [OF ft(1) kf(1)]])
    ultimately show ?thesis using True by (simp add: free_entry_def e Let_def)
  qed (use m in \<open>simp add: free_entry_def e behind_def Let_def\<close>)
  then show "same_outside (pool_bits am) m (free_entry am dir d m')"
    "used_addrs (am, free_entry am dir d m') = used_addrs (am, m') - behind m dir d" by simp_all
qed

lemma space_apart:
  assumes "space_ok am m dir"
  shows "apart_from am dir" "d < 1024 \<Longrightarrow> present (pde m dir d) \<Longrightarrow> apart_from am (entry_addr (pde m dir d))"
proof -
  show "apart_from am dir" using assms by (simp add: apart_from_def space_ok_def bitmap_apart_def pool_bits_def)
  assume "d < 1024" "present (pde m dir d)"
  then obtain i where "i \<in> used am m" "entry_addr (pde m dir d) = page_addr am i" using table_page [OF assms] by metis
  then show "apart_from am (entry_addr (pde m dir d))"
    using assms used_range [of i am m] entry_addr_aligned [of "pde m dir d"]
    by (simp add: apart_from_def space_ok_def bitmap_apart_def pool_bits_def)
qed

text \<open>
  C14: destroying an address space gives back exactly the pages it leads to, and changes nothing but the
  bitmap: the directory, every table of it and every page a table maps, from the first entry on, so
  that the table a directory shares with the kernel's and the pages behind it are given back too.
\<close>

theorem pagetable_destroy_exact:
  assumes ok: "space_ok am m dir"
  shows "used_addrs (am, pagetable_destroy am m dir) = used_addrs (am, m) - insert dir (\<Union>d<1024. behind m dir d)
    \<and> same_outside (pool_bits am) m (pagetable_destroy am m dir)"
proof -
  have wf: "wf_alloc am" and al: "page_aligned dir" using ok by (simp_all add: space_ok_def)
  have "same_outside (pool_bits am) m (fold (free_entry am dir) ds m')
    \<and> used_addrs (am, fold (free_entry am dir) ds m') = used_addrs (am, m') - (\<Union>d\<in>set ds. behind m dir d)"
    if "same_outside (pool_bits am) m m'" "set ds \<subseteq> {..<1024}" for ds m'
    using that
  proof (induction ds arbitrary: m')
    case (Cons d ds)
    have d: "d < 1024" using Cons.prems(2) by simp
    note f = free_entry_exact [OF wf d space_apart(1) [OF ok] space_apart(2) [OF ok d] Cons.prems(1)]
    show ?case using Cons.IH [OF f(1)] Cons.prems(2) f(2) by auto
  qed simp
  from this [of m "[0..<1024]"] kfree_page_exact [OF wf al] show ?thesis
    by (auto simp: pagetable_destroy_def user_pde_start atLeast0LessThan same_outside_def)
qed

theorem pagetable_destroy_exact_witness:
  "\<exists>table. table \<in> used_addrs (sample_am, sample_kernel) \<and> present (pde sample_kernel 0x8000 0)
    \<and> entry_addr (pde sample_kernel 0x8000 0) = table
    \<and> used_addrs (sample_am, pagetable_destroy sample_am sample_kernel 0x8000) \<subseteq> used_addrs (sample_am, sample_kernel) - {table}"
proof -
  obtain i where "i \<in> used sample_am sample_kernel" "entry_addr (pde sample_kernel 0x8000 0) = page_addr sample_am i"
    using table_page [OF sample_kernel_space(1) _ sample_kernel_space(2)] by (metis zero_less_numeral)
  then have t: "entry_addr (pde sample_kernel 0x8000 0) \<in> used_addrs (sample_am, sample_kernel)" by (simp add: used_addrs_def)
  have "entry_addr (pde sample_kernel 0x8000 0) \<in> (\<Union>d<1024. behind sample_kernel 0x8000 d)"
    using sample_kernel_space(2) by (intro UN_I [of 0]) (simp_all add: behind_def)
  then show ?thesis using pagetable_destroy_exact [OF sample_kernel_space(1)] t sample_kernel_space(2) by auto
qed

end
