(* ===== verification/Spec2Isabelle.thy ===== *)
theory Spec2Isabelle
  imports List_Run Gdt Irq Log Klib Bitmap Memory Pool_Run PageTable Kernel_Map Task Sched_Run Loader Entry Task_Old Tss_Old Timer Syscall Panic Sync Clock Tasks_Init Init Boot Handover Fork Page_Destroy
begin

text \<open>
  A verification development for little_OS, a 32-bit x86 teaching kernel in C.

  \<^bold>\<open>The program.\<close>  A boot sector jumps to a loader, which asks the firmware for the memory map,
  switches to protected mode, reads the kernel from the disk, places its ELF segments and calls
  it.  The kernel sets up a serial log, its segment descriptors, a bitmap of free pages, the
  interrupt gates, the identity map of its own pages, the clock, and a scheduler.  Three
  generations of scheduler are in the tree: threads and processes that switch stacks
  (\<open>task_old\<close>), tasks that switch through hardware task-state segments (\<open>tss_old\<close>), and the
  present one (\<open>core\<close>).  All of them, and the semaphores, are built on one intrusive list.

  \<^bold>\<open>The representation.\<close>  Memory is a function from 32-bit addresses to bytes, a pointer is an
  address, and a C structure is a set of field offsets; loads and stores are little-endian, so
  aliasing and overlap are what they are in the machine.  \<open>int\<close>, \<open>unsigned\<close> and the narrow types
  are words of their width.  The processor is a record: memory, control and descriptor registers,
  the interrupt flag, the ports as a trace of events with a device as parameter.  The entry code
  adds a register file with a stack.  Global variables are parameters that hold their addresses;
  the handles \<open>task_env\<close>, \<open>old_env\<close>, \<open>boot_env\<close> and \<open>link_map\<close> collect those of a component.

  \<^bold>\<open>The theories\<close>, each with the file it models under \<open>src/source\<close>:
    \<^item> \<open>Prelude\<close>: integers, memory, loads and stores, and the rewrite rules for accesses to
      different addresses; \<open>Os_Cfg\<close>: \<open>comm/os_cfg.h\<close>, \<open>comm/mem_info.h\<close>; \<open>Machine\<close>:
      \<open>comm/cpu_instr.h\<close>, \<open>kernel/cpu/cpu.h\<close>.
    \<^item> \<open>Klist\<close>: \<open>kernel/tools/klist.c\<close>, with the abstraction \<open>dlist\<close> of a well-formed list to the
      sequence of its nodes; \<open>Klist_Bytes\<close>: the same by the bytes a list lies in; \<open>List_Run\<close>: any
      sequence of its operations simulates a HOL list.
    \<^item> \<open>Klib\<close> and \<open>Log\<close>: \<open>kernel/tools/klib.c\<close>, \<open>kmath.c\<close> and \<open>log.c\<close>.  \<open>render\<close> is the
      specification of the formatted text, with the decimal and hexadecimal text of every number;
      \<open>written_text\<close> is what the code writes, which is shorter unless \<open>numbers_ok\<close> holds: the
      code misprints zero and negative numbers by \<open>%d\<close>, and numbers from \<open>2 ^ 31\<close> on by \<open>%x\<close>.
      \<open>Panic\<close>: \<open>kernel/debug/debug.c\<close>.
    \<^item> \<open>Gdt\<close>: \<open>kernel/gdt/gdt.c\<close> and \<open>loader/gdt16/gdt16.c\<close>; \<open>Irq\<close>: \<open>kernel/irq/irq.c\<close>.
      What the processor reads from a descriptor (\<open>gdt_entry_at\<close>, \<open>idt_gate\<close>) is the
      specification of what the kernel writes.
    \<^item> \<open>Bitmap\<close> and \<open>Memory\<close>: \<open>kernel/memory\<close>; \<open>Pool_Run\<close>: any sequence of allocations, frees
      and stores on an initialised pool.
    \<^item> \<open>PageTable\<close>: \<open>kernel/mmu/pagetable.c\<close>, specified by \<open>walk\<close>, the translation the processor
      makes; \<open>Kernel_Map\<close>: what \<open>pagetable_init\<close> leaves behind; \<open>Page_Own\<close>: which bytes a client
      owns while pages are taken one after the other; \<open>Page_Destroy\<close>: which pages
      \<open>pagetable_destroy\<close> gives back.
    \<^item> \<open>Task\<close>: \<open>kernel/core/task.c\<close>; \<open>Sched_Words\<close>: the words of memory the scheduler keeps;
      \<open>Sched_Run\<close>: any sequence of yields, whole clock ticks and work, as long as nobody is
      asleep and no tick finds the number of all tasks to be one.
    \<^item> \<open>Entry\<close>: \<open>kernel/init/start.S\<close> and \<open>comm/trapframe.h\<close>; \<open>Syscall\<close>: \<open>kernel/syscall\<close>;
      \<open>Timer\<close>: \<open>kernel/Timer/Timer.c\<close>.
    \<^item> \<open>Task_Old\<close>, \<open>Tss_Old\<close>, \<open>Sync\<close>: \<open>kernel/task_old\<close>, \<open>kernel/tss_old\<close>, \<open>kernel/sync\<close>;
      \<open>Task_Make\<close>: all that \<open>init_task\<close> makes of memory.
    \<^item> \<open>Loader\<close>: \<open>loader/loader16.c\<close> and \<open>loader32.c\<close>; \<open>Boot\<close>: \<open>boot\<close> and \<open>loader/start.S\<close>, on
      the registers and the stack of real mode.

  The components meet in five theories.  \<open>Handover\<close> goes from the first instruction of the loader
  to the call of the kernel's entry.  \<open>Init\<close> is \<open>kernel/init/init.c\<close>, the components in the order
  the kernel starts them, and \<open>Tasks_Init\<close> the last of its steps.  \<open>Clock\<close> is a clock interrupt from
  the gate through \<open>irq_handler_timer\<close> and the scheduler and back.  \<open>Fork\<close> is a fork from the user
  program through the system call entry to the registers of the child, and
  \<open>kernel/init/first_proc.c\<close>, the process that forks.

  \<^bold>\<open>The interfaces\<close> are locales, each interpreted on the code's own definitions:
  \<open>intrusive_list\<close> (the laws of the list operations; on \<open>dlist\<close>), \<open>page_pool\<close> (what the clients
  of the allocator rely on; on kernel and on user pages), \<open>critical_section\<close> (a body between
  saving and restoring the interrupt flag; on \<open>irq_enter_protection\<close>), \<open>c_function\<close> (what the
  entry code relies on of a C routine: that it keeps the stack pointer, the segments \<open>ss\<close> and \<open>cs\<close>
  and its frame, but none of the other registers; on interrupt handlers and on system calls,
  which may leave any values in those, and on any code that keeps the frame), \<open>ready_queue\<close>
  (round robin over a list in memory; on threads, processes and the old hardware tasks) and
  \<open>simulation\<close> (sequences of operations; on the list).

  \<^bold>\<open>What the lemmas show.\<close>  For each component: the well-formedness its operations keep, the
  effect of each operation on the abstraction, and which bytes it leaves alone; these frame
  facts are what the compositions rest on.  The properties C1 to C40 are in the theories of
  their components, in the order of the manifest.  Some of them state behaviour that is not
  meant: the search that runs past the end of the bitmap, the page numbers from 1023 that leak,
  the shared directory entry, the sleep that does not sleep, the clock that counts down the number
  of tasks, the first tick after the kernel has started, the retry of the boot sector that returns
  to a saved register, and the child of a fork that gets the kernel's stack pointer.

  \<^bold>\<open>Loops.\<close>  There is no fuel.  A bounded loop is a recursion with a measure.  A loop that may
  not end (the list searches, the waits for a port or the disk, the scan of a string, the loop
  over the sleeping tasks) is a partial function into \<open>option\<close>, and the properties prove that it
  returns, under the condition that makes it so: a well-formed list, a device that becomes
  ready, a terminated string.

  \<^bold>\<open>Parameters.\<close>  The firmware of the boot sector (\<open>firmware\<close>) and of the loader (\<open>bios\<close>), the devices behind the ports, the
  addresses the linker chooses (\<open>link_map\<close>, \<open>boot_env\<close>), the entry addresses of the
  handlers, the routines that the entry code calls, the initial contents of memory.  \<open>ASSERT\<close> is
  empty in the build, and so it is here.  \<open>core/task.c\<close> does not compile as it stands:
  \<open>gdt_alloc_desc\<close> and \<open>OS_TICKS_MS\<close>, which no file defines, and the argument that the call of
  \<open>tss_init\<close> leaves out are parameters.  The reload value of the timer, a floating-point expression in the source,
  is the integer it truncates to.

  \<^bold>\<open>Not modelled.\<close>  Headers that only declare functions, and \<open>selector_define.h\<close>, which repeats
  constants of \<open>os_cfg.h\<close> for the assembler; the file by which cmake identifies the compiler.
  Privilege checks, caches of translations and descriptors, and timing are not part of the processor
  here.  A hardware task switch is the loading of the task register and an event in the trace; the
  registers it exchanges are not, so what is shown of a task that has never run is what its
  task-state segment holds.

  \<^bold>\<open>What is left.\<close>  \<open>copy_pagetable\<close> is modelled, and one step of it has a lemma, but the contents
  of a whole copied address space are not characterised; no code calls it.  A thread that waits on a
  semaphore is followed until it leaves its loop; that its stack and registers come back is shown of
  \<open>simple_switch\<close> alone, not joined to the semaphore.
\<close>

end
